(* ===== verification/Rtw_Prelude.thy ===== *)
theory Rtw_Prelude
  imports Main "HOL-Library.Word" "HOL-Library.Monad_Syntax"
begin

unbundle bit_operations_syntax

text \<open>
  The vocabulary the component theories share.

  \<^item> \<open>u8\<close>, \<open>u16\<close>, \<open>u32\<close>, \<open>u64\<close>: the driver's fixed-width integers
    (\<^verbatim>\<open>include/basic_types.h\<close>) as words, so that \<open>+\<close>, \<open>-\<close> and \<open>push_bit\<close> wrap
    as the C operators do.
  \<^item> \<open>bytes\<close>: a C buffer. A pointer into a buffer is an offset into the list.
  \<^item> \<open>rd\<close>, \<open>rdn\<close>, \<open>wrn\<close>, \<open>memset_at\<close>: checked loads and stores. An access outside the
    buffer is undefined behaviour in C; the model makes it the value \<open>None\<close>, so
    that a theorem "returns \<open>Some\<close>" is a memory-safety statement.
  \<^item> Big- and little-endian packing of words (\<^verbatim>\<open>GETU32\<close>, \<^verbatim>\<open>PUTU32\<close> and their kin
    of \<^verbatim>\<open>include/rtw_security.h\<close>) with their round trips.
  \<^item> \<open>bytewise\<close>: the exclusive-or of two buffers, with its algebra.
  The collection \<open>mem_simps\<close> holds the facts that evaluate checked accesses,
  \<open>xor_simps\<close> those that cancel exclusive-ors.
\<close>

named_theorems mem_simps "evaluation of checked loads and stores"
named_theorems xor_simps "cancellation of exclusive-or"

type_synonym u8 = "8 word"
type_synonym u16 = "16 word"
type_synonym u32 = "32 word"
type_synonym u64 = "64 word"
type_synonym bytes = "8 word list"

subsection \<open>Words\<close>

lemma bit_u8_ge [simp]: "8 \<le> n \<Longrightarrow> \<not> bit (x :: u8) n"
  using bit_imp_le_length [of x n] by auto

lemma bit_u16_ge [simp]: "16 \<le> n \<Longrightarrow> \<not> bit (x :: u16) n"
  using bit_imp_le_length [of x n] by auto

lemma bit_u32_ge [simp]: "32 \<le> n \<Longrightarrow> \<not> bit (x :: u32) n"
  using bit_imp_le_length [of x n] by auto

lemma xor_cancel_left [simp, xor_simps]: "(a :: 'a::len word) XOR (a XOR b) = b"
  by (simp add: xor.assoc [symmetric])

lemma xor_cancel_right [simp, xor_simps]: "((b :: 'a::len word) XOR a) XOR a = b"
  by (simp add: xor.assoc)

lemma xor_left_inj [simp]: "((a :: 'a::len word) XOR b = a XOR c) \<longleftrightarrow> b = c"
  by (metis xor_cancel_left)

lemma xor_right_inj [simp]: "((b :: 'a::len word) XOR a = c XOR a) \<longleftrightarrow> b = c"
  by (metis xor_cancel_right)

lemma ucast_u8_u32 [simp]: "ucast (ucast (b :: u8) :: u32) = b"
  by (rule bit_word_eqI) (simp add: bit_simps)

lemma bit_mask_numerals [simp]:
  "bit (0xFF :: int) n \<longleftrightarrow> n < 8" "bit (0xFFFF :: int) n \<longleftrightarrow> n < 16"
  "bit (0xFFFFFF :: int) n \<longleftrightarrow> n < 24"
proof -
  have "(0xFF :: int) = mask 8" "(0xFFFF :: int) = mask 16" "(0xFFFFFF :: int) = mask 24"
    by (simp_all add: mask_eq_exp_minus_1)
  then show "bit (0xFF :: int) n \<longleftrightarrow> n < 8" "bit (0xFFFF :: int) n \<longleftrightarrow> n < 16"
    "bit (0xFFFFFF :: int) n \<longleftrightarrow> n < 24"
    by (simp_all only: bit_mask_iff) simp_all
qed

lemma bit_double_word:
  "bit ((c :: 'a::len word) * 2) m \<longleftrightarrow> m < LENGTH('a) \<and> m \<noteq> 0 \<and> bit c (m - 1)"
  using bit_double_iff [of c m] by (auto simp: mult.commute)

lemma and_ff_ucast: "x AND 0xFF = (ucast (ucast x :: u8) :: u32)"
  by (rule bit_word_eqI) (auto simp: bit_simps)

lemma unat_and_ff_ucast: "unat (x AND 0xFF :: u32) = unat (ucast x :: u8)"
  by (simp add: and_ff_ucast unsigned_ucast_eq unsigned_take_bit_eq)

lemma unat_mult_small: "unat a * unat b < 2 ^ LENGTH('a) \<Longrightarrow> unat ((a :: 'a::len word) * b) = unat a * unat b"
  by (simp add: unat_word_ariths)

lemma unat_add_small: "unat a + unat b < 2 ^ LENGTH('a) \<Longrightarrow> unat ((a :: 'a::len word) + b) = unat a + unat b"
  by (simp add: unat_word_ariths)

lemma of_nat_less_u32: "a < 2 ^ 32 \<Longrightarrow> b < 2 ^ 32 \<Longrightarrow> ((of_nat a :: u32) < of_nat b) \<longleftrightarrow> a < b"
  by (simp add: word_less_nat_alt unat_of_nat)

lemma of_nat_le_u32: "a < 2 ^ 32 \<Longrightarrow> b < 2 ^ 32 \<Longrightarrow> ((of_nat a :: u32) \<le> of_nat b) \<longleftrightarrow> a \<le> b"
  by (simp add: word_le_nat_alt unat_of_nat)

lemma of_nat_div_u32: "a < 2 ^ 32 \<Longrightarrow> b < 2 ^ 32 \<Longrightarrow> (of_nat a :: u32) div of_nat b = of_nat (a div b)"
  by (rule word_unat_eq_iff [THEN iffD2]) (simp add: unat_div unat_of_nat le_less_trans [OF div_le_dividend])

lemma of_nat_eq_0_u32: "a < 2 ^ 32 \<Longrightarrow> ((of_nat a :: u32) = 0) \<longleftrightarrow> a = 0"
  by (simp add: unat_eq_zero [symmetric] unat_of_nat)

lemma less_8_cases:
  "(n :: nat) < 8 \<Longrightarrow> n = 0 \<or> n = 1 \<or> n = 2 \<or> n = 3 \<or> n = 4 \<or> n = 5 \<or> n = 6 \<or> n = 7"
  by arith

lemma unat_u8_lt [simp]: "unat (x :: u8) < 256"
  using unsigned_less [of x, where ?'a = nat] by simp

lemma unat_and_ff [simp]: "unat (x AND 0xFF :: u32) < 256"
proof -
  have "x AND 0xFF \<le> (0xFF :: u32)" by (rule word_and_le1)
  then show ?thesis by (simp add: word_le_nat_alt)
qed

lemma and_bit0_u8: "((x :: u8) AND 1 = 0) \<longleftrightarrow> \<not> bit x 0"
  using and_exp_eq_0_iff_not_bit [of x 0] by simp

lemma and_bit1_u8: "((x :: u8) AND 2 = 0) \<longleftrightarrow> \<not> bit x 1"
  using and_exp_eq_0_iff_not_bit [of x 1] by simp

subsection \<open>Checked memory\<close>

definition rd :: "bytes \<Rightarrow> nat \<Rightarrow> u8 option" where
  "rd buf i = (if i < length buf then Some (buf ! i) else None)"

definition rdn :: "bytes \<Rightarrow> nat \<Rightarrow> nat \<Rightarrow> bytes option" where
  "rdn buf off n = (if off + n \<le> length buf then Some (take n (drop off buf)) else None)"

definition wrn :: "bytes \<Rightarrow> nat \<Rightarrow> bytes \<Rightarrow> bytes option" where
  "wrn buf off xs =
     (if off + length xs \<le> length buf
      then Some (take off buf @ xs @ drop (off + length xs) buf) else None)"

definition memset_at :: "bytes \<Rightarrow> nat \<Rightarrow> u8 \<Rightarrow> nat \<Rightarrow> bytes option" where
  "memset_at buf off v n = wrn buf off (replicate n v)"

lemma rd_Some [mem_simps]: "i < length buf \<Longrightarrow> rd buf i = Some (buf ! i)"
  by (simp add: rd_def)

lemma rd_None [mem_simps]: "length buf \<le> i \<Longrightarrow> rd buf i = None"
  by (simp add: rd_def)

lemma rdn_Some [mem_simps]: "off + n \<le> length buf \<Longrightarrow> rdn buf off n = Some (take n (drop off buf))"
  by (simp add: rdn_def)

lemma rdn_length: "rdn buf off n = Some xs \<Longrightarrow> length xs = n"
  by (auto simp: rdn_def split: if_splits)

lemma wrn_Some [mem_simps]:
  "off + length xs \<le> length buf \<Longrightarrow>
     wrn buf off xs = Some (take off buf @ xs @ drop (off + length xs) buf)"
  by (simp add: wrn_def)

lemma wrn_length: "wrn buf off xs = Some buf' \<Longrightarrow> length buf' = length buf"
  by (auto simp: wrn_def split: if_splits)

lemma wrn_nth:
  assumes "wrn buf off xs = Some buf'" and "i < length buf"
  shows "buf' ! i = (if off \<le> i \<and> i < off + length xs then xs ! (i - off) else buf ! i)"
  using assms by (auto simp: wrn_def nth_append split: if_splits)

lemma rdn_wrn_same:
  "wrn buf off xs = Some buf' \<Longrightarrow> rdn buf' off (length xs) = Some xs"
  by (auto simp: wrn_def rdn_def split: if_splits)

lemma rdn_wrn_disjoint:
  assumes "wrn buf off xs = Some buf'"
    and "off' + n \<le> off \<or> off + length xs \<le> off'"
  shows "rdn buf' off' n = rdn buf off' n"
proof -
  have len: "length buf' = length buf" using assms(1) by (rule wrn_length)
  show ?thesis
  proof (cases "off' + n \<le> length buf")
    case True
    have "take n (drop off' buf') = take n (drop off' buf)"
      using True assms by (intro nth_equalityI) (auto simp: len wrn_nth [OF assms(1)])
    then show ?thesis by (simp add: rdn_def len)
  next
    case False
    then show ?thesis by (simp add: rdn_def len)
  qed
qed

lemma buf_split3:
  assumes "p + n \<le> length buf"
  obtains a b c where "buf = a @ b @ c" "length a = p" "length b = n"
proof
  show "buf = take p buf @ take n (drop p buf) @ drop n (drop p buf)" by (simp only: append_take_drop_id)
  show "length (take p buf) = p" "length (take n (drop p buf)) = n" using assms by simp_all
qed

lemma wrn_middle: "length b = length xs \<Longrightarrow> wrn (a @ b @ c) (length a) xs = Some (a @ xs @ c)"
  by (simp add: wrn_def)

lemma take_eq_le: "take n a = take n b \<Longrightarrow> k \<le> n \<Longrightarrow> take k a = take k b"
proof -
  assume "take n a = take n b" and "k \<le> n"
  then have "take k (take n a) = take k (take n b)" by simp
  then show ?thesis using \<open>k \<le> n\<close> by (simp add: min_absorb1)
qed

lemma drop_eq_le: "drop n a = drop n b \<Longrightarrow> n \<le> k \<Longrightarrow> drop k a = drop k b"
proof -
  assume "drop n a = drop n b" and "n \<le> k"
  then have "drop (k - n) (drop n a) = drop (k - n) (drop n b)" by simp
  then show ?thesis using \<open>n \<le> k\<close> by simp
qed

subsection \<open>Exclusive-or of buffers\<close>

definition bytewise :: "bytes \<Rightarrow> bytes \<Rightarrow> bytes" where
  "bytewise xs ys = map2 (XOR) xs ys"

lemma length_bytewise [simp]: "length (bytewise xs ys) = min (length xs) (length ys)"
  by (simp add: bytewise_def)

lemma nth_bytewise [simp]:
  "i < length xs \<Longrightarrow> i < length ys \<Longrightarrow> bytewise xs ys ! i = xs ! i XOR ys ! i"
  by (simp add: bytewise_def)

lemma bytewise_Nil [simp]: "bytewise [] ys = []" "bytewise xs [] = []"
  by (simp_all add: bytewise_def)

lemma bytewise_Cons [simp]: "bytewise (x # xs) (y # ys) = (x XOR y) # bytewise xs ys"
  by (simp add: bytewise_def)

lemma bytewise_cancel [simp, xor_simps]:
  "length ks = length xs \<Longrightarrow> bytewise ks (bytewise ks xs) = xs"
  by (rule nth_equalityI) auto

lemma bytewise_commute: "bytewise xs ys = bytewise ys xs"
  by (rule nth_equalityI) (auto simp: xor.commute)

lemma bytewise_cancel' [simp, xor_simps]:
  "length ks = length xs \<Longrightarrow> bytewise (bytewise xs ks) ks = xs"
  by (rule nth_equalityI) auto

lemma bytewise_append:
  "length xs = length us \<Longrightarrow> bytewise (xs @ ys) (us @ vs) = bytewise xs us @ bytewise ys vs"
  by (simp add: bytewise_def)

lemma bytewise_cancel_le [simp, xor_simps]:
  "length xs \<le> length ks \<Longrightarrow> bytewise ks (bytewise ks xs) = xs"
  by (rule nth_equalityI) auto

lemma bytewise_take:
  "n \<le> length ys \<Longrightarrow> take n (bytewise xs (ys @ zs)) = bytewise xs (take n ys)"
  by (intro nth_equalityI) (auto simp: nth_append)

lemma bytewise_append_left:
  "bytewise (us @ vs) xs = bytewise us (take (length us) xs) @ bytewise vs (drop (length us) xs)"
proof (cases "length us \<le> length xs")
  case True
  then show ?thesis
    using bytewise_append [of us "take (length us) xs" vs "drop (length us) xs"] by simp
next
  case False
  then show ?thesis by (intro nth_equalityI) (auto simp: nth_append)
qed

lemma concat_upt_Suc:
  "concat (map f [0..<Suc m]) = f 0 @ concat (map (\<lambda>i. f (Suc i)) [0..<m])"
proof -
  have "[0..<Suc m] = 0 # map Suc [0..<m]" by (simp add: upt_conv_Cons map_Suc_upt del: upt_Suc)
  then show ?thesis by (simp add: o_def del: upt_Suc)
qed

subsection \<open>Packing words into bytes\<close>

definition GETU32 :: "u8 \<Rightarrow> u8 \<Rightarrow> u8 \<Rightarrow> u8 \<Rightarrow> u32" where
  "GETU32 a b c d =
     push_bit 24 (ucast a) XOR push_bit 16 (ucast b) XOR push_bit 8 (ucast c) XOR ucast d"

definition PUTU32 :: "u32 \<Rightarrow> bytes" where
  "PUTU32 st = [ucast (drop_bit 24 st), ucast (drop_bit 16 st), ucast (drop_bit 8 st), ucast st]"

lemma length_PUTU32 [simp]: "length (PUTU32 w) = 4"
  by (simp add: PUTU32_def)

lemma PUTU32_GETU32 [simp]: "PUTU32 (GETU32 a b c d) = [a, b, c, d]"
proof -
  have "ucast (drop_bit 24 (GETU32 a b c d)) = a" "ucast (drop_bit 16 (GETU32 a b c d)) = b"
    "ucast (drop_bit 8 (GETU32 a b c d)) = c" "ucast (GETU32 a b c d) = d"
    by (auto simp: GETU32_def bit_simps intro!: bit_word_eqI)
  then show ?thesis by (simp add: PUTU32_def)
qed

definition u32_le :: "u32 \<Rightarrow> bytes" where
  "u32_le w = [ucast w, ucast (drop_bit 8 w), ucast (drop_bit 16 w), ucast (drop_bit 24 w)]"

definition le_u32 :: "u8 \<Rightarrow> u8 \<Rightarrow> u8 \<Rightarrow> u8 \<Rightarrow> u32" where
  "le_u32 a b c d =
     ucast a OR push_bit 8 (ucast b) OR push_bit 16 (ucast c) OR push_bit 24 (ucast d)"

lemma length_u32_le [simp]: "length (u32_le w) = 4"
  by (simp add: u32_le_def)

lemma u32_le_le_u32 [simp]: "u32_le (le_u32 a b c d) = [a, b, c, d]"
proof -
  have "ucast (le_u32 a b c d) = a" "ucast (drop_bit 8 (le_u32 a b c d)) = b"
    "ucast (drop_bit 16 (le_u32 a b c d)) = c" "ucast (drop_bit 24 (le_u32 a b c d)) = d"
    by (auto simp: le_u32_def bit_simps intro!: bit_word_eqI)
  then show ?thesis by (simp add: u32_le_def)
qed

end
