(* ===== verification/Rtw_Arc4.thy ===== *)
theory Rtw_Arc4
  imports Rtw_Prelude "HOL-Library.Multiset"
begin

unbundle bit_operations_syntax

text \<open>
  The WEP primitives of \<^verbatim>\<open>core/rtw_security.c\<close>: the RC4 stream cipher
  (\<^verbatim>\<open>arcfour_init\<close>, \<^verbatim>\<open>arcfour_byte\<close>, \<^verbatim>\<open>arcfour_encrypt\<close>) and the table-driven CRC-32
  (\<^verbatim>\<open>crc32_reverseBit\<close>, \<^verbatim>\<open>crc32_init\<close>, \<^verbatim>\<open>getcrc32\<close>) with its lazily initialised static
  table.

  The cipher's state is a record; the locale \<open>keystream\<close> states what a byte-stream
  cipher promises and carries the involution and splitting lemmas, and is interpreted
  on \<open>arcfour_byte\<close> and \<open>arcfour_encrypt\<close>. The CRC is proved equal to the bitwise
  reflected CRC-32 of the standard.
\<close>

section \<open>RC4\<close>

record arc4context =
  arc_x :: u32
  arc_y :: u32
  arc_state :: bytes

text \<open>
  One turn of the key-scheduling loop. \<open>t\<close> and \<open>u\<close> are \<^verbatim>\<open>u32\<close> copies of table bytes
  that are cast back on the store, so they are kept as bytes here.
\<close>

definition arcfour_ksa_step ::
    "bytes \<Rightarrow> nat \<Rightarrow> nat \<Rightarrow> bytes \<times> nat \<times> u32 \<Rightarrow> bytes \<times> nat \<times> u32" where
  "arcfour_ksa_step key key_len counter = (\<lambda>(state, keyindex, stateindex).
     let t = state ! counter;
         stateindex = (stateindex + ucast (key ! keyindex) + ucast t) AND 0xFF;
         u = state ! unat stateindex;
         state = state[unat stateindex := t];
         state = state[counter := u];
         keyindex = (if key_len \<le> Suc keyindex then 0 else Suc keyindex)
     in (state, keyindex, stateindex))"

definition arcfour_init :: "bytes \<Rightarrow> nat \<Rightarrow> arc4context" where
  "arcfour_init key key_len =
     (let (state, _, _) =
        fold (arcfour_ksa_step key key_len) [0..<256] (map of_nat [0..<256], 0, 0)
      in \<lparr>arc_x = 0, arc_y = 0, arc_state = state\<rparr>)"

definition arcfour_byte :: "arc4context \<Rightarrow> u32 \<times> arc4context" where
  "arcfour_byte ctx =
     (let state = arc_state ctx;
          x = (arc_x ctx + 1) AND 0xFF;
          sx = ucast (state ! unat x) :: u32;
          y = (sx + arc_y ctx) AND 0xFF;
          sy = ucast (state ! unat y) :: u32;
          state = state[unat y := ucast sx];
          state = state[unat x := ucast sy]
      in (ucast (state ! unat ((sx + sy) AND 0xFF)),
          ctx\<lparr>arc_x := x, arc_y := y, arc_state := state\<rparr>))"

fun arcfour_encrypt :: "arc4context \<Rightarrow> bytes \<Rightarrow> bytes \<times> arc4context" where
  "arcfour_encrypt ctx [] = ([], ctx)"
| "arcfour_encrypt ctx (s # src) =
     (let (k, ctx) = arcfour_byte ctx; (dest, ctx) = arcfour_encrypt ctx src
      in ((s XOR ucast k) # dest, ctx))"

subsection \<open>What a stream cipher promises\<close>

locale keystream =
  fixes next_byte :: "'s \<Rightarrow> u8 \<times> 's"
    and crypt :: "'s \<Rightarrow> bytes \<Rightarrow> bytes \<times> 's"
    and inv :: "'s \<Rightarrow> bool"
  assumes crypt_Nil: "crypt s [] = ([], s)"
    and crypt_Cons: "crypt s (b # bs) =
          ((b XOR fst (next_byte s)) # fst (crypt (snd (next_byte s)) bs),
           snd (crypt (snd (next_byte s)) bs))"
    and next_inv: "inv s \<Longrightarrow> inv (snd (next_byte s))"
begin

lemmas crypt_simps = crypt_Nil crypt_Cons

lemma crypt_length: "length (fst (crypt s bs)) = length bs"
  by (induction bs arbitrary: s) (simp_all add: crypt_simps)

lemma crypt_state: "length bs = length cs \<Longrightarrow> snd (crypt s bs) = snd (crypt s cs)"
  by (induction bs cs arbitrary: s rule: list_induct2) (simp_all add: crypt_simps)

lemma crypt_append:
  "crypt s (bs @ cs) =
     (fst (crypt s bs) @ fst (crypt (snd (crypt s bs)) cs), snd (crypt (snd (crypt s bs)) cs))"
  by (induction bs arbitrary: s) (simp_all add: crypt_simps)

lemma crypt_involution: "fst (crypt s (fst (crypt s bs))) = bs"
  by (induction bs arbitrary: s) (simp_all add: crypt_simps)

lemma crypt_inv: "inv s \<Longrightarrow> inv (snd (crypt s bs))"
  by (induction bs arbitrary: s) (simp_all add: crypt_simps next_inv)

lemma crypt_two_parts_involution:
  "fst (crypt s (fst (crypt s bs) @ fst (crypt (snd (crypt s bs)) cs))) = bs @ cs"
  using crypt_involution [of s "bs @ cs"] by (simp add: crypt_append)

end

subsection \<open>RC4 is one\<close>

text \<open>
  The invariant: the table is a permutation of the 256 byte values and both indices
  are in range, so every subscript of \<^verbatim>\<open>arcfour_byte\<close> is inside \<^verbatim>\<open>state[256]\<close>.
\<close>

definition byte_perm :: "bytes \<Rightarrow> bool" where
  "byte_perm st \<longleftrightarrow> mset st = mset (map of_nat [0..<256])"

definition arc4_inv :: "arc4context \<Rightarrow> bool" where
  "arc4_inv ctx \<longleftrightarrow>
     byte_perm (arc_state ctx) \<and> unat (arc_x ctx) < 256 \<and> unat (arc_y ctx) < 256"

lemma byte_perm_length: "byte_perm st \<Longrightarrow> length st = 256"
  unfolding byte_perm_def by (metis diff_zero length_map length_upt size_mset)

lemma byte_perm_swap:
  "byte_perm st \<Longrightarrow> i < 256 \<Longrightarrow> j < 256 \<Longrightarrow> byte_perm (st[i := st ! j, j := st ! i])"
  using byte_perm_length [of st] by (simp add: byte_perm_def mset_swap)

lemma byte_perm_start: "byte_perm (map of_nat [0..<256])"
  by (simp add: byte_perm_def)

lemma arcfour_ksa_step_perm:
  assumes "byte_perm (fst s)" and "counter < 256"
  shows "byte_perm (fst (arcfour_ksa_step key key_len counter s))"
proof -
  obtain st ki si where s: "s = (st, ki, si)" by (cases s)
  let ?j = "unat ((si + ucast (key ! ki) + ucast (st ! counter)) AND 0xFF :: u32)"
  have "byte_perm (st[?j := st ! counter, counter := st ! ?j])"
    using assms by (intro byte_perm_swap) (simp_all add: s)
  then show ?thesis by (simp add: s arcfour_ksa_step_def Let_def)
qed

lemma arcfour_ksa_perm:
  "byte_perm (fst s) \<Longrightarrow> \<forall>c \<in> set cs. c < 256 \<Longrightarrow>
     byte_perm (fst (fold (arcfour_ksa_step key key_len) cs s))"
  by (induction cs arbitrary: s) (simp_all add: arcfour_ksa_step_perm)

lemma arcfour_init_inv: "arc4_inv (arcfour_init key key_len)"
  using arcfour_ksa_perm [of "(map of_nat [0..<256], 0, 0)" "[0..<256]" key key_len]
  by (auto simp: arcfour_init_def arc4_inv_def byte_perm_start split: prod.splits)

lemma arcfour_byte_inv: "arc4_inv ctx \<Longrightarrow> arc4_inv (snd (arcfour_byte ctx))"
  unfolding arc4_inv_def arcfour_byte_def Let_def
  by (simp add: byte_perm_swap)

interpretation arc: keystream "\<lambda>ctx. (ucast (fst (arcfour_byte ctx)), snd (arcfour_byte ctx))"
  arcfour_encrypt arc4_inv
  by unfold_locales (simp_all add: arcfour_byte_inv split: prod.splits)

section \<open>CRC-32\<close>

definition CRC32_POLY :: u32 where
  "CRC32_POLY = 0x04C11DB7"

definition crc32_reverseBit :: "u8 \<Rightarrow> u8" where
  "crc32_reverseBit b = (let data = ucast b :: u32 in ucast
     ((push_bit 7 data AND 0x80) OR (push_bit 5 data AND 0x40) OR (push_bit 3 data AND 0x20) OR
      (push_bit 1 data AND 0x10) OR (drop_bit 1 data AND 0x08) OR (drop_bit 3 data AND 0x04) OR
      (drop_bit 5 data AND 0x02) OR (drop_bit 7 data AND 0x01)))"

text \<open>The module's two static variables.\<close>

record crc32_static =
  bcrc32initialized :: int
  crc32_table :: "u32 list"

definition crc32_boot :: crc32_static where
  "crc32_boot = \<lparr>bcrc32initialized = 0, crc32_table = replicate 256 0\<rparr>"

fun crc32_shift :: "nat \<Rightarrow> u32 \<Rightarrow> u32" where
  "crc32_shift 0 c = c"
| "crc32_shift (Suc j) c =
     crc32_shift j (if c AND 0x80000000 \<noteq> 0 then push_bit 1 c XOR CRC32_POLY else push_bit 1 c)"

definition crc32_entry :: "nat \<Rightarrow> u32" where
  "crc32_entry i =
     (let k = crc32_reverseBit (of_nat i);
          c = crc32_shift 8 (push_bit 24 (ucast k));
          p = u32_le c
      in le_u32 (crc32_reverseBit (p ! 3)) (crc32_reverseBit (p ! 2))
                (crc32_reverseBit (p ! 1)) (crc32_reverseBit (p ! 0)))"

definition crc32_init :: "crc32_static \<Rightarrow> crc32_static" where
  "crc32_init st =
     (if bcrc32initialized st = 1 then st
      else st\<lparr>crc32_table := map crc32_entry [0..<256], bcrc32initialized := 1\<rparr>)"

definition getcrc32 :: "crc32_static \<Rightarrow> bytes \<Rightarrow> u32 \<times> crc32_static" where
  "getcrc32 st buf =
     (let st = (if bcrc32initialized st = 0 then crc32_init st else st);
          crc = fold (\<lambda>p crc. crc32_table st ! unat ((crc XOR ucast p) AND 0xFF) XOR drop_bit 8 crc)
                  buf 0xFFFFFFFF
      in (NOT crc, st))"

subsection \<open>The reflected bitwise CRC\<close>

definition crc_bit :: "u32 \<Rightarrow> u32" where
  "crc_bit c = (if bit c 0 then drop_bit 1 c XOR 0xEDB88320 else drop_bit 1 c)"

definition crc_byte :: "u8 \<Rightarrow> u32 \<Rightarrow> u32" where
  "crc_byte b c = (crc_bit ^^ 8) (c XOR ucast b)"

definition crc32_spec :: "bytes \<Rightarrow> u32" where
  "crc32_spec buf = NOT (fold crc_byte buf 0xFFFFFFFF)"

definition crc32_ok :: "crc32_static \<Rightarrow> bool" where
  "crc32_ok st \<longleftrightarrow> bcrc32initialized st = 0 \<or>
     bcrc32initialized st = 1 \<and> crc32_table st = map crc32_entry [0..<256]"

lemma crc32_ok_boot: "crc32_ok crc32_boot"
  by (simp add: crc32_ok_def crc32_boot_def)

lemma crc_bit_xor: "crc_bit (a XOR b) = crc_bit a XOR crc_bit b"
  by (auto simp: crc_bit_def bit_simps xor.assoc xor.left_commute xor.commute)

lemma crc_bits_xor: "(crc_bit ^^ n) (a XOR b) = (crc_bit ^^ n) a XOR (crc_bit ^^ n) b"
  by (induction n) (simp_all add: crc_bit_xor)

lemma crc_bits_high: "n \<le> 8 \<Longrightarrow> (crc_bit ^^ n) (c AND NOT 0xFF) = drop_bit n (c AND NOT 0xFF)"
proof (induction n)
  case (Suc n)
  have "\<not> bit (drop_bit n (c AND NOT 0xFF)) 0"
    using Suc.prems by (auto simp: bit_simps)
  with Suc show ?case by (simp add: crc_bit_def)
qed simp

text \<open>
  The table entry is computed most-significant-bit first on the bit-reversed index
  and reversed back at the end; \<open>rev32\<close> is that reversal.
\<close>

lemma bit_crc32_reverseBit: "bit (crc32_reverseBit b) n \<longleftrightarrow> n < 8 \<and> bit b (7 - n)"
proof (cases "n < 8")
  case True
  then show ?thesis
    by (elim less_8_cases [THEN disjE] disjE)
       (simp_all add: crc32_reverseBit_def Let_def bit_simps bit_double_word)
qed simp

definition rev32 :: "u32 \<Rightarrow> u32" where
  "rev32 c = (let p = u32_le c in
     le_u32 (crc32_reverseBit (p ! 3)) (crc32_reverseBit (p ! 2))
            (crc32_reverseBit (p ! 1)) (crc32_reverseBit (p ! 0)))"

lemma bit_rev32: "bit (rev32 c) n \<longleftrightarrow> n < 32 \<and> bit c (31 - n)"
proof (cases "n < 32")
  case True
  then consider "n < 8" | "8 \<le> n" "n < 16" | "16 \<le> n" "n < 24" | "24 \<le> n" "n < 32" by linarith
  then show ?thesis
    by cases (auto simp: rev32_def Let_def u32_le_def le_u32_def bit_simps bit_crc32_reverseBit)
qed simp

lemma rev32_xor: "rev32 (a XOR b) = rev32 a XOR rev32 b"
  by (rule bit_word_eqI) (simp add: bit_rev32 bit_simps)

lemma rev32_shift: "rev32 (c * 2) = drop_bit (Suc 0) (rev32 c)"
  by (rule bit_word_eqI) (auto simp: bit_rev32 bit_simps bit_double_word)

lemma rev32_poly: "rev32 CRC32_POLY = 0xEDB88320"
  by (simp add: rev32_def Let_def u32_le_def le_u32_def crc32_reverseBit_def CRC32_POLY_def)

lemma and_msb_u32: "(c AND 0x80000000 \<noteq> (0 :: u32)) \<longleftrightarrow> bit c 31"
proof -
  have "(0x80000000 :: u32) = 2 ^ 31" by simp
  then show ?thesis by (metis and_exp_eq_0_iff_not_bit)
qed

lemma crc32_shift_rev: "rev32 (crc32_shift n c) = (crc_bit ^^ n) (rev32 c)"
proof (induction n arbitrary: c)
  case (Suc n)
  have "rev32 (if c AND 0x80000000 \<noteq> 0 then push_bit 1 c XOR CRC32_POLY else push_bit 1 c)
      = crc_bit (rev32 c)"
    by (simp add: crc_bit_def and_msb_u32 bit_rev32 rev32_xor rev32_shift rev32_poly)
  with Suc show ?case by (simp only: crc32_shift.simps funpow_Suc_right o_apply)
qed simp

lemma crc32_entry_eq: "crc32_entry (unat b) = (crc_bit ^^ 8) (ucast (b :: u8))"
proof -
  have "rev32 (push_bit 24 (ucast (crc32_reverseBit b))) = (ucast b :: u32)"
    (is "?l = ?r")
  proof (rule bit_word_eqI)
    fix n
    show "bit ?l n \<longleftrightarrow> bit ?r n"
      by (cases "n < 8") (auto simp: bit_rev32 bit_simps bit_crc32_reverseBit)
  qed
  moreover have "crc32_entry (unat b)
      = rev32 (crc32_shift 8 (push_bit 24 (ucast (crc32_reverseBit b))))"
    by (simp add: crc32_entry_def rev32_def Let_def)
  ultimately show ?thesis by (simp only: crc32_shift_rev)
qed

lemma crc_byte_table:
  "crc32_entry (unat ((crc XOR ucast p) AND 0xFF)) XOR drop_bit 8 crc = crc_byte p crc"
proof -
  let ?v = "crc XOR ucast p"
  have split: "?v = (?v AND 0xFF) XOR (?v AND NOT 0xFF)"
    by (rule bit_word_eqI) (auto simp: bit_simps)
  have high: "drop_bit 8 (?v AND NOT 0xFF) = drop_bit 8 crc"
    by (rule bit_word_eqI) (auto simp: bit_simps dest: bit_imp_le_length)
  have "crc_byte p crc = (crc_bit ^^ 8) (?v AND 0xFF) XOR (crc_bit ^^ 8) (?v AND NOT 0xFF)"
    unfolding crc_byte_def by (subst split) (rule crc_bits_xor)
  also have "(crc_bit ^^ 8) (?v AND NOT 0xFF) = drop_bit 8 crc"
    by (simp only: crc_bits_high [OF order_refl] high)
  also have "(crc_bit ^^ 8) (?v AND 0xFF) = crc32_entry (unat (?v AND 0xFF))"
    by (simp only: unat_and_ff_ucast crc32_entry_eq) (simp only: and_ff_ucast)
  finally show ?thesis by simp
qed

lemma getcrc32_value:
  assumes "crc32_ok st"
  shows "fst (getcrc32 st buf) = crc32_spec buf" and "crc32_ok (snd (getcrc32 st buf))"
proof -
  have tab: "crc32_table (if bcrc32initialized st = 0 then crc32_init st else st)
      = map crc32_entry [0..<256]"
    using assms by (auto simp: crc32_ok_def crc32_init_def)
  show "fst (getcrc32 st buf) = crc32_spec buf"
    by (simp add: getcrc32_def tab Let_def crc32_spec_def crc_byte_table)
  show "crc32_ok (snd (getcrc32 st buf))"
    using assms by (auto simp: getcrc32_def crc32_ok_def crc32_init_def Let_def)
qed

text \<open>
  C4. The table-driven checksum is CRC-32: after any history of calls since module
  load, \<^verbatim>\<open>getcrc32\<close> returns the reflected bitwise CRC-32 of its buffer. The lazily
  built table is right whoever triggered its construction, and is never rebuilt.
\<close>

theorem getcrc32_is_crc32:
  "fst (getcrc32 (fold (\<lambda>b st. snd (getcrc32 st b)) history crc32_boot) buf) = crc32_spec buf"
proof -
  have "crc32_ok (fold (\<lambda>b st. snd (getcrc32 st b)) history st)" if "crc32_ok st" for st
    using that by (induction history arbitrary: st) (simp_all add: getcrc32_value(2))
  then show ?thesis using crc32_ok_boot by (simp add: getcrc32_value(1))
qed

text \<open>
  The RC4 state stays a permutation of the 256 byte values with both indices in
  range through the key schedule and any amount of traffic, so no subscript of
  \<^verbatim>\<open>arcfour_byte\<close> leaves \<^verbatim>\<open>state[256]\<close>; and a frame enciphered in two calls (payload,
  then ICV) from a fresh context is recovered by one call over the whole of it from an
  equal context.
\<close>

theorem arcfour_invariant_involution:
  "arc4_inv (snd (arcfour_encrypt (arcfour_init key key_len) traffic)) \<and>
   fst (arcfour_encrypt (arcfour_init key key_len)
     (fst (arcfour_encrypt (arcfour_init key key_len) payload)
      @ fst (arcfour_encrypt (snd (arcfour_encrypt (arcfour_init key key_len) payload)) icv)))
   = payload @ icv"
  using arc.crypt_inv [OF arcfour_init_inv] arc.crypt_two_parts_involution by blast

end
