(* ===== verification/Rtw_Blocks.thy ===== *)
theory Rtw_Blocks
  imports Rtw_Prelude
begin

unbundle bit_operations_syntax

text \<open>
  Iterated block functions. \<open>chain n f c xs\<close> runs a compression function \<open>f\<close> over the
  full \<open>n\<close>-byte blocks of \<open>xs\<close>, \<open>rest n xs\<close> is the incomplete block that is left.
  The locale \<open>block_hash\<close> is the contract of an incremental absorber (what it has
  compressed so far and which bytes are still pending); \<open>byte_absorber\<close> is the contract
  of an absorber that takes one byte at a time, and a sublocale of the former. Michael
  and SHA-256 are its two instances.
\<close>

function chain :: "nat \<Rightarrow> ('c \<Rightarrow> bytes \<Rightarrow> 'c) \<Rightarrow> 'c \<Rightarrow> bytes \<Rightarrow> 'c" where
  "chain n f c xs = (if n = 0 \<or> length xs < n then c else chain n f (f c (take n xs)) (drop n xs))"
  by pat_completeness auto
termination
  by (relation "measure (\<lambda>(n, f, c, xs). length xs)") auto

declare chain.simps [simp del]

definition rest :: "nat \<Rightarrow> bytes \<Rightarrow> bytes" where
  "rest n xs = drop (length xs - length xs mod n) xs"

lemma chain_short [simp]: "length xs < n \<Longrightarrow> chain n f c xs = c"
  by (simp add: chain.simps)

lemma chain_block: "0 < n \<Longrightarrow> length b = n \<Longrightarrow> chain n f c (b @ xs) = chain n f (f c b) xs"
  by (subst chain.simps) simp

lemma chain_one [simp]: "0 < n \<Longrightarrow> length b = n \<Longrightarrow> chain n f c b = f c b"
  using chain_block [of n b f c "[]"] by simp

lemma rest_short [simp]: "length xs < n \<Longrightarrow> rest n xs = xs"
  by (simp add: rest_def)

lemma rest_block: "length b = n \<Longrightarrow> rest n (b @ xs) = rest n xs"
proof -
  assume "length b = n"
  moreover have "n \<le> n + length xs - length xs mod n"
    using mod_less_eq_dividend [of "length xs" n] by arith
  ultimately show ?thesis by (simp add: rest_def drop_append)
qed

lemma rest_one [simp]: "length b = n \<Longrightarrow> rest n b = []"
  by (simp add: rest_def)

lemma length_rest: "length (rest n xs) = length xs mod n"
  by (simp add: rest_def mod_less_eq_dividend)

lemma block_cases:
  assumes "0 < (n :: nat)"
  obtains "length xs < n" | b ys where "length b = n" and "xs = b @ ys"
proof (cases "length xs < n")
  case False
  then have "length (take n xs) = n" and "xs = take n xs @ drop n xs" by simp_all
  then show ?thesis using that(2) by blast
qed (rule that(1))

lemma chain_rest_append:
  assumes "0 < n"
  shows "chain n f (chain n f c xs) (rest n xs @ ys) = chain n f c (xs @ ys)"
proof (induction "length xs" arbitrary: xs c rule: less_induct)
  case less
  show ?case using assms
    by (rule block_cases [of n xs]) (simp_all add: chain_block rest_block less assms)
qed

lemma rest_rest_append:
  assumes "0 < n"
  shows "rest n (rest n xs @ ys) = rest n (xs @ ys)"
proof (induction "length xs" arbitrary: xs rule: less_induct)
  case less
  show ?case using assms
    by (rule block_cases [of n xs]) (simp_all add: rest_block less assms)
qed

locale block_hash =
  fixes blk :: nat
    and compress :: "'c \<Rightarrow> bytes \<Rightarrow> 'c"
    and core :: "'s \<Rightarrow> 'c"
    and pend :: "'s \<Rightarrow> bytes"
    and inv :: "'s \<Rightarrow> bool"
    and absorb :: "bytes \<Rightarrow> 's \<Rightarrow> 's"
  assumes blk_pos: "0 < blk"
    and pend_short: "inv s \<Longrightarrow> length (pend s) < blk"
    and absorb_inv: "inv s \<Longrightarrow> inv (absorb bs s)"
    and absorb_core: "inv s \<Longrightarrow> core (absorb bs s) = chain blk compress (core s) (pend s @ bs)"
    and absorb_pend: "inv s \<Longrightarrow> pend (absorb bs s) = rest blk (pend s @ bs)"
begin

lemma absorb_append:
  assumes "inv s"
  shows "core (absorb cs (absorb bs s)) = core (absorb (bs @ cs) s)"
    and "pend (absorb cs (absorb bs s)) = pend (absorb (bs @ cs) s)"
  using assms chain_rest_append [OF blk_pos, where xs = "pend s @ bs" and ys = cs]
    rest_rest_append [OF blk_pos, where xs = "pend s @ bs" and ys = cs]
  by (simp_all add: absorb_core absorb_pend absorb_inv)

lemma absorb_all_inv: "inv s \<Longrightarrow> inv (fold absorb bss s)"
  by (induction bss arbitrary: s) (simp_all add: absorb_inv)

lemma absorb_all:
  assumes "inv s"
  shows "core (fold absorb bss s) = chain blk compress (core s) (pend s @ concat bss) \<and>
         pend (fold absorb bss s) = rest blk (pend s @ concat bss)"
  using assms
proof (induction bss rule: rev_induct)
  case Nil
  then show ?case by (simp add: pend_short)
next
  case (snoc bs bss)
  then show ?case
    using absorb_all_inv [of s bss] chain_rest_append [OF blk_pos, where xs = "pend s @ concat bss"]
      rest_rest_append [OF blk_pos, where xs = "pend s @ concat bss"]
    by (simp add: absorb_core absorb_pend)
qed

end

locale byte_absorber =
  fixes blk :: nat
    and compress :: "'c \<Rightarrow> bytes \<Rightarrow> 'c"
    and core :: "'s \<Rightarrow> 'c"
    and pend :: "'s \<Rightarrow> bytes"
    and inv :: "'s \<Rightarrow> bool"
    and push :: "u8 \<Rightarrow> 's \<Rightarrow> 's"
  assumes blk_pos: "0 < blk"
    and pend_short: "inv s \<Longrightarrow> length (pend s) < blk"
    and push_inv: "inv s \<Longrightarrow> inv (push b s)"
    and push_pend: "inv s \<Longrightarrow> pend (push b s) =
          (if Suc (length (pend s)) = blk then [] else pend s @ [b])"
    and push_core: "inv s \<Longrightarrow> core (push b s) =
          (if Suc (length (pend s)) = blk then compress (core s) (pend s @ [b]) else core s)"
begin

lemma push_step:
  assumes "inv s"
  shows "core (push b s) = chain blk compress (core s) (pend s @ [b])"
    and "pend (push b s) = rest blk (pend s @ [b])"
  using pend_short [OF assms] blk_pos by (auto simp: push_core push_pend assms)

lemma push_all:
  assumes "inv s"
  shows "inv (fold push bs s) \<and>
         core (fold push bs s) = chain blk compress (core s) (pend s @ bs) \<and>
         pend (fold push bs s) = rest blk (pend s @ bs)"
proof (induction bs rule: rev_induct)
  case Nil
  then show ?case using assms by (simp add: pend_short)
next
  case (snoc b bs)
  then show ?case
    using push_step [of "fold push bs s" b] chain_rest_append [OF blk_pos, where xs = "pend s @ bs"]
      rest_rest_append [OF blk_pos, where xs = "pend s @ bs"]
    by (simp add: push_inv)
qed

end

sublocale byte_absorber \<subseteq> bulk: block_hash blk compress core pend inv "fold push"
  by unfold_locales (simp_all add: blk_pos pend_short push_all)

end
