(* ===== verification/Rtw_Michael.thy ===== *)
theory Rtw_Michael
  imports Rtw_Blocks
begin

unbundle bit_operations_syntax

text \<open>
  The Michael message integrity code of TKIP (\<^verbatim>\<open>secmic*\<close>, \<^verbatim>\<open>rtw_secmic*\<close>,
  \<^verbatim>\<open>rtw_secgetmic\<close> and \<^verbatim>\<open>rtw_seccalctkipmic\<close> of \<^verbatim>\<open>core/rtw_security.c\<close>).

  \<open>mic_data\<close> is the driver's incremental state; the locale \<open>byte_absorber\<close> is interpreted
  on \<open>rtw_secmicappendbyte\<close>, which gives that any sequence of appends equals the
  one-shot definition \<open>michael\<close> on the concatenation.
\<close>

record mic_data =
  mic_K0 :: u32
  mic_K1 :: u32
  mic_L :: u32
  mic_R :: u32
  mic_M :: u32
  nBytesInM :: u32

definition ROL32 :: "u32 \<Rightarrow> nat \<Rightarrow> u32" where
  "ROL32 a n = push_bit n a OR (drop_bit (32 - n) a AND (push_bit n 1 - 1))"

definition ROR32 :: "u32 \<Rightarrow> nat \<Rightarrow> u32" where
  "ROR32 a n = ROL32 a (32 - n)"

definition secmicgetuint32 :: "bytes \<Rightarrow> u32" where
  "secmicgetuint32 p = fold (\<lambda>i res. res OR push_bit (8 * i) (ucast (p ! i))) [0..<4] 0"

definition secmicputuint32 :: "u32 \<Rightarrow> bytes" where
  "secmicputuint32 val =
     map (\<lambda>i. ucast (drop_bit (8 * i) val AND 0xFF)) [0..<4]"

definition secmicclear :: "mic_data \<Rightarrow> mic_data" where
  "secmicclear d = d\<lparr>mic_L := mic_K0 d, mic_R := mic_K1 d, nBytesInM := 0, mic_M := 0\<rparr>"

definition rtw_secmicsetkey :: "mic_data \<Rightarrow> bytes \<Rightarrow> mic_data" where
  "rtw_secmicsetkey d key =
     secmicclear (d\<lparr>mic_K0 := secmicgetuint32 key, mic_K1 := secmicgetuint32 (drop 4 key)\<rparr>)"

definition rtw_secmicappendbyte :: "u8 \<Rightarrow> mic_data \<Rightarrow> mic_data" where
  "rtw_secmicappendbyte b d =
     (let d = d\<lparr>mic_M := mic_M d OR push_bit (8 * unat (nBytesInM d)) (ucast b)\<rparr>;
          d = d\<lparr>nBytesInM := nBytesInM d + 1\<rparr>
      in if 4 \<le> nBytesInM d then
           let d = d\<lparr>mic_L := mic_L d XOR mic_M d\<rparr>;
               d = d\<lparr>mic_R := mic_R d XOR ROL32 (mic_L d) 17\<rparr>;
               d = d\<lparr>mic_L := mic_L d + mic_R d\<rparr>;
               d = d\<lparr>mic_R := mic_R d XOR (drop_bit 8 (mic_L d AND 0xFF00FF00)
                                OR push_bit 8 (mic_L d AND 0x00FF00FF))\<rparr>;
               d = d\<lparr>mic_L := mic_L d + mic_R d\<rparr>;
               d = d\<lparr>mic_R := mic_R d XOR ROL32 (mic_L d) 3\<rparr>;
               d = d\<lparr>mic_L := mic_L d + mic_R d\<rparr>;
               d = d\<lparr>mic_R := mic_R d XOR ROR32 (mic_L d) 2\<rparr>;
               d = d\<lparr>mic_L := mic_L d + mic_R d\<rparr>
           in d\<lparr>mic_M := 0, nBytesInM := 0\<rparr>
         else d)"

definition rtw_secmicappend :: "bytes \<Rightarrow> mic_data \<Rightarrow> mic_data" where
  "rtw_secmicappend src d = fold rtw_secmicappendbyte src d"

text \<open>
  The padding loop \<^verbatim>\<open>while( pmicdata->nBytesInM != 0 )\<close>. Whatever the counter holds, at
  most three more bytes bring it to 0.
\<close>

definition pad_measure :: "mic_data \<Rightarrow> nat" where
  "pad_measure d = (if nBytesInM d = 0 then 0 else if nBytesInM d = 1 then 3
     else if nBytesInM d = 2 then 2 else 1)"

lemma appendbyte_count:
  "nBytesInM (rtw_secmicappendbyte b d) =
     (if 4 \<le> nBytesInM d + 1 then 0 else nBytesInM d + 1)"
  by (simp add: rtw_secmicappendbyte_def Let_def)

lemma u32_small_cases: "(n :: u32) < 4 \<Longrightarrow> n = 0 \<or> n = 1 \<or> n = 2 \<or> n = 3"
proof -
  assume "n < 4"
  then have "unat n < 4" by (simp add: word_less_nat_alt)
  then have "unat n = 0 \<or> unat n = 1 \<or> unat n = 2 \<or> unat n = 3" by arith
  then show ?thesis by (simp add: word_unat_eq_iff)
qed

lemma appendbyte_measure:
  "nBytesInM d \<noteq> 0 \<Longrightarrow> pad_measure (rtw_secmicappendbyte b d) < pad_measure d"
proof -
  assume nz: "nBytesInM d \<noteq> 0"
  let ?m = "nBytesInM d + 1"
  show ?thesis
  proof (cases "4 \<le> ?m")
    case True
    with nz show ?thesis by (simp add: pad_measure_def appendbyte_count)
  next
    case False
    then have "?m = 0 \<or> ?m = 1 \<or> ?m = 2 \<or> ?m = 3"
      using u32_small_cases [of ?m] by simp
    then have "nBytesInM d = 0 - 1 \<or> nBytesInM d = 1 - 1 \<or> nBytesInM d = 2 - 1 \<or>
        nBytesInM d = 3 - 1"
      by (simp only: eq_diff_eq)
    with nz show ?thesis by (auto simp: pad_measure_def appendbyte_count)
  qed
qed

function secmic_pad :: "mic_data \<Rightarrow> mic_data" where
  "secmic_pad d = (if nBytesInM d \<noteq> 0 then secmic_pad (rtw_secmicappendbyte 0 d) else d)"
  by pat_completeness auto
termination
  by (relation "measure pad_measure") (simp_all add: appendbyte_measure)

declare secmic_pad.simps [simp del]

definition rtw_secgetmic :: "mic_data \<Rightarrow> bytes \<times> mic_data" where
  "rtw_secgetmic d =
     (let d = rtw_secmicappendbyte 0x5A d;
          d = rtw_secmicappendbyte 0 d;
          d = rtw_secmicappendbyte 0 d;
          d = rtw_secmicappendbyte 0 d;
          d = rtw_secmicappendbyte 0 d;
          d = secmic_pad d
      in (secmicputuint32 (mic_L d) @ secmicputuint32 (mic_R d), secmicclear d))"

text \<open>
  \<^verbatim>\<open>rtw_seccalctkipmic\<close>: the pseudo header (DA, SA, priority and three zeroes) is picked
  out of the 802.11 header by the ToDS and FromDS bits. \<open>micdata\<close> is a local that
  \<open>rtw_secmicsetkey\<close> initialises completely, so its initial value does not matter; an
  address outside the header buffer is \<open>None\<close>.
\<close>

definition mic_data_zero :: mic_data where
  "mic_data_zero = \<lparr>mic_K0 = 0, mic_K1 = 0, mic_L = 0, mic_R = 0, mic_M = 0, nBytesInM = 0\<rparr>"

definition rtw_seccalctkipmic :: "bytes \<Rightarrow> bytes \<Rightarrow> bytes \<Rightarrow> u8 \<Rightarrow> bytes option" where
  "rtw_seccalctkipmic key header dat pri =
     do {
       micdata \<leftarrow> Some (rtw_secmicsetkey mic_data_zero key);
       fc1 \<leftarrow> rd header 1;
       micdata \<leftarrow>
         (if fc1 AND 1 \<noteq> 0 then
            do {
              da \<leftarrow> rdn header 16 6;
              sa \<leftarrow> (if fc1 AND 2 \<noteq> 0 then rdn header 24 6 else rdn header 10 6);
              Some (rtw_secmicappend sa (rtw_secmicappend da micdata))
            }
          else
            do {
              da \<leftarrow> rdn header 4 6;
              sa \<leftarrow> (if fc1 AND 2 \<noteq> 0 then rdn header 16 6 else rdn header 10 6);
              Some (rtw_secmicappend sa (rtw_secmicappend da micdata))
            });
       micdata \<leftarrow> Some (rtw_secmicappend [pri, 0, 0, 0] micdata);
       micdata \<leftarrow> Some (rtw_secmicappend dat micdata);
       Some (fst (rtw_secgetmic micdata))
     }"

subsection \<open>The reference: Michael as IEEE 802.11 defines it\<close>

definition xswap :: "u32 \<Rightarrow> u32" where
  "xswap l = (let b = u32_le l in le_u32 (b ! 1) (b ! 0) (b ! 3) (b ! 2))"

definition michael_b :: "u32 \<times> u32 \<Rightarrow> bytes \<Rightarrow> u32 \<times> u32" where
  "michael_b = (\<lambda>(l, r) m.
     let l = l XOR le_u32 (m ! 0) (m ! 1) (m ! 2) (m ! 3);
         r = r XOR word_rotl 17 l; l = l + r;
         r = r XOR xswap l;        l = l + r;
         r = r XOR word_rotl 3 l;  l = l + r;
         r = r XOR word_rotr 2 l;  l = l + r
     in (l, r))"

definition michael_padding :: "nat \<Rightarrow> bytes" where
  "michael_padding n = [0x5A, 0, 0, 0, 0] @ replicate (3 - n mod 4) 0"

definition michael :: "bytes \<Rightarrow> bytes \<Rightarrow> bytes" where
  "michael key msg =
     (let k0 = le_u32 (key ! 0) (key ! 1) (key ! 2) (key ! 3);
          k1 = le_u32 (key ! 4) (key ! 5) (key ! 6) (key ! 7);
          (l, r) = chain 4 michael_b (k0, k1) (msg @ michael_padding (length msg))
      in u32_le l @ u32_le r)"

lemma ROL32_rotl: "n < 32 \<Longrightarrow> ROL32 a n = word_rotl n a"
proof (rule bit_word_eqI)
  fix i
  assume n: "n < 32" and i: "i < LENGTH(32)"
  have idx: "(i + 32 - n) mod 32 = (if n \<le> i then i - n else 32 + i - n)"
    using n i by (auto simp: mod_nat_eqI)
  show "bit (ROL32 a n) i \<longleftrightarrow> bit (word_rotl n a) i"
    using n i
    by (cases "n \<le> i")
       (auto simp: ROL32_def bit_simps bit_word_rotl_iff idx mask_eq_exp_minus_1 [symmetric])
qed

lemma ROR32_rotr: "0 < n \<Longrightarrow> n < 32 \<Longrightarrow> ROR32 a n = word_rotr n a"
  by (simp add: ROR32_def ROL32_rotl word_rotl_eq_word_rotr)

lemma bit_xswap_masks:
  "bit (0xFF00FF00 :: u32) n \<longleftrightarrow> 8 \<le> n \<and> n < 16 \<or> 24 \<le> n \<and> n < 32"
  "bit (0x00FF00FF :: u32) n \<longleftrightarrow> n < 8 \<or> 16 \<le> n \<and> n < 24"
proof -
  have "(0xFF00FF00 :: u32) = push_bit 8 (mask 8) OR push_bit 24 (mask 8)"
    and "(0x00FF00FF :: u32) = mask 8 OR push_bit 16 (mask 8)"
    by (simp_all add: mask_eq_exp_minus_1)
  then show "bit (0xFF00FF00 :: u32) n \<longleftrightarrow> 8 \<le> n \<and> n < 16 \<or> 24 \<le> n \<and> n < 32"
    "bit (0x00FF00FF :: u32) n \<longleftrightarrow> n < 8 \<or> 16 \<le> n \<and> n < 24"
    by (simp_all only: bit_or_iff bit_push_bit_iff bit_mask_iff) auto
qed

lemma xswap_masks:
  "drop_bit 8 (l AND 0xFF00FF00) OR push_bit 8 (l AND 0x00FF00FF) = xswap l" (is "?l = ?r")
proof (rule bit_word_eqI)
  fix n
  assume "n < LENGTH(32)"
  then consider "n < 8" | "8 \<le> n" "n < 16" | "16 \<le> n" "n < 24" | "24 \<le> n" "n < 32" by fastforce
  then show "bit ?l n \<longleftrightarrow> bit ?r n"
    by cases
       (auto simp: bit_or_iff bit_and_iff bit_drop_bit_eq bit_push_bit_iff bit_xswap_masks
          xswap_def Let_def u32_le_def le_u32_def bit_unsigned_iff simp del: bit_numeral_word_iff)
qed

lemma secmicgetuint32_le:
  "secmicgetuint32 p = le_u32 (p ! 0) (p ! 1) (p ! 2) (p ! 3)"
  by (simp add: secmicgetuint32_def le_u32_def upt_rec or.assoc numeral_eq_Suc)

lemma secmicputuint32_le: "secmicputuint32 v = u32_le v"
  by (simp add: secmicputuint32_def u32_le_def upt_rec and_ff_ucast)

subsection \<open>The incremental state refines the reference\<close>

definition mic_pend :: "mic_data \<Rightarrow> bytes" where
  "mic_pend d = take (unat (nBytesInM d)) (u32_le (mic_M d))"

definition mic_core :: "mic_data \<Rightarrow> u32 \<times> u32" where
  "mic_core d = (mic_L d, mic_R d)"

definition mic_inv :: "mic_data \<Rightarrow> bool" where
  "mic_inv d \<longleftrightarrow> nBytesInM d < 4 \<and> (\<forall>i. 8 * unat (nBytesInM d) \<le> i \<longrightarrow> \<not> bit (mic_M d) i)"

lemma mic_inv_cases:
  assumes "mic_inv d"
  obtains "nBytesInM d = 0" | "nBytesInM d = 1" | "nBytesInM d = 2" | "nBytesInM d = 3"
  using assms u32_small_cases [of "nBytesInM d"] by (auto simp: mic_inv_def)

lemma length_mic_pend: "mic_inv d \<Longrightarrow> length (mic_pend d) = unat (nBytesInM d)"
  by (auto simp: mic_pend_def mic_inv_def word_less_nat_alt)

lemma pend_push:
  fixes M :: u32 and b :: u8
  assumes "\<forall>i. 8 * n \<le> i \<longrightarrow> \<not> bit M i" and "n < 4"
  shows "take (Suc n) (u32_le (M OR push_bit (8 * n) (ucast b))) = take n (u32_le M) @ [b]"
proof -
  have "n = 0 \<or> n = 1 \<or> n = 2 \<or> n = 3" using assms(2) by arith
  then show ?thesis using assms(1)
    by (elim disjE; simp add: u32_le_def; intro conjI bit_word_eqI; auto simp: bit_simps)
qed

lemma le_u32_u32_le: "le_u32 (u32_le w ! 0) (u32_le w ! 1) (u32_le w ! 2) (u32_le w ! 3) = w"
proof (rule bit_word_eqI)
  fix n
  assume "n < LENGTH(32)"
  then consider "n < 8" | "8 \<le> n" "n < 16" | "16 \<le> n" "n < 24" | "24 \<le> n" "n < 32" by fastforce
  then show "bit (le_u32 (u32_le w ! 0) (u32_le w ! 1) (u32_le w ! 2) (u32_le w ! 3)) n \<longleftrightarrow> bit w n"
    by cases (auto simp: le_u32_def u32_le_def bit_simps)
qed

lemma appendbyte_full:
  assumes "mic_inv d" and "nBytesInM d = 3"
  shows "mic_core (rtw_secmicappendbyte b d) = michael_b (mic_core d) (mic_pend d @ [b])"
    and "mic_pend (rtw_secmicappendbyte b d) = []"
    and "mic_inv (rtw_secmicappendbyte b d)"
proof -
  let ?M = "mic_M d OR push_bit 24 (ucast b)"
  have "mic_pend d @ [b] = u32_le ?M"
    using pend_push [of 3 "mic_M d" b] assms
    by (simp add: mic_pend_def mic_inv_def u32_le_def)
  then have M: "le_u32 ((mic_pend d @ [b]) ! 0) ((mic_pend d @ [b]) ! 1)
      ((mic_pend d @ [b]) ! 2) ((mic_pend d @ [b]) ! 3) = ?M"
    by (simp only: le_u32_u32_le)
  show "mic_core (rtw_secmicappendbyte b d) = michael_b (mic_core d) (mic_pend d @ [b])"
    unfolding michael_b_def mic_core_def prod.case M rtw_secmicappendbyte_def xswap_masks
    by (simp add: Let_def assms(2) ROL32_rotl ROR32_rotr)
  show "mic_pend (rtw_secmicappendbyte b d) = []" "mic_inv (rtw_secmicappendbyte b d)"
    by (simp_all add: rtw_secmicappendbyte_def Let_def assms(2) mic_pend_def mic_inv_def)
qed

lemma appendbyte_short:
  assumes "mic_inv d" and "nBytesInM d \<noteq> 3"
  shows "mic_core (rtw_secmicappendbyte b d) = mic_core d"
    and "mic_pend (rtw_secmicappendbyte b d) = mic_pend d @ [b]"
    and "mic_inv (rtw_secmicappendbyte b d)"
proof -
  have n: "nBytesInM d = 0 \<or> nBytesInM d = 1 \<or> nBytesInM d = 2"
    using assms by (auto elim: mic_inv_cases)
  then have "\<not> 4 \<le> nBytesInM d + 1" by (auto simp: word_le_nat_alt)
  then have eq: "rtw_secmicappendbyte b d = d\<lparr>nBytesInM := nBytesInM d + 1,
      mic_M := mic_M d OR push_bit (8 * unat (nBytesInM d)) (ucast b)\<rparr>"
    by (simp add: rtw_secmicappendbyte_def)
  then show "mic_core (rtw_secmicappendbyte b d) = mic_core d"
    by (simp add: mic_core_def)
  show "mic_pend (rtw_secmicappendbyte b d) = mic_pend d @ [b]"
  proof -
    have "unat (nBytesInM d + 1) = Suc (unat (nBytesInM d))" using n by auto
    then show ?thesis
      using assms(1) pend_push [of "unat (nBytesInM d)" "mic_M d" b]
      by (simp add: mic_pend_def eq mic_inv_def word_less_nat_alt)
  qed
  show "mic_inv (rtw_secmicappendbyte b d)"
    using n assms(1) by (auto simp: eq mic_inv_def bit_simps word_less_nat_alt)
qed

interpretation mic: byte_absorber 4 michael_b mic_core mic_pend mic_inv rtw_secmicappendbyte
proof unfold_locales
  fix b and d :: mic_data
  assume d: "mic_inv d"
  have full: "Suc (length (mic_pend d)) = 4 \<longleftrightarrow> nBytesInM d = 3"
    using d by (auto simp: length_mic_pend elim: mic_inv_cases)
  show "length (mic_pend d) < 4"
    using d by (simp add: length_mic_pend) (simp add: mic_inv_def word_less_nat_alt)
  show "mic_inv (rtw_secmicappendbyte b d)"
    using d appendbyte_full(3) appendbyte_short(3) by blast
  show "mic_pend (rtw_secmicappendbyte b d) =
      (if Suc (length (mic_pend d)) = 4 then [] else mic_pend d @ [b])"
    and "mic_core (rtw_secmicappendbyte b d) =
      (if Suc (length (mic_pend d)) = 4 then michael_b (mic_core d) (mic_pend d @ [b])
       else mic_core d)"
    unfolding full using d by (auto simp: appendbyte_full appendbyte_short)
qed simp

subsection \<open>What the driver computes\<close>

lemma secmic_pad_zeros: "mic_inv d \<Longrightarrow>
   secmic_pad d = fold rtw_secmicappendbyte (replicate ((4 - length (mic_pend d)) mod 4) 0) d"
proof (induction d rule: secmic_pad.induct)
  case (1 d)
  show ?case
  proof (cases "nBytesInM d = 0")
    case True
    then show ?thesis using 1 by (simp add: secmic_pad.simps [of d] mic_pend_def)
  next
    case False
    let ?d = "rtw_secmicappendbyte 0 d"
    have k: "0 < length (mic_pend d)" "length (mic_pend d) < 4"
      using False "1.prems" mic.pend_short [of d] by (auto simp: length_mic_pend unat_gt_0)
    have "(4 - length (mic_pend d)) mod 4 = Suc ((4 - length (mic_pend ?d)) mod 4)"
      using k "1.prems" by (auto simp: mic.push_pend)
    then show ?thesis
      using 1 False by (simp add: secmic_pad.simps [of d] mic.push_inv)
  qed
qed

lemma pad_count: "(n :: nat) < 4 \<Longrightarrow> (4 - (n + 5) mod 4) mod 4 = 3 - n"
proof -
  assume "n < 4"
  then have "n = 0 \<or> n = 1 \<or> n = 2 \<or> n = 3" by arith
  then show ?thesis by (elim disjE) simp_all
qed

lemma secgetmic_run:
  assumes "mic_inv d"
  defines "n \<equiv> length (mic_pend d)"
  shows "rtw_secgetmic d =
    (let d' = fold rtw_secmicappendbyte (michael_padding n) d
     in (u32_le (mic_L d') @ u32_le (mic_R d'), secmicclear d'))"
proof -
  let ?p = "[0x5A, 0, 0, 0, 0] :: bytes"
  have n: "n < 4" using assms mic.pend_short by simp
  have inv: "mic_inv (fold rtw_secmicappendbyte ?p d)"
    using mic.push_all [OF assms(1)] by blast
  have "length (mic_pend (fold rtw_secmicappendbyte ?p d)) = (n + 5) mod 4"
    using mic.push_all [OF assms(1), of ?p] by (simp add: length_rest n_def add.commute)
  moreover have "(4 - (n + 5) mod 4) mod 4 = 3 - n" using n by (rule pad_count)
  ultimately have "(4 - length (mic_pend (fold rtw_secmicappendbyte ?p d))) mod 4 = 3 - n" by simp
  then have "secmic_pad (fold rtw_secmicappendbyte ?p d)
      = fold rtw_secmicappendbyte (?p @ replicate (3 - n) 0) d"
    using secmic_pad_zeros [OF inv] by simp
  also have "?p @ replicate (3 - n) 0 = michael_padding n"
    using n by (simp add: michael_padding_def)
  finally show ?thesis
    by (simp add: rtw_secgetmic_def Let_def secmicputuint32_le)
qed

lemma secmicclear_props:
  "mic_inv (secmicclear d)" "mic_pend (secmicclear d) = []"
  "mic_core (secmicclear d) = (mic_K0 d, mic_K1 d)"
  by (simp_all add: secmicclear_def mic_inv_def mic_pend_def mic_core_def)

lemma appendbyte_keys [simp]:
  "mic_K0 (rtw_secmicappendbyte b d) = mic_K0 d" "mic_K1 (rtw_secmicappendbyte b d) = mic_K1 d"
  by (simp_all add: rtw_secmicappendbyte_def Let_def)

lemma append_keys [simp]:
  "mic_K0 (fold rtw_secmicappendbyte bs d) = mic_K0 d"
  "mic_K1 (fold rtw_secmicappendbyte bs d) = mic_K1 d"
  by (induction bs arbitrary: d) simp_all

lemma michael_padding_mod: "michael_padding (n mod 4) = michael_padding n"
  by (simp add: michael_padding_def)

lemma secmicclear_keys:
  "mic_K0 d = mic_K0 d' \<Longrightarrow> mic_K1 d = mic_K1 d' \<Longrightarrow> secmicclear d = secmicclear d'"
  by (cases d; cases d') (simp add: secmicclear_def)

lemma setkey_fields:
  "mic_inv (rtw_secmicsetkey d key)" "mic_pend (rtw_secmicsetkey d key) = []"
  "mic_core (rtw_secmicsetkey d key) = (secmicgetuint32 key, secmicgetuint32 (drop 4 key))"
  "secmicclear (rtw_secmicsetkey d key) = rtw_secmicsetkey d key"
  by (simp_all add: rtw_secmicsetkey_def secmicclear_props) (simp add: secmicclear_def)

lemma secmicappend_fold: "rtw_secmicappend = fold rtw_secmicappendbyte"
  by (simp add: fun_eq_iff rtw_secmicappend_def)

lemma key_words: "8 \<le> length key \<Longrightarrow>
   secmicgetuint32 key = le_u32 (key ! 0) (key ! 1) (key ! 2) (key ! 3) \<and>
   secmicgetuint32 (drop 4 key) = le_u32 (key ! 4) (key ! 5) (key ! 6) (key ! 7)"
  by (simp add: secmicgetuint32_le)

lemma secmicappend_keys [simp]:
  "mic_K0 (fold rtw_secmicappend bss d) = mic_K0 d" "mic_K1 (fold rtw_secmicappend bss d) = mic_K1 d"
  by (induction bss arbitrary: d) (simp_all add: rtw_secmicappend_def)

lemma michael_incremental_aux:
  fixes d :: mic_data
  assumes "8 \<le> length key"
  defines "d0 \<equiv> rtw_secmicsetkey d key"
  shows "rtw_secgetmic (fold rtw_secmicappend msgs d0) = (michael key (concat msgs), d0)"
proof -
  let ?d = "fold rtw_secmicappend msgs d0" and ?m = "concat msgs"
  have inv: "mic_inv ?d"
    unfolding secmicappend_fold d0_def by (rule mic.bulk.absorb_all_inv) (rule setkey_fields)
  have run: "mic_core ?d = chain 4 michael_b (mic_core d0) ?m" "mic_pend ?d = rest 4 ?m"
    unfolding secmicappend_fold
    using mic.bulk.absorb_all [of d0 msgs] by (simp_all add: d0_def setkey_fields)
  have len: "length (mic_pend ?d) = length ?m mod 4" by (simp add: run length_rest)
  let ?d' = "fold rtw_secmicappendbyte (michael_padding (length ?m)) ?d"
  have core: "mic_core ?d' = chain 4 michael_b (mic_core d0) (?m @ michael_padding (length ?m))"
    using mic.push_all [OF inv] by (simp add: run chain_rest_append)
  have clear: "secmicclear ?d' = d0"
  proof -
    have "secmicclear ?d' = secmicclear d0"
      by (rule secmicclear_keys) simp_all
    then show ?thesis by (simp add: d0_def setkey_fields)
  qed
  have "rtw_secgetmic ?d = (u32_le (fst (mic_core ?d')) @ u32_le (snd (mic_core ?d')), d0)"
    by (simp add: secgetmic_run [OF inv] len michael_padding_mod Let_def clear mic_core_def)
  moreover have "michael key ?m = u32_le (fst (mic_core ?d')) @ u32_le (snd (mic_core ?d'))"
    unfolding core using key_words [OF assms(1)]
    by (simp add: michael_def Let_def d0_def setkey_fields split_beta)
  ultimately show ?thesis by simp
qed

text \<open>
  C2. The Michael code the driver computes incrementally is the standard's: after
  \<^verbatim>\<open>rtw_secmicsetkey\<close>, any sequence of \<^verbatim>\<open>rtw_secmicappend\<close> calls followed by
  \<^verbatim>\<open>rtw_secgetmic\<close> outputs \<open>michael\<close> of the concatenated message under the 8-byte key,
  however the message was cut up, and leaves the state ready for the next message
  (equal to the state right after setting the key).
\<close>

theorem michael_incremental:
  assumes "8 \<le> length key"
  shows "rtw_secgetmic (fold rtw_secmicappend msgs (rtw_secmicsetkey d key))
    = (michael key (concat msgs), rtw_secmicsetkey d key)"
  using assms by (rule michael_incremental_aux)

theorem michael_incremental_witness:
  "8 \<le> length (replicate 8 (0 :: u8)) \<and>
   rtw_secgetmic (fold rtw_secmicappend [[1, 2], [3]] (rtw_secmicsetkey mic_data_zero (replicate 8 0)))
     = (michael (replicate 8 0) [1, 2, 3], rtw_secmicsetkey mic_data_zero (replicate 8 0))"
  using michael_incremental [of "replicate 8 0" "[[1, 2], [3]]" mic_data_zero] by simp

definition mic_DA :: "bytes \<Rightarrow> bytes" where
  "mic_DA header = take 6 (drop (if bit (header ! 1) 0 then 16 else 4) header)"

definition mic_SA :: "bytes \<Rightarrow> bytes" where
  "mic_SA header = take 6 (drop (if bit (header ! 1) 1 then if bit (header ! 1) 0 then 24 else 16 else 10) header)"

text \<open>
  The MIC the driver computes for an MSDU is Michael over the pseudo header
  \<open>DA @ SA @ [priority, 0, 0, 0]\<close> followed by the data, with DA and SA picked by the
  ToDS and FromDS bits as the 802.11 address rules say; for a header of at least 30
  bytes (24 unless both bits are set) nothing outside it is read.
\<close>

theorem seccalctkipmic_michael:
  assumes "8 \<le> length key"
    and "(if bit (header ! 1) 0 \<and> bit (header ! 1) 1 then 30 else 24) \<le> length header"
  shows "rtw_seccalctkipmic key header dat pri
    = Some (michael key (mic_DA header @ mic_SA header @ [pri, 0, 0, 0] @ dat))"
proof -
  have inc: "fst (rtw_secgetmic (rtw_secmicappend dat (rtw_secmicappend [pri, 0, 0, 0]
      (rtw_secmicappend sa (rtw_secmicappend da (rtw_secmicsetkey mic_data_zero key))))))
      = michael key (da @ sa @ [pri, 0, 0, 0] @ dat)" for da sa
    using michael_incremental_aux [OF assms(1), of "[da, sa, [pri, 0, 0, 0], dat]" mic_data_zero]
    by simp
  show ?thesis
    using assms(2) unfolding rtw_seccalctkipmic_def mic_DA_def mic_SA_def
    by (auto simp: rd_def rdn_def and_bit0_u8 and_bit1_u8 inc [simplified] split: if_splits)
qed

theorem seccalctkipmic_michael_witness:
  "rtw_seccalctkipmic (replicate 8 7) ([8, 1] @ replicate 22 5) [1, 2, 3] 6
    = Some (michael (replicate 8 7) (replicate 6 5 @ replicate 6 5 @ [6, 0, 0, 0, 1, 2, 3]))"
  using seccalctkipmic_michael [of "replicate 8 7" "[8, 1] @ replicate 22 5" "[1, 2, 3]" 6]
  by (simp add: mic_DA_def mic_SA_def)

end
