(* ===== verification/Rtw_Tkip.thy ===== *)
theory Rtw_Tkip
  imports Rtw_Prelude
begin

unbundle bit_operations_syntax

text \<open>
  TKIP key mixing (\<^verbatim>\<open>phase1\<close> and \<^verbatim>\<open>phase2\<close> of \<^verbatim>\<open>core/rtw_security.c\<close>), with the
  macros and the S-box tables as the source has them. The source's comment promises
  that for a given temporal key the RC4 key is unique for each transmitter address and
  48-bit sequence counter; \<open>rc4key_unique\<close> proves it.
\<close>

section \<open>Macros and tables\<close>

definition RotR1 :: "u16 \<Rightarrow> u16" where
  "RotR1 v16 = (drop_bit 1 v16 AND 0x7FFF) XOR push_bit 15 (v16 AND 1)"

definition Lo8 :: "u16 \<Rightarrow> u8" where
  "Lo8 v16 = ucast (v16 AND 0x00FF)"

definition Hi8 :: "u16 \<Rightarrow> u8" where
  "Hi8 v16 = ucast (drop_bit 8 v16 AND 0x00FF)"

definition Lo16 :: "u32 \<Rightarrow> u16" where
  "Lo16 v32 = ucast (v32 AND 0xFFFF)"

definition Hi16 :: "u32 \<Rightarrow> u16" where
  "Hi16 v32 = ucast (drop_bit 16 v32 AND 0xFFFF)"

definition Mk16 :: "u8 \<Rightarrow> u8 \<Rightarrow> u16" where
  "Mk16 hi lo = ucast lo XOR push_bit 8 (ucast hi)"

definition TK16 :: "bytes \<Rightarrow> nat \<Rightarrow> u16" where
  "TK16 tk n = Mk16 (tk ! (2 * n + 1)) (tk ! (2 * n))"

definition Sbox1_0 :: "u16 list" where
  "Sbox1_0 =
  [0xC6A5, 0xF884, 0xEE99, 0xF68D, 0xFF0D, 0xD6BD, 0xDEB1, 0x9154,
   0x6050, 0x0203, 0xCEA9, 0x567D, 0xE719, 0xB562, 0x4DE6, 0xEC9A,
   0x8F45, 0x1F9D, 0x8940, 0xFA87, 0xEF15, 0xB2EB, 0x8EC9, 0xFB0B,
   0x41EC, 0xB367, 0x5FFD, 0x45EA, 0x23BF, 0x53F7, 0xE496, 0x9B5B,
   0x75C2, 0xE11C, 0x3DAE, 0x4C6A, 0x6C5A, 0x7E41, 0xF502, 0x834F,
   0x685C, 0x51F4, 0xD134, 0xF908, 0xE293, 0xAB73, 0x6253, 0x2A3F,
   0x080C, 0x9552, 0x4665, 0x9D5E, 0x3028, 0x37A1, 0x0A0F, 0x2FB5,
   0x0E09, 0x2436, 0x1B9B, 0xDF3D, 0xCD26, 0x4E69, 0x7FCD, 0xEA9F,
   0x121B, 0x1D9E, 0x5874, 0x342E, 0x362D, 0xDCB2, 0xB4EE, 0x5BFB,
   0xA4F6, 0x764D, 0xB761, 0x7DCE, 0x527B, 0xDD3E, 0x5E71, 0x1397,
   0xA6F5, 0xB968, 0x0000, 0xC12C, 0x4060, 0xE31F, 0x79C8, 0xB6ED,
   0xD4BE, 0x8D46, 0x67D9, 0x724B, 0x94DE, 0x98D4, 0xB0E8, 0x854A,
   0xBB6B, 0xC52A, 0x4FE5, 0xED16, 0x86C5, 0x9AD7, 0x6655, 0x1194,
   0x8ACF, 0xE910, 0x0406, 0xFE81, 0xA0F0, 0x7844, 0x25BA, 0x4BE3,
   0xA2F3, 0x5DFE, 0x80C0, 0x058A, 0x3FAD, 0x21BC, 0x7048, 0xF104,
   0x63DF, 0x77C1, 0xAF75, 0x4263, 0x2030, 0xE51A, 0xFD0E, 0xBF6D,
   0x814C, 0x1814, 0x2635, 0xC32F, 0xBEE1, 0x35A2, 0x88CC, 0x2E39,
   0x9357, 0x55F2, 0xFC82, 0x7A47, 0xC8AC, 0xBAE7, 0x322B, 0xE695,
   0xC0A0, 0x1998, 0x9ED1, 0xA37F, 0x4466, 0x547E, 0x3BAB, 0x0B83,
   0x8CCA, 0xC729, 0x6BD3, 0x283C, 0xA779, 0xBCE2, 0x161D, 0xAD76,
   0xDB3B, 0x6456, 0x744E, 0x141E, 0x92DB, 0x0C0A, 0x486C, 0xB8E4,
   0x9F5D, 0xBD6E, 0x43EF, 0xC4A6, 0x39A8, 0x31A4, 0xD337, 0xF28B,
   0xD532, 0x8B43, 0x6E59, 0xDAB7, 0x018C, 0xB164, 0x9CD2, 0x49E0,
   0xD8B4, 0xACFA, 0xF307, 0xCF25, 0xCAAF, 0xF48E, 0x47E9, 0x1018,
   0x6FD5, 0xF088, 0x4A6F, 0x5C72, 0x3824, 0x57F1, 0x73C7, 0x9751,
   0xCB23, 0xA17C, 0xE89C, 0x3E21, 0x96DD, 0x61DC, 0x0D86, 0x0F85,
   0xE090, 0x7C42, 0x71C4, 0xCCAA, 0x90D8, 0x0605, 0xF701, 0x1C12,
   0xC2A3, 0x6A5F, 0xAEF9, 0x69D0, 0x1791, 0x9958, 0x3A27, 0x27B9,
   0xD938, 0xEB13, 0x2BB3, 0x2233, 0xD2BB, 0xA970, 0x0789, 0x33A7,
   0x2DB6, 0x3C22, 0x1592, 0xC920, 0x8749, 0xAAFF, 0x5078, 0xA57A,
   0x038F, 0x59F8, 0x0980, 0x1A17, 0x65DA, 0xD731, 0x84C6, 0xD0B8,
   0x82C3, 0x29B0, 0x5A77, 0x1E11, 0x7BCB, 0xA8FC, 0x6DD6, 0x2C3A]"

definition Sbox1_1 :: "u16 list" where
  "Sbox1_1 =
  [0xA5C6, 0x84F8, 0x99EE, 0x8DF6, 0x0DFF, 0xBDD6, 0xB1DE, 0x5491,
   0x5060, 0x0302, 0xA9CE, 0x7D56, 0x19E7, 0x62B5, 0xE64D, 0x9AEC,
   0x458F, 0x9D1F, 0x4089, 0x87FA, 0x15EF, 0xEBB2, 0xC98E, 0x0BFB,
   0xEC41, 0x67B3, 0xFD5F, 0xEA45, 0xBF23, 0xF753, 0x96E4, 0x5B9B,
   0xC275, 0x1CE1, 0xAE3D, 0x6A4C, 0x5A6C, 0x417E, 0x02F5, 0x4F83,
   0x5C68, 0xF451, 0x34D1, 0x08F9, 0x93E2, 0x73AB, 0x5362, 0x3F2A,
   0x0C08, 0x5295, 0x6546, 0x5E9D, 0x2830, 0xA137, 0x0F0A, 0xB52F,
   0x090E, 0x3624, 0x9B1B, 0x3DDF, 0x26CD, 0x694E, 0xCD7F, 0x9FEA,
   0x1B12, 0x9E1D, 0x7458, 0x2E34, 0x2D36, 0xB2DC, 0xEEB4, 0xFB5B,
   0xF6A4, 0x4D76, 0x61B7, 0xCE7D, 0x7B52, 0x3EDD, 0x715E, 0x9713,
   0xF5A6, 0x68B9, 0x0000, 0x2CC1, 0x6040, 0x1FE3, 0xC879, 0xEDB6,
   0xBED4, 0x468D, 0xD967, 0x4B72, 0xDE94, 0xD498, 0xE8B0, 0x4A85,
   0x6BBB, 0x2AC5, 0xE54F, 0x16ED, 0xC586, 0xD79A, 0x5566, 0x9411,
   0xCF8A, 0x10E9, 0x0604, 0x81FE, 0xF0A0, 0x4478, 0xBA25, 0xE34B,
   0xF3A2, 0xFE5D, 0xC080, 0x8A05, 0xAD3F, 0xBC21, 0x4870, 0x04F1,
   0xDF63, 0xC177, 0x75AF, 0x6342, 0x3020, 0x1AE5, 0x0EFD, 0x6DBF,
   0x4C81, 0x1418, 0x3526, 0x2FC3, 0xE1BE, 0xA235, 0xCC88, 0x392E,
   0x5793, 0xF255, 0x82FC, 0x477A, 0xACC8, 0xE7BA, 0x2B32, 0x95E6,
   0xA0C0, 0x9819, 0xD19E, 0x7FA3, 0x6644, 0x7E54, 0xAB3B, 0x830B,
   0xCA8C, 0x29C7, 0xD36B, 0x3C28, 0x79A7, 0xE2BC, 0x1D16, 0x76AD,
   0x3BDB, 0x5664, 0x4E74, 0x1E14, 0xDB92, 0x0A0C, 0x6C48, 0xE4B8,
   0x5D9F, 0x6EBD, 0xEF43, 0xA6C4, 0xA839, 0xA431, 0x37D3, 0x8BF2,
   0x32D5, 0x438B, 0x596E, 0xB7DA, 0x8C01, 0x64B1, 0xD29C, 0xE049,
   0xB4D8, 0xFAAC, 0x07F3, 0x25CF, 0xAFCA, 0x8EF4, 0xE947, 0x1810,
   0xD56F, 0x88F0, 0x6F4A, 0x725C, 0x2438, 0xF157, 0xC773, 0x5197,
   0x23CB, 0x7CA1, 0x9CE8, 0x213E, 0xDD96, 0xDC61, 0x860D, 0x850F,
   0x90E0, 0x427C, 0xC471, 0xAACC, 0xD890, 0x0506, 0x01F7, 0x121C,
   0xA3C2, 0x5F6A, 0xF9AE, 0xD069, 0x9117, 0x5899, 0x273A, 0xB927,
   0x38D9, 0x13EB, 0xB32B, 0x3322, 0xBBD2, 0x70A9, 0x8907, 0xA733,
   0xB62D, 0x223C, 0x9215, 0x20C9, 0x4987, 0xFFAA, 0x7850, 0x7AA5,
   0x8F03, 0xF859, 0x8009, 0x171A, 0xDA65, 0x31D7, 0xC684, 0xB8D0,
   0xC382, 0xB029, 0x775A, 0x111E, 0xCB7B, 0xFCA8, 0xD66D, 0x3A2C]"

definition S16 :: "u16 \<Rightarrow> u16" where
  "S16 v16 = Sbox1_0 ! unat (Lo8 v16) XOR Sbox1_1 ! unat (Hi8 v16)"

section \<open>The two phases\<close>

definition PHASE1_LOOP_CNT :: nat where
  "PHASE1_LOOP_CNT = 8"

definition phase1_step :: "bytes \<Rightarrow> nat \<Rightarrow> u16 list \<Rightarrow> u16 list" where
  "phase1_step tk i p1k =
     (let p1k = p1k[0 := p1k ! 0 + S16 (p1k ! 4 XOR TK16 tk (i mod 2 + 0))];
          p1k = p1k[1 := p1k ! 1 + S16 (p1k ! 0 XOR TK16 tk (i mod 2 + 2))];
          p1k = p1k[2 := p1k ! 2 + S16 (p1k ! 1 XOR TK16 tk (i mod 2 + 4))];
          p1k = p1k[3 := p1k ! 3 + S16 (p1k ! 2 XOR TK16 tk (i mod 2 + 6))];
          p1k = p1k[4 := p1k ! 4 + S16 (p1k ! 3 XOR TK16 tk (i mod 2 + 0))]
      in p1k[4 := p1k ! 4 + of_nat i])"

definition phase1 :: "bytes \<Rightarrow> bytes \<Rightarrow> u32 \<Rightarrow> u16 list" where
  "phase1 tk ta iv32 =
     fold (phase1_step tk) [0..<PHASE1_LOOP_CNT]
       [Lo16 iv32, Hi16 iv32, Mk16 (ta ! 1) (ta ! 0), Mk16 (ta ! 3) (ta ! 2), Mk16 (ta ! 5) (ta ! 4)]"

text \<open>\<open>phase2_PPK\<close> is the mixing of \<^verbatim>\<open>PPK[6]\<close>, \<open>phase2\<close> the whole routine.\<close>

definition phase2_PPK :: "bytes \<Rightarrow> u16 list \<Rightarrow> u16 \<Rightarrow> u16 list" where
  "phase2_PPK tk p1k iv16 =
     (let PPK = [p1k ! 0, p1k ! 1, p1k ! 2, p1k ! 3, p1k ! 4, p1k ! 4 + iv16];
          PPK = PPK[0 := PPK ! 0 + S16 (PPK ! 5 XOR TK16 tk 0)];
          PPK = PPK[1 := PPK ! 1 + S16 (PPK ! 0 XOR TK16 tk 1)];
          PPK = PPK[2 := PPK ! 2 + S16 (PPK ! 1 XOR TK16 tk 2)];
          PPK = PPK[3 := PPK ! 3 + S16 (PPK ! 2 XOR TK16 tk 3)];
          PPK = PPK[4 := PPK ! 4 + S16 (PPK ! 3 XOR TK16 tk 4)];
          PPK = PPK[5 := PPK ! 5 + S16 (PPK ! 4 XOR TK16 tk 5)];
          PPK = PPK[0 := PPK ! 0 + RotR1 (PPK ! 5 XOR TK16 tk 6)];
          PPK = PPK[1 := PPK ! 1 + RotR1 (PPK ! 0 XOR TK16 tk 7)];
          PPK = PPK[2 := PPK ! 2 + RotR1 (PPK ! 1)];
          PPK = PPK[3 := PPK ! 3 + RotR1 (PPK ! 2)];
          PPK = PPK[4 := PPK ! 4 + RotR1 (PPK ! 3)]
      in PPK[5 := PPK ! 5 + RotR1 (PPK ! 4)])"

definition phase2 :: "bytes \<Rightarrow> u16 list \<Rightarrow> u16 \<Rightarrow> bytes" where
  "phase2 tk p1k iv16 =
     (let PPK = phase2_PPK tk p1k iv16
      in [Hi8 iv16, (Hi8 iv16 OR 0x20) AND 0x7F, Lo8 iv16,
          Lo8 (drop_bit 1 (PPK ! 5 XOR TK16 tk 0))]
         @ concat (map (\<lambda>i. [Lo8 (PPK ! i), Hi8 (PPK ! i)]) [0..<6]))"

section \<open>Uniqueness of the per-packet key\<close>

lemma length_phase1_step [simp]: "length (phase1_step tk i p) = length p"
  by (simp add: phase1_step_def Let_def)

lemma length_phase1: "length (phase1 tk ta iv32) = 5"
proof -
  have "length (fold (phase1_step tk) ns p) = length p" for ns p
    by (induction ns arbitrary: p) simp_all
  then show ?thesis by (simp add: phase1_def)
qed

lemma list5: "length xs = 5 \<Longrightarrow> \<exists>a b c d e. xs = [a, b, c, d, e]"
  by (auto simp: length_Suc_conv numeral_eq_Suc)

text \<open>
  Every statement of the two phases has the form \<open>X[i] += g (X[j])\<close> with \<open>j \<noteq> i\<close>;
  \<open>mixes\<close> runs a list of such statements. Each is undone by knowing \<open>X[j]\<close>, so a
  sequence of them is injective on arrays of one length.
\<close>

definition mix :: "nat \<times> nat \<times> (u16 \<Rightarrow> u16) \<Rightarrow> u16 list \<Rightarrow> u16 list" where
  "mix = (\<lambda>(i, j, g) X. X[i := X ! i + g (X ! j)])"

definition mixes :: "(nat \<times> nat \<times> (u16 \<Rightarrow> u16)) list \<Rightarrow> u16 list \<Rightarrow> u16 list" where
  "mixes ts X = fold mix ts X"

lemma mixes_let:
  "mixes ((i, j, g) # t # ts) X = (let Y = X[i := X ! i + g (X ! j)] in mixes (t # ts) Y)"
  "mixes [(i, j, g)] X = X[i := X ! i + g (X ! j)]"
  by (simp_all add: mixes_def mix_def)

lemma length_mix [simp]: "length (mix t X) = length X"
  by (simp add: mix_def split: prod.splits)

lemma mix_inj:
  assumes "i \<noteq> j" and "j < length X" and "length X = length Y" and "mix (i, j, g) X = mix (i, j, g) Y"
  shows "X = Y"
proof (rule nth_equalityI)
  have nth: "mix (i, j, g) Z ! k = (if k = i then Z ! i + g (Z ! j) else Z ! k)"
    if "k < length Z" for Z k using that by (simp add: mix_def)
  fix k
  assume k: "k < length X"
  have same: "X ! m = Y ! m" if "m < length X" "m \<noteq> i" for m
    using that nth [of m X] nth [of m Y] assms by simp
  show "X ! k = Y ! k"
  proof (cases "k = i")
    case True
    then show ?thesis using nth [of i X] nth [of i Y] same [of j] assms k by simp
  qed (use same k in simp)
qed (rule assms)

lemma mixes_inj:
  "\<forall>(i, j, g) \<in> set ts. i \<noteq> j \<and> j < n \<Longrightarrow> length X = n \<Longrightarrow> length Y = n \<Longrightarrow>
     mixes ts X = mixes ts Y \<Longrightarrow> X = Y"
proof (induction ts arbitrary: X Y)
  case (Cons t ts)
  obtain i j g where t: "t = (i, j, g)" by (cases t)
  have "mix t X = mix t Y"
    by (rule Cons.IH) (use Cons.prems in \<open>simp_all add: mixes_def\<close>)
  then show ?case using Cons.prems by (auto simp: t intro: mix_inj)
qed (simp add: mixes_def)

lemma phase1_step_mixes:
  "phase1_step tk i p =
     mixes [(0, 4, \<lambda>x. S16 (x XOR TK16 tk (i mod 2 + 0))), (1, 0, \<lambda>x. S16 (x XOR TK16 tk (i mod 2 + 2))),
            (2, 1, \<lambda>x. S16 (x XOR TK16 tk (i mod 2 + 4))), (3, 2, \<lambda>x. S16 (x XOR TK16 tk (i mod 2 + 6))),
            (4, 3, \<lambda>x. S16 (x XOR TK16 tk (i mod 2 + 0))), (4, 0, \<lambda>x. of_nat i)] p"
  unfolding phase1_step_def mixes_let ..

lemma phase1_step_inj:
  "length p = 5 \<Longrightarrow> length q = 5 \<Longrightarrow> phase1_step tk i p = phase1_step tk i q \<Longrightarrow> p = q"
  unfolding phase1_step_mixes by (erule (2) mixes_inj [rotated]) simp

lemma phase1_rounds_inj:
  "length p = 5 \<Longrightarrow> length q = 5 \<Longrightarrow>
     fold (phase1_step tk) ns p = fold (phase1_step tk) ns q \<Longrightarrow> p = q"
proof (induction ns arbitrary: p q)
  case (Cons i ns)
  then have "phase1_step tk i p = phase1_step tk i q" by simp
  with Cons.prems show ?case by (blast intro: phase1_step_inj)
qed simp

lemma Mk16_inj [simp]: "Mk16 h l = Mk16 h' l' \<longleftrightarrow> h = h' \<and> l = l'"
proof
  assume eq: "Mk16 h l = Mk16 h' l'"
  have parts: "ucast (Mk16 a b) = b" "ucast (drop_bit 8 (Mk16 a b)) = a" for a b
    by (auto simp: Mk16_def bit_simps intro!: bit_word_eqI)
  show "h = h' \<and> l = l'" using parts [of h l] parts [of h' l'] eq by metis
qed simp

lemma Lo16_Hi16_inj: "Lo16 v = Lo16 w \<Longrightarrow> Hi16 v = Hi16 w \<Longrightarrow> v = w"
proof -
  have parts: "x = ucast (Lo16 x) OR push_bit 16 (ucast (Hi16 x))" for x
  proof (rule bit_word_eqI)
    fix n
    assume "n < LENGTH(32)"
    then show "bit x n \<longleftrightarrow> bit (ucast (Lo16 x) OR push_bit 16 (ucast (Hi16 x)) :: u32) n"
      by (cases "n < 16") (auto simp: Lo16_def Hi16_def bit_simps)
  qed
  assume "Lo16 v = Lo16 w" and "Hi16 v = Hi16 w"
  then show ?thesis using parts [of v] parts [of w] by simp
qed

lemma Lo8_Hi8_inj: "Lo8 v = Lo8 w \<Longrightarrow> Hi8 v = Hi8 w \<Longrightarrow> v = w"
proof -
  have parts: "x = ucast (Lo8 x) OR push_bit 8 (ucast (Hi8 x))" for x
  proof (rule bit_word_eqI)
    fix n
    assume "n < LENGTH(16)"
    then show "bit x n \<longleftrightarrow> bit (ucast (Lo8 x) OR push_bit 8 (ucast (Hi8 x)) :: u16) n"
      by (cases "n < 8") (auto simp: Lo8_def Hi8_def bit_simps)
  qed
  assume "Lo8 v = Lo8 w" and "Hi8 v = Hi8 w"
  then show ?thesis using parts [of v] parts [of w] by simp
qed

lemma list6: "length xs = 6 \<Longrightarrow> \<exists>a b c d e f. xs = [a, b, c, d, e, f]"
  by (auto simp: length_Suc_conv numeral_eq_Suc)

lemma phase1_inj:
  assumes "length ta = 6" and "length ta' = 6" and "phase1 tk ta iv = phase1 tk ta' iv'"
  shows "ta = ta' \<and> iv = iv'"
proof -
  obtain a b c d e f where ta: "ta = [a, b, c, d, e, f]" using list6 [OF assms(1)] by blast
  obtain a' b' c' d' e' f' where ta': "ta' = [a', b', c', d', e', f']"
    using list6 [OF assms(2)] by blast
  have "[Lo16 iv, Hi16 iv, Mk16 b a, Mk16 d c, Mk16 f e] =
      [Lo16 iv', Hi16 iv', Mk16 b' a', Mk16 d' c', Mk16 f' e']"
    by (rule phase1_rounds_inj [where tk = tk and ns = "[0..<PHASE1_LOOP_CNT]"])
       (use assms(3) in \<open>simp_all only: phase1_def ta ta'\<close>, simp_all)
  then show ?thesis by (simp add: ta ta' Lo16_Hi16_inj)
qed

lemma phase2_PPK_mixes:
  "phase2_PPK tk p iv =
     mixes [(0, 5, \<lambda>x. S16 (x XOR TK16 tk 0)), (1, 0, \<lambda>x. S16 (x XOR TK16 tk 1)),
            (2, 1, \<lambda>x. S16 (x XOR TK16 tk 2)), (3, 2, \<lambda>x. S16 (x XOR TK16 tk 3)),
            (4, 3, \<lambda>x. S16 (x XOR TK16 tk 4)), (5, 4, \<lambda>x. S16 (x XOR TK16 tk 5)),
            (0, 5, \<lambda>x. RotR1 (x XOR TK16 tk 6)), (1, 0, \<lambda>x. RotR1 (x XOR TK16 tk 7)),
            (2, 1, RotR1), (3, 2, RotR1), (4, 3, RotR1), (5, 4, RotR1)]
       [p ! 0, p ! 1, p ! 2, p ! 3, p ! 4, p ! 4 + iv]"
  unfolding phase2_PPK_def mixes_let Let_def [of "[p ! 0, p ! 1, p ! 2, p ! 3, p ! 4, p ! 4 + iv]"] ..

lemma phase2_PPK_inj:
  assumes "length p = 5" and "length q = 5" and "phase2_PPK tk p iv = phase2_PPK tk q iv'"
  shows "p = q \<and> iv = iv'"
proof -
  have "[p ! 0, p ! 1, p ! 2, p ! 3, p ! 4, p ! 4 + iv] = [q ! 0, q ! 1, q ! 2, q ! 3, q ! 4, q ! 4 + iv']"
    using assms(3) unfolding phase2_PPK_mixes by (rule mixes_inj [rotated -1, where n = 6]) simp_all
  then have "p ! 0 = q ! 0 \<and> p ! 1 = q ! 1 \<and> p ! 2 = q ! 2 \<and> p ! 3 = q ! 3 \<and> p ! 4 = q ! 4"
    and iv: "iv = iv'" by auto
  then have "p = q"
    using list5 [OF assms(1)] list5 [OF assms(2)] by (elim exE) simp
  then show ?thesis using iv ..
qed

lemma length_mixes [simp]: "length (mixes ts X) = length X"
  unfolding mixes_def by (induction ts arbitrary: X) simp_all

lemma length_phase2_PPK [simp]: "length (phase2_PPK tk p iv) = 6"
  by (simp add: phase2_PPK_mixes)

lemma phase2_list:
  "phase2 tk p iv = (let PPK = phase2_PPK tk p iv in
     [Hi8 iv, (Hi8 iv OR 0x20) AND 0x7F, Lo8 iv, Lo8 (drop_bit 1 (PPK ! 5 XOR TK16 tk 0)),
      Lo8 (PPK ! 0), Hi8 (PPK ! 0), Lo8 (PPK ! 1), Hi8 (PPK ! 1), Lo8 (PPK ! 2), Hi8 (PPK ! 2),
      Lo8 (PPK ! 3), Hi8 (PPK ! 3), Lo8 (PPK ! 4), Hi8 (PPK ! 4), Lo8 (PPK ! 5), Hi8 (PPK ! 5)])"
proof -
  have six: "[0..<6] = [0, 1, 2, 3, 4, 5 :: nat]" by (simp add: upt_rec)
  show ?thesis unfolding phase2_def six Let_def by simp
qed

lemma length_phase2 [simp]: "length (phase2 tk p iv) = 16"
  by (simp add: phase2_list Let_def)

lemma phase2_eq_PPK:
  assumes "phase2 tk p iv = phase2 tk' q iv'"
  shows "phase2_PPK tk p iv = phase2_PPK tk' q iv'"
proof (rule nth_equalityI)
  let ?P = "phase2_PPK tk p iv" and ?Q = "phase2_PPK tk' q iv'"
  fix i
  assume "i < length ?P"
  then have "i = 0 \<or> i = 1 \<or> i = 2 \<or> i = 3 \<or> i = 4 \<or> i = 5" by auto
  moreover have "Lo8 (?P ! i) = Lo8 (?Q ! i) \<and> Hi8 (?P ! i) = Hi8 (?Q ! i)"
    if "i = 0 \<or> i = 1 \<or> i = 2 \<or> i = 3 \<or> i = 4 \<or> i = 5"
    using that assms unfolding phase2_list Let_def list.inject by blast
  ultimately show "?P ! i = ?Q ! i" by (blast intro: Lo8_Hi8_inj)
qed simp

text \<open>
  C3. Per-packet key uniqueness, the guarantee stated in the comments of \<^verbatim>\<open>phase1\<close> and
  \<^verbatim>\<open>phase2\<close>: under one temporal key, two different combinations of transmitter address
  and 48-bit TKIP sequence counter never give the same 16-byte RC4 key.
\<close>

theorem rc4key_unique:
  assumes "length ta = 6" and "length ta' = 6"
    and "(ta, iv32, iv16) \<noteq> (ta', iv32', iv16')"
  shows "phase2 tk (phase1 tk ta iv32) iv16 \<noteq> phase2 tk (phase1 tk ta' iv32') iv16'"
proof
  assume eq: "phase2 tk (phase1 tk ta iv32) iv16 = phase2 tk (phase1 tk ta' iv32') iv16'"
  have "phase1 tk ta iv32 = phase1 tk ta' iv32' \<and> iv16 = iv16'"
    using phase2_PPK_inj [OF length_phase1 length_phase1 phase2_eq_PPK [OF eq]] .
  then show False using phase1_inj [OF assms(1,2)] assms(3) by blast
qed

theorem rc4key_unique_witness:
  "phase2 (replicate 16 0x11) (phase1 (replicate 16 0x11) [0, 1, 2, 3, 4, 5] 7) 8
     \<noteq> phase2 (replicate 16 0x11) (phase1 (replicate 16 0x11) [0, 1, 2, 3, 4, 5] 7) 9"
  using rc4key_unique [of "[0, 1, 2, 3, 4, 5]" "[0, 1, 2, 3, 4, 5]" 7 8 7 9] by simp

end
