(* ===== verification/Rtw_Aes.thy ===== *)
theory Rtw_Aes
  imports Rtw_Blocks
begin

unbundle bit_operations_syntax

text \<open>
  The byte-oriented AES-128 of \<^verbatim>\<open>core/rtw_security.c\<close> (\<^verbatim>\<open>aes128k128d\<close> with
  \<^verbatim>\<open>xor_128\<close>, \<^verbatim>\<open>xor_32\<close>, \<^verbatim>\<open>sbox\<close>, \<^verbatim>\<open>next_key\<close>, \<^verbatim>\<open>byte_sub\<close>, \<^verbatim>\<open>shift_row\<close>,
  \<^verbatim>\<open>mix_column\<close>), which CCMP uses. Sixteen-byte arrays are lists; a routine that
  reads \<^verbatim>\<open>n\<close> bytes through a pointer takes a list of at least \<open>n\<close> bytes.

  \<open>mix_column_field\<close> shows that the shift-and-mask code of \<^verbatim>\<open>mix_column\<close> is the
  multiplication of a column by the AES matrix over GF(2^8), and \<open>length_aes128k128d\<close>
  is the fact about block lengths that the modes of operation rely on.
\<close>

definition sbox_table :: bytes where
  "sbox_table =
  [0x63, 0x7C, 0x77, 0x7B, 0xF2, 0x6B, 0x6F, 0xC5, 0x30, 0x01, 0x67, 0x2B, 0xFE, 0xD7, 0xAB, 0x76,
   0xCA, 0x82, 0xC9, 0x7D, 0xFA, 0x59, 0x47, 0xF0, 0xAD, 0xD4, 0xA2, 0xAF, 0x9C, 0xA4, 0x72, 0xC0,
   0xB7, 0xFD, 0x93, 0x26, 0x36, 0x3F, 0xF7, 0xCC, 0x34, 0xA5, 0xE5, 0xF1, 0x71, 0xD8, 0x31, 0x15,
   0x04, 0xC7, 0x23, 0xC3, 0x18, 0x96, 0x05, 0x9A, 0x07, 0x12, 0x80, 0xE2, 0xEB, 0x27, 0xB2, 0x75,
   0x09, 0x83, 0x2C, 0x1A, 0x1B, 0x6E, 0x5A, 0xA0, 0x52, 0x3B, 0xD6, 0xB3, 0x29, 0xE3, 0x2F, 0x84,
   0x53, 0xD1, 0x00, 0xED, 0x20, 0xFC, 0xB1, 0x5B, 0x6A, 0xCB, 0xBE, 0x39, 0x4A, 0x4C, 0x58, 0xCF,
   0xD0, 0xEF, 0xAA, 0xFB, 0x43, 0x4D, 0x33, 0x85, 0x45, 0xF9, 0x02, 0x7F, 0x50, 0x3C, 0x9F, 0xA8,
   0x51, 0xA3, 0x40, 0x8F, 0x92, 0x9D, 0x38, 0xF5, 0xBC, 0xB6, 0xDA, 0x21, 0x10, 0xFF, 0xF3, 0xD2,
   0xCD, 0x0C, 0x13, 0xEC, 0x5F, 0x97, 0x44, 0x17, 0xC4, 0xA7, 0x7E, 0x3D, 0x64, 0x5D, 0x19, 0x73,
   0x60, 0x81, 0x4F, 0xDC, 0x22, 0x2A, 0x90, 0x88, 0x46, 0xEE, 0xB8, 0x14, 0xDE, 0x5E, 0x0B, 0xDB,
   0xE0, 0x32, 0x3A, 0x0A, 0x49, 0x06, 0x24, 0x5C, 0xC2, 0xD3, 0xAC, 0x62, 0x91, 0x95, 0xE4, 0x79,
   0xE7, 0xC8, 0x37, 0x6D, 0x8D, 0xD5, 0x4E, 0xA9, 0x6C, 0x56, 0xF4, 0xEA, 0x65, 0x7A, 0xAE, 0x08,
   0xBA, 0x78, 0x25, 0x2E, 0x1C, 0xA6, 0xB4, 0xC6, 0xE8, 0xDD, 0x74, 0x1F, 0x4B, 0xBD, 0x8B, 0x8A,
   0x70, 0x3E, 0xB5, 0x66, 0x48, 0x03, 0xF6, 0x0E, 0x61, 0x35, 0x57, 0xB9, 0x86, 0xC1, 0x1D, 0x9E,
   0xE1, 0xF8, 0x98, 0x11, 0x69, 0xD9, 0x8E, 0x94, 0x9B, 0x1E, 0x87, 0xE9, 0xCE, 0x55, 0x28, 0xDF,
   0x8C, 0xA1, 0x89, 0x0D, 0xBF, 0xE6, 0x42, 0x68, 0x41, 0x99, 0x2D, 0x0F, 0xB0, 0x54, 0xBB, 0x16]"

definition xor_128 :: "bytes \<Rightarrow> bytes \<Rightarrow> bytes" where
  "xor_128 a b = map (\<lambda>i. a ! i XOR b ! i) [0..<16]"

definition xor_32 :: "bytes \<Rightarrow> bytes \<Rightarrow> bytes" where
  "xor_32 a b = map (\<lambda>i. a ! i XOR b ! i) [0..<4]"

definition sbox :: "u8 \<Rightarrow> u8" where
  "sbox a = sbox_table ! unat a"

definition rcon_table :: bytes where
  "rcon_table = [0x01, 0x02, 0x04, 0x08, 0x10, 0x20, 0x40, 0x80, 0x1B, 0x36, 0x36, 0x36]"

definition next_key :: "bytes \<Rightarrow> nat \<Rightarrow> bytes" where
  "next_key key round =
     (let sbox_key = [sbox (key ! 13), sbox (key ! 14), sbox (key ! 15), sbox (key ! 12)];
          rcon = rcon_table ! round;
          key0 = xor_32 key sbox_key;
          key0 = key0[0 := key0 ! 0 XOR rcon];
          key4 = xor_32 (drop 4 key) key0;
          key8 = xor_32 (drop 8 key) key4;
          key12 = xor_32 (drop 12 key) key8
      in key0 @ key4 @ key8 @ key12)"

definition byte_sub :: "bytes \<Rightarrow> bytes" where
  "byte_sub inp = map (\<lambda>i. sbox (inp ! i)) [0..<16]"

definition shift_row :: "bytes \<Rightarrow> bytes" where
  "shift_row inp =
     [inp ! 0, inp ! 5, inp ! 10, inp ! 15, inp ! 4, inp ! 9, inp ! 14, inp ! 3,
      inp ! 8, inp ! 13, inp ! 2, inp ! 7, inp ! 12, inp ! 1, inp ! 6, inp ! 11]"

text \<open>
  \<^verbatim>\<open>for (i = 3; i>0; i--)\<close> of \<^verbatim>\<open>mix_column\<close>: shift the masked bytes left by one bit,
  with the carry of the neighbour (which the mask \<^verbatim>\<open>0x7f\<close> has cleared).
\<close>

definition mix_shift :: "bytes \<Rightarrow> nat \<Rightarrow> bytes" where
  "mix_shift andf7 i =
     (let andf7 = andf7[i := push_bit 1 (andf7 ! i)]
      in if andf7 ! (i - 1) AND 0x80 = 0x80 then andf7[i := andf7 ! i OR 0x01] else andf7)"

definition mix_column :: "bytes \<Rightarrow> bytes" where
  "mix_column inp =
     (let add1b = map (\<lambda>i. if inp ! i AND 0x80 = 0x80 then 0x1B else 0) [0..<4];
          swap_halfs = [inp ! 2, inp ! 3, inp ! 0, inp ! 1];
          rotl = [inp ! 3, inp ! 0, inp ! 1, inp ! 2];
          andf7 = [inp ! 0 AND 0x7F, inp ! 1 AND 0x7F, inp ! 2 AND 0x7F, inp ! 3 AND 0x7F];
          andf7 = mix_shift (mix_shift (mix_shift andf7 3) 2) 1;
          andf7 = andf7[0 := push_bit 1 (andf7 ! 0)];
          andf7 = andf7[0 := andf7 ! 0 AND 0xFE];
          add1bf7 = xor_32 add1b andf7;
          rotr = xor_32 inp add1bf7;
          rotr = [rotr ! 1, rotr ! 2, rotr ! 3, rotr ! 0];
          temp = xor_32 add1bf7 rotr;
          tempb = xor_32 swap_halfs rotl
      in xor_32 temp tempb)"

definition aes_round :: "bytes \<Rightarrow> nat \<Rightarrow> bytes \<times> bytes \<Rightarrow> bytes \<times> bytes" where
  "aes_round data round = (\<lambda>(ciphertext, round_key).
     if round = 0 then (xor_128 round_key data, next_key round_key round)
     else if round = 10 then
       let intermediatea = byte_sub ciphertext;
           intermediateb = shift_row intermediatea
       in (xor_128 intermediateb round_key, round_key)
     else
       let intermediatea = byte_sub ciphertext;
           intermediateb = shift_row intermediatea;
           intermediatea = mix_column intermediateb @ mix_column (drop 4 intermediateb)
             @ mix_column (drop 8 intermediateb) @ mix_column (drop 12 intermediateb)
       in (xor_128 intermediatea round_key, next_key round_key round))"

definition aes128k128d :: "bytes \<Rightarrow> bytes \<Rightarrow> bytes" where
  "aes128k128d key data =
     fst (fold (aes_round data) [0..<11] (replicate 16 0, map (\<lambda>i. key ! i) [0..<16]))"

section \<open>Lengths\<close>

lemma length_xor_128 [simp]: "length (xor_128 a b) = 16"
  by (simp add: xor_128_def)

lemma length_xor_32 [simp]: "length (xor_32 a b) = 4"
  by (simp add: xor_32_def)

lemma length_next_key [simp]: "length (next_key k r) = 16"
  by (simp add: next_key_def Let_def)

lemma length_mix_column [simp]: "length (mix_column c) = 4"
  by (simp add: mix_column_def Let_def)

lemma upt_11: "[0..<11] = [0..<10] @ [10 :: nat]"
  by (simp add: upt_rec)

lemma length_aes128k128d [simp]: "length (aes128k128d k d) = 16"
  by (simp add: aes128k128d_def upt_11 aes_round_def Let_def split_beta)

lemma xor_128_bytewise: "length a = 16 \<Longrightarrow> length b = 16 \<Longrightarrow> xor_128 a b = bytewise a b"
  by (rule nth_equalityI) (simp_all add: xor_128_def)

section \<open>The column mixing is the field multiplication\<close>

definition xtime :: "u8 \<Rightarrow> u8" where
  "xtime b = push_bit 1 b XOR (if bit b 7 then 0x1B else 0)"

lemma and_msb_u8: "((b :: u8) AND 0x80 = 0x80) \<longleftrightarrow> bit b 7"
proof -
  have pow: "(0x80 :: u8) = 2 ^ 7" by simp
  have "(b AND 2 ^ 7 = 2 ^ 7) \<longleftrightarrow> bit b 7"
  proof
    assume eq: "b AND 2 ^ 7 = 2 ^ 7"
    have "bit (2 ^ 7 :: u8) 7" by simp
    then have "bit (b AND 2 ^ 7) 7" by (simp only: eq)
    then show "bit b 7" by (simp only: bit_and_iff)
  next
    assume "bit b 7"
    then show "b AND 2 ^ 7 = 2 ^ 7"
      by (intro bit_word_eqI) (auto simp only: bit_and_iff bit_exp_iff)
  qed
  then show ?thesis by (simp only: pow)
qed

lemma bit_7f [simp]: "bit (0x7F :: int) n \<longleftrightarrow> n < 7" "bit (0xFE :: int) n \<longleftrightarrow> 0 < n \<and> n < 8"
proof -
  have "(0x7F :: int) = mask 7" "(0xFE :: int) = push_bit 1 (mask 7)"
    by (simp_all add: mask_eq_exp_minus_1)
  then show "bit (0x7F :: int) n \<longleftrightarrow> n < 7" "bit (0xFE :: int) n \<longleftrightarrow> 0 < n \<and> n < 8"
    by (simp_all only: bit_push_bit_iff bit_mask_iff) auto
qed

lemma shift_7f: "((b :: u8) AND 0x7F) * 2 = b * 2"
  by (rule bit_word_eqI) (auto simp: bit_double_word bit_and_iff bit_numeral_word_iff)

lemma shift_fe: "(b :: u8) * 2 AND 0xFE = b * 2"
  by (rule bit_word_eqI) (auto simp: bit_double_word bit_and_iff bit_numeral_word_iff)

lemma masked_msb: "\<not> (((b :: u8) AND 0x7F) AND 0x80 = 0x80)"
  unfolding and_msb_u8 by (simp add: bit_and_iff)

lemma mix_column_field:
  "mix_column inp =
     (let a = inp ! 0; b = inp ! 1; c = inp ! 2; d = inp ! 3
      in [xtime a XOR (xtime b XOR b) XOR c XOR d,
          a XOR xtime b XOR (xtime c XOR c) XOR d,
          a XOR b XOR xtime c XOR (xtime d XOR d),
          (xtime a XOR a) XOR b XOR c XOR xtime d])"
proof -
  have four: "[0..<4] = [0, 1, 2, 3 :: nat]" by (simp add: upt_rec)
  let ?m = "\<lambda>i. inp ! i AND 0x7F"
  have sh: "mix_shift (mix_shift (mix_shift [?m 0, ?m 1, ?m 2, ?m 3] 3) 2) 1
      = [?m 0, push_bit 1 (inp ! 1), push_bit 1 (inp ! 2), push_bit 1 (inp ! 3)]"
    by (simp add: mix_shift_def masked_msb shift_7f shift_fe)
  show ?thesis
    unfolding mix_column_def Let_def sh xor_32_def four
    by (simp add: and_msb_u8 shift_7f shift_fe xtime_def xor.assoc xor.commute xor.left_commute)
qed

section \<open>Cipher block chaining\<close>

definition cbc_step :: "bytes \<Rightarrow> bytes \<Rightarrow> bytes \<Rightarrow> bytes" where
  "cbc_step key X b = aes128k128d key (bytewise X b)"

lemma length_cbc_step [simp]: "length (cbc_step key X b) = 16"
  by (simp add: cbc_step_def)

lemma length_cbc: "length X = 16 \<Longrightarrow> length (chain 16 (cbc_step key) X xs) = 16"
proof (induction "length xs" arbitrary: xs X rule: less_induct)
  case less
  show ?case by (rule block_cases [of 16 xs]) (simp_all add: chain_block less)
qed

end
