(* ===== verification/Rtw_Rijndael.thy ===== *)
theory Rtw_Rijndael
  imports Rtw_Aes
begin

unbundle bit_operations_syntax

text \<open>
  The table-driven AES-128 of \<^verbatim>\<open>core/rtw_security.c\<close> (\<^verbatim>\<open>rijndaelKeySetupEnc\<close>,
  \<^verbatim>\<open>rijndaelEncrypt\<close>, \<^verbatim>\<open>aes_128_encrypt\<close>) with the macros of
  \<^verbatim>\<open>include/rtw_security.h\<close>. It works on four 32-bit words, with one 1 KiB table
  that fuses the S-box and the column mixing; OMAC1 uses it. The driver thus holds two
  independent AES implementations, and \<open>rijndael_is_aes\<close> proves that they are the same
  function.
\<close>

section \<open>Tables and macros\<close>

definition Te0 :: "u32 list" where
  "Te0 =
  [0xC66363A5, 0xF87C7C84, 0xEE777799, 0xF67B7B8D, 0xFFF2F20D, 0xD66B6BBD,
   0xDE6F6FB1, 0x91C5C554, 0x60303050, 0x02010103, 0xCE6767A9, 0x562B2B7D,
   0xE7FEFE19, 0xB5D7D762, 0x4DABABE6, 0xEC76769A, 0x8FCACA45, 0x1F82829D,
   0x89C9C940, 0xFA7D7D87, 0xEFFAFA15, 0xB25959EB, 0x8E4747C9, 0xFBF0F00B,
   0x41ADADEC, 0xB3D4D467, 0x5FA2A2FD, 0x45AFAFEA, 0x239C9CBF, 0x53A4A4F7,
   0xE4727296, 0x9BC0C05B, 0x75B7B7C2, 0xE1FDFD1C, 0x3D9393AE, 0x4C26266A,
   0x6C36365A, 0x7E3F3F41, 0xF5F7F702, 0x83CCCC4F, 0x6834345C, 0x51A5A5F4,
   0xD1E5E534, 0xF9F1F108, 0xE2717193, 0xABD8D873, 0x62313153, 0x2A15153F,
   0x0804040C, 0x95C7C752, 0x46232365, 0x9DC3C35E, 0x30181828, 0x379696A1,
   0x0A05050F, 0x2F9A9AB5, 0x0E070709, 0x24121236, 0x1B80809B, 0xDFE2E23D,
   0xCDEBEB26, 0x4E272769, 0x7FB2B2CD, 0xEA75759F, 0x1209091B, 0x1D83839E,
   0x582C2C74, 0x341A1A2E, 0x361B1B2D, 0xDC6E6EB2, 0xB45A5AEE, 0x5BA0A0FB,
   0xA45252F6, 0x763B3B4D, 0xB7D6D661, 0x7DB3B3CE, 0x5229297B, 0xDDE3E33E,
   0x5E2F2F71, 0x13848497, 0xA65353F5, 0xB9D1D168, 0x00000000, 0xC1EDED2C,
   0x40202060, 0xE3FCFC1F, 0x79B1B1C8, 0xB65B5BED, 0xD46A6ABE, 0x8DCBCB46,
   0x67BEBED9, 0x7239394B, 0x944A4ADE, 0x984C4CD4, 0xB05858E8, 0x85CFCF4A,
   0xBBD0D06B, 0xC5EFEF2A, 0x4FAAAAE5, 0xEDFBFB16, 0x864343C5, 0x9A4D4DD7,
   0x66333355, 0x11858594, 0x8A4545CF, 0xE9F9F910, 0x04020206, 0xFE7F7F81,
   0xA05050F0, 0x783C3C44, 0x259F9FBA, 0x4BA8A8E3, 0xA25151F3, 0x5DA3A3FE,
   0x804040C0, 0x058F8F8A, 0x3F9292AD, 0x219D9DBC, 0x70383848, 0xF1F5F504,
   0x63BCBCDF, 0x77B6B6C1, 0xAFDADA75, 0x42212163, 0x20101030, 0xE5FFFF1A,
   0xFDF3F30E, 0xBFD2D26D, 0x81CDCD4C, 0x180C0C14, 0x26131335, 0xC3ECEC2F,
   0xBE5F5FE1, 0x359797A2, 0x884444CC, 0x2E171739, 0x93C4C457, 0x55A7A7F2,
   0xFC7E7E82, 0x7A3D3D47, 0xC86464AC, 0xBA5D5DE7, 0x3219192B, 0xE6737395,
   0xC06060A0, 0x19818198, 0x9E4F4FD1, 0xA3DCDC7F, 0x44222266, 0x542A2A7E,
   0x3B9090AB, 0x0B888883, 0x8C4646CA, 0xC7EEEE29, 0x6BB8B8D3, 0x2814143C,
   0xA7DEDE79, 0xBC5E5EE2, 0x160B0B1D, 0xADDBDB76, 0xDBE0E03B, 0x64323256,
   0x743A3A4E, 0x140A0A1E, 0x924949DB, 0x0C06060A, 0x4824246C, 0xB85C5CE4,
   0x9FC2C25D, 0xBDD3D36E, 0x43ACACEF, 0xC46262A6, 0x399191A8, 0x319595A4,
   0xD3E4E437, 0xF279798B, 0xD5E7E732, 0x8BC8C843, 0x6E373759, 0xDA6D6DB7,
   0x018D8D8C, 0xB1D5D564, 0x9C4E4ED2, 0x49A9A9E0, 0xD86C6CB4, 0xAC5656FA,
   0xF3F4F407, 0xCFEAEA25, 0xCA6565AF, 0xF47A7A8E, 0x47AEAEE9, 0x10080818,
   0x6FBABAD5, 0xF0787888, 0x4A25256F, 0x5C2E2E72, 0x381C1C24, 0x57A6A6F1,
   0x73B4B4C7, 0x97C6C651, 0xCBE8E823, 0xA1DDDD7C, 0xE874749C, 0x3E1F1F21,
   0x964B4BDD, 0x61BDBDDC, 0x0D8B8B86, 0x0F8A8A85, 0xE0707090, 0x7C3E3E42,
   0x71B5B5C4, 0xCC6666AA, 0x904848D8, 0x06030305, 0xF7F6F601, 0x1C0E0E12,
   0xC26161A3, 0x6A35355F, 0xAE5757F9, 0x69B9B9D0, 0x17868691, 0x99C1C158,
   0x3A1D1D27, 0x279E9EB9, 0xD9E1E138, 0xEBF8F813, 0x2B9898B3, 0x22111133,
   0xD26969BB, 0xA9D9D970, 0x078E8E89, 0x339494A7, 0x2D9B9BB6, 0x3C1E1E22,
   0x15878792, 0xC9E9E920, 0x87CECE49, 0xAA5555FF, 0x50282878, 0xA5DFDF7A,
   0x038C8C8F, 0x59A1A1F8, 0x09898980, 0x1A0D0D17, 0x65BFBFDA, 0xD7E6E631,
   0x844242C6, 0xD06868B8, 0x824141C3, 0x299999B0, 0x5A2D2D77, 0x1E0F0F11,
   0x7BB0B0CB, 0xA85454FC, 0x6DBBBBD6, 0x2C16163A]"

definition rcons :: bytes where
  "rcons = [0x01, 0x02, 0x04, 0x08, 0x10, 0x20, 0x40, 0x80, 0x1B, 0x36]"

definition RCON :: "nat \<Rightarrow> u32" where
  "RCON i = push_bit 24 (ucast (rcons ! i))"

definition rotr :: "u32 \<Rightarrow> nat \<Rightarrow> u32" where
  "rotr val bits = drop_bit bits val OR push_bit (32 - bits) val"

definition te_at :: "u32 \<Rightarrow> nat \<Rightarrow> u32" where
  "te_at i k = Te0 ! unat (drop_bit k i AND 0xFF)"

definition TE0 :: "u32 \<Rightarrow> u32" where "TE0 i = te_at i 24"
definition TE1 :: "u32 \<Rightarrow> u32" where "TE1 i = rotr (te_at i 16) 8"
definition TE2 :: "u32 \<Rightarrow> u32" where "TE2 i = rotr (te_at i 8) 16"
definition TE3 :: "u32 \<Rightarrow> u32" where "TE3 i = rotr (te_at i 0) 24"
definition TE41 :: "u32 \<Rightarrow> u32" where "TE41 i = push_bit 8 (te_at i 24) AND 0xFF000000"
definition TE42 :: "u32 \<Rightarrow> u32" where "TE42 i = te_at i 16 AND 0x00FF0000"
definition TE43 :: "u32 \<Rightarrow> u32" where "TE43 i = te_at i 8 AND 0x0000FF00"
definition TE44 :: "u32 \<Rightarrow> u32" where "TE44 i = drop_bit 8 (te_at i 0) AND 0x000000FF"
definition TE421 :: "u32 \<Rightarrow> u32" where "TE421 i = push_bit 8 (te_at i 16) AND 0xFF000000"
definition TE432 :: "u32 \<Rightarrow> u32" where "TE432 i = te_at i 8 AND 0x00FF0000"
definition TE443 :: "u32 \<Rightarrow> u32" where "TE443 i = te_at i 0 AND 0x0000FF00"
definition TE414 :: "u32 \<Rightarrow> u32" where "TE414 i = drop_bit 8 (te_at i 24) AND 0x000000FF"

text \<open>\<^verbatim>\<open>GETU32\<close> through a pointer at offset \<open>k\<close>.\<close>

definition getu32_at :: "bytes \<Rightarrow> nat \<Rightarrow> u32" where
  "getu32_at b k = GETU32 (b ! k) (b ! (k + 1)) (b ! (k + 2)) (b ! (k + 3))"

section \<open>Key schedule and cipher\<close>

text \<open>
  \<^verbatim>\<open>rk\<close> advances by four words per turn and the four words after the last ones are
  written, so the array filled so far is a list that grows at its end.
\<close>

definition rijndaelKeySetup_step :: "nat \<Rightarrow> u32 list \<Rightarrow> u32 list" where
  "rijndaelKeySetup_step i rk =
     (let temp = rk ! (4 * i + 3);
          rk4 = rk ! (4 * i) XOR TE421 temp XOR TE432 temp XOR TE443 temp XOR TE414 temp XOR RCON i;
          rk5 = rk ! (4 * i + 1) XOR rk4;
          rk6 = rk ! (4 * i + 2) XOR rk5;
          rk7 = rk ! (4 * i + 3) XOR rk6
      in rk @ [rk4, rk5, rk6, rk7])"

definition rijndaelKeySetupEnc :: "bytes \<Rightarrow> u32 list" where
  "rijndaelKeySetupEnc cipherKey =
     fold rijndaelKeySetup_step [0..<10]
       [getu32_at cipherKey 0, getu32_at cipherKey 4, getu32_at cipherKey 8, getu32_at cipherKey 12]"

type_synonym state4 = "u32 \<times> u32 \<times> u32 \<times> u32"

definition ROUND :: "nat \<Rightarrow> u32 list \<Rightarrow> state4 \<Rightarrow> state4" where
  "ROUND i rk = (\<lambda>(s0, s1, s2, s3).
     (TE0 s0 XOR TE1 s1 XOR TE2 s2 XOR TE3 s3 XOR rk ! (4 * i),
      TE0 s1 XOR TE1 s2 XOR TE2 s3 XOR TE3 s0 XOR rk ! (4 * i + 1),
      TE0 s2 XOR TE1 s3 XOR TE2 s0 XOR TE3 s1 XOR rk ! (4 * i + 2),
      TE0 s3 XOR TE1 s0 XOR TE2 s1 XOR TE3 s2 XOR rk ! (4 * i + 3)))"

text \<open>
  The \<^verbatim>\<open>for (;;)\<close> loop: \<open>r\<close> counts down and the exit is taken between the two half
  turns, after \<^verbatim>\<open>rk\<close> has advanced by eight words.
\<close>

fun rijndael_loop :: "nat \<Rightarrow> u32 list \<Rightarrow> state4 \<Rightarrow> u32 list \<times> state4" where
  "rijndael_loop 0 rk s = (rk, s)"
| "rijndael_loop (Suc r) rk s =
     (let t = ROUND 1 rk s; rk = drop 8 rk
      in if r = 0 then (rk, t) else rijndael_loop r rk (ROUND 0 rk t))"

definition rijndaelEncrypt :: "u32 list \<Rightarrow> bytes \<Rightarrow> bytes" where
  "rijndaelEncrypt rk pt =
     (let s0 = getu32_at pt 0 XOR rk ! 0;
          s1 = getu32_at pt 4 XOR rk ! 1;
          s2 = getu32_at pt 8 XOR rk ! 2;
          s3 = getu32_at pt 12 XOR rk ! 3;
          (rk, t0, t1, t2, t3) = rijndael_loop (10 div 2) rk (s0, s1, s2, s3)
      in PUTU32 (TE41 t0 XOR TE42 t1 XOR TE43 t2 XOR TE44 t3 XOR rk ! 0)
         @ PUTU32 (TE41 t1 XOR TE42 t2 XOR TE43 t3 XOR TE44 t0 XOR rk ! 1)
         @ PUTU32 (TE41 t2 XOR TE42 t3 XOR TE43 t0 XOR TE44 t1 XOR rk ! 2)
         @ PUTU32 (TE41 t3 XOR TE42 t0 XOR TE43 t1 XOR TE44 t2 XOR rk ! 3))"

section \<open>The table fuses the S-box and the column mixing\<close>

lemma Te0_table: "Te0 = map (\<lambda>s. GETU32 (xtime s) s s (xtime s XOR s)) sbox_table"
  by (simp add: Te0_def sbox_table_def GETU32_def xtime_def)

lemma length_sbox_table [simp]: "length sbox_table = 256"
  by (simp add: sbox_table_def)

lemma Te0_sbox:
  "Te0 ! unat b = GETU32 (xtime (sbox b)) (sbox b) (sbox b) (xtime (sbox b) XOR sbox b)"
  by (simp add: Te0_table sbox_def)

text \<open>Words are compared byte by byte.\<close>

lemma u32_byte_eqI:
  fixes x y :: u32
  assumes "\<And>m. m < 8 \<Longrightarrow> bit x m = bit y m" and "\<And>m. m < 8 \<Longrightarrow> bit x (8 + m) = bit y (8 + m)"
    and "\<And>m. m < 8 \<Longrightarrow> bit x (16 + m) = bit y (16 + m)"
    and "\<And>m. m < 8 \<Longrightarrow> bit x (24 + m) = bit y (24 + m)"
  shows "x = y"
proof (rule bit_word_eqI)
  fix n
  assume "n < LENGTH(32)"
  then consider "n < 8" | "8 \<le> n" "n < 16" | "16 \<le> n" "n < 24" | "24 \<le> n" "n < 32" by fastforce
  then show "bit x n = bit y n"
    using assms(1) [of n] assms(2) [of "n - 8"] assms(3) [of "n - 16"] assms(4) [of "n - 24"]
    by cases auto
qed

lemma bit_GETU32 [simp]:
  "m < 8 \<Longrightarrow> bit (GETU32 a b c d) m = bit d m"
  "m < 8 \<Longrightarrow> bit (GETU32 a b c d) (8 + m) = bit c m"
  "m < 8 \<Longrightarrow> bit (GETU32 a b c d) (16 + m) = bit b m"
  "m < 8 \<Longrightarrow> bit (GETU32 a b c d) (24 + m) = bit a m"
  by (auto simp: GETU32_def bit_simps)

lemma GETU32_xor:
  "GETU32 a b c d XOR GETU32 a' b' c' d' = GETU32 (a XOR a') (b XOR b') (c XOR c') (d XOR d')"
  by (rule u32_byte_eqI) (simp_all add: bit_xor_iff)

lemmas byte_bits = bit_or_iff bit_and_iff bit_drop_bit_eq bit_push_bit_iff bit_unsigned_iff

lemma rotr_GETU32:
  "rotr (GETU32 a b c d) 8 = GETU32 d a b c"
  "rotr (GETU32 a b c d) 16 = GETU32 c d a b"
  "rotr (GETU32 a b c d) 24 = GETU32 b c d a"
  unfolding rotr_def
  by (auto intro!: u32_byte_eqI simp: byte_bits)

lemma bit_byte_masks:
  "bit (0xFF000000 :: u32) n \<longleftrightarrow> 24 \<le> n \<and> n < 32"
  "bit (0x00FF0000 :: u32) n \<longleftrightarrow> 16 \<le> n \<and> n < 24"
  "bit (0x0000FF00 :: u32) n \<longleftrightarrow> 8 \<le> n \<and> n < 16"
  "bit (0x000000FF :: u32) n \<longleftrightarrow> n < 8"
proof -
  have "(0xFF000000 :: u32) = push_bit 24 (mask 8)" "(0x00FF0000 :: u32) = push_bit 16 (mask 8)"
    "(0x0000FF00 :: u32) = push_bit 8 (mask 8)" "(0x000000FF :: u32) = mask 8"
    by (simp_all add: mask_eq_exp_minus_1)
  then show "bit (0xFF000000 :: u32) n \<longleftrightarrow> 24 \<le> n \<and> n < 32"
    "bit (0x00FF0000 :: u32) n \<longleftrightarrow> 16 \<le> n \<and> n < 24"
    "bit (0x0000FF00 :: u32) n \<longleftrightarrow> 8 \<le> n \<and> n < 16"
    "bit (0x000000FF :: u32) n \<longleftrightarrow> n < 8"
    by (simp_all only: bit_push_bit_iff bit_mask_iff) auto
qed

lemma mask_GETU32:
  "push_bit 8 (GETU32 a b c d) AND 0xFF000000 = GETU32 b 0 0 0"
  "GETU32 a b c d AND 0x00FF0000 = GETU32 0 b 0 0"
  "GETU32 a b c d AND 0x0000FF00 = GETU32 0 0 c 0"
  "drop_bit 8 (GETU32 a b c d) AND 0x000000FF = GETU32 0 0 0 c"
  by (auto intro!: u32_byte_eqI simp: byte_bits bit_byte_masks simp del: bit_numeral_word_iff)

lemma select_GETU32:
  "drop_bit 24 (GETU32 a b c d) AND 0xFF = ucast a"
  "drop_bit 16 (GETU32 a b c d) AND 0xFF = ucast b"
  "drop_bit 8 (GETU32 a b c d) AND 0xFF = ucast c"
  "drop_bit 0 (GETU32 a b c d) AND 0xFF = ucast d"
  by (auto intro!: u32_byte_eqI simp: byte_bits bit_byte_masks simp del: bit_numeral_word_iff)

lemma unat_ucast_u8_u32 [simp]: "unat (ucast (b :: u8) :: u32) = unat b"
proof -
  have "unat b < 2 ^ 32" by (rule less_trans [OF unat_u8_lt]) simp
  then show ?thesis by (simp add: unsigned_ucast_eq unsigned_take_bit_eq take_bit_nat_eq_self)
qed

lemma te_at_GETU32:
  "te_at (GETU32 a b c d) 24 = Te0 ! unat a" "te_at (GETU32 a b c d) 16 = Te0 ! unat b"
  "te_at (GETU32 a b c d) 8 = Te0 ! unat c" "te_at (GETU32 a b c d) 0 = Te0 ! unat d"
  unfolding te_at_def select_GETU32 by simp_all

text \<open>The macros on a word given by its four bytes.\<close>

lemma TE_GETU32:
  "TE0 (GETU32 a b c d) = GETU32 (xtime (sbox a)) (sbox a) (sbox a) (xtime (sbox a) XOR sbox a)"
  "TE1 (GETU32 a b c d) = GETU32 (xtime (sbox b) XOR sbox b) (xtime (sbox b)) (sbox b) (sbox b)"
  "TE2 (GETU32 a b c d) = GETU32 (sbox c) (xtime (sbox c) XOR sbox c) (xtime (sbox c)) (sbox c)"
  "TE3 (GETU32 a b c d) = GETU32 (sbox d) (sbox d) (xtime (sbox d) XOR sbox d) (xtime (sbox d))"
  "TE41 (GETU32 a b c d) = GETU32 (sbox a) 0 0 0" "TE42 (GETU32 a b c d) = GETU32 0 (sbox b) 0 0"
  "TE43 (GETU32 a b c d) = GETU32 0 0 (sbox c) 0" "TE44 (GETU32 a b c d) = GETU32 0 0 0 (sbox d)"
  "TE421 (GETU32 a b c d) = GETU32 (sbox b) 0 0 0" "TE432 (GETU32 a b c d) = GETU32 0 (sbox c) 0 0"
  "TE443 (GETU32 a b c d) = GETU32 0 0 (sbox d) 0" "TE414 (GETU32 a b c d) = GETU32 0 0 0 (sbox a)"
  unfolding TE0_def TE1_def TE2_def TE3_def TE41_def TE42_def TE43_def TE44_def
    TE421_def TE432_def TE443_def TE414_def te_at_GETU32 Te0_sbox rotr_GETU32 mask_GETU32
  by simp_all

section \<open>The two AES implementations agree\<close>

text \<open>
  The cipher of \<^verbatim>\<open>aes128k128d\<close> unrolled: \<open>Kseq key i\<close> is the round key of round \<open>i\<close> and
  \<open>Sseq key data i\<close> the state after round \<open>i\<close>.
\<close>

fun Kseq :: "bytes \<Rightarrow> nat \<Rightarrow> bytes" where
  "Kseq key 0 = key"
| "Kseq key (Suc i) = next_key (Kseq key i) i"

definition mid_round :: "bytes \<Rightarrow> bytes \<Rightarrow> bytes" where
  "mid_round st rk =
     (let b = shift_row (byte_sub st) in
      xor_128 (mix_column b @ mix_column (drop 4 b) @ mix_column (drop 8 b) @ mix_column (drop 12 b)) rk)"

fun Sseq :: "bytes \<Rightarrow> bytes \<Rightarrow> nat \<Rightarrow> bytes" where
  "Sseq key data 0 = xor_128 key data"
| "Sseq key data (Suc i) = mid_round (Sseq key data i) (Kseq key (Suc i))"

lemma aes_rounds:
  "length key = 16 \<Longrightarrow> r < 10 \<Longrightarrow>
     fold (aes_round data) [0..<Suc r] (c, map (\<lambda>i. key ! i) [0..<16])
       = (Sseq key data r, Kseq key (Suc r))"
proof (induction r)
  case 0
  then have "map (\<lambda>i. key ! i) [0..<16] = key" by (metis map_nth)
  then show ?case by (simp add: aes_round_def)
next
  case (Suc r)
  have "[0..<Suc (Suc r)] = [0..<Suc r] @ [Suc r]" by simp
  then show ?case
    using Suc by (simp only: fold_append o_apply) (simp add: aes_round_def mid_round_def Let_def)
qed

lemma aes_unrolled:
  assumes "length key = 16"
  shows "aes128k128d key data =
    xor_128 (shift_row (byte_sub (Sseq key data 9))) (Kseq key 10)"
proof -
  have "[0..<11] = [0..<Suc 9] @ [10 :: nat]" by (simp add: upt_rec)
  moreover have "Kseq key (Suc 9) = Kseq key 10" by simp
  ultimately show ?thesis
    unfolding aes128k128d_def
    by (simp only: fold_append o_apply aes_rounds [OF assms, of 9])
       (simp add: aes_round_def Let_def del: Kseq.simps)
qed

text \<open>A block as the four big-endian words the table version works on.\<close>

definition words4 :: "bytes \<Rightarrow> state4" where
  "words4 b = (getu32_at b 0, getu32_at b 4, getu32_at b 8, getu32_at b 12)"

definition words_list :: "bytes \<Rightarrow> u32 list" where
  "words_list b = [getu32_at b 0, getu32_at b 4, getu32_at b 8, getu32_at b 12]"

lemma getu32_ats:
  "getu32_at b 0 = GETU32 (b ! 0) (b ! 1) (b ! 2) (b ! 3)"
  "getu32_at b 4 = GETU32 (b ! 4) (b ! 5) (b ! 6) (b ! 7)"
  "getu32_at b 8 = GETU32 (b ! 8) (b ! 9) (b ! 10) (b ! 11)"
  "getu32_at b 12 = GETU32 (b ! 12) (b ! 13) (b ! 14) (b ! 15)"
  by (simp_all add: getu32_at_def numeral_2_eq_2)

lemma upt_16: "[0..<16] = [0, 1, 2, 3, 4, 5, 6, 7, 8, 9, 10, 11, 12, 13, 14, 15 :: nat]"
  by (simp add: upt_rec)

lemma upt_4: "[0..<4] = [0, 1, 2, 3 :: nat]"
  by (simp add: upt_rec)

lemma PUTU32_words:
  assumes "length b = 16"
  shows "PUTU32 (getu32_at b 0) @ PUTU32 (getu32_at b 4) @ PUTU32 (getu32_at b 8)
     @ PUTU32 (getu32_at b 12) = b"
proof -
  have "b = map (\<lambda>i. b ! i) [0..<16]" using map_nth [of b] assms by simp
  also have "\<dots> = [b ! 0, b ! 1, b ! 2, b ! 3, b ! 4, b ! 5, b ! 6, b ! 7, b ! 8, b ! 9, b ! 10,
      b ! 11, b ! 12, b ! 13, b ! 14, b ! 15]"
    by (simp only: upt_16 list.map)
  finally show ?thesis by (simp only: getu32_ats PUTU32_GETU32 append_Cons append_Nil)
qed

lemma words4_xor:
  "getu32_at (xor_128 a b) 0 = getu32_at a 0 XOR getu32_at b 0"
  "getu32_at (xor_128 a b) 4 = getu32_at a 4 XOR getu32_at b 4"
  "getu32_at (xor_128 a b) 8 = getu32_at a 8 XOR getu32_at b 8"
  "getu32_at (xor_128 a b) 12 = getu32_at a 12 XOR getu32_at b 12"
  unfolding getu32_ats GETU32_xor xor_128_def upt_16 by simp_all

lemma RCON_rcon: "r < 10 \<Longrightarrow> RCON r = GETU32 (rcon_table ! r) 0 0 0"
proof -
  assume "r < 10"
  then have "r < 8 \<or> r = 8 \<or> r = 9" by arith
  then have "rcons ! r = rcon_table ! r"
    using less_8_cases [of r] by (auto simp: rcons_def rcon_table_def)
  then show ?thesis by (simp add: RCON_def GETU32_def)
qed

definition key_word0 :: "bytes \<Rightarrow> nat \<Rightarrow> u32" where
  "key_word0 k r = (let t = getu32_at k 12 in
     getu32_at k 0 XOR TE421 t XOR TE432 t XOR TE443 t XOR TE414 t XOR RCON r)"

lemma next_key_words:
  assumes "length k = 16" and "r < 10"
  shows "words_list (next_key k r) =
    [key_word0 k r, getu32_at k 4 XOR key_word0 k r,
     getu32_at k 8 XOR (getu32_at k 4 XOR key_word0 k r),
     getu32_at k 12 XOR (getu32_at k 8 XOR (getu32_at k 4 XOR key_word0 k r))]"
proof -
  have w: "key_word0 k r = GETU32 (k ! 0 XOR sbox (k ! 13) XOR rcon_table ! r)
      (k ! 1 XOR sbox (k ! 14)) (k ! 2 XOR sbox (k ! 15)) (k ! 3 XOR sbox (k ! 12))"
    using assms(2) by (simp add: key_word0_def Let_def getu32_ats TE_GETU32 GETU32_xor RCON_rcon)
  show ?thesis
    unfolding w using assms(1)
    by (simp add: words_list_def getu32_ats next_key_def xor_32_def upt_4 Let_def GETU32_xor
        xor.assoc)
qed

text \<open>The key schedule lists the words of the round keys in order.\<close>

lemma length_Kseq: "length key = 16 \<Longrightarrow> length (Kseq key i) = 16"
  by (cases i) simp_all

lemma key_schedule:
  "length key = 16 \<Longrightarrow> r \<le> 10 \<Longrightarrow>
     fold rijndaelKeySetup_step [0..<r]
       [getu32_at key 0, getu32_at key 4, getu32_at key 8, getu32_at key 12]
     = concat (map (\<lambda>i. words_list (Kseq key i)) [0..<Suc r])"
proof (induction r)
  case 0
  then show ?case by (simp add: words_list_def)
next
  case (Suc r)
  let ?ks = "\<lambda>n. concat (map (\<lambda>i. words_list (Kseq key i)) [0..<n])"
  have len: "length (?ks n) = 4 * n" for n by (induction n) (simp_all add: words_list_def)
  have nth: "?ks (Suc r) ! (4 * r + j) = words_list (Kseq key r) ! j" for j
    using len [of r] by (simp add: nth_append)
  have "rijndaelKeySetup_step r (?ks (Suc r)) = ?ks (Suc r) @ words_list (next_key (Kseq key r) r)"
    using next_key_words [of "Kseq key r" r] Suc.prems nth [of 0] nth [of 1] nth [of 2] nth [of 3]
    by (simp add: rijndaelKeySetup_step_def Let_def length_Kseq words_list_def key_word0_def
        xor.commute xor.left_commute del: upt_Suc)
  then show ?case using Suc by simp
qed

lemma nth_concat_words:
  "i < n \<Longrightarrow> j < 4 \<Longrightarrow>
     concat (map (\<lambda>i. words_list (Kseq key i)) [0..<n]) ! (4 * i + j) = words_list (Kseq key i) ! j"
proof (induction n)
  case (Suc n)
  have len: "length (concat (map (\<lambda>i. words_list (Kseq key i)) [0..<m])) = 4 * m" for m
    by (induction m) (simp_all add: words_list_def)
  show ?case
  proof (cases "i = n")
    case True
    then show ?thesis using len [of n] by (simp add: nth_append)
  next
    case False
    then have "4 * i + j < 4 * n" using Suc.prems by simp
    then show ?thesis using Suc len [of n] False by (simp add: nth_append)
  qed
qed simp

lemma key_schedule_nth:
  assumes "length key = 16" and "i \<le> 10" and "j < 4"
  shows "rijndaelKeySetupEnc key ! (4 * i + j) = words_list (Kseq key i) ! j"
  using assms nth_concat_words [of i 11 j key] key_schedule [of key 10]
  by (simp add: rijndaelKeySetupEnc_def)

lemma length_rijndaelKeySetupEnc: "length key = 16 \<Longrightarrow> length (rijndaelKeySetupEnc key) = 44"
proof -
  assume "length key = 16"
  have "length (concat (map (\<lambda>i. words_list (Kseq key i)) [0..<m])) = 4 * m" for m
    by (induction m) (simp_all add: words_list_def)
  then show ?thesis
    using key_schedule [of key 10] \<open>length key = 16\<close> by (simp add: rijndaelKeySetupEnc_def del: upt_Suc)
qed

text \<open>One table round is one round of the byte version.\<close>

lemma mid_round_words:
  fixes st K :: bytes
  defines "b \<equiv> \<lambda>i. sbox (st ! i)"
  shows "words4 (mid_round st K) =
    (GETU32 (xtime (b 0) XOR (xtime (b 5) XOR b 5) XOR b 10 XOR b 15)
            (b 0 XOR xtime (b 5) XOR (xtime (b 10) XOR b 10) XOR b 15)
            (b 0 XOR b 5 XOR xtime (b 10) XOR (xtime (b 15) XOR b 15))
            ((xtime (b 0) XOR b 0) XOR b 5 XOR b 10 XOR xtime (b 15)) XOR getu32_at K 0,
     GETU32 (xtime (b 4) XOR (xtime (b 9) XOR b 9) XOR b 14 XOR b 3)
            (b 4 XOR xtime (b 9) XOR (xtime (b 14) XOR b 14) XOR b 3)
            (b 4 XOR b 9 XOR xtime (b 14) XOR (xtime (b 3) XOR b 3))
            ((xtime (b 4) XOR b 4) XOR b 9 XOR b 14 XOR xtime (b 3)) XOR getu32_at K 4,
     GETU32 (xtime (b 8) XOR (xtime (b 13) XOR b 13) XOR b 2 XOR b 7)
            (b 8 XOR xtime (b 13) XOR (xtime (b 2) XOR b 2) XOR b 7)
            (b 8 XOR b 13 XOR xtime (b 2) XOR (xtime (b 7) XOR b 7))
            ((xtime (b 8) XOR b 8) XOR b 13 XOR b 2 XOR xtime (b 7)) XOR getu32_at K 8,
     GETU32 (xtime (b 12) XOR (xtime (b 1) XOR b 1) XOR b 6 XOR b 11)
            (b 12 XOR xtime (b 1) XOR (xtime (b 6) XOR b 6) XOR b 11)
            (b 12 XOR b 1 XOR xtime (b 6) XOR (xtime (b 11) XOR b 11))
            ((xtime (b 12) XOR b 12) XOR b 1 XOR b 6 XOR xtime (b 11)) XOR getu32_at K 12)"
  unfolding words4_def mid_round_def Let_def words4_xor
  unfolding getu32_ats byte_sub_def upt_16 shift_row_def
  by (simp add: mix_column_field Let_def b_def)

lemma ROUND_words:
  assumes "\<And>j. j < 4 \<Longrightarrow> rk ! (4 * i + j) = words_list K ! j"
  shows "ROUND i rk (words4 st) = words4 (mid_round st K)"
proof -
  have rk: "rk ! (4 * i) = getu32_at K 0" "rk ! (4 * i + 1) = getu32_at K 4"
    "rk ! (4 * i + 2) = getu32_at K 8" "rk ! (4 * i + 3) = getu32_at K 12"
    using assms [of 0] assms [of 1] assms [of 2] assms [of 3] by (simp_all add: words_list_def)
  show ?thesis
    unfolding mid_round_words
    unfolding ROUND_def words4_def prod.case rk
    unfolding getu32_ats TE_GETU32 GETU32_xor
    by (simp add: xor.assoc xor.commute xor.left_commute)
qed

lemma rijndael_loop_words:
  assumes "length key = 16"
    and "\<And>i j. i \<le> 2 * r \<Longrightarrow> j < 4 \<Longrightarrow> rk ! (4 * i + j) = words_list (Kseq key (n + i)) ! j"
    and "8 * r \<le> length rk" and "0 < r"
  shows "rijndael_loop r rk (words4 (Sseq key data n))
    = (drop (8 * r) rk, words4 (Sseq key data (n + 2 * r - 1)))"
  using assms(2-)
proof (induction r arbitrary: rk n)
  case (Suc r)
  have t: "ROUND 1 rk (words4 (Sseq key data n)) = words4 (Sseq key data (Suc n))"
    using Suc.prems(1) [of 1] ROUND_words [of rk 1 "Kseq key (Suc n)"] by simp
  show ?case
  proof (cases "r = 0")
    case True
    with t show ?thesis by simp
  next
    case False
    have shift: "drop 8 rk ! (4 * i + j) = words_list (Kseq key (Suc (Suc n) + i)) ! j"
      if "i \<le> 2 * r" "j < 4" for i j
      using Suc.prems(1) [of "Suc (Suc i)" j] Suc.prems(2) that by (simp add: ac_simps)
    have s: "ROUND 0 (drop 8 rk) (words4 (Sseq key data (Suc n)))
        = words4 (Sseq key data (Suc (Suc n)))"
      using shift [of 0] ROUND_words [of "drop 8 rk" 0 "Kseq key (Suc (Suc n))"] by simp
    have "rijndael_loop r (drop 8 rk) (words4 (Sseq key data (Suc (Suc n))))
        = (drop (8 * r) (drop 8 rk), words4 (Sseq key data (Suc (Suc n) + 2 * r - 1)))"
      using Suc.prems(2) False shift by (intro Suc.IH) auto
    with False t s show ?thesis by (simp add: add.commute)
  qed
qed simp

lemma final_round_words:
  assumes "\<And>j. j < 4 \<Longrightarrow> rk ! j = words_list K ! j"
  shows "PUTU32 (TE41 (getu32_at st 0) XOR TE42 (getu32_at st 4) XOR TE43 (getu32_at st 8)
             XOR TE44 (getu32_at st 12) XOR rk ! 0)
         @ PUTU32 (TE41 (getu32_at st 4) XOR TE42 (getu32_at st 8) XOR TE43 (getu32_at st 12)
             XOR TE44 (getu32_at st 0) XOR rk ! 1)
         @ PUTU32 (TE41 (getu32_at st 8) XOR TE42 (getu32_at st 12) XOR TE43 (getu32_at st 0)
             XOR TE44 (getu32_at st 4) XOR rk ! 2)
         @ PUTU32 (TE41 (getu32_at st 12) XOR TE42 (getu32_at st 0) XOR TE43 (getu32_at st 4)
             XOR TE44 (getu32_at st 8) XOR rk ! 3)
     = xor_128 (shift_row (byte_sub st)) K"
proof -
  have rk: "rk ! 0 = getu32_at K 0" "rk ! 1 = getu32_at K 4"
    "rk ! 2 = getu32_at K 8" "rk ! 3 = getu32_at K 12"
    using assms [of 0] assms [of 1] assms [of 2] assms [of 3] by (simp_all add: words_list_def)
  have "PUTU32 (getu32_at (xor_128 (shift_row (byte_sub st)) K) 0)
      @ PUTU32 (getu32_at (xor_128 (shift_row (byte_sub st)) K) 4)
      @ PUTU32 (getu32_at (xor_128 (shift_row (byte_sub st)) K) 8)
      @ PUTU32 (getu32_at (xor_128 (shift_row (byte_sub st)) K) 12)
      = xor_128 (shift_row (byte_sub st)) K"
    by (rule PUTU32_words) simp
  then show ?thesis
    unfolding rk words4_xor
    unfolding getu32_ats byte_sub_def upt_16 shift_row_def TE_GETU32 GETU32_xor
    by (simp add: numeral_2_eq_2)
qed

lemma rijndael_is_aes_aux:
  assumes "length key = 16" and "length pt = 16"
  shows "rijndaelEncrypt (rijndaelKeySetupEnc key) pt = aes128k128d key pt"
proof -
  let ?rk = "rijndaelKeySetupEnc key"
  note nth = key_schedule_nth [OF assms(1)]
  have init: "(getu32_at pt 0 XOR ?rk ! 0, getu32_at pt 4 XOR ?rk ! 1, getu32_at pt 8 XOR ?rk ! 2,
      getu32_at pt 12 XOR ?rk ! 3) = words4 (Sseq key pt 0)"
    using nth [of 0 0] nth [of 0 1] nth [of 0 2] nth [of 0 3]
    by (simp add: words4_def words4_xor words_list_def xor.commute numeral_2_eq_2)
  have loop: "rijndael_loop (10 div 2) ?rk (words4 (Sseq key pt 0))
      = (drop 40 ?rk, words4 (Sseq key pt 9))"
    using rijndael_loop_words [of key 5 ?rk 0 pt] nth assms
    by (simp add: length_rijndaelKeySetupEnc del: Sseq.simps)
  have last: "drop 40 ?rk ! j = words_list (Kseq key 10) ! j" if "j < 4" for j
    using nth [of 10 j] that assms by (simp add: length_rijndaelKeySetupEnc)
  show ?thesis
    unfolding rijndaelEncrypt_def Let_def init loop aes_unrolled [OF assms(1)]
    unfolding words4_def prod.case using final_round_words [of "drop 40 ?rk"] last by blast
qed

text \<open>
  C1. The driver's two AES-128 implementations are the same function: encrypting a
  block with the table-driven \<^verbatim>\<open>rijndaelEncrypt\<close> under the schedule
  \<^verbatim>\<open>rijndaelKeySetupEnc\<close> (used for OMAC1) equals the byte-oriented \<^verbatim>\<open>aes128k128d\<close>
  (used for CCMP), for every 16-byte key and every 16-byte block.
\<close>

theorem rijndael_is_aes:
  assumes "length key = 16" and "length pt = 16"
  shows "rijndaelEncrypt (rijndaelKeySetupEnc key) pt = aes128k128d key pt"
  using assms by (rule rijndael_is_aes_aux)

theorem rijndael_is_aes_witness:
  "rijndaelEncrypt (rijndaelKeySetupEnc (replicate 16 7)) (replicate 16 9)
     = aes128k128d (replicate 16 7) (replicate 16 9)"
  by (rule rijndael_is_aes) simp_all

section \<open>The wrappers\<close>

text \<open>
  \<^verbatim>\<open>aes_encrypt_init\<close> fails on a length other than 16 and when the schedule cannot be
  allocated; the allocator's answer is the argument \<open>alloc\<close>.
\<close>

definition AES_PRIV_SIZE :: nat where "AES_PRIV_SIZE = 4 * 44"

definition aes_encrypt_init :: "bool \<Rightarrow> bytes \<Rightarrow> nat \<Rightarrow> u32 list option" where
  "aes_encrypt_init alloc key len =
     (if len \<noteq> 16 then None else if \<not> alloc then None else Some (rijndaelKeySetupEnc key))"

definition aes_128_encrypt :: "u32 list \<Rightarrow> bytes \<Rightarrow> bytes" where
  "aes_128_encrypt ctx plain = rijndaelEncrypt ctx plain"

lemma aes_128_encrypt_aes:
  "length key = 16 \<Longrightarrow> length pt = 16 \<Longrightarrow>
     aes_128_encrypt (rijndaelKeySetupEnc key) pt = aes128k128d key pt"
  using rijndael_is_aes_aux by (simp add: aes_128_encrypt_def)

end
