(* ===== verification/Rtw_Omac.thy ===== *)
theory Rtw_Omac
  imports Rtw_Rijndael Rtw_Blocks
begin

unbundle bit_operations_syntax

text \<open>
  OMAC1 with AES-128 (\<^verbatim>\<open>gf_mulx\<close>, \<^verbatim>\<open>omac1_aes_128_vector\<close>, \<^verbatim>\<open>omac1_aes_128\<close> of
  \<^verbatim>\<open>core/rtw_security.c\<close>), used to protect management frames and the TDLS handshake. It
  is proved to be the CMAC of NIST SP 800-38B over the concatenation of the data
  elements, and \<^verbatim>\<open>gf_mulx\<close> to be the doubling in the field with \<open>2\<^sup>1\<^sup>2\<^sup>8\<close> elements.
\<close>

section \<open>The code\<close>

definition AES_BLOCK_SIZE :: nat where "AES_BLOCK_SIZE = 16"

definition gf_mulx :: "bytes \<Rightarrow> bytes" where
  "gf_mulx pad =
     (let carry = pad ! 0 AND 0x80;
          pad = fold (\<lambda>i pad. pad[i := push_bit 1 (pad ! i) OR drop_bit 7 (pad ! (i + 1))])
                  [0..<AES_BLOCK_SIZE - 1] pad;
          pad = pad[AES_BLOCK_SIZE - 1 := push_bit 1 (pad ! (AES_BLOCK_SIZE - 1))]
      in if carry \<noteq> 0 then pad[AES_BLOCK_SIZE - 1 := pad ! (AES_BLOCK_SIZE - 1) XOR 0x87] else pad)"

text \<open>
  The cursor \<^verbatim>\<open>(e, pos, end)\<close> over the data vector. When an element is used up the
  code loads \<^verbatim>\<open>addr[e]\<close> and \<^verbatim>\<open>len[e]\<close> for the next \<^verbatim>\<open>e\<close> without comparing it with
  \<^verbatim>\<open>num_elem\<close>; \<open>oc_over\<close> records a load past the end of these arrays. The pointer so
  obtained is indeterminate, and dereferencing it is \<open>None\<close>.
\<close>

record omac_cursor =
  oc_e :: nat
  oc_off :: nat
  oc_over :: bool

definition omac_next :: "bytes list \<Rightarrow> omac_cursor \<Rightarrow> (u8 \<times> omac_cursor) option" where
  "omac_next addr c =
     (if oc_e c < length addr \<and> oc_off c < length (addr ! oc_e c) then
        let b = addr ! oc_e c ! oc_off c; off = oc_off c + 1 in
        Some (b, if length (addr ! oc_e c) \<le> off
                 then \<lparr>oc_e = oc_e c + 1, oc_off = 0,
                       oc_over = oc_over c \<or> length addr \<le> oc_e c + 1\<rparr>
                 else c\<lparr>oc_off := off\<rparr>)
      else None)"

fun omac_absorb :: "bytes list \<Rightarrow> nat list \<Rightarrow> bytes \<Rightarrow> omac_cursor \<Rightarrow> (bytes \<times> omac_cursor) option" where
  "omac_absorb addr [] cbc c = Some (cbc, c)"
| "omac_absorb addr (i # is) cbc c =
     do {
       (b, c) \<leftarrow> omac_next addr c;
       omac_absorb addr is (cbc[i := cbc ! i XOR b]) c
     }"

function omac_blocks ::
    "bytes list \<Rightarrow> u32 list \<Rightarrow> nat \<Rightarrow> bytes \<Rightarrow> omac_cursor \<Rightarrow> (nat \<times> bytes \<times> omac_cursor) option" where
  "omac_blocks addr ctx left cbc c =
     (if AES_BLOCK_SIZE \<le> left then
        case omac_absorb addr [0..<AES_BLOCK_SIZE] cbc c of None \<Rightarrow> None
        | Some (cbc, c) \<Rightarrow>
            let cbc = (if AES_BLOCK_SIZE < left then aes_128_encrypt ctx cbc else cbc)
            in omac_blocks addr ctx (left - AES_BLOCK_SIZE) cbc c
      else Some (left, cbc, c))"
  by pat_completeness auto
termination
  by (relation "measure (\<lambda>(addr, ctx, left, cbc, c). left)") (auto simp: AES_BLOCK_SIZE_def)

declare omac_blocks.simps [simp del]

text \<open>The result is the return code, the MAC buffer and the final cursor.\<close>

definition omac1_aes_128_vector ::
    "bool \<Rightarrow> bytes \<Rightarrow> bytes list \<Rightarrow> bytes \<Rightarrow> (int \<times> bytes \<times> bool) option" where
  "omac1_aes_128_vector alloc key addr mac =
     (case aes_encrypt_init alloc key 16 of None \<Rightarrow> Some (-1, mac, False)
      | Some ctx \<Rightarrow> do {
          let total_len = sum_list (map length addr);
          let c = \<lparr>oc_e = 0, oc_off = 0, oc_over = (addr = [])\<rparr>;
          (left, cbc, c) \<leftarrow> omac_blocks addr ctx total_len (replicate AES_BLOCK_SIZE 0) c;
          let pad = gf_mulx (aes_128_encrypt ctx (replicate AES_BLOCK_SIZE 0));
          (cbc, pad, c) \<leftarrow>
            (if left \<noteq> 0 \<or> total_len = 0 then
               do {
                 (cbc, c) \<leftarrow> omac_absorb addr [0..<left] cbc c;
                 Some (cbc[left := cbc ! left XOR 0x80], gf_mulx pad, c)
               }
             else Some (cbc, pad, c));
          let pad = map (\<lambda>i. pad ! i XOR cbc ! i) [0..<AES_BLOCK_SIZE];
          Some (0, aes_128_encrypt ctx pad, oc_over c)
        })"

definition omac1_aes_128 :: "bool \<Rightarrow> bytes \<Rightarrow> bytes \<Rightarrow> bytes \<Rightarrow> (int \<times> bytes \<times> bool) option" where
  "omac1_aes_128 alloc key data mac = omac1_aes_128_vector alloc key [data] mac"

section \<open>CMAC\<close>

definition cmac_dbl :: "128 word \<Rightarrow> 128 word" where
  "cmac_dbl w = (if bit w 127 then push_bit 1 w XOR 0x87 else push_bit 1 w)"

definition be128 :: "bytes \<Rightarrow> 128 word" where
  "be128 bs = fold (\<lambda>b w. push_bit 8 w OR ucast b) bs 0"

definition bytes128 :: "128 word \<Rightarrow> bytes" where
  "bytes128 w = map (\<lambda>i. ucast (drop_bit (8 * (15 - i)) w)) [0..<16]"

definition cmac_final :: "bytes \<Rightarrow> bytes \<Rightarrow> bytes" where
  "cmac_final key tail =
     (let K1 = cmac_dbl (be128 (aes128k128d key (replicate 16 0)))
      in if length tail = 16 then bytewise (bytes128 K1) tail
         else bytewise (bytes128 (cmac_dbl K1)) (tail @ 0x80 # replicate (15 - length tail) 0))"

definition cmac_aes :: "bytes \<Rightarrow> bytes \<Rightarrow> bytes" where
  "cmac_aes key msg =
     (let n = (if msg \<noteq> [] \<and> length msg mod 16 = 0 then length msg - 16
               else length msg - length msg mod 16);
          X = chain 16 (\<lambda>X b. aes128k128d key (bytewise X b)) (replicate 16 0) (take n msg)
      in aes128k128d key (bytewise X (cmac_final key (drop n msg))))"

section \<open>Doubling\<close>

lemma bit_be128:
  "bit (be128 bs) n \<longleftrightarrow> n < 128 \<and> n div 8 < length bs \<and> bit (bs ! (length bs - 1 - n div 8)) (n mod 8)"
proof (induction bs arbitrary: n rule: rev_induct)
  case Nil
  then show ?case by (simp add: be128_def)
next
  case (snoc b bs)
  have step: "be128 (bs @ [b]) = push_bit 8 (be128 bs) OR ucast b" by (simp add: be128_def)
  show ?case
  proof (cases "n < 8")
    case True
    then show ?thesis by (simp add: step bit_simps nth_append)
  next
    case False
    define m where "m = n - 8"
    then have n: "n = m + 8" using False by simp
    have "length bs - (m + 8) div 8 = length bs - 1 - m div 8" by simp
    then show ?thesis
      using snoc [of m] False unfolding step n by (auto simp: bit_simps nth_append)
  qed
qed

lemma length_bytes128 [simp]: "length (bytes128 w) = 16"
  by (simp add: bytes128_def)

lemma bytes128_be128: "length p = 16 \<Longrightarrow> bytes128 (be128 p) = p"
proof (rule nth_equalityI)
  fix i
  assume p: "length p = 16" and "i < length (bytes128 (be128 p))"
  then have i: "i < 16" by simp
  have "bit (ucast (drop_bit (8 * (15 - i)) (be128 p)) :: u8) m \<longleftrightarrow> bit (p ! i) m" if "m < 8" for m
  proof -
    have "(8 * (15 - i) + m) div 8 = 15 - i" "(8 * (15 - i) + m) mod 8 = m" "8 * (15 - i) + m < 128"
      using that i by auto
    then show ?thesis using p i that by (simp add: bit_simps bit_be128)
  qed
  then show "bytes128 (be128 p) ! i = p ! i"
    using i by (simp add: bytes128_def bit_eq_iff)
qed (simp)

lemma be128_bytes128: "be128 (bytes128 w) = w"
proof (rule bit_word_eqI)
  fix n
  assume "n < LENGTH(128)"
  then have n: "n < 128" "n div 8 < 16" by simp_all
  then have "n div 8 \<le> 15" by simp
  then have "8 * (15 - (15 - n div 8)) + n mod 8 = n" by simp
  then show "bit (be128 (bytes128 w)) n \<longleftrightarrow> bit w n"
    using n by (simp add: bit_be128 bytes128_def bit_simps)
qed

lemma mulx_loop:
  "k \<le> 15 \<Longrightarrow> length p = 16 \<Longrightarrow>
     fold (\<lambda>i pad. pad[i := push_bit 1 (pad ! i) OR drop_bit 7 (pad ! (i + 1))]) [0..<k] p
     = map (\<lambda>i. push_bit 1 (p ! i) OR drop_bit 7 (p ! (i + 1))) [0..<k] @ drop k p"
proof (induction k)
  case (Suc k)
  let ?f = "\<lambda>i. push_bit 1 (p ! i) OR drop_bit 7 (p ! (i + 1))"
  have "drop k p = p ! k # drop (Suc k) p" using Suc.prems by (simp add: Cons_nth_drop_Suc)
  then show ?case
    using Suc by (simp add: nth_append list_update_append)
qed simp

lemma gf_mulx_nth:
  assumes "length p = 16" and "i < 16"
  shows "gf_mulx p ! i =
    (if i < 15 then push_bit 1 (p ! i) OR drop_bit 7 (p ! (i + 1))
     else push_bit 1 (p ! 15) XOR (if bit (p ! 0) 7 then 0x87 else 0))"
proof -
  have c: "(p ! 0 AND 0x80 \<noteq> 0) \<longleftrightarrow> bit (p ! 0) 7"
    using and_exp_eq_0_iff_not_bit [of "p ! 0" 7] by simp
  have "drop 15 p = [p ! 15]" using assms Cons_nth_drop_Suc [of 15 p] by simp
  then show ?thesis
    using assms mulx_loop [of 15 p]
    by (simp add: gf_mulx_def AES_BLOCK_SIZE_def Let_def c nth_append list_update_append)
qed

lemma length_gf_mulx [simp]: "length (gf_mulx p) = length p"
proof -
  have "length (fold (\<lambda>i pad. pad[i := f i pad]) xs p) = length p" for f :: "nat \<Rightarrow> bytes \<Rightarrow> u8" and xs
    by (induction xs arbitrary: p) simp_all
  then show ?thesis by (simp add: gf_mulx_def Let_def)
qed

lemma bit_0x87: "bit (0x87 :: 128 word) n \<longleftrightarrow> n < 8 \<and> bit (0x87 :: u8) n"
proof -
  have "(0x87 :: 128 word) = ucast (0x87 :: u8)" by simp
  then show ?thesis by (simp only: bit_unsigned_iff) auto
qed

lemma be128_gf_mulx:
  assumes p: "length p = 16"
  shows "be128 (gf_mulx p) = cmac_dbl (be128 p)"
proof (rule bit_word_eqI)
  fix n
  assume "n < LENGTH(128)"
  then have n: "n < 128" by simp
  let ?i = "15 - n div 8"
  have top: "bit (be128 p) 127 \<longleftrightarrow> bit (p ! 0) 7" using p by (simp add: bit_be128)
  have r: "bit (cmac_dbl (be128 p)) n \<longleftrightarrow>
      (n \<noteq> 0 \<and> bit (be128 p) (n - 1)) \<noteq> (bit (p ! 0) 7 \<and> n < 8 \<and> bit (0x87 :: u8) n)"
    using n by (simp add: cmac_dbl_def top bit_xor_iff bit_double_word bit_0x87 del: bit_numeral_word_iff)
  have prev: "bit (be128 p) (n - 1) \<longleftrightarrow>
      (if n mod 8 = 0 then bit (p ! (?i + 1)) 7 else bit (p ! ?i) (n mod 8 - 1))" if "n \<noteq> 0"
  proof (cases "n mod 8 = 0")
    case True
    have "n = 8 * (n div 8)" using True by auto
    with that obtain r where r: "n = 8 * Suc r" by (metis mult_0_right old.nat.exhaust)
    then have "n - 1 = 7 + 8 * r" "n div 8 = Suc r" "r < 15" using n by simp_all
    moreover then have "Suc (14 - r) = 15 - r" by simp
    ultimately show ?thesis using p True by (simp add: bit_be128)
  next
    case False
    obtain m where "n = Suc m" using \<open>n \<noteq> 0\<close> by (cases n) auto
    with False have "(n - 1) div 8 = n div 8" "(n - 1) mod 8 = n mod 8 - 1"
      by (simp_all add: div_Suc mod_Suc split: if_splits)
    moreover have "n - 1 < 128" "n div 8 < 16" using n by simp_all
    ultimately show ?thesis using p False by (simp add: bit_be128)
  qed
  have "n div 8 < 16" using n by simp
  then have l: "bit (be128 (gf_mulx p)) n \<longleftrightarrow> bit (gf_mulx p ! ?i) (n mod 8)"
    using p n by (simp add: bit_be128)
  show "bit (be128 (gf_mulx p)) n \<longleftrightarrow> bit (cmac_dbl (be128 p)) n"
  proof (cases "n < 8")
    case True
    then show ?thesis unfolding l r
      using p prev by (auto simp: gf_mulx_nth bit_simps bit_double_word)
  next
    case False
    then have "?i < 15" "n \<noteq> 0" by auto
    then show ?thesis unfolding l r
      using p prev False by (auto simp: gf_mulx_nth bit_simps bit_double_word)
  qed
qed

section \<open>The cursor\<close>

definition oc_rest :: "bytes list \<Rightarrow> omac_cursor \<Rightarrow> bytes" where
  "oc_rest addr c = drop (oc_off c) (concat (drop (oc_e c) addr))"

definition oc_inv :: "bytes list \<Rightarrow> omac_cursor \<Rightarrow> bool" where
  "oc_inv addr c \<longleftrightarrow> [] \<notin> set addr \<and>
     (if oc_e c < length addr then oc_off c < length (addr ! oc_e c) else oc_off c = 0) \<and>
     oc_over c = (length addr \<le> oc_e c)"

lemma oc_rest_split:
  "oc_e c < length addr \<Longrightarrow> oc_off c < length (addr ! oc_e c) \<Longrightarrow>
     oc_rest addr c = addr ! oc_e c ! oc_off c # drop (Suc (oc_off c)) (addr ! oc_e c)
       @ concat (drop (Suc (oc_e c)) addr)"
  by (simp add: oc_rest_def Cons_nth_drop_Suc [symmetric] drop_append)

lemma omac_next_byte:
  assumes inv: "oc_inv addr c" and ne: "oc_rest addr c \<noteq> []"
  shows "\<exists>c'. omac_next addr c = Some (hd (oc_rest addr c), c')
    \<and> oc_rest addr c' = tl (oc_rest addr c) \<and> oc_inv addr c'"
proof -
  have e: "oc_e c < length addr" using ne by (auto simp: oc_rest_def intro: ccontr)
  then have off: "oc_off c < length (addr ! oc_e c)" using inv by (simp add: oc_inv_def)
  note split = oc_rest_split [OF e off]
  have nonempty: "i < length addr \<Longrightarrow> addr ! i \<noteq> []" for i
    using inv nth_mem by (fastforce simp: oc_inv_def)
  show ?thesis
  proof (cases "length (addr ! oc_e c) \<le> Suc (oc_off c)")
    case True
    then show ?thesis using e off inv nonempty [of "Suc (oc_e c)"] split
      by (auto simp: omac_next_def oc_inv_def oc_rest_def)
  next
    case False
    then have "oc_rest addr (c\<lparr>oc_off := Suc (oc_off c)\<rparr>)
        = drop (Suc (oc_off c)) (addr ! oc_e c) @ concat (drop (Suc (oc_e c)) addr)"
      using e oc_rest_split [of "c\<lparr>oc_off := Suc (oc_off c)\<rparr>" addr]
      by (simp add: Cons_nth_drop_Suc)
    then show ?thesis using e off inv split False
      by (auto simp: omac_next_def oc_inv_def)
  qed
qed

lemma omac_absorb_append:
  "omac_absorb addr (is @ js) cbc c = do { (cbc, c) \<leftarrow> omac_absorb addr is cbc c; omac_absorb addr js cbc c }"
  by (induction "is" arbitrary: cbc c) (auto split: bind_splits)

lemma omac_absorb_run:
  assumes "oc_inv addr c" and "k \<le> length (oc_rest addr c)" and "k \<le> length cbc"
  shows "\<exists>c'. omac_absorb addr [0..<k] cbc c
      = Some (bytewise (take k cbc) (take k (oc_rest addr c)) @ drop k cbc, c')
    \<and> oc_rest addr c' = drop k (oc_rest addr c) \<and> oc_inv addr c'"
  using assms(2,3)
proof (induction k)
  case 0
  then show ?case using assms(1) by simp
next
  case (Suc k)
  let ?r = "oc_rest addr c" and ?x = "bytewise (take k cbc) (take k (oc_rest addr c))"
  obtain c1 where c1: "omac_absorb addr [0..<k] cbc c = Some (?x @ drop k cbc, c1)"
      "oc_rest addr c1 = drop k ?r" "oc_inv addr c1"
    using Suc by auto
  obtain c2 where c2: "omac_next addr c1 = Some (?r ! k, c2)" "oc_rest addr c2 = drop (Suc k) ?r"
      "oc_inv addr c2"
    using omac_next_byte [OF c1(3)] c1(2) Suc.prems by (auto simp: hd_drop_conv_nth drop_Suc tl_drop)
  have "drop k cbc = cbc ! k # drop (Suc k) cbc" using Suc.prems by (simp add: Cons_nth_drop_Suc)
  moreover have "bytewise (take (Suc k) cbc) (take (Suc k) ?r) = ?x @ [cbc ! k XOR ?r ! k]"
    using Suc.prems by (simp add: take_Suc_conv_app_nth bytewise_append)
  ultimately have "omac_absorb addr [0..<Suc k] cbc c
      = Some (bytewise (take (Suc k) cbc) (take (Suc k) ?r) @ drop (Suc k) cbc, c2)"
    using c1(1) c2(1) Suc.prems by (simp add: omac_absorb_append list_update_append nth_append)
  then show ?case using c2 by blast
qed

section \<open>OMAC1 is CMAC\<close>

lemma length_bytewise_16: "length a = 16 \<Longrightarrow> length b = 16 \<Longrightarrow> length (bytewise a b) = 16"
  by simp

text \<open>
  The block loop: \<open>full\<close> bytes are absorbed in whole blocks and the last block, when it
  is complete, is left unencrypted in \<^verbatim>\<open>cbc\<close>.
\<close>

definition cbc_head :: "nat \<Rightarrow> nat" where
  "cbc_head n = (if n \<noteq> 0 \<and> n mod 16 = 0 then n - 16 else n - n mod 16)"

lemma omac_blocks_run:
  assumes "length key = 16" and "oc_inv addr c" and "length cbc = 16" and "length (oc_rest addr c) = n"
  shows "\<exists>c'. omac_blocks addr (rijndaelKeySetupEnc key) n cbc c
      = Some (n mod 16,
          let X = chain 16 (cbc_step key) cbc (take (cbc_head n) (oc_rest addr c))
          in if n \<noteq> 0 \<and> n mod 16 = 0 then bytewise X (drop (cbc_head n) (oc_rest addr c)) else X, c')
    \<and> oc_rest addr c' = drop (n - n mod 16) (oc_rest addr c) \<and> oc_inv addr c'"
  using assms(2-)
proof (induction n arbitrary: cbc c rule: less_induct)
  case (less n)
  let ?r = "oc_rest addr c"
  show ?case
  proof (cases "16 \<le> n")
    case False
    then show ?thesis
      using less.prems by (auto simp: omac_blocks.simps AES_BLOCK_SIZE_def cbc_head_def)
  next
    case True
    let ?x = "bytewise cbc (take 16 ?r)"
    obtain c1 where c1: "omac_absorb addr [0..<16] cbc c = Some (?x, c1)"
        "oc_rest addr c1 = drop 16 ?r" "oc_inv addr c1"
      using omac_absorb_run [of addr c 16 cbc] less.prems True by auto
    have mod: "(n - 16) mod 16 = n mod 16" using True by (simp add: le_mod_geq)
    show ?thesis
    proof (cases "n = 16")
      case True
      then show ?thesis
        using c1 less.prems
        by (simp add: omac_blocks.simps [of addr _ 16] omac_blocks.simps [of addr _ 0]
            AES_BLOCK_SIZE_def cbc_head_def)
    next
      case False
      with True have n: "16 < n" by simp
      let ?y = "aes128k128d key ?x"
      have "omac_blocks addr (rijndaelKeySetupEnc key) n cbc c
          = omac_blocks addr (rijndaelKeySetupEnc key) (n - 16) ?y c1"
        using n c1(1) assms(1) less.prems
        by (subst omac_blocks.simps) (simp add: AES_BLOCK_SIZE_def aes_128_encrypt_aes)
      moreover have head: "cbc_head n = 16 + cbc_head (n - 16)"
        using n mod by (auto simp: cbc_head_def)
      moreover have "chain 16 (cbc_step key) cbc (take (cbc_head n) ?r)
          = chain 16 (cbc_step key) ?y (take (cbc_head (n - 16)) (drop 16 ?r))"
        using n less.prems chain_block [of 16 "take 16 ?r" "cbc_step key" cbc]
        by (simp add: head take_add cbc_step_def)
      moreover have "drop (cbc_head n) ?r = drop (cbc_head (n - 16)) (oc_rest addr c1)"
        by (simp add: head c1(2) add.commute)
      moreover have "n - n mod 16 = 16 + (n - 16 - n mod 16)"
        using n mod mod_less_eq_dividend [of "n - 16" 16] by simp
      ultimately show ?thesis
        using less.IH [of "n - 16" c1 ?y] n c1 less.prems mod
        by (cases "n mod 16 = 0") (simp_all add: ac_simps Let_def)
    qed
  qed
qed

lemma xor_pad_bytewise:
  "length a = 16 \<Longrightarrow> length b = 16 \<Longrightarrow> map (\<lambda>i. a ! i XOR b ! i) [0..<AES_BLOCK_SIZE] = bytewise a b"
  by (intro nth_equalityI) (simp_all add: AES_BLOCK_SIZE_def)

lemma bytewise_pad:
  assumes "length X = 16" and "length t < 16"
  shows "(bytewise (take (length t) X) t @ drop (length t) X)
      [length t := (bytewise (take (length t) X) t @ drop (length t) X) ! length t XOR 0x80]
    = bytewise X (t @ 0x80 # replicate (15 - length t) 0)"
  using assms by (intro nth_equalityI)
    (auto simp: nth_append nth_list_update nth_Cons' not_less_eq less_Suc_eq_le)

lemma bytewise_assoc:
  "bytewise (bytewise a b) c = bytewise a (bytewise b c)"
  by (intro nth_equalityI) (auto simp: xor.assoc)

lemma bytewise_left_commute: "bytewise a (bytewise b c) = bytewise b (bytewise a c)"
  by (metis bytewise_assoc bytewise_commute)

lemma gf_mulx_dbl: "length p = 16 \<Longrightarrow> gf_mulx p = bytes128 (cmac_dbl (be128 p))"
  by (metis be128_gf_mulx bytes128_be128 length_gf_mulx)

lemma oc_end: "oc_inv addr c \<Longrightarrow> oc_rest addr c = [] \<Longrightarrow> oc_over c"
  using oc_rest_split [of c addr] by (auto simp: oc_inv_def split: if_splits)

text \<open>What follows the block loop, from the CBC value \<open>X\<close> and the tail of the message.\<close>

lemma cmac_final_full:
  assumes "length X = 16" and "length t = 16"
  shows "aes128k128d key (bytewise (gf_mulx (aes128k128d key (replicate 16 0))) (bytewise X t))
    = aes128k128d key (bytewise X (cmac_final key t))"
  using assms
  by (simp add: cmac_final_def gf_mulx_dbl Let_def bytewise_left_commute [of X])

lemma cmac_final_padded:
  assumes "length X = 16" and "length t < 16"
  shows "aes128k128d key (bytewise (gf_mulx (gf_mulx (aes128k128d key (replicate 16 0))))
      (bytewise X (t @ 0x80 # replicate (15 - length t) 0)))
    = aes128k128d key (bytewise X (cmac_final key t))"
  using assms
  by (simp add: cmac_final_def gf_mulx_dbl be128_bytes128 Let_def
      bytewise_left_commute [of X])

lemma cmac_aes_head:
  "cmac_aes key m = aes128k128d key (bytewise
     (chain 16 (cbc_step key) (replicate 16 0) (take (cbc_head (length m)) m))
     (cmac_final key (drop (cbc_head (length m)) m)))"
  unfolding cmac_aes_def cbc_head_def cbc_step_def Let_def by simp

lemma omac1_is_cmac_aux:
  assumes key: "length key = 16" and ne: "[] \<notin> set addr" and nn: "addr \<noteq> []"
  shows "omac1_aes_128_vector True key addr mac = Some (0, cmac_aes key (concat addr), True)"
proof -
  let ?ctx = "rijndaelKeySetupEnc key" and ?m = "concat addr" and ?n = "length (concat addr)"
  let ?c = "\<lparr>oc_e = 0, oc_off = 0, oc_over = (addr = [])\<rparr>"
  have inv: "oc_inv addr ?c" using ne nn by (cases addr) (auto simp: oc_inv_def)
  have r: "oc_rest addr ?c = ?m" by (simp add: oc_rest_def)
  have n0: "?n \<noteq> 0" using ne nn by (cases addr) auto
  let ?X = "chain 16 (cbc_step key) (replicate 16 0) (take (cbc_head ?n) ?m)"
  have X: "length ?X = 16" by (simp add: length_cbc)
  obtain c' where run: "omac_blocks addr ?ctx ?n (replicate 16 0) ?c = Some (?n mod 16,
      if ?n mod 16 = 0 then bytewise ?X (drop (cbc_head ?n) ?m) else ?X, c')"
    and rest': "oc_rest addr c' = drop (?n - ?n mod 16) ?m" and inv': "oc_inv addr c'"
    using omac_blocks_run [OF key inv, of "replicate 16 0" ?n] n0 by (auto simp: r Let_def)
  note enc = aes_128_encrypt_aes [OF key]
  have tot: "sum_list (map length addr) = ?n" by (simp add: length_concat)
  show ?thesis
  proof (cases "?n mod 16 = 0")
    case True
    then have "16 dvd ?n" by (simp only: mod_eq_0_iff_dvd)
    then have "16 \<le> ?n" using n0 by (intro dvd_imp_le) simp_all
    then have t: "length (drop (cbc_head ?n) ?m) = 16" using n0 True by (simp add: cbc_head_def)
    have "oc_over c'" using inv' rest' True by (intro oc_end) simp_all
    then show ?thesis
      using run True n0 t X nn
      by (simp add: omac1_aes_128_vector_def aes_encrypt_init_def tot AES_BLOCK_SIZE_def enc Let_def
          xor_pad_bytewise [unfolded AES_BLOCK_SIZE_def] cmac_final_full cmac_aes_head
          del: concat_eq_Nil_conv length_0_conv length_greater_0_conv)
  next
    case False
    let ?t = "drop (cbc_head ?n) ?m"
    have t: "length ?t = ?n mod 16" and t': "oc_rest addr c' = ?t" and lt: "length ?t < 16"
      using False rest' by (simp_all add: cbc_head_def mod_less_eq_dividend)
    obtain c2 where "omac_absorb addr [0..<length ?t] ?X c'
        = Some (bytewise (take (length ?t) ?X) ?t @ drop (length ?t) ?X, c2)"
      and "oc_rest addr c2 = []" and "oc_inv addr c2"
      using omac_absorb_run [OF inv', of "length ?t" ?X] lt X t' by auto
    moreover then have "oc_over c2" by (simp add: oc_end)
    ultimately show ?thesis
      using run False X nn bytewise_pad [OF X lt] cmac_final_padded [OF X lt, of key] t [symmetric]
      by (simp add: omac1_aes_128_vector_def aes_encrypt_init_def tot AES_BLOCK_SIZE_def enc Let_def
          xor_pad_bytewise [unfolded AES_BLOCK_SIZE_def] cmac_aes_head
          del: concat_eq_Nil_conv length_0_conv length_greater_0_conv)
  qed
qed

lemma omac1_empty:
  assumes "length key = 16"
  shows "omac1_aes_128_vector True key [[]] mac = Some (0, cmac_aes key [], False)"
  using assms cmac_final_padded [of "replicate 16 0" "[]" key] bytewise_pad [of "replicate 16 0" "[]"]
  by (simp add: omac1_aes_128_vector_def aes_encrypt_init_def omac_blocks.simps AES_BLOCK_SIZE_def
      aes_128_encrypt_aes xor_pad_bytewise [unfolded AES_BLOCK_SIZE_def] cmac_aes_head cbc_head_def)

text \<open>
  C10. OMAC1 is CMAC: with a 16-byte key and a non-empty vector of non-empty elements,
  \<^verbatim>\<open>omac1_aes_128_vector\<close> stores the NIST SP 800-38B code of the concatenated elements,
  wherever the element boundaries fall; when the key schedule cannot be allocated it
  reports -1 and leaves the buffer alone. The third component of the result shows
  that on every successful call the code has loaded \<^verbatim>\<open>addr[num_elem]\<close> and
  \<^verbatim>\<open>len[num_elem]\<close>, one past the end of both arrays, without using them.
\<close>

theorem omac1_is_cmac:
  assumes "length key = 16" and "[] \<notin> set addr" and "addr \<noteq> []"
  shows "omac1_aes_128_vector alloc key addr mac =
    Some (if alloc then (0, cmac_aes key (concat addr), True) else (-1, mac, False))"
  using omac1_is_cmac_aux [OF assms]
  by (cases alloc) (simp_all add: omac1_aes_128_vector_def aes_encrypt_init_def)

theorem omac1_is_cmac_witness:
  "omac1_aes_128_vector True (replicate 16 3) [[1, 2], [3]] [] =
     Some (0, cmac_aes (replicate 16 3) [1, 2, 3], True)"
  using omac1_is_cmac [of "replicate 16 3" "[[1, 2], [3]]" True "[]"] by simp

text \<open>
  \<^verbatim>\<open>omac1_aes_128\<close> stores the CMAC of its data, the empty message included, and reads
  past its one-element vector exactly when the message is not empty.
\<close>

theorem omac1_aes_128_correct:
  assumes "length key = 16"
  shows "omac1_aes_128 True key data mac = Some (0, cmac_aes key data, data \<noteq> [])"
  using assms omac1_is_cmac_aux [of key "[data]" mac] omac1_empty [of key mac]
  by (cases "data = []") (simp_all add: omac1_aes_128_def)

theorem omac1_aes_128_correct_witness:
  "omac1_aes_128 True (replicate 16 3) [] [] = Some (0, cmac_aes (replicate 16 3) [], False)"
  using omac1_aes_128_correct [of "replicate 16 3" "[]" "[]"] by simp

text \<open>
  \<^verbatim>\<open>gf_mulx\<close> is the doubling of SP 800-38B: read as a 128-bit big-endian number, the
  block is shifted left by one and reduced by the polynomial \<open>0x87\<close> when the top bit
  falls out.
\<close>

theorem gf_mulx_doubles:
  assumes "length pad = 16"
  shows "be128 (gf_mulx pad) = cmac_dbl (be128 pad) \<and> length (gf_mulx pad) = 16"
  using assms be128_gf_mulx by simp

theorem gf_mulx_doubles_witness:
  "be128 (gf_mulx (replicate 16 0x80)) = cmac_dbl (be128 (replicate 16 0x80))
     \<and> length (gf_mulx (replicate 16 0x80)) = 16"
  by (rule gf_mulx_doubles) simp

end
