(* ===== verification/Rtw_Sha256.thy ===== *)
theory Rtw_Sha256
  imports Rtw_Blocks
begin

unbundle bit_operations_syntax

text \<open>
  SHA-256, HMAC-SHA256 and the 802.11r key-derivation function of
  \<^verbatim>\<open>core/rtw_security.c\<close> (\<^verbatim>\<open>sha256_compress\<close> to \<^verbatim>\<open>sha256_prf\<close>), with the macros and the
  constant table of \<^verbatim>\<open>include/rtw_security.h\<close>.

  The driver's incremental hash is proved to be the padded one-shot hash of FIPS
  180-4 through an interpretation of \<open>block_hash\<close>, HMAC to be RFC 2104, the key
  derivation to be the counter-mode expansion of IEEE 802.11r.
\<close>

section \<open>Macros and tables\<close>

definition WPA_GET_BE32 :: "bytes \<Rightarrow> nat \<Rightarrow> u32" where
  "WPA_GET_BE32 a k =
     push_bit 24 (ucast (a ! k)) OR push_bit 16 (ucast (a ! (k + 1)))
     OR push_bit 8 (ucast (a ! (k + 2))) OR ucast (a ! (k + 3))"

definition WPA_PUT_LE16 :: "u16 \<Rightarrow> bytes" where
  "WPA_PUT_LE16 val = [ucast (val AND 0xFF), ucast (drop_bit 8 val)]"

definition WPA_PUT_BE32 :: "u32 \<Rightarrow> bytes" where
  "WPA_PUT_BE32 val =
     [ucast (drop_bit 24 val AND 0xFF), ucast (drop_bit 16 val AND 0xFF),
      ucast (drop_bit 8 val AND 0xFF), ucast (val AND 0xFF)]"

definition WPA_PUT_BE64 :: "u64 \<Rightarrow> bytes" where
  "WPA_PUT_BE64 val =
     [ucast (drop_bit 56 val), ucast (drop_bit 48 val), ucast (drop_bit 40 val),
      ucast (drop_bit 32 val), ucast (drop_bit 24 val), ucast (drop_bit 16 val),
      ucast (drop_bit 8 val), ucast (val AND 0xFF)]"

definition sha_K :: "u32 list" where
  "sha_K =
    [0x428A2F98, 0x71374491, 0xB5C0FBCF, 0xE9B5DBA5, 0x3956C25B, 0x59F111F1,
     0x923F82A4, 0xAB1C5ED5, 0xD807AA98, 0x12835B01, 0x243185BE, 0x550C7DC3,
     0x72BE5D74, 0x80DEB1FE, 0x9BDC06A7, 0xC19BF174, 0xE49B69C1, 0xEFBE4786,
     0x0FC19DC6, 0x240CA1CC, 0x2DE92C6F, 0x4A7484AA, 0x5CB0A9DC, 0x76F988DA,
     0x983E5152, 0xA831C66D, 0xB00327C8, 0xBF597FC7, 0xC6E00BF3, 0xD5A79147,
     0x06CA6351, 0x14292967, 0x27B70A85, 0x2E1B2138, 0x4D2C6DFC, 0x53380D13,
     0x650A7354, 0x766A0ABB, 0x81C2C92E, 0x92722C85, 0xA2BFE8A1, 0xA81A664B,
     0xC24B8B70, 0xC76C51A3, 0xD192E819, 0xD6990624, 0xF40E3585, 0x106AA070,
     0x19A4C116, 0x1E376C08, 0x2748774C, 0x34B0BCB5, 0x391C0CB3, 0x4ED8AA4A,
     0x5B9CCA4F, 0x682E6FF3, 0x748F82EE, 0x78A5636F, 0x84C87814, 0x8CC70208,
     0x90BEFFFA, 0xA4506CEB, 0xBEF9A3F7, 0xC67178F2]"

text \<open>\<^verbatim>\<open>unsigned long\<close> is 32 bits wide on the Zynq's ARM cores.\<close>

definition RORc :: "u32 \<Rightarrow> nat \<Rightarrow> u32" where
  "RORc x y = (drop_bit (y mod 32) (x AND 0xFFFFFFFF) OR push_bit (32 - y mod 32) x) AND 0xFFFFFFFF"

definition Ch :: "u32 \<Rightarrow> u32 \<Rightarrow> u32 \<Rightarrow> u32" where
  "Ch x y z = z XOR (x AND (y XOR z))"

definition Maj :: "u32 \<Rightarrow> u32 \<Rightarrow> u32 \<Rightarrow> u32" where
  "Maj x y z = ((x OR y) AND z) OR (x AND y)"

definition Sigma0 :: "u32 \<Rightarrow> u32" where
  "Sigma0 x = RORc x 2 XOR RORc x 13 XOR RORc x 22"

definition Sigma1 :: "u32 \<Rightarrow> u32" where
  "Sigma1 x = RORc x 6 XOR RORc x 11 XOR RORc x 25"

definition Gamma0 :: "u32 \<Rightarrow> u32" where
  "Gamma0 x = RORc x 7 XOR RORc x 18 XOR drop_bit 3 (x AND 0xFFFFFFFF)"

definition Gamma1 :: "u32 \<Rightarrow> u32" where
  "Gamma1 x = RORc x 17 XOR RORc x 19 XOR drop_bit 10 (x AND 0xFFFFFFFF)"

section \<open>The hash\<close>

record sha256_state =
  sha_length :: u64
  sha_state :: "u32 list"
  sha_curlen :: u32
  sha_buf :: bytes

definition block_size :: nat where "block_size = 64"

definition sha256_W :: "bytes \<Rightarrow> u32 list" where
  "sha256_W buf =
     fold (\<lambda>i W. W @ [Gamma1 (W ! (i - 2)) + W ! (i - 7) + Gamma0 (W ! (i - 15)) + W ! (i - 16)])
       [16..<64] (map (\<lambda>i. WPA_GET_BE32 buf (4 * i)) [0..<16])"

text \<open>The macro \<^verbatim>\<open>RND\<close> on \<^verbatim>\<open>S[0..7]\<close> followed by the rotation of the loop body.\<close>

definition sha256_RND :: "u32 list \<Rightarrow> nat \<Rightarrow> u32 list \<Rightarrow> u32 list" where
  "sha256_RND W i S =
     (let t0 = S ! 7 + Sigma1 (S ! 4) + Ch (S ! 4) (S ! 5) (S ! 6) + sha_K ! i + W ! i;
          t1 = Sigma0 (S ! 0) + Maj (S ! 0) (S ! 1) (S ! 2);
          S = S[3 := S ! 3 + t0];
          S = S[7 := t0 + t1]
      in [S ! 7, S ! 0, S ! 1, S ! 2, S ! 3, S ! 4, S ! 5, S ! 6])"

definition sha256_block :: "u32 list \<Rightarrow> bytes \<Rightarrow> u32 list" where
  "sha256_block state buf =
     (let S = fold (sha256_RND (sha256_W buf)) [0..<64] state
      in map (\<lambda>i. state ! i + S ! i) [0..<8])"

definition sha256_compress :: "sha256_state \<Rightarrow> bytes \<Rightarrow> int \<times> sha256_state" where
  "sha256_compress md buf = (0, md\<lparr>sha_state := sha256_block (sha_state md) buf\<rparr>)"

definition sha256_H0 :: "u32 list" where
  "sha256_H0 = [0x6A09E667, 0xBB67AE85, 0x3C6EF372, 0xA54FF53A,
                0x510E527F, 0x9B05688C, 0x1F83D9AB, 0x5BE0CD19]"

definition sha256_init :: "sha256_state \<Rightarrow> sha256_state" where
  "sha256_init md = md\<lparr>sha_curlen := 0, sha_length := 0, sha_state := sha256_H0\<rparr>"

text \<open>
  The loop of \<^verbatim>\<open>sha256_process\<close>. A \<^verbatim>\<open>memcpy\<close> past the end of \<^verbatim>\<open>buf[64]\<close> is \<open>None\<close>. The loop
  ends because each turn consumes input or, when the buffer was full, empties it.
\<close>

function sha256_loop :: "sha256_state \<Rightarrow> bytes \<Rightarrow> (int \<times> sha256_state) option" where
  "sha256_loop md inp =
     (if inp = [] then Some (0, md)
      else if sha_curlen md = 0 \<and> block_size \<le> length inp then
        case sha256_compress md (take block_size inp) of (r, md) \<Rightarrow>
          if r < 0 then Some (-1, md)
          else sha256_loop (md\<lparr>sha_length := sha_length md + of_nat (block_size * 8)\<rparr>)
                 (drop block_size inp)
      else
        let n = min (length inp) (unat (of_nat block_size - sha_curlen md)) in
        case wrn (sha_buf md) (unat (sha_curlen md)) (take n inp) of None \<Rightarrow> None
        | Some buf \<Rightarrow>
            let md = md\<lparr>sha_buf := buf, sha_curlen := sha_curlen md + of_nat n\<rparr> in
            if sha_curlen md = of_nat block_size then
              case sha256_compress md (sha_buf md) of (r, md) \<Rightarrow>
                if r < 0 then Some (-1, md)
                else sha256_loop (md\<lparr>sha_length := sha_length md + of_nat (8 * block_size),
                                     sha_curlen := 0\<rparr>) (drop n inp)
            else sha256_loop md (drop n inp))"
  by pat_completeness auto
termination
  by (relation "measure (\<lambda>(md, inp). 2 * length inp + (if sha_curlen md = 64 then 1 else 0))")
     (auto simp: sha256_compress_def block_size_def min_def unat_gt_0 split: if_splits)

declare sha256_loop.simps [simp del]

definition sha256_process :: "sha256_state \<Rightarrow> bytes \<Rightarrow> (int \<times> sha256_state) option" where
  "sha256_process md inp =
     (if 64 < sha_curlen md then Some (-1, md) else sha256_loop md inp)"

lemma unat_inc_less: "(c :: u32) < lim \<Longrightarrow> unat (c + 1) = unat c + 1"
proof -
  assume "c < lim"
  then have "unat c + 1 < 2 ^ 32"
    using unsigned_less [of lim, where ?'a = nat] by (simp add: word_less_nat_alt)
  then show ?thesis by (simp add: unat_word_ariths)
qed

text \<open>\<^verbatim>\<open>while (md->curlen < lim) md->buf[md->curlen++] = 0\<close>\<close>

function sha256_zeros :: "u32 \<Rightarrow> sha256_state \<Rightarrow> sha256_state" where
  "sha256_zeros lim md =
     (if sha_curlen md < lim then
        sha256_zeros lim (md\<lparr>sha_buf := (sha_buf md)[unat (sha_curlen md) := 0],
                             sha_curlen := sha_curlen md + 1\<rparr>)
      else md)"
  by pat_completeness auto
termination
  by (relation "measure (\<lambda>(lim, md). unat lim - unat (sha_curlen md))")
     (auto simp: unat_inc_less word_less_nat_alt)

declare sha256_zeros.simps [simp del]

definition sha256_done :: "sha256_state \<Rightarrow> bytes \<Rightarrow> int \<times> sha256_state \<times> bytes" where
  "sha256_done md out =
     (if 64 \<le> sha_curlen md then (-1, md, out)
      else
        let md = md\<lparr>sha_length := sha_length md + ucast (sha_curlen md * 8)\<rparr>;
            md = md\<lparr>sha_buf := (sha_buf md)[unat (sha_curlen md) := 0x80],
                    sha_curlen := sha_curlen md + 1\<rparr>;
            md = (if 56 < sha_curlen md then
                    let md = sha256_zeros 64 md;
                        md = snd (sha256_compress md (sha_buf md))
                    in md\<lparr>sha_curlen := 0\<rparr>
                  else md);
            md = sha256_zeros 56 md;
            md = md\<lparr>sha_buf := take 56 (sha_buf md) @ WPA_PUT_BE64 (sha_length md)\<rparr>;
            md = snd (sha256_compress md (sha_buf md))
        in (0, md, concat (map (\<lambda>i. WPA_PUT_BE32 (sha_state md ! i)) [0..<8])))"

text \<open>The local context of \<^verbatim>\<open>sha256_vector\<close> is uninitialised before \<^verbatim>\<open>sha256_init\<close>: \<open>junk\<close>.\<close>

fun sha256_process_all :: "sha256_state \<Rightarrow> bytes list \<Rightarrow> (int \<times> sha256_state) option" where
  "sha256_process_all ctx [] = Some (0, ctx)"
| "sha256_process_all ctx (a # addr) =
     do {
       (r, ctx) \<leftarrow> sha256_process ctx a;
       if r \<noteq> 0 then Some (-1, ctx) else sha256_process_all ctx addr
     }"

definition sha256_vector :: "bytes list \<Rightarrow> bytes \<Rightarrow> (int \<times> bytes) option" where
  "sha256_vector addr mac =
     do {
       let junk = \<lparr>sha_length = 0, sha_state = replicate 8 0, sha_curlen = 0, sha_buf = replicate 64 0\<rparr>;
       (r, ctx) \<leftarrow> sha256_process_all (sha256_init junk) addr;
       if r \<noteq> 0 then Some (-1, mac)
       else
         let (r, ctx, out) = sha256_done ctx mac in
         if r \<noteq> 0 then Some (-1, mac) else Some (0, out)
     }"

section \<open>String helpers\<close>

fun os_strlen :: "bytes \<Rightarrow> u8 option" where
  "os_strlen [] = None"
| "os_strlen (c # s) = (if c = 0 then Some 0 else map_option (\<lambda>n. n + 1) (os_strlen s))"

text \<open>\<^verbatim>\<open>while (*p1 == *p2)\<close> with the counter \<open>n\<close>; a read past either buffer is \<open>None\<close>.\<close>

fun os_memcmp_loop :: "nat \<Rightarrow> bytes \<Rightarrow> bytes \<Rightarrow> int option" where
  "os_memcmp_loop n (a # p1) (b # p2) =
     (if a = b then if n = 1 then Some 0 else os_memcmp_loop (n - 1) p1 p2
      else Some (uint a - uint b))"
| "os_memcmp_loop n _ _ = None"

definition os_memcmp :: "bytes \<Rightarrow> bytes \<Rightarrow> u8 \<Rightarrow> int option" where
  "os_memcmp s1 s2 n = (if n = 0 then Some 0 else os_memcmp_loop (unat n) s1 s2)"

section \<open>HMAC and the key derivation\<close>

definition hmac_k_pad :: "bytes \<Rightarrow> u8 \<Rightarrow> bytes option" where
  "hmac_k_pad key v =
     do {
       k_pad \<leftarrow> wrn (replicate 64 0) 0 key;
       Some (map (\<lambda>i. k_pad ! i XOR v) [0..<64])
     }"

definition hmac_sha256_vector :: "bytes \<Rightarrow> bytes list \<Rightarrow> bytes \<Rightarrow> bytes option" where
  "hmac_sha256_vector key addr mac =
     (if 5 < length addr then Some mac
      else do {
        key \<leftarrow> (if 64 < length key then map_option snd (sha256_vector [key] (replicate 32 0))
                else Some key);
        k_pad \<leftarrow> hmac_k_pad key 0x36;
        (_, mac) \<leftarrow> sha256_vector (k_pad # addr) mac;
        k_pad \<leftarrow> hmac_k_pad key 0x5C;
        (_, mac) \<leftarrow> sha256_vector [k_pad, mac] mac;
        Some mac
      })"

definition SHA256_MAC_LEN :: nat where "SHA256_MAC_LEN = 32"

function sha256_prf_loop ::
    "bytes \<Rightarrow> bytes \<Rightarrow> bytes \<Rightarrow> bytes \<Rightarrow> nat \<Rightarrow> u16 \<Rightarrow> nat \<Rightarrow> bytes \<Rightarrow> bytes option" where
  "sha256_prf_loop key label data length_le buf_len counter pos buf =
     (if pos < buf_len then
        let plen = buf_len - pos;
            addr = [WPA_PUT_LE16 counter, label, data, length_le]
        in if SHA256_MAC_LEN \<le> plen then
             (case do { old \<leftarrow> rdn buf pos SHA256_MAC_LEN;
                        mac \<leftarrow> hmac_sha256_vector key addr old;
                        wrn buf pos mac } of
                None \<Rightarrow> None
              | Some buf \<Rightarrow>
                  sha256_prf_loop key label data length_le buf_len (counter + 1)
                    (pos + SHA256_MAC_LEN) buf)
           else do {
             hash \<leftarrow> hmac_sha256_vector key addr (replicate SHA256_MAC_LEN 0);
             wrn buf pos (take plen hash)
           }
      else Some buf)"
  by pat_completeness auto
termination
  by (relation "measure (\<lambda>(k, l, d, ll, n, c, pos, b). n - pos)") (auto simp: SHA256_MAC_LEN_def)

declare sha256_prf_loop.simps [simp del]

text \<open>
  \<open>label\<close> is the NUL-terminated C string; its length goes through the \<^verbatim>\<open>u8\<close> result of
  \<^verbatim>\<open>os_strlen\<close>. \<^verbatim>\<open>buf_len * 8\<close> is cut to 16 bits by \<^verbatim>\<open>WPA_PUT_LE16\<close>.
\<close>

definition sha256_prf :: "bytes \<Rightarrow> bytes \<Rightarrow> bytes \<Rightarrow> nat \<Rightarrow> bytes \<Rightarrow> bytes option" where
  "sha256_prf key label data buf_len buf =
     do {
       len \<leftarrow> os_strlen label;
       lab \<leftarrow> rdn label 0 (unat len);
       sha256_prf_loop key lab data (WPA_PUT_LE16 (of_nat (buf_len * 8))) buf_len 1 0 buf
     }"

section \<open>The reference hash of FIPS 180-4\<close>

definition fips_round :: "u32 \<Rightarrow> u32 \<Rightarrow> u32 list \<Rightarrow> u32 list" where
  "fips_round k w S =
     (let a = S ! 0; b = S ! 1; c = S ! 2; d = S ! 3; e = S ! 4; f = S ! 5; g = S ! 6; h = S ! 7;
          T1 = h + (word_rotr 6 e XOR word_rotr 11 e XOR word_rotr 25 e)
                 + ((e AND f) XOR (NOT e AND g)) + k + w;
          T2 = (word_rotr 2 a XOR word_rotr 13 a XOR word_rotr 22 a)
                 + ((a AND b) XOR (a AND c) XOR (b AND c))
      in [T1 + T2, a, b, c, d + T1, e, f, g])"

definition fips_extend :: "u32 list \<Rightarrow> u32" where
  "fips_extend W =
     (let n = length W; x = W ! (n - 2); y = W ! (n - 15)
      in (word_rotr 17 x XOR word_rotr 19 x XOR drop_bit 10 x) + W ! (n - 7)
         + (word_rotr 7 y XOR word_rotr 18 y XOR drop_bit 3 y) + W ! (n - 16))"

definition fips_schedule :: "bytes \<Rightarrow> u32 list" where
  "fips_schedule m =
     ((\<lambda>W. W @ [fips_extend W]) ^^ 48)
       (map (\<lambda>i. GETU32 (m ! (4 * i)) (m ! (4 * i + 1)) (m ! (4 * i + 2)) (m ! (4 * i + 3))) [0..<16])"

definition fips_block :: "u32 list \<Rightarrow> bytes \<Rightarrow> u32 list" where
  "fips_block H m =
     map2 (+) H (fold (\<lambda>(k, w). fips_round k w) (zip sha_K (fips_schedule m)) H)"

definition sha256_padding :: "nat \<Rightarrow> bytes" where
  "sha256_padding n =
     0x80 # replicate ((119 - n mod 64) mod 64) 0 @ WPA_PUT_BE64 (of_nat (8 * n))"

definition sha256 :: "bytes \<Rightarrow> bytes" where
  "sha256 m = concat (map WPA_PUT_BE32
     (chain 64 fips_block sha256_H0 (m @ sha256_padding (length m))))"

subsection \<open>The compression function\<close>

lemma and_full_u32 [simp]: "(x :: u32) AND 0xFFFFFFFF = x"
proof -
  have "(0xFFFFFFFF :: u32) = mask 32" by (simp add: mask_eq_exp_minus_1)
  then show ?thesis by (simp add: bit_eq_iff bit_simps)
qed

lemma RORc_rotr: "0 < n \<Longrightarrow> n < 32 \<Longrightarrow> RORc x n = word_rotr n x"
proof (rule bit_word_eqI)
  fix k
  assume n: "0 < n" "n < 32" and k: "k < LENGTH(32)"
  have m: "n mod 32 = n" using n by simp
  have l: "bit (RORc x n) k \<longleftrightarrow> bit x (n + k) \<or> 32 - n \<le> k \<and> bit x (k - (32 - n))"
    unfolding RORc_def and_full_u32 m using k by (simp add: bit_simps)
  show "bit (RORc x n) k = bit (word_rotr n x) k"
  proof (cases "k + n < 32")
    case True
    then have "\<not> 32 - n \<le> k" by arith
    then show ?thesis using n k True unfolding l by (simp add: bit_word_rotr_iff add.commute)
  next
    case False
    then have "(k + n) mod 32 = k - (32 - n)" "32 - n \<le> k" using n k by (simp_all add: mod_if)
    then show ?thesis using n k False unfolding l
      by (simp add: bit_word_rotr_iff add.commute)
  qed
qed

lemma Ch_fips: "Ch x y z = (x AND y) XOR (NOT x AND z)"
  by (rule bit_word_eqI) (auto simp: Ch_def bit_simps)

lemma Maj_fips: "Maj x y z = (x AND y) XOR (x AND z) XOR (y AND z)"
  by (rule bit_word_eqI) (auto simp: Maj_def bit_simps)

lemma WPA_GET_BE32_GETU32:
  "WPA_GET_BE32 a k = GETU32 (a ! k) (a ! (k + 1)) (a ! (k + 2)) (a ! (k + 3))"
  unfolding WPA_GET_BE32_def GETU32_def
  by (rule bit_word_eqI) (auto simp: bit_simps)

lemma sha256_RND_fips: "length S = 8 \<Longrightarrow> sha256_RND W i S = fips_round (sha_K ! i) (W ! i) S"
  by (simp add: sha256_RND_def fips_round_def Let_def Sigma0_def Sigma1_def RORc_rotr
      Ch_fips Maj_fips ac_simps)

lemma length_sha_K [simp]: "length sha_K = 64"
  by (simp add: sha_K_def)

lemma length_fips_round [simp]: "length (fips_round k w S) = 8"
  by (simp add: fips_round_def Let_def)

lemma extend_fips:
  "length W = i \<Longrightarrow> Gamma1 (W ! (i - 2)) + W ! (i - 7) + Gamma0 (W ! (i - 15)) + W ! (i - 16)
     = fips_extend W"
  by (simp add: fips_extend_def Let_def Gamma0_def Gamma1_def RORc_rotr)

lemma schedule_step:
  "(fold (\<lambda>i W. W @ [Gamma1 (W ! (i - 2)) + W ! (i - 7) + Gamma0 (W ! (i - 15)) + W ! (i - 16)])
     [16..<16 + k] W0 = ((\<lambda>W. W @ [fips_extend W]) ^^ k) W0)
   \<and> length (((\<lambda>W. W @ [fips_extend W]) ^^ k) W0) = 16 + k" if "length W0 = 16"
proof (induction k)
  case (Suc k)
  let ?W = "((\<lambda>W. W @ [fips_extend W]) ^^ k) W0"
  have "[16..<16 + Suc k] = [16..<16 + k] @ [16 + k]" by (simp only: add_Suc_right upt_Suc) simp
  moreover have "Gamma1 (?W ! (16 + k - 2)) + ?W ! (16 + k - 7) + Gamma0 (?W ! (16 + k - 15))
      + ?W ! (16 + k - 16) = fips_extend ?W"
    using Suc by (intro extend_fips) simp
  ultimately show ?case
    using Suc by (simp only: fold_append fold_simps o_apply funpow.simps) simp
qed (simp add: that)

lemma sha256_W_fips: "sha256_W m = fips_schedule m" "length (fips_schedule m) = 64"
proof -
  have "length (map (\<lambda>i. WPA_GET_BE32 m (4 * i)) [0..<16]) = 16" by simp
  note step = schedule_step [OF this, of 48]
  have bound: "16 + 48 = (64 :: nat)" by simp
  show "sha256_W m = fips_schedule m"
    unfolding sha256_W_def fips_schedule_def WPA_GET_BE32_GETU32 [symmetric]
    by (rule step [THEN conjunct1, unfolded bound])
  show "length (fips_schedule m) = 64"
    unfolding fips_schedule_def WPA_GET_BE32_GETU32 [symmetric]
    by (rule step [THEN conjunct2, unfolded bound])
qed

lemma rounds_fips:
  assumes "length H = 8" and "n \<le> 64" and "length W = 64"
  shows "fold (sha256_RND W) [0..<n] H = fold (\<lambda>(k, w). fips_round k w) (take n (zip sha_K W)) H
    \<and> length (fold (sha256_RND W) [0..<n] H) = 8"
  using assms(2)
proof (induction n)
  case (Suc n)
  have "take (Suc n) (zip sha_K W) = take n (zip sha_K W) @ [(sha_K ! n, W ! n)]"
    using Suc.prems assms(3) by (simp add: take_Suc_conv_app_nth)
  moreover have "sha256_RND W n (fold (sha256_RND W) [0..<n] H)
      = fips_round (sha_K ! n) (W ! n) (fold (sha256_RND W) [0..<n] H)"
    by (rule sha256_RND_fips) (metis Suc Suc_leD)
  ultimately show ?case using Suc by (simp del: fold_simps)
qed (simp add: assms)

lemma sha256_block_fips: "length H = 8 \<Longrightarrow> sha256_block H m = fips_block H m"
  using rounds_fips [of H 64 "fips_schedule m"]
  by (auto simp: sha256_block_def fips_block_def sha256_W_fips intro!: nth_equalityI)

lemma length_fips_block [simp]: "length H = 8 \<Longrightarrow> length (fips_block H m) = 8"
  using sha256_block_fips [of H m] by (simp flip: sha256_block_fips add: sha256_block_def)

section \<open>The incremental hash\<close>

definition sha_step :: "u32 list \<times> u64 \<Rightarrow> bytes \<Rightarrow> u32 list \<times> u64" where
  "sha_step = (\<lambda>(H, l) b. (sha256_block H b, l + 512))"

definition sha_core :: "sha256_state \<Rightarrow> u32 list \<times> u64" where
  "sha_core md = (sha_state md, sha_length md)"

definition sha_pend :: "sha256_state \<Rightarrow> bytes" where
  "sha_pend md = take (unat (sha_curlen md)) (sha_buf md)"

definition sha_inv :: "sha256_state \<Rightarrow> bool" where
  "sha_inv md \<longleftrightarrow> length (sha_state md) = 8 \<and> length (sha_buf md) = 64 \<and> unat (sha_curlen md) < 64"

lemma length_sha256_block [simp]: "length (sha256_block H b) = 8"
  by (simp add: sha256_block_def Let_def)

lemma loop_block:
  assumes "sha_curlen md = 0" and "length b = 64"
  shows "sha256_loop md (b @ ys) =
    sha256_loop (md\<lparr>sha_state := sha256_block (sha_state md) b, sha_length := sha_length md + 512\<rparr>) ys"
  using assms by (subst sha256_loop.simps) (auto simp: sha256_compress_def block_size_def)

lemma curlen_room: "unat (c :: u32) < 64 \<Longrightarrow> unat (64 - c) = 64 - unat c"
  by (simp add: unat_sub word_le_nat_alt)

lemma curlen_fill:
  "unat (c :: u32) < 64 \<Longrightarrow> n \<le> 64 - unat c \<Longrightarrow> unat (c + of_nat n) = unat c + n"
  by (simp add: unat_word_ariths unat_of_nat)

lemma loop_short:
  assumes "sha_inv md" and "inp \<noteq> []" and "unat (sha_curlen md) + length inp < 64"
  shows "\<exists>md'. sha256_loop md inp = Some (0, md') \<and> sha_inv md' \<and> sha_core md' = sha_core md
    \<and> sha_pend md' = sha_pend md @ inp"
proof -
  let ?c = "sha_curlen md"
  have n: "min (length inp) (unat (64 - ?c)) = length inp"
    using assms by (simp add: sha_inv_def curlen_room)
  have c': "unat (?c + of_nat (length inp)) = unat ?c + length inp"
    using assms by (intro curlen_fill) auto
  then have "?c + of_nat (length inp) \<noteq> 64" using assms(3) by auto
  moreover have "\<not> 64 \<le> length inp" using assms by simp
  ultimately have "sha256_loop md inp = Some (0, md\<lparr>sha_buf := take (unat ?c) (sha_buf md) @ inp
      @ drop (unat ?c + length inp) (sha_buf md), sha_curlen := ?c + of_nat (length inp)\<rparr>)"
    using assms n by (subst sha256_loop.simps)
      (simp add: block_size_def sha_inv_def wrn_Some Let_def sha256_loop.simps [of _ "[]"])
  then show ?thesis
    using assms c' by (auto simp: sha_inv_def sha_core_def sha_pend_def)
qed

lemma loop_fill:
  assumes "sha_inv md" and "unat (sha_curlen md) + length xs = 64"
    and "sha_curlen md \<noteq> 0 \<or> length (xs @ ys) < 64"
  shows "\<exists>buf. length buf = 64 \<and> sha256_loop md (xs @ ys) =
    sha256_loop (md\<lparr>sha_buf := buf, sha_state := sha256_block (sha_state md) (sha_pend md @ xs),
                    sha_length := sha_length md + 512, sha_curlen := 0\<rparr>) ys"
proof -
  let ?c = "sha_curlen md"
  have n: "min (length (xs @ ys)) (unat (64 - ?c)) = length xs"
    using assms by (simp add: sha_inv_def curlen_room)
  have "unat (?c + of_nat (length xs)) = 64"
    using assms curlen_fill [of ?c "length xs"] by (simp add: sha_inv_def)
  then have full: "?c + of_nat (length xs) = 64" by (simp add: word_unat_eq_iff)
  have ne: "xs @ ys \<noteq> []" using assms by (auto simp: sha_inv_def)
  have nb: "\<not> (?c = 0 \<and> 64 \<le> length (xs @ ys))" using assms(3) by auto
  have buf: "wrn (sha_buf md) (unat ?c) xs = Some (sha_pend md @ xs)"
    using assms by (simp add: wrn_Some sha_inv_def sha_pend_def)
  have "sha256_loop md (xs @ ys) = sha256_loop (md\<lparr>sha_buf := sha_pend md @ xs,
        sha_state := sha256_block (sha_state md) (sha_pend md @ xs),
        sha_length := sha_length md + 512, sha_curlen := 0\<rparr>) ys"
    using ne nb
    by (subst sha256_loop.simps) (auto simp: block_size_def n [simplified] buf full Let_def sha256_compress_def)
  moreover have "length (sha_pend md @ xs) = 64"
    using assms by (simp add: sha_inv_def sha_pend_def)
  ultimately show ?thesis by blast
qed

lemma sha256_loop_absorbs:
  "sha_inv md \<Longrightarrow> \<exists>md'. sha256_loop md inp = Some (0, md') \<and> sha_inv md'
     \<and> sha_core md' = chain 64 sha_step (sha_core md) (sha_pend md @ inp)
     \<and> sha_pend md' = rest 64 (sha_pend md @ inp)"
proof (induction "length inp" arbitrary: md inp rule: less_induct)
  case less
  let ?c = "unat (sha_curlen md)"
  have pend: "length (sha_pend md) = ?c" using less.prems by (simp add: sha_inv_def sha_pend_def)
  consider "inp = []" | "inp \<noteq> []" "?c + length inp < 64"
    | "64 \<le> ?c + length inp" "sha_curlen md = 0" | "64 \<le> ?c + length inp" "sha_curlen md \<noteq> 0"
    by linarith
  then show ?case
  proof cases
    case 1
    then show ?thesis
      using less.prems pend by (simp add: sha256_loop.simps [of md "[]"] sha_inv_def)
  next
    case 2
    then show ?thesis using loop_short [OF less.prems 2] pend by auto
  next
    case 3
    let ?md = "md\<lparr>sha_state := sha256_block (sha_state md) (take 64 inp), sha_length := sha_length md + 512\<rparr>"
    have "sha256_loop md inp = sha256_loop ?md (drop 64 inp)"
      using loop_block [of md "take 64 inp" "drop 64 inp"] 3 by simp
    moreover have "sha_inv ?md" "sha_pend ?md = []" "sha_pend md = []"
      using less.prems 3 by (simp_all add: sha_inv_def sha_pend_def)
    moreover have "chain 64 sha_step (sha_core md) inp = chain 64 sha_step (sha_core ?md) (drop 64 inp)"
      "rest 64 inp = rest 64 (drop 64 inp)"
      using chain_block [of 64 "take 64 inp" sha_step "sha_core md" "drop 64 inp"]
        rest_block [of "take 64 inp" 64 "drop 64 inp"] 3
      by (simp_all add: sha_step_def sha_core_def)
    ultimately show ?thesis using less.hyps [of "drop 64 inp" ?md] 3 by simp
  next
    case 4
    let ?xs = "take (64 - ?c) inp" and ?ys = "drop (64 - ?c) inp"
    obtain buf where buf: "length buf = 64" and loop: "sha256_loop md (?xs @ ?ys) =
      sha256_loop (md\<lparr>sha_buf := buf, sha_state := sha256_block (sha_state md) (sha_pend md @ ?xs),
        sha_length := sha_length md + 512, sha_curlen := 0\<rparr>) ?ys" (is "_ = sha256_loop ?md _")
      using loop_fill [of md ?xs ?ys] less.prems 4 by (auto simp: sha_inv_def)
    have c: "?c < 64" "0 < ?c" using less.prems 4 by (simp_all add: sha_inv_def unat_gt_0)
    have inv: "sha_inv ?md" and p: "sha_pend ?md = []" using buf by (simp_all add: sha_inv_def sha_pend_def)
    have "length (sha_pend md @ ?xs) = 64" using pend c 4 by simp
    moreover have "sha_pend md @ inp = (sha_pend md @ ?xs) @ ?ys" by simp
    ultimately have "chain 64 sha_step (sha_core md) (sha_pend md @ inp) = chain 64 sha_step (sha_core ?md) ?ys"
      "rest 64 (sha_pend md @ inp) = rest 64 ?ys"
      using chain_block [of 64 "sha_pend md @ ?xs" sha_step "sha_core md" ?ys]
        rest_block [of "sha_pend md @ ?xs" 64 ?ys]
      by (simp_all add: sha_step_def sha_core_def)
    then show ?thesis using less.hyps [of ?ys ?md] loop inv p c 4 by simp
  qed
qed

lemma sha256_process_absorbs:
  assumes "sha_inv md"
  shows "\<exists>md'. sha256_process md inp = Some (0, md') \<and> sha_inv md'
     \<and> sha_core md' = chain 64 sha_step (sha_core md) (sha_pend md @ inp)
     \<and> sha_pend md' = rest 64 (sha_pend md @ inp)"
proof -
  have "\<not> 64 < sha_curlen md" using assms by (simp add: sha_inv_def word_less_nat_alt)
  then show ?thesis using sha256_loop_absorbs [OF assms] by (simp add: sha256_process_def)
qed

definition sha_absorb :: "bytes \<Rightarrow> sha256_state \<Rightarrow> sha256_state" where
  "sha_absorb inp md = snd (the (sha256_process md inp))"

interpretation sha: block_hash 64 sha_step sha_core sha_pend sha_inv sha_absorb
proof unfold_locales
  fix s bs
  assume "sha_inv s"
  then obtain md' where "sha256_process s bs = Some (0, md')" "sha_inv md'"
    "sha_core md' = chain 64 sha_step (sha_core s) (sha_pend s @ bs)"
    "sha_pend md' = rest 64 (sha_pend s @ bs)"
    using sha256_process_absorbs by blast
  then show "sha_inv (sha_absorb bs s)"
    "sha_core (sha_absorb bs s) = chain 64 sha_step (sha_core s) (sha_pend s @ bs)"
    "sha_pend (sha_absorb bs s) = rest 64 (sha_pend s @ bs)"
    by (simp_all add: sha_absorb_def)
qed (simp_all add: sha_inv_def sha_pend_def)

lemma sha256_process_all_fold:
  "sha_inv md \<Longrightarrow> sha256_process_all md addr = Some (0, fold sha_absorb addr md)"
proof (induction addr arbitrary: md)
  case (Cons a addr)
  then obtain md' where "sha256_process md a = Some (0, md')" using sha256_process_absorbs by blast
  with Cons sha.absorb_inv [of md a] show ?case by (simp add: sha_absorb_def)
qed simp

lemma chain_sha_step:
  "chain 64 sha_step (H, l) xs = (chain 64 sha256_block H xs, l + of_nat (512 * (length xs div 64)))"
proof (induction "length xs" arbitrary: xs H l rule: less_induct)
  case less
  show ?case
  proof (rule block_cases [of 64 xs])
    fix b ys
    assume b: "length b = 64" "xs = b @ ys"
    then have "chain 64 sha_step (H, l) xs = chain 64 sha_step (sha256_block H b, l + 512) ys"
      by (simp add: chain_block sha_step_def)
    moreover have "length xs div 64 = Suc (length ys div 64)" using b by simp
    ultimately show ?thesis using b(1) less [of ys] by (simp add: b(2) chain_block distrib_left)
  qed simp_all
qed

lemma chain_fips: "length H = 8 \<Longrightarrow> chain 64 sha256_block H xs = chain 64 fips_block H xs"
proof (induction "length xs" arbitrary: xs H rule: less_induct)
  case less
  show ?case
    by (rule block_cases [of 64 xs])
       (simp_all add: chain_block less sha256_block_fips)
qed

subsection \<open>The padding\<close>

lemma sha256_zeros_fill:
  assumes "unat (sha_curlen md) \<le> unat lim" and "unat lim \<le> 64" and "length (sha_buf md) = 64"
  shows "sha256_zeros lim md = md\<lparr>sha_buf := take (unat (sha_curlen md)) (sha_buf md)
      @ replicate (unat lim - unat (sha_curlen md)) 0 @ drop (unat lim) (sha_buf md), sha_curlen := lim\<rparr>"
  using assms
proof (induction "unat lim - unat (sha_curlen md)" arbitrary: md)
  case 0
  then have "sha_curlen md = lim" by (simp add: word_unat_eq_iff)
  then show ?case by (simp add: sha256_zeros.simps)
next
  case (Suc n)
  let ?c = "unat (sha_curlen md)"
  let ?md = "md\<lparr>sha_buf := (sha_buf md)[?c := 0], sha_curlen := sha_curlen md + 1\<rparr>"
  have lt: "sha_curlen md < lim" using Suc.hyps(2) by (simp add: word_less_nat_alt)
  then have c: "unat (sha_curlen md + 1) = Suc ?c" by (simp add: unat_inc_less)
  have "sha256_zeros lim md = sha256_zeros lim ?md" using lt by (subst sha256_zeros.simps) simp
  also have "\<dots> = ?md\<lparr>sha_buf := take (Suc ?c) (sha_buf ?md)
      @ replicate (unat lim - Suc ?c) 0 @ drop (unat lim) (sha_buf ?md), sha_curlen := lim\<rparr>"
    using Suc.hyps(1) [of ?md] Suc.hyps(2) Suc.prems c by simp
  also have "take (Suc ?c) (sha_buf ?md) = take ?c (sha_buf md) @ [0]"
    using Suc.hyps(2) Suc.prems by (simp add: take_Suc_conv_app_nth)
  also have "drop (unat lim) (sha_buf ?md) = drop (unat lim) (sha_buf md)"
    using Suc.hyps(2) by simp
  finally show ?case using Suc.hyps(2)
    by (simp flip: replicate_Suc add: replicate_append_same Suc_diff_Suc)
qed

lemma length_WPA_PUT_BE64 [simp]: "length (WPA_PUT_BE64 v) = 8"
  by (simp add: WPA_PUT_BE64_def)

lemma length_WPA_PUT_BE32 [simp]: "length (WPA_PUT_BE32 v) = 4"
  by (simp add: WPA_PUT_BE32_def)

lemma length_concat_BE32: "length (concat (map WPA_PUT_BE32 xs)) = 4 * length xs"
  by (induction xs) simp_all

lemma chain_length8: "length H = 8 \<Longrightarrow> length (chain 64 fips_block H xs) = 8"
proof (induction "length xs" arbitrary: xs H rule: less_induct)
  case less
  show ?case by (rule block_cases [of 64 xs]) (simp_all add: chain_block less)
qed

lemma length_sha256 [simp]: "length (sha256 m) = 32"
  by (simp add: sha256_def length_concat_BE32 chain_length8 sha256_H0_def)

lemma map_nth_8: "length xs = 8 \<Longrightarrow> map (\<lambda>i. f (xs ! i)) [0..<8] = map f xs"
  by (intro nth_equalityI) simp_all

lemma sha256_done_pads:
  assumes "sha_inv md"
  defines "c \<equiv> unat (sha_curlen md)"
  shows "\<exists>md'. sha256_done md out = (0, md', concat (map WPA_PUT_BE32
    (chain 64 sha256_block (sha_state md) (sha_pend md @ 0x80 # replicate ((119 - c mod 64) mod 64) 0
      @ WPA_PUT_BE64 (sha_length md + of_nat (8 * c))))))"
proof -
  have c: "c < 64" and l: "length (sha_buf md) = 64" "length (sha_pend md) = c"
    using assms by (simp_all add: sha_inv_def sha_pend_def)
  have small: "\<not> 64 \<le> sha_curlen md" using c by (simp add: word_le_nat_alt c_def)
  have c1: "unat (sha_curlen md + 1) = Suc c"
    using c by (simp add: unat_word_ariths c_def)
  have u8c: "ucast (sha_curlen md * 8) = (of_nat (8 * c) :: u64)"
  proof -
    have "unat (sha_curlen md * 8) = 8 * c" using c by (simp add: unat_word_ariths c_def)
    then show ?thesis by (metis of_nat_unat)
  qed
  have b80: "take (Suc c) ((sha_buf md)[c := 0x80]) = sha_pend md @ [0x80]"
    using c l by (simp add: take_Suc_conv_app_nth sha_pend_def c_def)
  show ?thesis
  proof (cases "c < 56")
    case True
    then have "\<not> 56 < sha_curlen md + 1" using c1 by (simp add: word_less_nat_alt)
    moreover have "(119 - c) mod 64 = 55 - c" "56 - c = Suc (55 - c)"
      using True by (simp_all add: mod_if)
    ultimately show ?thesis
      using small True c l c1 u8c b80
      by (simp add: sha256_done_def sha256_zeros_fill sha256_compress_def map_nth_8 Let_def
          flip: c_def)
  next
    case False
    then have "56 < sha_curlen md + 1" using c1 by (simp add: word_less_nat_alt)
    moreover have "(119 - c) mod 64 = 119 - c" "63 - c + 56 = 119 - c" "unat (64 :: u32) - Suc c = 63 - c"
      using False c by simp_all
    moreover have "chain 64 sha256_block H ((sha_pend md @ 0x80 # replicate (63 - c) 0)
        @ (replicate 56 0 @ WPA_PUT_BE64 v)) = sha256_block (sha256_block H
        (sha_pend md @ 0x80 # replicate (63 - c) 0)) (replicate 56 0 @ WPA_PUT_BE64 v)" for H v
      using c l by (subst chain_block) simp_all
    moreover have "replicate (119 - c) (0 :: u8) = replicate (63 - c) 0 @ replicate 56 0"
      using \<open>63 - c + 56 = 119 - c\<close> by (metis replicate_add)
    ultimately show ?thesis
      using small False c l c1 u8c b80
      by (simp add: sha256_done_def sha256_zeros_fill sha256_compress_def map_nth_8 Let_def
          flip: c_def)
  qed
qed

lemma sha256_vector_hash: "sha256_vector addr mac = Some (0, sha256 (concat addr))"
proof -
  let ?start = "sha256_init \<lparr>sha_length = 0, sha_state = replicate 8 0, sha_curlen = 0, sha_buf = replicate 64 0\<rparr>"
  let ?md = "fold sha_absorb addr ?start" and ?m = "concat addr"
  have inv0: "sha_inv ?start" and pend0: "sha_pend ?start = []" and core0: "sha_core ?start = (sha256_H0, 0)"
    by (simp_all add: sha_inv_def sha256_init_def sha256_H0_def sha_pend_def sha_core_def)
  have inv: "sha_inv ?md" using inv0 by (rule sha.absorb_all_inv)
  have core: "sha_state ?md = chain 64 sha256_block sha256_H0 ?m"
      "sha_length ?md = of_nat (512 * (length ?m div 64))" and pend: "sha_pend ?md = rest 64 ?m"
    using sha.absorb_all [OF inv0, of addr, unfolded core0 pend0 chain_sha_step append_Nil]
    by (simp_all add: sha_core_def)
  have c: "unat (sha_curlen ?md) = length ?m mod 64"
    using inv length_rest [of 64 ?m] by (simp add: sha_inv_def flip: pend) (simp add: sha_pend_def)
  have len: "sha_length ?md + of_nat (8 * (length ?m mod 64)) = of_nat (8 * length ?m)"
  proof -
    have "512 * (length ?m div 64) + 8 * (length ?m mod 64) = 8 * length ?m"
      using div_mult_mod_eq [of "length ?m" 64] by linarith
    then show ?thesis by (simp only: core flip: of_nat_add)
  qed
  obtain md' where "sha256_done ?md mac = (0, md', concat (map WPA_PUT_BE32
      (chain 64 sha256_block (sha_state ?md) (rest 64 ?m @ sha256_padding (length ?m)))))"
    using sha256_done_pads [OF inv, of mac] len
    unfolding c pend sha256_padding_def mod_mod_trivial by auto
  also have "chain 64 sha256_block (sha_state ?md) (rest 64 ?m @ sha256_padding (length ?m))
      = chain 64 fips_block sha256_H0 (?m @ sha256_padding (length ?m))"
    by (simp only: core chain_rest_append zero_less_numeral) (rule chain_fips, simp add: sha256_H0_def)
  finally show ?thesis
    using sha256_process_all_fold [OF inv0, of addr] by (simp add: sha256_vector_def sha256_def)
qed

section \<open>HMAC and key derivation against their standards\<close>

definition hmac_key :: "bytes \<Rightarrow> bytes" where
  "hmac_key key = (let k = (if 64 < length key then sha256 key else key)
     in k @ replicate (64 - length k) 0)"

definition hmac_sha256 :: "bytes \<Rightarrow> bytes \<Rightarrow> bytes" where
  "hmac_sha256 key msg =
     sha256 (map (\<lambda>b. b XOR 0x5C) (hmac_key key)
       @ sha256 (map (\<lambda>b. b XOR 0x36) (hmac_key key) @ msg))"

definition prf_block :: "bytes \<Rightarrow> bytes \<Rightarrow> bytes \<Rightarrow> nat \<Rightarrow> u16 \<Rightarrow> bytes" where
  "prf_block key label data n ctr =
     hmac_sha256 key (WPA_PUT_LE16 ctr @ label @ data @ WPA_PUT_LE16 (of_nat (8 * n)))"

definition kdf_sha256 :: "bytes \<Rightarrow> bytes \<Rightarrow> bytes \<Rightarrow> nat \<Rightarrow> bytes" where
  "kdf_sha256 key label data n =
     take n (concat (map (\<lambda>i. prf_block key label data n (1 + of_nat i)) [0..<(n + 31) div 32]))"

lemma hmac_k_pad_eq:
  assumes "length k \<le> 64"
  shows "hmac_k_pad k v = Some (map (\<lambda>b. b XOR v) (k @ replicate (64 - length k) 0))"
proof -
  have "map (\<lambda>i. (k @ replicate (64 - length k) 0) ! i XOR v) [0..<64]
      = map (\<lambda>b. b XOR v) (k @ replicate (64 - length k) 0)"
    using assms by (intro nth_equalityI) (simp_all add: nth_append)
  then show ?thesis using assms by (simp add: hmac_k_pad_def wrn_Some)
qed

lemma hmac_sha256_vector_hmac:
  "length addr \<le> 5 \<Longrightarrow> hmac_sha256_vector key addr mac = Some (hmac_sha256 key (concat addr))"
  by (simp add: hmac_sha256_vector_def sha256_vector_hash hmac_k_pad_eq hmac_sha256_def hmac_key_def Let_def)

lemma length_hmac_sha256 [simp]: "length (hmac_sha256 key m) = 32"
  by (simp add: hmac_sha256_def)

lemma length_prf_block [simp]: "length (prf_block key label data n c) = 32"
  by (simp add: prf_block_def)

lemma stream_Suc:
  "concat (map (\<lambda>i. f (c + of_nat i)) [0..<Suc m]) = f c @ concat (map (\<lambda>i. f (c + 1 + of_nat i)) [0..<m])"
  for c :: u16
  by (simp add: concat_upt_Suc add.assoc del: upt_Suc)

lemma prf_loop_run:
  assumes "n \<le> length buf" and "pos \<le> n"
  shows "sha256_prf_loop key label data (WPA_PUT_LE16 (of_nat (8 * n))) n c pos buf =
    Some (take pos buf
      @ take (n - pos) (concat (map (\<lambda>i. prf_block key label data n (c + of_nat i)) [0..<(n - pos + 31) div 32]))
      @ drop n buf)"
  using assms
proof (induction "n - pos" arbitrary: pos c buf rule: less_induct)
  case less
  let ?ll = "WPA_PUT_LE16 (of_nat (8 * n))" and ?blk = "prf_block key label data n"
  have hmac: "hmac_sha256_vector key [WPA_PUT_LE16 c, label, data, ?ll] old = Some (?blk c)" for old
    by (simp add: hmac_sha256_vector_hmac prf_block_def)
  consider "pos = n" | "pos < n" "n - pos < 32" | "32 \<le> n - pos" using less.prems by linarith
  then show ?case
  proof cases
    case 1
    then show ?thesis by (simp add: sha256_prf_loop.simps)
  next
    case 2
    then have "(n - pos + 31) div 32 = 1" by simp
    then show ?thesis using 2 less.prems hmac
      by (subst sha256_prf_loop.simps) (simp add: SHA256_MAC_LEN_def wrn_Some)
  next
    case 3
    let ?buf = "take pos buf @ ?blk c @ drop (pos + 32) buf"
    have "sha256_prf_loop key label data ?ll n c pos buf
        = sha256_prf_loop key label data ?ll n (c + 1) (pos + 32) ?buf"
      using 3 less.prems hmac
      by (subst sha256_prf_loop.simps) (auto simp: SHA256_MAC_LEN_def wrn_Some rdn_Some)
    also have "\<dots> = Some (take (pos + 32) ?buf @ take (n - (pos + 32))
        (concat (map (\<lambda>i. ?blk (c + 1 + of_nat i)) [0..<(n - (pos + 32) + 31) div 32])) @ drop n ?buf)"
      using 3 less.prems by (intro less.hyps) auto
    finally have run: "sha256_prf_loop key label data ?ll n c pos buf = \<dots>" .
    have "(n - pos + 31) div 32 = Suc ((n - (pos + 32) + 31) div 32)" using 3 by simp
    then have blocks: "concat (map (\<lambda>i. ?blk (c + of_nat i)) [0..<(n - pos + 31) div 32])
        = ?blk c @ concat (map (\<lambda>i. ?blk (c + 1 + of_nat i)) [0..<(n - (pos + 32) + 31) div 32])"
      by (simp only: stream_Suc)
    then show ?thesis using run 3 less.prems by (simp only: blocks) simp
  qed
qed

lemma os_strlen_string:
  "0 \<notin> set l \<Longrightarrow> os_strlen (l @ 0 # junk) = Some (of_nat (length l))"
  by (induction l) (auto simp: add.commute)


text \<open>
  C9. \<^verbatim>\<open>sha256_vector\<close> is SHA-256: for every data vector it succeeds, without writing
  outside its 64-byte block buffer, and stores the FIPS 180-4 digest of the
  concatenation of the elements, however the message is cut into elements.
\<close>

theorem sha256_vector_correct: "sha256_vector addr mac = Some (0, sha256 (concat addr))"
  by (rule sha256_vector_hash)

text \<open>
  \<^verbatim>\<open>hmac_sha256_vector\<close> computes the HMAC of RFC 2104 for vectors of at most five
  elements and leaves the output buffer untouched, with no error report, for longer
  ones.
\<close>

theorem hmac_sha256_vector_correct:
  "hmac_sha256_vector key addr mac =
     Some (if length addr \<le> 5 then hmac_sha256 key (concat addr) else mac)"
  by (simp add: hmac_sha256_vector_hmac) (simp add: hmac_sha256_vector_def)

lemma sha256_prf_kdf:
  assumes "0 \<notin> set label" and "length label < 256" and "n \<le> length buf"
  shows "sha256_prf key (label @ 0 # junk) data n buf = Some (kdf_sha256 key label data n @ drop n buf)"
proof -
  have "unat (of_nat (length label) :: u8) = length label"
    using assms(2) by (simp add: unat_of_nat)
  then show ?thesis
    using prf_loop_run [of n buf 0 key label data 1] assms
    by (simp add: sha256_prf_def os_strlen_string rdn_Some kdf_sha256_def mult.commute)
qed

text \<open>
  \<^verbatim>\<open>sha256_prf\<close> terminates for every output length and fills exactly the first
  \<open>n\<close> bytes of the output with the 802.11r counter-mode key stream, provided the label
  is a C string shorter than the 256 characters the \<^verbatim>\<open>u8\<close> result of \<^verbatim>\<open>os_strlen\<close> can
  count; the bytes after them are unchanged.
\<close>

theorem sha256_prf_correct:
  assumes "0 \<notin> set label" and "length label < 256" and "n \<le> length buf"
  shows "sha256_prf key (label @ 0 # junk) data n buf = Some (kdf_sha256 key label data n @ drop n buf)"
  using assms by (rule sha256_prf_kdf)

theorem sha256_prf_correct_witness:
  "sha256_prf [1, 2] ([65, 66] @ 0 # []) [7] 3 [9, 9, 9, 9]
     = Some (kdf_sha256 [1, 2] [65, 66] [7] 3 @ [9])"
  using sha256_prf_correct [of "[65, 66]" 3 "[9, 9, 9, 9]" "[1, 2]" "[]" "[7]"] by simp

lemma os_memcmp_loop_eq:
  "0 < n \<Longrightarrow> n \<le> length s1 \<Longrightarrow> n \<le> length s2 \<Longrightarrow>
     \<exists>r. os_memcmp_loop n s1 s2 = Some r \<and> (r = 0 \<longleftrightarrow> take n s1 = take n s2)"
proof (induction n s1 s2 rule: os_memcmp_loop.induct)
  case (1 n a p1 b p2)
  then obtain m where n: "n = Suc m" by (cases n) auto
  show ?case
  proof (cases "a = b \<and> m \<noteq> 0")
    case True
    then show ?thesis using 1 n by simp
  next
    case False
    then show ?thesis using n by (auto simp: word_uint_eq_iff)
  qed
qed auto

text \<open>
  \<^verbatim>\<open>os_memcmp\<close> on buffers of at least \<open>n\<close> bytes returns 0 exactly when their first
  \<open>n\<close> bytes agree and never reads beyond them.
\<close>

theorem os_memcmp_correct:
  assumes "unat n \<le> length s1" and "unat n \<le> length s2"
  shows "\<exists>r. os_memcmp s1 s2 n = Some r \<and> (r = 0 \<longleftrightarrow> take (unat n) s1 = take (unat n) s2)"
  using assms os_memcmp_loop_eq [of "unat n" s1 s2] by (simp add: os_memcmp_def unat_gt_0)

theorem os_memcmp_correct_witness:
  "\<exists>r. os_memcmp [1, 2, 3] [1, 2, 4] 2 = Some r \<and> (r = 0 \<longleftrightarrow> take 2 [1, 2, 3 :: u8] = take 2 [1, 2, 4])"
  using os_memcmp_correct [of 2 "[1, 2, 3]" "[1, 2, 4]"] by simp

end
