(* ===== verification/Rtw_Ccmp.thy ===== *)
theory Rtw_Ccmp
  imports Rtw_Aes
begin

unbundle bit_operations_syntax

text \<open>
  CCMP frame protection (\<^verbatim>\<open>construct_mic_iv\<close> to \<^verbatim>\<open>aes_decipher\<close> of \<^verbatim>\<open>core/rtw_security.c\<close>).

  Frames are mutated in place: a frame is a buffer, an operation returns the new
  buffer, and an access outside it is \<open>None\<close>. The argument \<open>w11\<close> is the build option
  \<^verbatim>\<open>CONFIG_IEEE80211W\<close>. The stretches of code that \<^verbatim>\<open>aes_cipher\<close> and \<^verbatim>\<open>aes_decipher\<close>
  repeat (the CBC-MAC, the counter-mode pass, the encryption of the MIC) are one
  definition each. Logging is not modelled.
\<close>

section \<open>Frame control field\<close>

definition le16_at :: "bytes \<Rightarrow> nat \<Rightarrow> u16 option" where
  "le16_at buf k = do { b0 \<leftarrow> rd buf k; b1 \<leftarrow> rd buf (k + 1); Some (ucast b0 OR push_bit 8 (ucast b1)) }"

definition GetFrameType :: "bytes \<Rightarrow> u16 option" where
  "GetFrameType pbuf = map_option (\<lambda>fc. fc AND 0x0C) (le16_at pbuf 0)"

definition GetFrameSubType :: "bytes \<Rightarrow> u16 option" where
  "GetFrameSubType pbuf = map_option (\<lambda>fc. fc AND 0xFC) (le16_at pbuf 0)"

definition WIFI_MGT_TYPE :: u16 where "WIFI_MGT_TYPE = 0"
definition WIFI_DATA :: u16 where "WIFI_DATA = 0x08"
definition WIFI_DATA_CFACK :: u16 where "WIFI_DATA_CFACK = 0x18"
definition WIFI_DATA_CFPOLL :: u16 where "WIFI_DATA_CFPOLL = 0x28"
definition WIFI_DATA_CFACKPOLL :: u16 where "WIFI_DATA_CFACKPOLL = 0x38"

definition WLAN_HDR_A3_LEN :: nat where "WLAN_HDR_A3_LEN = 24"
definition WLAN_HDR_A3_QOS_LEN :: nat where "WLAN_HDR_A3_QOS_LEN = 26"

definition rtw_SUCCESS :: int where "rtw_SUCCESS = 1"
definition rtw_FAIL :: int where "rtw_FAIL = 0"

section \<open>Nonce, additional data and counter blocks\<close>

definition construct_mic_iv ::
    "bool \<Rightarrow> bool \<Rightarrow> bool \<Rightarrow> bytes \<Rightarrow> nat \<Rightarrow> bytes \<Rightarrow> u16 \<Rightarrow> bytes option" where
  "construct_mic_iv w11 qc_exists a4_exists mpdu payload_length pn_vector frtype =
     do {
       iv1 \<leftarrow> (if qc_exists \<and> a4_exists then map_option (\<lambda>b. b AND 0x0F) (rd mpdu 30)
               else if qc_exists \<and> \<not> a4_exists then map_option (\<lambda>b. b AND 0x0F) (rd mpdu 24)
               else Some 0);
       let iv1 = (if w11 \<and> frtype = WIFI_MGT_TYPE then iv1 OR 0x10 else iv1);
       a2 \<leftarrow> rdn mpdu 10 6;
       Some ([0x59, iv1] @ a2 @ map (\<lambda>i. pn_vector ! (13 - i)) [8..<14]
             @ [of_nat (payload_length div 256), of_nat (payload_length mod 256)])
     }"

text \<open>\<open>header_length\<close> is at least 24 on every path, so the subtraction is the C one.\<close>

definition construct_mic_header1 :: "bool \<Rightarrow> nat \<Rightarrow> bytes \<Rightarrow> u16 \<Rightarrow> bytes option" where
  "construct_mic_header1 w11 header_length mpdu frtype =
     do {
       fc0 \<leftarrow> rd mpdu 0;
       fc1 \<leftarrow> rd mpdu 1;
       a12 \<leftarrow> rdn mpdu 4 12;
       Some ([of_nat ((header_length - 2) div 256), of_nat ((header_length - 2) mod 256),
              if w11 \<and> frtype = WIFI_MGT_TYPE then fc0 else fc0 AND 0xCF, fc1 AND 0xC7] @ a12)
     }"

definition construct_mic_header2 :: "bytes \<Rightarrow> bool \<Rightarrow> bool \<Rightarrow> bytes option" where
  "construct_mic_header2 mpdu a4_exists qc_exists =
     do {
       a3 \<leftarrow> rdn mpdu 16 6;
       tail \<leftarrow>
         (if \<not> qc_exists \<and> a4_exists then map_option (\<lambda>a4. a4 @ [0, 0]) (rdn mpdu 24 6)
          else if qc_exists \<and> \<not> a4_exists then
            do { q0 \<leftarrow> rd mpdu 24; q1 \<leftarrow> rd mpdu 25;
                 Some ([q0 AND 0x0F, q1 AND 0x00] @ replicate 6 0) }
          else if qc_exists \<and> a4_exists then
            do { a4 \<leftarrow> rdn mpdu 24 6; q0 \<leftarrow> rd mpdu 30; q1 \<leftarrow> rd mpdu 31;
                 Some (a4 @ [q0 AND 0x0F, q1 AND 0x00]) }
          else Some (replicate 8 0));
       Some (a3 @ [0, 0] @ tail)
     }"

definition construct_ctr_preload ::
    "bool \<Rightarrow> bool \<Rightarrow> bool \<Rightarrow> bytes \<Rightarrow> bytes \<Rightarrow> nat \<Rightarrow> u16 \<Rightarrow> bytes option" where
  "construct_ctr_preload w11 a4_exists qc_exists mpdu pn_vector c frtype =
     do {
       c1 \<leftarrow> (if qc_exists \<and> a4_exists then map_option (\<lambda>b. b AND 0x0F) (rd mpdu 30)
              else if qc_exists \<and> \<not> a4_exists then map_option (\<lambda>b. b AND 0x0F) (rd mpdu 24)
              else Some 0);
       let c1 = (if w11 \<and> frtype = WIFI_MGT_TYPE then c1 OR 0x10 else c1);
       a2 \<leftarrow> rdn mpdu 10 6;
       Some ([0x01, c1] @ a2 @ map (\<lambda>i. pn_vector ! (13 - i)) [8..<14]
             @ [of_nat (c div 256), of_nat (c mod 256)])
     }"

definition bitwise_xor :: "bytes \<Rightarrow> bytes \<Rightarrow> bytes" where
  "bitwise_xor ina inb = map (\<lambda>i. ina ! i XOR inb ! i) [0..<16]"

text \<open>
  Does the frame carry a QoS control field, and the header length the rest of the
  function works with.
\<close>

definition ccmp_qos :: "u16 \<Rightarrow> u16 \<Rightarrow> nat \<Rightarrow> bool \<times> nat" where
  "ccmp_qos frtype frsubtype hdrlen =
     (if frtype OR frsubtype = WIFI_DATA_CFACK \<or> frtype OR frsubtype = WIFI_DATA_CFPOLL
         \<or> frtype OR frsubtype = WIFI_DATA_CFACKPOLL then
        (True, if hdrlen \<noteq> WLAN_HDR_A3_QOS_LEN then hdrlen + 2 else hdrlen)
      else if frtype = WIFI_DATA \<and> (frsubtype = 0x08 \<or> frsubtype = 0x09 \<or> frsubtype = 0x0A
         \<or> frsubtype = 0x0B) then
        (True, if hdrlen \<noteq> WLAN_HDR_A3_QOS_LEN then hdrlen + 2 else hdrlen)
      else (False, hdrlen))"

definition ccmp_pn :: "bytes \<Rightarrow> nat \<Rightarrow> bytes option" where
  "ccmp_pn pframe hdrlen =
     do { p \<leftarrow> rdn pframe hdrlen 8; Some [p ! 0, p ! 1, p ! 4, p ! 5, p ! 6, p ! 7] }"

section \<open>The CBC-MAC and the counter mode\<close>

fun ccmp_cbc :: "bytes \<Rightarrow> nat \<Rightarrow> bytes \<Rightarrow> nat \<Rightarrow> bytes \<Rightarrow> (bytes \<times> nat) option" where
  "ccmp_cbc key 0 pframe payload_index aes_out = Some (aes_out, payload_index)"
| "ccmp_cbc key (Suc n) pframe payload_index aes_out =
     do {
       b \<leftarrow> rdn pframe payload_index 16;
       ccmp_cbc key n pframe (payload_index + 16) (aes128k128d key (bitwise_xor aes_out b))
     }"

text \<open>The MIC, and the index behind the payload at which it is inserted.\<close>

definition ccmp_mic ::
    "bytes \<Rightarrow> bytes \<Rightarrow> bytes \<Rightarrow> bytes \<Rightarrow> bytes \<Rightarrow> nat \<Rightarrow> nat \<Rightarrow> (bytes \<times> nat) option" where
  "ccmp_mic key mic_iv mic_header1 mic_header2 pframe payload_index plen =
     do {
       let payload_remainder = plen mod 16;
       let num_blocks = plen div 16;
       let aes_out = aes128k128d key mic_iv;
       let aes_out = aes128k128d key (bitwise_xor aes_out mic_header1);
       let aes_out = aes128k128d key (bitwise_xor aes_out mic_header2);
       (aes_out, payload_index) \<leftarrow> ccmp_cbc key num_blocks pframe payload_index aes_out;
       if 0 < payload_remainder then
         do {
           b \<leftarrow> rdn pframe payload_index payload_remainder;
           let padded_buffer = b @ replicate (16 - payload_remainder) 0;
           Some (take 8 (aes128k128d key (bitwise_xor aes_out padded_buffer)),
                 payload_index + payload_remainder)
         }
       else Some (take 8 aes_out, payload_index)
     }"

fun ccmp_ctr_blocks ::
    "bool \<Rightarrow> bytes \<Rightarrow> bool \<Rightarrow> bool \<Rightarrow> bytes \<Rightarrow> u16 \<Rightarrow> nat \<Rightarrow> nat \<Rightarrow> bytes \<Rightarrow> nat \<Rightarrow> (bytes \<times> nat) option"
where
  "ccmp_ctr_blocks w11 key a4 qc pn frtype 0 i pframe payload_index = Some (pframe, payload_index)"
| "ccmp_ctr_blocks w11 key a4 qc pn frtype (Suc n) i pframe payload_index =
     do {
       ctr_preload \<leftarrow> construct_ctr_preload w11 a4 qc pframe pn (i + 1) frtype;
       b \<leftarrow> rdn pframe payload_index 16;
       pframe \<leftarrow> wrn pframe payload_index (bitwise_xor (aes128k128d key ctr_preload) b);
       ccmp_ctr_blocks w11 key a4 qc pn frtype n (i + 1) pframe (payload_index + 16)
     }"

definition ccmp_ctr ::
    "bool \<Rightarrow> bytes \<Rightarrow> bool \<Rightarrow> bool \<Rightarrow> bytes \<Rightarrow> u16 \<Rightarrow> bytes \<Rightarrow> nat \<Rightarrow> nat \<Rightarrow> (bytes \<times> nat) option" where
  "ccmp_ctr w11 key a4 qc pn frtype pframe payload_index plen =
     do {
       let payload_remainder = plen mod 16;
       let num_blocks = plen div 16;
       (pframe, payload_index) \<leftarrow> ccmp_ctr_blocks w11 key a4 qc pn frtype num_blocks 0 pframe payload_index;
       if 0 < payload_remainder then
         do {
           ctr_preload \<leftarrow> construct_ctr_preload w11 a4 qc pframe pn (num_blocks + 1) frtype;
           b \<leftarrow> rdn pframe payload_index payload_remainder;
           let padded_buffer = b @ replicate (16 - payload_remainder) 0;
           let chain_buffer = bitwise_xor (aes128k128d key ctr_preload) padded_buffer;
           pframe \<leftarrow> wrn pframe payload_index (take payload_remainder chain_buffer);
           Some (pframe, payload_index + payload_remainder)
         }
       else Some (pframe, payload_index)
     }"

text \<open>Encrypts in place, at \<open>payload_index\<close>, the MIC read at \<open>mic_at\<close>.\<close>

definition ccmp_mic_crypt ::
    "bool \<Rightarrow> bytes \<Rightarrow> bool \<Rightarrow> bool \<Rightarrow> bytes \<Rightarrow> u16 \<Rightarrow> bytes \<Rightarrow> nat \<Rightarrow> nat \<Rightarrow> bytes option" where
  "ccmp_mic_crypt w11 key a4 qc pn frtype pframe payload_index mic_at =
     do {
       ctr_preload \<leftarrow> construct_ctr_preload w11 a4 qc pframe pn 0 frtype;
       b \<leftarrow> rdn pframe mic_at 8;
       let padded_buffer = b @ replicate 8 0;
       let chain_buffer = bitwise_xor (aes128k128d key ctr_preload) padded_buffer;
       wrn pframe payload_index (take 8 chain_buffer)
     }"

section \<open>The two frame operations\<close>

definition aes_cipher :: "bool \<Rightarrow> bytes \<Rightarrow> nat \<Rightarrow> bytes \<Rightarrow> nat \<Rightarrow> (int \<times> bytes) option" where
  "aes_cipher w11 key hdrlen pframe plen =
     do {
       frtype \<leftarrow> GetFrameType pframe;
       frsubtype \<leftarrow> GetFrameSubType pframe;
       let frsubtype = drop_bit 4 frsubtype;
       let a4_exists = (\<not> (hdrlen = WLAN_HDR_A3_LEN \<or> hdrlen = WLAN_HDR_A3_QOS_LEN));
       let (qc_exists, hdrlen) = ccmp_qos frtype frsubtype hdrlen;
       pn_vector \<leftarrow> ccmp_pn pframe hdrlen;
       mic_iv \<leftarrow> construct_mic_iv w11 qc_exists a4_exists pframe plen pn_vector frtype;
       mic_header1 \<leftarrow> construct_mic_header1 w11 hdrlen pframe frtype;
       mic_header2 \<leftarrow> construct_mic_header2 pframe a4_exists qc_exists;
       (mic, payload_index) \<leftarrow> ccmp_mic key mic_iv mic_header1 mic_header2 pframe (hdrlen + 8) plen;
       pframe \<leftarrow> wrn pframe payload_index mic;
       (pframe, payload_index) \<leftarrow>
         ccmp_ctr w11 key a4_exists qc_exists pn_vector frtype pframe (hdrlen + 8) plen;
       pframe \<leftarrow> ccmp_mic_crypt w11 key a4_exists qc_exists pn_vector frtype pframe payload_index
         (hdrlen + 8 + plen);
       Some (rtw_SUCCESS, pframe)
     }"

text \<open>
  \<^verbatim>\<open>plen\<close> counts the MIC; \<^verbatim>\<open>plen-8\<close> is an unsigned subtraction. \<open>message\<close> is the static
  scratch buffer of \<open>MAX_MSG_SIZE\<close> bytes, whose contents survive between calls.
\<close>

definition MAX_MSG_SIZE :: nat where "MAX_MSG_SIZE = 2048"

text \<open>The second half of the function recomputes the encrypted MIC in the copy and compares it.\<close>

definition aes_decipher_check ::
    "bool \<Rightarrow> bytes \<Rightarrow> bool \<Rightarrow> bool \<Rightarrow> bytes \<Rightarrow> u16 \<Rightarrow> nat \<Rightarrow> bytes \<Rightarrow> u32 \<Rightarrow> bytes \<Rightarrow> (int \<times> bytes \<times> bytes) option" where
  "aes_decipher_check w11 key a4_exists qc_exists pn_vector frtype hdrlen pframe plen message =
     do {
       let n = unat (plen - 8);
       mic_iv \<leftarrow> construct_mic_iv w11 qc_exists a4_exists message n pn_vector frtype;
       mic_header1 \<leftarrow> construct_mic_header1 w11 hdrlen message frtype;
       mic_header2 \<leftarrow> construct_mic_header2 message a4_exists qc_exists;
       (mic, payload_index) \<leftarrow> ccmp_mic key mic_iv mic_header1 mic_header2 message (hdrlen + 8) n;
       message \<leftarrow> wrn message payload_index mic;
       (message, payload_index) \<leftarrow>
         ccmp_ctr w11 key a4_exists qc_exists pn_vector frtype message (hdrlen + 8) n;
       message \<leftarrow> ccmp_mic_crypt w11 key a4_exists qc_exists pn_vector frtype message payload_index
         (hdrlen + 8 + unat plen - 8);
       m1 \<leftarrow> rdn pframe (hdrlen + 8 + unat plen - 8) 8;
       m2 \<leftarrow> rdn message (hdrlen + 8 + unat plen - 8) 8;
       Some (if m1 = m2 then rtw_SUCCESS else rtw_FAIL, pframe, message)
     }"

definition aes_decipher ::
    "bool \<Rightarrow> bytes \<Rightarrow> nat \<Rightarrow> bytes \<Rightarrow> u32 \<Rightarrow> bytes \<Rightarrow> (int \<times> bytes \<times> bytes) option" where
  "aes_decipher w11 key hdrlen pframe plen message =
     do {
       frtype \<leftarrow> GetFrameType pframe;
       frsubtype \<leftarrow> GetFrameSubType pframe;
       let frsubtype = drop_bit 4 frsubtype;
       let n = unat (plen - 8);
       pn_vector \<leftarrow> ccmp_pn pframe hdrlen;
       let a4_exists = (\<not> (hdrlen = WLAN_HDR_A3_LEN \<or> hdrlen = WLAN_HDR_A3_QOS_LEN));
       let (qc_exists, hdrlen) = ccmp_qos frtype frsubtype hdrlen;
       (pframe, _) \<leftarrow> ccmp_ctr w11 key a4_exists qc_exists pn_vector frtype pframe (hdrlen + 8) n;
       m \<leftarrow> rdn pframe 0 (hdrlen + unat plen + 8);
       message \<leftarrow> wrn message 0 m;
       pn_vector \<leftarrow> ccmp_pn pframe hdrlen;
       aes_decipher_check w11 key a4_exists qc_exists pn_vector frtype hdrlen pframe plen message
     }"

section \<open>What the code reads of the header\<close>

lemma rd_take: "k < m \<Longrightarrow> rd (take m buf) k = rd buf k"
  by (simp add: rd_def)

lemma rdn_take: "k + n \<le> m \<Longrightarrow> rdn (take m buf) k n = rdn buf k n"
  by (auto simp: rdn_def drop_take min_def)

lemma header_take32:
  "rd (take 32 buf) 0 = rd buf 0" "rd (take 32 buf) 1 = rd buf 1" "rd (take 32 buf) 24 = rd buf 24"
  "rd (take 32 buf) 25 = rd buf 25" "rd (take 32 buf) 30 = rd buf 30" "rd (take 32 buf) 31 = rd buf 31"
  "rdn (take 32 buf) 10 6 = rdn buf 10 6" "rdn (take 32 buf) 4 12 = rdn buf 4 12"
  "rdn (take 32 buf) 16 6 = rdn buf 16 6" "rdn (take 32 buf) 24 6 = rdn buf 24 6"
  by (rule rd_take rdn_take, simp)+

lemmas construct_defs = construct_mic_iv_def construct_mic_header1_def construct_mic_header2_def
  construct_ctr_preload_def

lemma construct_take32:
  "construct_mic_iv w qc a4 (take 32 buf) n pn ft = construct_mic_iv w qc a4 buf n pn ft"
  "construct_mic_header1 w hl (take 32 buf) ft = construct_mic_header1 w hl buf ft"
  "construct_mic_header2 (take 32 buf) a4 qc = construct_mic_header2 buf a4 qc"
  "construct_ctr_preload w a4 qc (take 32 buf) pn i ft = construct_ctr_preload w a4 qc buf pn i ft"
  unfolding construct_defs header_take32 by (rule refl)+

lemma construct_some:
  assumes "32 \<le> length buf"
  shows "\<exists>b. construct_mic_iv w qc a4 buf n pn ft = Some b \<and> length b = 16"
    and "\<exists>b. construct_mic_header1 w hl buf ft = Some b \<and> length b = 16"
    and "\<exists>b. construct_mic_header2 buf a4 qc = Some b \<and> length b = 16"
    and "\<exists>b. construct_ctr_preload w a4 qc buf pn i ft = Some b \<and> length b = 16"
proof -
  have "rd buf 0 = Some (buf ! 0)" using assms by (auto simp: rd_def)
  then show "\<exists>b. construct_mic_iv w qc a4 buf n pn ft = Some b \<and> length b = 16"
    "\<exists>b. construct_mic_header1 w hl buf ft = Some b \<and> length b = 16"
    "\<exists>b. construct_mic_header2 buf a4 qc = Some b \<and> length b = 16"
    "\<exists>b. construct_ctr_preload w a4 qc buf pn i ft = Some b \<and> length b = 16"
    using assms by (simp_all add: construct_defs rd_Some rdn_Some Let_def)
qed

definition ccm_S :: "bool \<Rightarrow> bytes \<Rightarrow> bool \<Rightarrow> bool \<Rightarrow> bytes \<Rightarrow> u16 \<Rightarrow> bytes \<Rightarrow> nat \<Rightarrow> bytes" where
  "ccm_S w key a4 qc pn ft H i =
     aes128k128d key (the (construct_ctr_preload w a4 qc (take 32 H) pn i ft))"

lemma length_ccm_S [simp]: "length (ccm_S w key a4 qc pn ft H i) = 16"
  by (simp add: ccm_S_def)

lemma ccm_S_take: "take 32 H = take 32 H' \<Longrightarrow> ccm_S w key a4 qc pn ft H = ccm_S w key a4 qc pn ft H'"
  by (simp add: ccm_S_def fun_eq_iff)

lemma ctr_preload_S:
  assumes "32 \<le> length buf"
  shows "\<exists>b. construct_ctr_preload w a4 qc buf pn i ft = Some b
    \<and> aes128k128d key b = ccm_S w key a4 qc pn ft buf i"
  using construct_some(4) [OF assms, of w a4 qc pn i ft] by (auto simp: ccm_S_def construct_take32)

lemma bitwise_xor_bytewise: "length a = 16 \<Longrightarrow> length b = 16 \<Longrightarrow> bitwise_xor a b = bytewise a b"
  by (rule nth_equalityI) (simp_all add: bitwise_xor_def)

lemma length_bitwise_xor [simp]: "length (bitwise_xor a b) = 16"
  by (simp add: bitwise_xor_def)

section \<open>Counter mode\<close>

definition ctr_crypt :: "(nat \<Rightarrow> bytes) \<Rightarrow> bytes \<Rightarrow> bytes" where
  "ctr_crypt S p = bytewise (concat (map (\<lambda>k. S (Suc k)) [0..<Suc (length p div 16)])) p"

lemma length_blocks: "(\<And>i. length (S i) = 16) \<Longrightarrow> length (concat (map S [0..<n])) = 16 * n"
  by (induction n) simp_all

lemma ctr_stream_long:
  "(\<And>i. length (S i) = 16) \<Longrightarrow>
     length p \<le> length (concat (map (\<lambda>k. S (Suc k)) [0..<Suc (length p div 16)]))"
proof -
  assume "\<And>i. length (S i) = 16"
  then have "length (concat (map (\<lambda>k. S (Suc k)) [0..<Suc (length p div 16)])) = 16 * Suc (length p div 16)"
    by (intro length_blocks) simp
  moreover have "length p < 16 * Suc (length p div 16)"
    using div_mult_mod_eq [of "length p" 16] by (simp add: mult.commute)
  ultimately show ?thesis by simp
qed

lemma length_ctr_crypt: "(\<And>i. length (S i) = 16) \<Longrightarrow> length (ctr_crypt S p) = length p"
  using ctr_stream_long [of S p] by (simp add: ctr_crypt_def del: upt_Suc)

lemma ctr_crypt_involution: "(\<And>i. length (S i) = 16) \<Longrightarrow> ctr_crypt S (ctr_crypt S p) = p"
  using ctr_stream_long [of S p] length_ctr_crypt [of S p]
  by (simp add: ctr_crypt_def del: upt_Suc)

lemma ctr_blocks_run:
  assumes "32 \<le> idx" and "idx + 16 * n \<le> length buf"
  shows "ccmp_ctr_blocks w key a4 qc pn ft n i buf idx =
    Some (take idx buf @ bytewise (concat (map (\<lambda>k. ccm_S w key a4 qc pn ft buf (Suc (i + k))) [0..<n]))
        (take (16 * n) (drop idx buf)) @ drop (idx + 16 * n) buf, idx + 16 * n)"
  using assms
proof (induction n arbitrary: i buf idx)
  case (Suc n)
  let ?S = "ccm_S w key a4 qc pn ft buf" and ?b = "take 16 (drop idx buf)"
  let ?buf = "take idx buf @ bytewise (?S (Suc i)) ?b @ drop (idx + 16) buf"
  obtain c where c: "construct_ctr_preload w a4 qc buf pn (i + 1) ft = Some c" "aes128k128d key c = ?S (i + 1)"
    using ctr_preload_S [of buf w a4 qc pn "i + 1" ft key] Suc.prems by auto
  have step: "ccmp_ctr_blocks w key a4 qc pn ft (Suc n) i buf idx
      = ccmp_ctr_blocks w key a4 qc pn ft n (Suc i) ?buf (idx + 16)"
    using c Suc.prems by (simp add: rdn_Some wrn_Some bitwise_xor_bytewise)
  have S: "ccm_S w key a4 qc pn ft ?buf = ?S"
    using Suc.prems by (intro ccm_S_take) simp
  have blocks: "concat (map (\<lambda>k. ?S (Suc (i + k))) [0..<Suc n])
      = ?S (Suc i) @ concat (map (\<lambda>k. ?S (Suc (Suc i + k))) [0..<n])"
    by (simp add: concat_upt_Suc del: upt_Suc)
  have "take (16 * Suc n) (drop idx buf) = ?b @ take (16 * n) (drop (idx + 16) buf)"
    by (simp add: take_add add.commute)
  then show ?case
    unfolding step blocks using Suc.prems Suc.IH [of "idx + 16" ?buf "Suc i"]
    by (simp add: S bytewise_append ac_simps)
qed simp

lemma ctr_run:
  assumes "32 \<le> idx" and "idx + n \<le> length buf"
  shows "ccmp_ctr w key a4 qc pn ft buf idx n =
    Some (take idx buf @ ctr_crypt (ccm_S w key a4 qc pn ft buf) (take n (drop idx buf)) @ drop (idx + n) buf,
      idx + n)"
proof -
  let ?S = "ccm_S w key a4 qc pn ft buf"
  define m r where m: "m = n div 16" and r: "r = n mod 16"
  let ?p = "take n (drop idx buf)"
  let ?K = "concat (map (\<lambda>k. ?S (Suc k)) [0..<m])"
  have n: "n = 16 * m + r" by (simp add: m r)
  have r16: "r < 16" by (simp add: r)
  have K: "length ?K = 16 * m" by (intro length_blocks) simp
  let ?buf = "take idx buf @ bytewise ?K (take (16 * m) (drop idx buf)) @ drop (idx + 16 * m) buf"
  have le: "idx + 16 * m \<le> length buf" using assms n by linarith
  have blocks: "ccmp_ctr_blocks w key a4 qc pn ft m 0 buf idx = Some (?buf, idx + 16 * m)"
    using ctr_blocks_run [of idx m buf w key a4 qc pn ft 0] assms(1) le by simp
  have "length ?p = n" using assms by simp
  then have crypt: "ctr_crypt ?S ?p = bytewise ?K (take (16 * m) ?p) @ bytewise (?S (Suc m)) (drop (16 * m) ?p)"
    by (simp add: ctr_crypt_def bytewise_append_left K flip: m)
  have head: "take (16 * m) ?p = take (16 * m) (drop idx buf)" using n by (simp add: min_def)
  have tail: "drop (16 * m) ?p = take r (drop (idx + 16 * m) buf)"
    using n by (simp add: drop_take add.commute)
  show ?thesis
  proof (cases "r = 0")
    case True
    then show ?thesis
      using blocks n crypt head tail unfolding ccmp_ctr_def m [symmetric] r [symmetric] by simp
  next
    case False
    have len: "length ?buf = length buf" using le K by simp
    obtain c where c: "construct_ctr_preload w a4 qc ?buf pn (m + 1) ft = Some c"
        "aes128k128d key c = ccm_S w key a4 qc pn ft ?buf (m + 1)"
      using ctr_preload_S [of ?buf w a4 qc pn "m + 1" ft key] assms len by auto
    have "ccm_S w key a4 qc pn ft ?buf = ?S" using assms(1) le by (intro ccm_S_take) simp
    with c have c2: "aes128k128d key c = ?S (Suc m)" by simp
    let ?t = "take r (drop (idx + 16 * m) buf)"
    have room: "idx + 16 * m + r \<le> length buf" using assms n by linarith
    then have t: "length ?t = r" by simp
    then have "bitwise_xor (?S (Suc m)) (?t @ replicate (16 - r) 0)
        = bytewise (?S (Suc m)) (?t @ replicate (16 - r) 0)"
      using r16 by (intro bitwise_xor_bytewise) simp_all
    then have x: "take r (bitwise_xor (?S (Suc m)) (?t @ replicate (16 - r) 0))
        = bytewise (?S (Suc m)) ?t"
      using t by (simp add: bytewise_take)
    have rd: "rdn ?buf (idx + 16 * m) r = Some ?t"
      using room K by (simp add: rdn_def)
    have wr: "wrn ?buf (idx + 16 * m) (bytewise (?S (Suc m)) ?t)
        = Some (take idx buf @ ctr_crypt ?S ?p @ drop (idx + n) buf)"
      using room K t n r16 unfolding crypt head tail
      by (simp add: wrn_def ac_simps)
    show ?thesis
      using blocks False c(1) c2 x rd wr n unfolding ccmp_ctr_def m [symmetric] r [symmetric] by simp
  qed
qed

section \<open>The CBC-MAC\<close>

definition ccm_mac :: "bytes \<Rightarrow> bytes \<Rightarrow> bytes \<Rightarrow> bytes \<Rightarrow> bytes \<Rightarrow> bytes" where
  "ccm_mac key B0 B1 B2 p =
     chain 16 (cbc_step key) (replicate 16 0)
       (B0 @ B1 @ B2 @ p @ replicate ((16 - length p mod 16) mod 16) 0)"

lemma cbc_run:
  assumes "idx + 16 * n \<le> length buf" and "length X = 16"
  shows "ccmp_cbc key n buf idx X
    = Some (chain 16 (cbc_step key) X (take (16 * n) (drop idx buf)), idx + 16 * n)"
  using assms
proof (induction n arbitrary: idx X)
  case (Suc n)
  have "take (16 * Suc n) (drop idx buf) = take 16 (drop idx buf) @ take (16 * n) (drop (idx + 16) buf)"
    by (simp add: take_add add.commute)
  then show ?case
    using Suc by (simp add: rdn_Some chain_block bitwise_xor_bytewise cbc_step_def)
qed simp

lemma bytewise_zeros [simp]: "length b = n \<Longrightarrow> bytewise (replicate n 0) b = b"
  by (intro nth_equalityI) simp_all

lemma mic_run:
  assumes "idx + n \<le> length buf" and "length B0 = 16" and "length B1 = 16" and "length B2 = 16"
  shows "ccmp_mic key B0 B1 B2 buf idx n
    = Some (take 8 (ccm_mac key B0 B1 B2 (take n (drop idx buf))), idx + n)"
proof -
  define m r where m: "m = n div 16" and r: "r = n mod 16"
  have n: "n = 16 * m + r" by (simp add: m r)
  have r16: "r < 16" by (simp add: r)
  let ?p = "take n (drop idx buf)" and ?pm = "take (16 * m) (drop idx buf)" and ?pr = "take r (drop (idx + 16 * m) buf)"
  let ?X = "cbc_step key (cbc_step key (aes128k128d key B0) B1) B2"
  let ?Y = "chain 16 (cbc_step key) ?X ?pm"
  have p: "?p = ?pm @ ?pr" "length ?p = n" "length ?pm = 16 * m" "length ?pr = r"
    using assms(1) n take_add [of "16 * m" r "drop idx buf"] by (simp_all add: add.commute [of idx])
  have start: "chain 16 (cbc_step key) (replicate 16 0) (B0 @ B1 @ B2 @ xs) = chain 16 (cbc_step key) ?X xs" for xs
    using assms(2-) by (simp add: chain_block) (simp add: cbc_step_def)
  have rest0: "rest 16 ?pm = []" using p(3) by (simp add: rest_def)
  have mac: "ccm_mac key B0 B1 B2 ?p = chain 16 (cbc_step key) ?Y (?pr @ replicate ((16 - r) mod 16) 0)"
    using chain_rest_append [of 16 "cbc_step key" ?X ?pm "?pr @ replicate ((16 - r) mod 16) 0"] rest0
    unfolding ccm_mac_def start p(2) r [symmetric] by (simp add: p(1))
  have cbc: "ccmp_cbc key m buf idx ?X = Some (?Y, idx + 16 * m)"
    using assms n by (intro cbc_run) simp_all
  have Y: "length ?Y = 16" by (simp add: length_cbc)
  show ?thesis
  proof (cases "r = 0")
    case True
    then show ?thesis
      using cbc mac n assms(2-) unfolding ccmp_mic_def m [symmetric] r [symmetric]
      by (simp add: bitwise_xor_bytewise flip: cbc_step_def)
  next
    case False
    then have "chain 16 (cbc_step key) ?Y (?pr @ replicate ((16 - r) mod 16) 0)
        = aes128k128d key (bitwise_xor ?Y (?pr @ replicate (16 - r) 0))"
      using p(4) r16 Y by (simp add: bitwise_xor_bytewise cbc_step_def)
    moreover have "rdn buf (idx + 16 * m) r = Some ?pr" using assms(1) n by (simp add: rdn_Some)
    ultimately show ?thesis
      using cbc mac n assms(2-) False unfolding ccmp_mic_def m [symmetric] r [symmetric]
      by (simp add: bitwise_xor_bytewise flip: cbc_step_def)
  qed
qed

section \<open>CCM on a frame\<close>

text \<open>
  The parameters CCM takes from a frame: where the payload starts, the key stream
  blocks and the tag of a payload. All of them depend on the bytes before the payload
  only.
\<close>

definition ccm_qos :: "nat \<Rightarrow> bytes \<Rightarrow> bool \<times> nat" where
  "ccm_qos hdrlen f = ccmp_qos (the (GetFrameType f)) (drop_bit 4 (the (GetFrameSubType f))) hdrlen"

definition ccm_a4 :: "nat \<Rightarrow> bool" where
  "ccm_a4 hdrlen = (\<not> (hdrlen = WLAN_HDR_A3_LEN \<or> hdrlen = WLAN_HDR_A3_QOS_LEN))"

definition ccm_body :: "nat \<Rightarrow> bytes \<Rightarrow> nat" where
  "ccm_body hdrlen f = snd (ccm_qos hdrlen f) + 8"

definition ccm_stream :: "bool \<Rightarrow> bytes \<Rightarrow> nat \<Rightarrow> bytes \<Rightarrow> nat \<Rightarrow> bytes" where
  "ccm_stream w key hdrlen f =
     ccm_S w key (ccm_a4 hdrlen) (fst (ccm_qos hdrlen f)) (the (ccmp_pn f (snd (ccm_qos hdrlen f))))
       (the (GetFrameType f)) f"

definition ccm_tag :: "bool \<Rightarrow> bytes \<Rightarrow> nat \<Rightarrow> bytes \<Rightarrow> bytes \<Rightarrow> bytes" where
  "ccm_tag w key hdrlen f p =
     (let (qc, hl) = ccm_qos hdrlen f; a4 = ccm_a4 hdrlen; ft = the (GetFrameType f);
          pn = the (ccmp_pn f hl)
      in take 8 (ccm_mac key (the (construct_mic_iv w qc a4 f (length p) pn ft))
           (the (construct_mic_header1 w hl f ft)) (the (construct_mic_header2 f a4 qc)) p))"

definition ccm_seal :: "bool \<Rightarrow> bytes \<Rightarrow> nat \<Rightarrow> bytes \<Rightarrow> nat \<Rightarrow> bytes" where
  "ccm_seal w key hdrlen f n =
     (let h = ccm_body hdrlen f; p = take n (drop h f); S = ccm_stream w key hdrlen f
      in take h f @ ctr_crypt S p @ bytewise (take 8 (S 0)) (ccm_tag w key hdrlen f p) @ drop (h + n + 8) f)"

lemma ccm_body_ge: "hdrlen + 8 \<le> ccm_body hdrlen f"
  by (simp add: ccm_body_def ccm_qos_def ccmp_qos_def)

lemma length_ccm_stream [simp]: "length (ccm_stream w key hdrlen f i) = 16"
  by (simp add: ccm_stream_def)

lemma length_ccm_mac:
  assumes "length B0 = 16"
  shows "length (ccm_mac key B0 B1 B2 p) = 16"
  by (simp add: ccm_mac_def length_cbc)

lemma length_ccm_tag [simp]: "length (ccm_tag w key hdrlen f p) = 8"
  by (simp add: ccm_tag_def ccm_mac_def length_cbc Let_def split: prod.split)

lemma le16_at_take: "k + 2 \<le> m \<Longrightarrow> le16_at (take m f) k = le16_at f k"
  by (simp add: le16_at_def rd_take)

lemma GetFrame_take:
  "2 \<le> m \<Longrightarrow> GetFrameType (take m f) = GetFrameType f"
  "2 \<le> m \<Longrightarrow> GetFrameSubType (take m f) = GetFrameSubType f"
  by (simp_all add: GetFrameType_def GetFrameSubType_def le16_at_take)

lemma GetFrame_some:
  "2 \<le> length f \<Longrightarrow> GetFrameType f = Some (the (GetFrameType f))"
  "2 \<le> length f \<Longrightarrow> GetFrameSubType f = Some (the (GetFrameSubType f))"
proof -
  assume "2 \<le> length f"
  then have "rd f 0 = Some (f ! 0)" "rd f (0 + 1) = Some (f ! 1)" by (auto simp: rd_def)
  then show "GetFrameType f = Some (the (GetFrameType f))" "GetFrameSubType f = Some (the (GetFrameSubType f))"
    by (simp_all add: GetFrameType_def GetFrameSubType_def le16_at_def)
qed

lemma ccmp_pn_some: "hl + 8 \<le> length f \<Longrightarrow> ccmp_pn f hl = Some (the (ccmp_pn f hl))"
  by (simp add: ccmp_pn_def rdn_Some)

lemma ccm_header_only:
  assumes "take h f = take h g" and "24 \<le> hdrlen" and "ccm_body hdrlen f \<le> h"
  shows "ccm_qos hdrlen g = ccm_qos hdrlen f" and "ccm_body hdrlen g = ccm_body hdrlen f"
    and "ccm_stream w key hdrlen g = ccm_stream w key hdrlen f"
    and "ccm_tag w key hdrlen g p = ccm_tag w key hdrlen f p"
proof -
  have h: "32 \<le> h" using assms(2,3) ccm_body_ge [of hdrlen f] by simp
  have ft: "GetFrameType g = GetFrameType f" "GetFrameSubType g = GetFrameSubType f"
    using GetFrame_take [of h f] GetFrame_take [of h g] assms(1) h by simp_all
  then show q: "ccm_qos hdrlen g = ccm_qos hdrlen f" by (simp add: ccm_qos_def)
  then show "ccm_body hdrlen g = ccm_body hdrlen f" by (simp add: ccm_body_def)
  have t32: "take 32 g = take 32 f" using assms(1) [symmetric] h by (rule take_eq_le)
  have pn: "ccmp_pn g (snd (ccm_qos hdrlen f)) = ccmp_pn f (snd (ccm_qos hdrlen f))"
    using rdn_take [of "snd (ccm_qos hdrlen f)" 8 h f] rdn_take [of "snd (ccm_qos hdrlen f)" 8 h g] assms
    by (simp add: ccmp_pn_def ccm_body_def)
  show "ccm_stream w key hdrlen g = ccm_stream w key hdrlen f"
    using ft q pn ccm_S_take [OF t32] by (simp add: ccm_stream_def)
  have "construct_mic_iv w qc a4 g n pn ft = construct_mic_iv w qc a4 f n pn ft"
    "construct_mic_header1 w hl g ft = construct_mic_header1 w hl f ft"
    "construct_mic_header2 g a4 qc = construct_mic_header2 f a4 qc" for qc a4 n pn ft hl
    by (metis construct_take32 t32)+
  then show "ccm_tag w key hdrlen g p = ccm_tag w key hdrlen f p"
    using ft q pn by (cases "ccm_qos hdrlen f") (simp add: ccm_tag_def Let_def)
qed

lemma mic_crypt_run:
  assumes "32 \<le> length buf" and "at + 8 \<le> length buf"
  shows "ccmp_mic_crypt w key a4 qc pn ft buf at at = Some (take at buf
    @ bytewise (take 8 (ccm_S w key a4 qc pn ft buf 0)) (take 8 (drop at buf)) @ drop (at + 8) buf)"
proof -
  let ?S = "ccm_S w key a4 qc pn ft buf 0" and ?t = "take 8 (drop at buf)"
  obtain c where c: "construct_ctr_preload w a4 qc buf pn 0 ft = Some c" "aes128k128d key c = ?S"
    using ctr_preload_S [OF assms(1)] by blast
  have "take 8 (bitwise_xor ?S (?t @ replicate 8 0)) = bytewise (take 8 ?S) ?t"
    using assms(2) by (intro nth_equalityI) (simp_all add: bitwise_xor_def nth_append)
  then show ?thesis
    using c assms(2) by (simp add: ccmp_mic_crypt_def rdn_Some wrn_Some)
qed

lemma seal_steps:
  fixes h n :: nat and buf B0 B1 B2 key pn :: bytes and w a4 qc :: bool and ft :: u16
  assumes h: "32 \<le> h" and len: "h + n + 8 \<le> length buf" and B: "length B0 = 16" "length B1 = 16" "length B2 = 16"
  defines "p \<equiv> take n (drop h buf)" and "S \<equiv> ccm_S w key a4 qc pn ft buf"
    and "mic \<equiv> take 8 (ccm_mac key B0 B1 B2 (take n (drop h buf)))"
  shows "ccmp_mic key B0 B1 B2 buf h n = Some (mic, h + n)"
    and "wrn buf (h + n) mic = Some (take (h + n) buf @ mic @ drop (h + n + 8) buf)"
    and "ccmp_ctr w key a4 qc pn ft (take (h + n) buf @ mic @ drop (h + n + 8) buf) h n
      = Some (take h buf @ ctr_crypt S p @ mic @ drop (h + n + 8) buf, h + n)"
    and "ccmp_mic_crypt w key a4 qc pn ft (take h buf @ ctr_crypt S p @ mic @ drop (h + n + 8) buf) (h + n) (h + n)
      = Some (take h buf @ ctr_crypt S p @ bytewise (take 8 (S 0)) mic @ drop (h + n + 8) buf)"
proof -
  have m: "length mic = 8" using B by (simp add: mic_def length_ccm_mac)
  have S: "length (S i) = 16" for i by (simp add: S_def)
  have p: "length p = n" and c: "length (ctr_crypt S p) = n"
    using len length_ctr_crypt [of S p] S by (simp_all add: p_def)
  show "ccmp_mic key B0 B1 B2 buf h n = Some (mic, h + n)"
    using len B by (simp add: mic_run mic_def)
  show "wrn buf (h + n) mic = Some (take (h + n) buf @ mic @ drop (h + n + 8) buf)"
    using len m by (simp add: wrn_Some)
  let ?b1 = "take (h + n) buf @ mic @ drop (h + n + 8) buf"
  have "ccm_S w key a4 qc pn ft ?b1 = S" using h len unfolding S_def by (intro ccm_S_take) simp
  moreover have "take n (drop h ?b1) = p" "take h ?b1 = take h buf" "drop (h + n) ?b1 = mic @ drop (h + n + 8) buf"
    using len m by (simp_all add: p_def drop_take)
  ultimately show "ccmp_ctr w key a4 qc pn ft ?b1 h n
      = Some (take h buf @ ctr_crypt S p @ mic @ drop (h + n + 8) buf, h + n)"
    using ctr_run [of h n ?b1 w key a4 qc pn ft] h len m p by simp
  let ?b2 = "take h buf @ ctr_crypt S p @ mic @ drop (h + n + 8) buf"
  have "ccm_S w key a4 qc pn ft ?b2 = S" using h len unfolding S_def by (intro ccm_S_take) simp
  then show "ccmp_mic_crypt w key a4 qc pn ft ?b2 (h + n) (h + n)
      = Some (take h buf @ ctr_crypt S p @ bytewise (take 8 (S 0)) mic @ drop (h + n + 8) buf)"
    using mic_crypt_run [of ?b2 "h + n" w key a4 qc pn ft] h len m c by simp
qed

text \<open>The header-dependent values of a frame whose payload area is in the buffer.\<close>

definition ccm_ctx ::
    "bool \<Rightarrow> bytes \<Rightarrow> nat \<Rightarrow> bytes \<Rightarrow> u16 \<Rightarrow> u16 \<Rightarrow> bool \<Rightarrow> nat \<Rightarrow> bytes \<Rightarrow> bytes \<Rightarrow> bytes \<Rightarrow> bool" where
  "ccm_ctx w key hdrlen f ft st qc hl pn B1 B2 \<longleftrightarrow>
     GetFrameType f = Some ft \<and> GetFrameSubType f = Some st \<and>
     ccmp_qos ft (drop_bit 4 st) hdrlen = (qc, hl) \<and> ccm_qos hdrlen f = (qc, hl) \<and>
     ccm_body hdrlen f = hl + 8 \<and> 24 \<le> hl \<and> ccmp_pn f hl = Some pn \<and>
     construct_mic_header1 w hl f ft = Some B1 \<and> length B1 = 16 \<and>
     construct_mic_header2 f (ccm_a4 hdrlen) qc = Some B2 \<and> length B2 = 16 \<and>
     ccm_stream w key hdrlen f = ccm_S w key (ccm_a4 hdrlen) qc pn ft f"

lemma ccm_ctx_ex:
  assumes "24 \<le> hdrlen" and "ccm_body hdrlen f \<le> length f"
  obtains ft st qc hl pn B1 B2 where "ccm_ctx w key hdrlen f ft st qc hl pn B1 B2"
proof -
  obtain qc hl where q: "ccm_qos hdrlen f = (qc, hl)" by fastforce
  have body: "ccm_body hdrlen f = hl + 8" by (simp add: ccm_body_def q)
  have len: "24 \<le> hl" "hl + 8 \<le> length f" "32 \<le> length f"
    using assms ccm_body_ge [of hdrlen f] by (simp_all add: body)
  obtain ft st where ft: "GetFrameType f = Some ft" "GetFrameSubType f = Some st"
    using GetFrame_some [of f] len by fastforce
  obtain pn where pn: "ccmp_pn f hl = Some pn" using ccmp_pn_some len(2) by blast
  obtain B1 where B1: "construct_mic_header1 w hl f ft = Some B1" "length B1 = 16"
    using construct_some(2) [OF len(3)] by blast
  obtain B2 where B2: "construct_mic_header2 f (ccm_a4 hdrlen) qc = Some B2" "length B2 = 16"
    using construct_some(3) [OF len(3)] by blast
  have "ccm_ctx w key hdrlen f ft st qc hl pn B1 B2"
    using q ft pn body len B1 B2 by (simp add: ccm_ctx_def ccm_stream_def) (simp add: ccm_qos_def)
  then show thesis by (rule that)
qed

lemma ccm_ctx_iv:
  assumes "ccm_ctx w key hdrlen f ft st qc hl pn B1 B2" and "32 \<le> length f"
  obtains B0 where "construct_mic_iv w qc (ccm_a4 hdrlen) f n pn ft = Some B0" and "length B0 = 16"
    and "\<And>p. length p = n \<Longrightarrow> ccm_tag w key hdrlen f p = take 8 (ccm_mac key B0 B1 B2 p)"
proof -
  obtain B0 where "construct_mic_iv w qc (ccm_a4 hdrlen) f n pn ft = Some B0" "length B0 = 16"
    using construct_some(1) [OF assms(2)] by blast
  moreover then have "ccm_tag w key hdrlen f p = take 8 (ccm_mac key B0 B1 B2 p)" if "length p = n" for p
    using assms(1) that by (simp add: ccm_ctx_def ccm_tag_def Let_def)
  ultimately show thesis using that by blast
qed

lemma aes_cipher_seal:
  assumes "24 \<le> hdrlen" and "ccm_body hdrlen f + n + 8 \<le> length f"
  shows "aes_cipher w key hdrlen f n = Some (rtw_SUCCESS, ccm_seal w key hdrlen f n)"
proof -
  have "ccm_body hdrlen f \<le> length f" "32 \<le> length f" using assms ccm_body_ge [of hdrlen f] by simp_all
  then obtain ft st qc hl pn B1 B2 where ctx: "ccm_ctx w key hdrlen f ft st qc hl pn B1 B2"
    using ccm_ctx_ex [OF assms(1)] by blast
  obtain B0 where B0: "construct_mic_iv w qc (ccm_a4 hdrlen) f n pn ft = Some B0" "length B0 = 16"
    and tag: "\<And>p. length p = n \<Longrightarrow> ccm_tag w key hdrlen f p = take 8 (ccm_mac key B0 B1 B2 p)"
    using ccm_ctx_iv [OF ctx \<open>32 \<le> length f\<close>] by blast
  from ctx have ft: "GetFrameType f = Some ft" "GetFrameSubType f = Some st"
    and q: "ccmp_qos ft (drop_bit 4 st) hdrlen = (qc, hl)" and pn: "ccmp_pn f hl = Some pn"
    and body: "ccm_body hdrlen f = hl + 8" and hl: "24 \<le> hl"
    and B1: "construct_mic_header1 w hl f ft = Some B1" "length B1 = 16"
    and B2: "construct_mic_header2 f (ccm_a4 hdrlen) qc = Some B2" "length B2 = 16"
    and S: "ccm_stream w key hdrlen f = ccm_S w key (ccm_a4 hdrlen) qc pn ft f"
    by (simp_all add: ccm_ctx_def)
  have len: "32 \<le> hl + 8" "hl + 8 + n + 8 \<le> length f" using hl assms(2) by (simp_all add: body)
  note steps = seal_steps(1,2) [OF len B0(2) B1(2) B2(2), of key]
    seal_steps(3,4) [OF len B0(2) B1(2) B2(2), of w key "ccm_a4 hdrlen" qc pn ft]
  have "ccm_tag w key hdrlen f (take n (drop (hl + 8) f)) = take 8 (ccm_mac key B0 B1 B2 (take n (drop (hl + 8) f)))"
    using len by (intro tag) simp
  then show ?thesis
    unfolding aes_cipher_def ccm_seal_def body S Let_def ccm_a4_def [symmetric]
    by (simp only: ft q pn B0 B1 B2 steps bind.bind_lunit prod.case)
qed

definition ccm_open :: "bool \<Rightarrow> bytes \<Rightarrow> nat \<Rightarrow> bytes \<Rightarrow> nat \<Rightarrow> bytes" where
  "ccm_open w key hdrlen f n =
     (let h = ccm_body hdrlen f
      in take h f @ ctr_crypt (ccm_stream w key hdrlen f) (take n (drop h f)) @ drop (h + n) f)"

definition ccm_accept :: "bool \<Rightarrow> bytes \<Rightarrow> nat \<Rightarrow> bytes \<Rightarrow> nat \<Rightarrow> bool" where
  "ccm_accept w key hdrlen f n =
     (let h = ccm_body hdrlen f; S = ccm_stream w key hdrlen f; p = ctr_crypt S (take n (drop h f))
      in take 8 (drop (h + n) f) = bytewise (take 8 (S 0)) (ccm_tag w key hdrlen f p))"

lemma ccm_ctx_same:
  assumes "take h f = take h g" and "24 \<le> hdrlen" and "ccm_body hdrlen f \<le> h"
    and "ccm_ctx w key hdrlen f ft st qc hl pn B1 B2"
  shows "ccm_ctx w key hdrlen g ft st qc hl pn B1 B2"
proof -
  note same = ccm_header_only [OF assms(1-3)]
  have h: "32 \<le> h" using assms(2,3) ccm_body_ge [of hdrlen f] by simp
  have t32: "take 32 g = take 32 f" using assms(1) [symmetric] h by (rule take_eq_le)
  have "GetFrameType g = GetFrameType f" "GetFrameSubType g = GetFrameSubType f"
    using GetFrame_take [of h f] GetFrame_take [of h g] assms(1) h by simp_all
  moreover have "construct_mic_header1 w hl g ft = construct_mic_header1 w hl f ft"
    "construct_mic_header2 g (ccm_a4 hdrlen) qc = construct_mic_header2 f (ccm_a4 hdrlen) qc"
    by (metis construct_take32 t32)+
  moreover have "hl + 8 \<le> h" using assms(3,4) by (simp add: ccm_ctx_def)
  then have "ccmp_pn g hl = ccmp_pn f hl"
    using rdn_take [of hl 8 h f] rdn_take [of hl 8 h g] assms(1) by (simp add: ccmp_pn_def)
  moreover have "ccm_S w key (ccm_a4 hdrlen) qc pn ft g = ccm_S w key (ccm_a4 hdrlen) qc pn ft f"
    by (rule ccm_S_take [OF t32])
  ultimately show ?thesis using assms(4) same(1-3) by (simp add: ccm_ctx_def)
qed

text \<open>The second half of \<^verbatim>\<open>aes_decipher\<close>: the copy of the frame is sealed again.\<close>

lemma decipher_reseal:
  assumes ctx: "ccm_ctx w key hdrlen M ft st qc hl pn B1 B2" and len: "hl + 8 + n + 8 \<le> length M"
  shows "\<exists>B0. construct_mic_iv w qc (ccm_a4 hdrlen) M n pn ft = Some B0 \<and>
    do {
       (mic, payload_index) \<leftarrow> ccmp_mic key B0 B1 B2 M (hl + 8) n;
       message \<leftarrow> wrn M payload_index mic;
       (message, payload_index) \<leftarrow> ccmp_ctr w key (ccm_a4 hdrlen) qc pn ft message (hl + 8) n;
       message \<leftarrow> ccmp_mic_crypt w key (ccm_a4 hdrlen) qc pn ft message payload_index (hl + 8 + n);
       R message
    } = R (ccm_seal w key hdrlen M n)"
proof -
  have hl: "24 \<le> hl" and body: "ccm_body hdrlen M = hl + 8" and B: "length B1 = 16" "length B2 = 16"
    and S: "ccm_stream w key hdrlen M = ccm_S w key (ccm_a4 hdrlen) qc pn ft M"
    using ctx by (simp_all add: ccm_ctx_def)
  have "32 \<le> length M" "32 \<le> hl + 8" using hl len by simp_all
  obtain B0 where B0: "construct_mic_iv w qc (ccm_a4 hdrlen) M n pn ft = Some B0" "length B0 = 16"
    and tag: "\<And>p. length p = n \<Longrightarrow> ccm_tag w key hdrlen M p = take 8 (ccm_mac key B0 B1 B2 p)"
    using ccm_ctx_iv [OF ctx \<open>32 \<le> length M\<close>] by blast
  note steps = seal_steps(1,2) [OF \<open>32 \<le> hl + 8\<close> len B0(2) B, of key]
    seal_steps(3,4) [OF \<open>32 \<le> hl + 8\<close> len B0(2) B, of w key "ccm_a4 hdrlen" qc pn ft]
  have "ccm_tag w key hdrlen M (take n (drop (hl + 8) M)) = take 8 (ccm_mac key B0 B1 B2 (take n (drop (hl + 8) M)))"
    using len by (intro tag) simp
  then have seal: "ccm_seal w key hdrlen M n = take (hl + 8) M
      @ ctr_crypt (ccm_S w key (ccm_a4 hdrlen) qc pn ft M) (take n (drop (hl + 8) M))
      @ bytewise (take 8 (ccm_S w key (ccm_a4 hdrlen) qc pn ft M 0))
          (take 8 (ccm_mac key B0 B1 B2 (take n (drop (hl + 8) M)))) @ drop (hl + 8 + n + 8) M"
    by (simp only: ccm_seal_def body S Let_def)
  show ?thesis
    by (rule exI [of _ B0], rule conjI, rule B0(1)) (simp only: seal steps bind.bind_lunit prod.case)
qed

lemma seal_readback:
  assumes "take h f = take h M" and "24 \<le> hdrlen" and "ccm_body hdrlen f = h"
    and "h + n + 8 \<le> length M" and "take n (drop h M) = p"
  shows "rdn (ccm_seal w key hdrlen M n) (h + n) 8
    = Some (bytewise (take 8 (ccm_stream w key hdrlen f 0)) (ccm_tag w key hdrlen f p))"
proof -
  note same = ccm_header_only [OF assms(1,2), unfolded assms(3), OF order_refl]
  let ?t = "bytewise (take 8 (ccm_stream w key hdrlen f 0)) (ccm_tag w key hdrlen f p)"
  have "length p = n" using assms(4,5) by auto
  then have "length (take h M @ ctr_crypt (ccm_stream w key hdrlen f) p) = h + n"
    using assms(4) length_ctr_crypt [of "ccm_stream w key hdrlen f" p] by simp
  moreover have "ccm_seal w key hdrlen M n
      = (take h M @ ctr_crypt (ccm_stream w key hdrlen f) p) @ ?t @ drop (h + n + 8) M"
    by (simp add: ccm_seal_def Let_def same assms(5))
  ultimately show ?thesis by (simp add: rdn_def)
qed

lemma aes_decipher_open:
  assumes hd: "24 \<le> hdrlen" and qos: "snd (ccm_qos hdrlen f) = hdrlen" and plen: "8 \<le> unat plen"
    and len: "hdrlen + 8 + unat plen \<le> length f"
    and msg: "length message = MAX_MSG_SIZE" "hdrlen + unat plen + 8 \<le> MAX_MSG_SIZE"
  defines "n \<equiv> unat plen - 8"
  shows "\<exists>message'. aes_decipher w key hdrlen f plen message =
    Some (if ccm_accept w key hdrlen f n then rtw_SUCCESS else rtw_FAIL, ccm_open w key hdrlen f n, message')"
proof -
  have n: "unat (plen - 8) = n" "unat plen = n + 8" "hdrlen + 8 + unat plen - 8 = hdrlen + 8 + n"
    using plen by (simp_all add: n_def unat_sub word_le_nat_alt)
  have h: "ccm_body hdrlen f = hdrlen + 8" using qos by (simp add: ccm_body_def)
  obtain ft st qc hl pn B1 B2 where ctx: "ccm_ctx w key hdrlen f ft st qc hl pn B1 B2"
    by (rule ccm_ctx_ex [OF hd, of f w key]) (use len h in auto)
  let ?g = "ccm_open w key hdrlen f n" and ?S = "ccm_stream w key hdrlen f"
  let ?p = "ctr_crypt ?S (take n (drop (hdrlen + 8) f))"
  have hl: "hl = hdrlen" using ctx qos by (simp add: ccm_ctx_def)
  have g: "?g = take (hdrlen + 8) f @ ?p @ drop (hdrlen + 8 + n) f" by (simp add: ccm_open_def h Let_def)
  have lp: "length ?p = n" using len n length_ctr_crypt [of ?S "take n (drop (hdrlen + 8) f)"] by simp
  have lg: "length ?g = length f" and tg: "take (hdrlen + 8) f = take (hdrlen + 8) ?g"
    using g lp len n by simp_all
  have ctr: "ccmp_ctr w key (ccm_a4 hdrlen) qc pn ft f (hdrlen + 8) n = Some (?g, hdrlen + 8 + n)"
    using hd len n ctx ctr_run [of "hdrlen + 8" n f w key "ccm_a4 hdrlen" qc pn ft]
    by (simp add: g ccm_ctx_def)
  let ?M = "take (hdrlen + unat plen + 8) ?g @ drop (hdrlen + unat plen + 8) message"
  have rd: "rdn ?g 0 (hdrlen + unat plen + 8) = Some (take (hdrlen + unat plen + 8) ?g)"
    and wr: "wrn message 0 (take (hdrlen + unat plen + 8) ?g) = Some ?M"
    using len msg lg by (simp_all add: rdn_def wrn_def)
  have lM: "length ?M = MAX_MSG_SIZE" using msg len lg by simp
  have tM: "take (hdrlen + 8) f = take (hdrlen + 8) ?M" using tg len lg by (simp add: min_def)
  note ctxg = ccm_ctx_same [OF tg hd _ ctx, unfolded h, OF order_refl]
    and ctxM = ccm_ctx_same [OF tM hd _ ctx, unfolded h, OF order_refl]
  let ?R = "\<lambda>message. do { m1 \<leftarrow> rdn ?g (hdrlen + 8 + n) 8; m2 \<leftarrow> rdn message (hdrlen + 8 + n) 8;
       Some (if m1 = m2 then rtw_SUCCESS else rtw_FAIL, ?g, message) }"
  obtain B0 where B0: "construct_mic_iv w qc (ccm_a4 hdrlen) ?M n pn ft = Some B0"
    and run: "do {
       (mic, payload_index) \<leftarrow> ccmp_mic key B0 B1 B2 ?M (hdrlen + 8) n;
       message \<leftarrow> wrn ?M payload_index mic;
       (message, payload_index) \<leftarrow> ccmp_ctr w key (ccm_a4 hdrlen) qc pn ft message (hdrlen + 8) n;
       message \<leftarrow> ccmp_mic_crypt w key (ccm_a4 hdrlen) qc pn ft message payload_index (hdrlen + 8 + n);
       ?R message } = ?R (ccm_seal w key hdrlen ?M n)"
    using decipher_reseal [OF ctxM, of n ?R] lM msg n unfolding hl by fastforce
  have pM: "take n (drop (hdrlen + 8) ?M) = ?p"
    using lp n len lg by (simp add: g drop_take)
  have m1: "rdn ?g (hdrlen + 8 + n) 8 = Some (take 8 (drop (hdrlen + 8 + n) f))"
    using lg len n lp by (simp add: rdn_def g)
  have m2: "rdn (ccm_seal w key hdrlen ?M n) (hdrlen + 8 + n) 8
      = Some (bytewise (take 8 (?S 0)) (ccm_tag w key hdrlen f ?p))"
    using lM msg n by (intro seal_readback [OF tM hd h _ pM]) simp
  have acc: "ccm_accept w key hdrlen f n \<longleftrightarrow>
      take 8 (drop (hdrlen + 8 + n) f) = bytewise (take 8 (?S 0)) (ccm_tag w key hdrlen f ?p)"
    by (simp add: ccm_accept_def h Let_def)
  from ctx have F: "GetFrameType f = Some ft" "GetFrameSubType f = Some st"
    "ccmp_qos ft (drop_bit 4 st) hdrlen = (qc, hdrlen)" "ccmp_pn f hdrlen = Some pn"
    by (simp_all add: ccm_ctx_def hl)
  from ctxg ctxM have G: "ccmp_pn ?g hdrlen = Some pn" "construct_mic_header1 w hdrlen ?M ft = Some B1"
    "construct_mic_header2 ?M (ccm_a4 hdrlen) qc = Some B2"
    by (simp_all add: ccm_ctx_def hl)
  show ?thesis
    unfolding aes_decipher_def aes_decipher_check_def Let_def n(1) ccm_a4_def [symmetric]
    by (simp only: F ctr rd wr G B0 n(3) run bind.bind_lunit prod.case)
       (simp only: m1 m2 acc bind.bind_lunit, blast)
qed

section \<open>Properties\<close>


text \<open>A three-address QoS data frame with two payload bytes, and room for the MIC.\<close>

definition sample_frame :: bytes where
  "sample_frame = [0x88, 1] @ map of_nat [2..<26] @ [9, 0, 0, 0x20, 1, 2, 3, 4] @ [0xAA, 0xBB] @ replicate 8 0"

lemma sample_frame_qos: "ccm_qos 26 sample_frame = (True, 26)"
  by (simp add: ccm_qos_def sample_frame_def GetFrameType_def GetFrameSubType_def le16_at_def rd_def
      ccmp_qos_def WIFI_DATA_CFACK_def WIFI_DATA_CFPOLL_def WIFI_DATA_CFACKPOLL_def WIFI_DATA_def
      WLAN_HDR_A3_QOS_LEN_def)

lemma length_sample_frame: "length sample_frame = 44"
  by (simp add: sample_frame_def)


text \<open>
  C6. \<^verbatim>\<open>aes_decipher\<close> accepts exactly the frames whose MIC field equals the encrypted tag of
  the payload it decrypts, and leaves the decrypted payload in the frame either way,
  for frames of at most 2048 bytes whose header length the QoS test does not change.
\<close>

theorem aes_decipher_verdict:
  assumes "24 \<le> hdrlen" and "snd (ccm_qos hdrlen f) = hdrlen" and "8 \<le> unat plen"
    and "hdrlen + 8 + unat plen \<le> length f"
    and "length message = MAX_MSG_SIZE" and "hdrlen + unat plen + 8 \<le> MAX_MSG_SIZE"
  shows "\<exists>message'. aes_decipher w11 key hdrlen f plen message =
    Some (if ccm_accept w11 key hdrlen f (unat plen - 8) then rtw_SUCCESS else rtw_FAIL,
          ccm_open w11 key hdrlen f (unat plen - 8), message')"
  using assms by (rule aes_decipher_open)

theorem aes_decipher_verdict_witness:
  "\<exists>message'. aes_decipher False (replicate 16 7) 26 sample_frame 10 (replicate 2048 0) =
    Some (if ccm_accept False (replicate 16 7) 26 sample_frame 2 then rtw_SUCCESS else rtw_FAIL,
          ccm_open False (replicate 16 7) 26 sample_frame 2, message')"
  using aes_decipher_verdict [of 26 sample_frame 10 "replicate 2048 0" False "replicate 16 7"]
  by (simp add: sample_frame_qos length_sample_frame MAX_MSG_SIZE_def)

lemma seal_open:
  fixes w :: bool and key f :: bytes and hdrlen n :: nat
  assumes "24 \<le> hdrlen" and "ccm_body hdrlen f + n + 8 \<le> length f"
  defines "g \<equiv> ccm_seal w key hdrlen f n"
  shows "ccm_accept w key hdrlen g n"
    and "take (ccm_body hdrlen f + n) (ccm_open w key hdrlen g n) = take (ccm_body hdrlen f + n) f"
    and "ccm_qos hdrlen g = ccm_qos hdrlen f" and "length g = length f"
proof -
  let ?h = "ccm_body hdrlen f" and ?S = "ccm_stream w key hdrlen f"
  let ?p = "take n (drop ?h f)" and ?t = "ccm_tag w key hdrlen f (take n (drop ?h f))"
  have g: "g = take ?h f @ ctr_crypt ?S ?p @ bytewise (take 8 (?S 0)) ?t @ drop (?h + n + 8) f"
    by (simp add: g_def ccm_seal_def Let_def)
  have lc: "length (ctr_crypt ?S ?p) = n" using length_ctr_crypt [of ?S ?p] assms(2) by simp
  have t: "take ?h f = take ?h g" using assms(2) by (simp add: g)
  note same = ccm_header_only [OF t assms(1) order_refl]
  have parts: "take n (drop ?h g) = ctr_crypt ?S ?p" "take 8 (drop (?h + n) g) = bytewise (take 8 (?S 0)) ?t"
    using lc assms(2) by (simp_all add: g)
  have inv: "ctr_crypt ?S (ctr_crypt ?S ?p) = ?p" by (rule ctr_crypt_involution) simp
  show "ccm_accept w key hdrlen g n" by (simp add: ccm_accept_def Let_def same parts inv)
  have "ccm_open w key hdrlen g n = take ?h f @ ?p @ drop (?h + n) g"
    by (simp add: ccm_open_def Let_def same parts inv t)
  then show "take (?h + n) (ccm_open w key hdrlen g n) = take (?h + n) f"
    using assms(2) by (simp add: take_add)
  show "ccm_qos hdrlen g = ccm_qos hdrlen f" by (rule same)
  show "length g = length f" using lc assms(2) by (simp add: g)
qed

text \<open>
  Round trip: a frame protected by \<^verbatim>\<open>aes_cipher\<close> and passed to \<^verbatim>\<open>aes_decipher\<close> with the
  same key is accepted, and its header and payload are restored.
\<close>

theorem ccmp_roundtrip:
  assumes "24 \<le> hdrlen" and "snd (ccm_qos hdrlen f) = hdrlen" and "unat plen = n + 8"
    and "hdrlen + n + 16 \<le> length f"
    and "length message = MAX_MSG_SIZE" and "hdrlen + n + 16 \<le> MAX_MSG_SIZE"
  shows "\<exists>g f' message'. aes_cipher w11 key hdrlen f n = Some (rtw_SUCCESS, g)
    \<and> aes_decipher w11 key hdrlen g plen message = Some (rtw_SUCCESS, f', message')
    \<and> take (hdrlen + 8 + n) f' = take (hdrlen + 8 + n) f"
proof -
  let ?g = "ccm_seal w11 key hdrlen f n"
  have h: "ccm_body hdrlen f = hdrlen + 8" using assms(2) by (simp add: ccm_body_def)
  have len: "ccm_body hdrlen f + n + 8 \<le> length f" using assms(4) by (simp add: h)
  note so = seal_open [OF assms(1) len, of w11 key]
  obtain message' where "aes_decipher w11 key hdrlen ?g plen message =
      Some (rtw_SUCCESS, ccm_open w11 key hdrlen ?g n, message')"
    using aes_decipher_open [OF assms(1), of ?g plen message w11 key] so(1) assms by (auto simp: so(3,4))
  then show ?thesis
    using aes_cipher_seal [OF assms(1) len, of w11 key] so(2) by (auto simp: h)
qed

theorem ccmp_roundtrip_witness:
  "\<exists>g f' message'. aes_cipher False (replicate 16 7) 26 sample_frame 2 = Some (rtw_SUCCESS, g)
    \<and> aes_decipher False (replicate 16 7) 26 g 10 (replicate 2048 0) = Some (rtw_SUCCESS, f', message')
    \<and> take 36 f' = take 36 sample_frame"
  using ccmp_roundtrip [of 26 sample_frame 10 2 "replicate 2048 0" False "replicate 16 7"]
  by (simp add: sample_frame_qos length_sample_frame MAX_MSG_SIZE_def)

text \<open>
  C11. The scratch buffer overflow: \<^verbatim>\<open>aes_decipher\<close> copies the whole frame into its static
  2048-byte array without a length check, so a frame of more than 2048 bytes (header,
  extended IV, payload and MIC together) writes past the array, whatever its contents.
\<close>

theorem aes_decipher_overflow:
  assumes "length message = MAX_MSG_SIZE" and "MAX_MSG_SIZE < hdrlen + unat plen + 8"
  shows "aes_decipher w11 key hdrlen f plen message = None"
proof -
  have over: "wrn message 0 m = None" if "rdn g 0 (hl + unat plen + 8) = Some m" "hdrlen \<le> hl" for g m hl
    using that rdn_length [OF that(1)] assms by (simp add: wrn_def)
  have hl: "hdrlen \<le> snd (ccmp_qos ft st hdrlen)" for ft st by (simp add: ccmp_qos_def)
  show ?thesis
    unfolding aes_decipher_def aes_decipher_check_def Let_def
    using over hl by (auto simp: split_beta split: bind_splits)
qed

theorem aes_decipher_overflow_witness:
  "aes_decipher False (replicate 16 7) 26 (replicate 3000 0) 2500 (replicate 2048 0) = None"
  by (rule aes_decipher_overflow) (simp_all add: MAX_MSG_SIZE_def)

lemma no_cf_subtype:
  assumes "GetFrameType f = Some ft" and "GetFrameSubType f = Some st"
  shows "ft OR drop_bit 4 st \<noteq> WIFI_DATA_CFACK" and "ft OR drop_bit 4 st \<noteq> WIFI_DATA_CFPOLL"
    and "ft OR drop_bit 4 st \<noteq> WIFI_DATA_CFACKPOLL"
proof -
  obtain fc where fc: "ft = fc AND 0x0C" "st = fc AND 0xFC"
    using assms by (auto simp: GetFrameType_def GetFrameSubType_def)
  have off: "\<not> bit (ft OR drop_bit 4 st) 4" "\<not> bit (ft OR drop_bit 4 st) 5"
    by (simp_all add: fc bit_or_iff bit_and_iff bit_drop_bit_eq)
  have on: "bit WIFI_DATA_CFACK 4" "bit WIFI_DATA_CFPOLL 5" "bit WIFI_DATA_CFACKPOLL 4"
    by (simp_all add: WIFI_DATA_CFACK_def WIFI_DATA_CFPOLL_def WIFI_DATA_CFACKPOLL_def)
  show "ft OR drop_bit 4 st \<noteq> WIFI_DATA_CFACK" "ft OR drop_bit 4 st \<noteq> WIFI_DATA_CFPOLL"
    "ft OR drop_bit 4 st \<noteq> WIFI_DATA_CFACKPOLL"
    using off on by metis+
qed

text \<open>
  The QoS test: the first alternative (CF-Ack, CF-Poll) can never be taken, because the
  subtype has been shifted right before it is compared; the frames treated as QoS are
  exactly the data frames of subtypes 8 to 11, and a header length of 26 is kept while
  every other one, including the 32 bytes of a four-address QoS header, grows by two.
\<close>

theorem ccmp_qos_exact:
  assumes "GetFrameType f = Some ft" and "GetFrameSubType f = Some st"
  shows "ccmp_qos ft (drop_bit 4 st) hdrlen =
    (if ft = WIFI_DATA \<and> drop_bit 4 st \<in> {8, 9, 10, 11}
     then (True, if hdrlen = WLAN_HDR_A3_QOS_LEN then hdrlen else hdrlen + 2) else (False, hdrlen))"
  using no_cf_subtype [OF assms] by (simp add: ccmp_qos_def)

theorem ccmp_qos_exact_witness:
  "ccmp_qos 8 (drop_bit 4 0x88) 32 = (True, 34)"
  using ccmp_qos_exact [of sample_frame 8 "0x88" 32]
  by (simp add: sample_frame_def GetFrameType_def GetFrameSubType_def le16_at_def rd_def WIFI_DATA_def
      WLAN_HDR_A3_QOS_LEN_def)

end
