(* ===== verification/Rtw_Sec_Frames.thy ===== *)
theory Rtw_Sec_Frames
  imports Rtw_Arc4 Rtw_Tkip Rtw_Ccmp
begin

unbundle bit_operations_syntax

text \<open>
  The frame-level entry points of \<^verbatim>\<open>core/rtw_security.c\<close>: \<^verbatim>\<open>rtw_wep_encrypt\<close>,
  \<^verbatim>\<open>rtw_tkip_encrypt\<close>, \<^verbatim>\<open>rtw_aes_encrypt\<close> on transmit frames (a loop over the fragments
  laid out in one buffer) and \<^verbatim>\<open>rtw_wep_decrypt\<close>, \<^verbatim>\<open>rtw_tkip_decrypt\<close>,
  \<^verbatim>\<open>rtw_aes_decrypt\<close> on received ones.

  The station table behind \<^verbatim>\<open>rtw_get_stainfo\<close> is the argument \<open>stapriv\<close>, a map from
  addresses to stations. The build is the default one: \<^verbatim>\<open>CONFIG_USB_TX_AGGREGATION\<close> set,
  \<^verbatim>\<open>CONFIG_TDLS\<close> not set. A buffer is its address and its contents, because the start of
  the next fragment is rounded up as an address.
\<close>

section \<open>The structures, as far as the code reads them\<close>

record sta_info =
  sta_state :: u32
  sta_UncstKey :: bytes

record security_priv =
  dot11PrivacyKeyIndex :: nat
  dot11DefKey :: "bytes list"
  dot11DefKeylen :: "nat list"
  dot118021XGrpKeyid :: nat
  dot118021XGrpKey :: "bytes list"
  binstallGrpkey :: bool

record pkt_attrib =
  tx_hdrlen :: nat
  nr_frags :: nat
  last_txcmdsz :: u32
  tx_encrypt :: nat
  tx_iv_len :: nat
  tx_icv_len :: nat
  tx_ta :: bytes
  tx_ra :: bytes
  tx_psta :: "sta_info option"

record xmit_frame =
  buf_addr :: "(nat \<times> bytes) option"
  pkt_offset :: nat
  xattrib :: pkt_attrib

record rx_pkt_attrib =
  rx_hdrlen :: nat
  rx_encrypt :: nat
  rx_iv_len :: nat
  rx_ta :: bytes
  rx_ra :: bytes
  rx_key_index :: nat

record recv_frame =
  rx_data :: bytes
  rx_len :: u32
  rattrib :: rx_pkt_attrib

definition C_WEP40 :: nat where "C_WEP40 = 1"
definition C_TKIP :: nat where "C_TKIP = 2"
definition C_AES :: nat where "C_AES = 4"
definition C_WEP104 :: nat where "C_WEP104 = 5"
definition C_FW_LINKED :: u32 where "C_FW_LINKED = 1"

definition TXDESC_SIZE :: nat where "TXDESC_SIZE = 32"
definition PACKET_OFFSET_SZ :: nat where "PACKET_OFFSET_SZ = 8"

definition RND4 :: "nat \<Rightarrow> nat" where
  "RND4 x = ((x div 4) + (if x mod 4 = 0 then 0 else 1)) * 4"

definition IS_MCAST :: "bytes \<Rightarrow> bool" where
  "IS_MCAST da = (da ! 0 AND 1 \<noteq> 0)"

definition is_broadcast_mac_addr :: "bytes \<Rightarrow> bool" where
  "is_broadcast_mac_addr a \<longleftrightarrow> (\<forall>i < 6. a ! i = 0xFF)"

text \<open>A subscript of a fixed-size array of the structures; outside it is \<open>None\<close>.\<close>

definition idx :: "'a list \<Rightarrow> nat \<Rightarrow> 'a option" where
  "idx xs i = (if i < length xs then Some (xs ! i) else None)"

text \<open>
  \<^verbatim>\<open>GET_TKIP_PN\<close> and the two halves of the packet number. The top two bytes of the
  union are not initialised and not used.
\<close>

definition TKIP_pnl :: "bytes \<Rightarrow> u16" where
  "TKIP_pnl iv = ucast (iv ! 2) OR push_bit 8 (ucast (iv ! 0))"

definition TKIP_pnh :: "bytes \<Rightarrow> u32" where
  "TKIP_pnh iv = le_u32 (iv ! 4) (iv ! 5) (iv ! 6) (iv ! 7)"

section \<open>RC4 protection of one fragment\<close>

text \<open>
  The body of the WEP and TKIP loops once the RC4 key is known: ICV of the payload,
  payload and ICV enciphered in place. \<open>length\<close> is a C \<^verbatim>\<open>int\<close>; both loops it bounds run
  zero times when it is negative.
\<close>

definition rc4_protect ::
    "bytes \<Rightarrow> nat \<Rightarrow> nat \<Rightarrow> int \<Rightarrow> bytes \<times> crc32_static \<Rightarrow> (bytes \<times> crc32_static) option" where
  "rc4_protect key keylen payload len = (\<lambda>(buf, st).
     do {
       p \<leftarrow> rdn buf payload (nat len);
       let (crc, st) = getcrc32 st p;
       let ctx = arcfour_init key keylen;
       let (c, ctx) = arcfour_encrypt ctx p;
       buf \<leftarrow> wrn buf payload c;
       let (c, ctx) = arcfour_encrypt ctx (u32_le crc);
       buf \<leftarrow> (if int payload + len < 0 then None else wrn buf (nat (int payload + len)) c);
       Some (buf, st)
     })"

text \<open>
  The receiving counterpart: decipher payload and ICV in place and compare the last
  four bytes with the ICV of the rest.
\<close>

definition rc4_unprotect ::
    "bytes \<Rightarrow> nat \<Rightarrow> nat \<Rightarrow> int \<Rightarrow> bytes \<times> crc32_static \<Rightarrow> (bool \<times> bytes \<times> crc32_static) option" where
  "rc4_unprotect key keylen payload len = (\<lambda>(buf, st).
     do {
       p \<leftarrow> rdn buf payload (nat len);
       let ctx = arcfour_init key keylen;
       let (c, ctx) = arcfour_encrypt ctx p;
       buf \<leftarrow> wrn buf payload c;
       p \<leftarrow> rdn buf payload (nat (len - 4));
       let (crc, st) = getcrc32 st p;
       icv \<leftarrow> (if int payload + len - 4 < 0 then None else rdn buf (nat (int payload + len - 4)) 4);
       Some (u32_le crc = icv, buf, st)
     })"

section \<open>The fragment loop\<close>

text \<open>
  \<^verbatim>\<open>for (curfragnum = 0; curfragnum < nr_frags; curfragnum++)\<close> of the three transmit
  functions: every fragment but the last is \<^verbatim>\<open>frag_len\<close> long, the last one
  \<^verbatim>\<open>last_txcmdsz\<close>; the next fragment starts at the next address divisible by four. The
  length handed to the body is the \<^verbatim>\<open>u32\<close> difference read as an \<^verbatim>\<open>int\<close>.
\<close>

fun frag_loop ::
    "(nat \<Rightarrow> int \<Rightarrow> 's \<Rightarrow> 's option) \<Rightarrow> nat \<Rightarrow> u32 \<Rightarrow> u32 \<Rightarrow> nat \<Rightarrow> nat \<Rightarrow> nat \<Rightarrow> 's \<Rightarrow> 's option" where
  "frag_loop body base frag_len lastsz ovh 0 pframe s = Some s"
| "frag_loop body base frag_len lastsz ovh (Suc r) pframe s =
     (if r = 0 then body pframe (sint (lastsz - of_nat ovh)) s
      else do {
        s \<leftarrow> body pframe (sint (frag_len - of_nat ovh)) s;
        frag_loop body base frag_len lastsz ovh r (RND4 (base + pframe + unat frag_len) - base) s
      })"

definition tx_overhead :: "pkt_attrib \<Rightarrow> nat" where
  "tx_overhead a = tx_hdrlen a + tx_iv_len a + tx_icv_len a"

definition tx_start :: "xmit_frame \<Rightarrow> nat" where
  "tx_start x = TXDESC_SIZE + pkt_offset x * PACKET_OFFSET_SZ"

section \<open>WEP\<close>

definition wep_key :: "bytes \<Rightarrow> nat \<Rightarrow> bytes \<Rightarrow> bytes option" where
  "wep_key skey keylength iv =
     do {
       k \<leftarrow> rdn skey 0 keylength;
       wepkey \<leftarrow> wrn (replicate 16 0) 0 iv;
       wrn wepkey 3 k
     }"

definition wep_frag ::
    "bytes \<Rightarrow> nat \<Rightarrow> pkt_attrib \<Rightarrow> nat \<Rightarrow> int \<Rightarrow> bytes \<times> crc32_static \<Rightarrow> (bytes \<times> crc32_static) option" where
  "wep_frag skey keylength a pframe len s =
     do {
       iv \<leftarrow> rdn (fst s) (pframe + tx_hdrlen a) 3;
       wepkey \<leftarrow> wep_key skey keylength iv;
       rc4_protect wepkey (3 + keylength) (pframe + tx_iv_len a + tx_hdrlen a) len s
     }"

definition rtw_wep_encrypt ::
    "security_priv \<Rightarrow> u32 \<Rightarrow> xmit_frame \<Rightarrow> crc32_static \<Rightarrow> (xmit_frame \<times> crc32_static) option" where
  "rtw_wep_encrypt sec frag_len x st =
     (case buf_addr x of None \<Rightarrow> Some (x, st)
      | Some (base, buf) \<Rightarrow>
          if tx_encrypt (xattrib x) = C_WEP40 \<or> tx_encrypt (xattrib x) = C_WEP104 then
            do {
              keylength \<leftarrow> idx (dot11DefKeylen sec) (dot11PrivacyKeyIndex sec);
              skey \<leftarrow> idx (dot11DefKey sec) (dot11PrivacyKeyIndex sec);
              (buf, st) \<leftarrow> frag_loop (wep_frag skey keylength (xattrib x)) base frag_len
                (last_txcmdsz (xattrib x)) (tx_overhead (xattrib x)) (nr_frags (xattrib x))
                (tx_start x) (buf, st);
              Some (x\<lparr>buf_addr := Some (base, buf)\<rparr>, st)
            }
          else Some (x, st))"

definition rtw_wep_decrypt ::
    "security_priv \<Rightarrow> recv_frame \<Rightarrow> crc32_static \<Rightarrow> (recv_frame \<times> crc32_static) option" where
  "rtw_wep_decrypt sec r st =
     (let a = rattrib r in
      if rx_encrypt a = C_WEP40 \<or> rx_encrypt a = C_WEP104 then
        do {
          keylength \<leftarrow> idx (dot11DefKeylen sec) (rx_key_index a);
          skey \<leftarrow> idx (dot11DefKey sec) (rx_key_index a);
          iv \<leftarrow> rdn (rx_data r) (rx_hdrlen a) 3;
          wepkey \<leftarrow> wep_key skey keylength iv;
          let len = sint (rx_len r - of_nat (rx_hdrlen a) - of_nat (rx_iv_len a));
          (_, buf, st) \<leftarrow> rc4_unprotect wepkey (3 + keylength) (rx_iv_len a + rx_hdrlen a) len (rx_data r, st);
          Some (r\<lparr>rx_data := buf\<rparr>, st)
        }
      else Some (r, st))"

section \<open>TKIP\<close>

definition tkip_rc4key :: "bytes \<Rightarrow> bytes \<Rightarrow> bytes \<Rightarrow> bytes" where
  "tkip_rc4key prwskey ta iv = phase2 prwskey (phase1 prwskey ta (TKIP_pnh iv)) (TKIP_pnl iv)"

definition tkip_frag ::
    "bytes \<Rightarrow> pkt_attrib \<Rightarrow> nat \<Rightarrow> int \<Rightarrow> bytes \<times> crc32_static \<Rightarrow> (bytes \<times> crc32_static) option" where
  "tkip_frag prwskey a pframe len s =
     do {
       iv \<leftarrow> rdn (fst s) (pframe + tx_hdrlen a) 8;
       rc4_protect (tkip_rc4key prwskey (tx_ta a) iv) 16 (pframe + tx_iv_len a + tx_hdrlen a) len s
     }"

text \<open>The station of a transmit frame and the pairwise or group key it is sent under.\<close>

definition tx_station :: "(bytes \<Rightarrow> sta_info option) \<Rightarrow> pkt_attrib \<Rightarrow> sta_info option" where
  "tx_station stapriv a = (case tx_psta a of Some s \<Rightarrow> Some s | None \<Rightarrow> stapriv (tx_ra a))"

definition tx_key :: "security_priv \<Rightarrow> pkt_attrib \<Rightarrow> sta_info \<Rightarrow> bytes option" where
  "tx_key sec a stainfo =
     (if IS_MCAST (tx_ra a) then idx (dot118021XGrpKey sec) (dot118021XGrpKeyid sec)
      else Some (sta_UncstKey stainfo))"

definition rtw_tkip_encrypt ::
    "(bytes \<Rightarrow> sta_info option) \<Rightarrow> security_priv \<Rightarrow> u32 \<Rightarrow> xmit_frame \<Rightarrow> crc32_static \<Rightarrow>
       (int \<times> xmit_frame \<times> crc32_static) option" where
  "rtw_tkip_encrypt stapriv sec frag_len x st =
     (case buf_addr x of None \<Rightarrow> Some (rtw_FAIL, x, st)
      | Some (base, buf) \<Rightarrow>
          if tx_encrypt (xattrib x) = C_TKIP then
            (case tx_station stapriv (xattrib x) of None \<Rightarrow> Some (rtw_FAIL, x, st)
             | Some stainfo \<Rightarrow>
                 if sta_state stainfo AND C_FW_LINKED = 0 then Some (rtw_FAIL, x, st)
                 else do {
                   prwskey \<leftarrow> tx_key sec (xattrib x) stainfo;
                   (buf, st) \<leftarrow> frag_loop (tkip_frag prwskey (xattrib x)) base frag_len
                     (last_txcmdsz (xattrib x)) (tx_overhead (xattrib x)) (nr_frags (xattrib x))
                     (tx_start x) (buf, st);
                   Some (rtw_SUCCESS, x\<lparr>buf_addr := Some (base, buf)\<rparr>, st)
                 })
          else Some (rtw_SUCCESS, x, st))"

text \<open>The static counters of \<^verbatim>\<open>rtw_tkip_decrypt\<close> for group frames without a group key.\<close>

record tkip_rx_static =
  gk_start :: u32
  no_gkey_bc_cnt :: u32
  no_gkey_mc_cnt :: u32

definition tkip_no_gkey :: "u32 \<Rightarrow> (u32 \<Rightarrow> int) \<Rightarrow> bytes \<Rightarrow> tkip_rx_static \<Rightarrow> tkip_rx_static" where
  "tkip_no_gkey now passing_ms ra g =
     (let g = (if gk_start g = 0 then g\<lparr>gk_start := now\<rparr> else g);
          g = (if is_broadcast_mac_addr ra then g\<lparr>no_gkey_bc_cnt := no_gkey_bc_cnt g + 1\<rparr>
               else g\<lparr>no_gkey_mc_cnt := no_gkey_mc_cnt g + 1\<rparr>)
      in if passing_ms (gk_start g) > 1000
         then g\<lparr>gk_start := now, no_gkey_bc_cnt := 0, no_gkey_mc_cnt := 0\<rparr> else g)"

definition rtw_tkip_decrypt ::
    "u32 \<Rightarrow> (u32 \<Rightarrow> int) \<Rightarrow> (bytes \<Rightarrow> sta_info option) \<Rightarrow> security_priv \<Rightarrow> recv_frame \<Rightarrow>
       crc32_static \<Rightarrow> tkip_rx_static \<Rightarrow> (int \<times> recv_frame \<times> crc32_static \<times> tkip_rx_static) option" where
  "rtw_tkip_decrypt now passing_ms stapriv sec r st g =
     (let a = rattrib r in
      if rx_encrypt a = C_TKIP then
        (case stapriv (rx_ta a) of None \<Rightarrow> Some (rtw_FAIL, r, st, g)
         | Some stainfo \<Rightarrow>
             if IS_MCAST (rx_ra a) \<and> \<not> binstallGrpkey sec then
               Some (rtw_FAIL, r, st, tkip_no_gkey now passing_ms (rx_ra a) g)
             else do {
               (prwskey, g) \<leftarrow>
                 (if IS_MCAST (rx_ra a) then
                    do { k \<leftarrow> idx (dot118021XGrpKey sec) (rx_key_index a);
                         Some (k, \<lparr>gk_start = 0, no_gkey_bc_cnt = 0, no_gkey_mc_cnt = 0\<rparr>) }
                  else Some (sta_UncstKey stainfo, g));
               iv \<leftarrow> rdn (rx_data r) (rx_hdrlen a) 8;
               let len = sint (rx_len r - of_nat (rx_hdrlen a) - of_nat (rx_iv_len a));
               (icv_ok, buf, st) \<leftarrow> rc4_unprotect (tkip_rc4key prwskey (rx_ta a) iv) 16
                 (rx_iv_len a + rx_hdrlen a) len (rx_data r, st);
               Some (if icv_ok then rtw_SUCCESS else rtw_FAIL, r\<lparr>rx_data := buf\<rparr>, st, g)
             })
      else Some (rtw_SUCCESS, r, st, g))"

section \<open>CCMP\<close>

definition aes_frag :: "bool \<Rightarrow> bytes \<Rightarrow> pkt_attrib \<Rightarrow> nat \<Rightarrow> int \<Rightarrow> bytes \<Rightarrow> bytes option" where
  "aes_frag w11 prwskey a pframe len buf =
     do {
       f \<leftarrow> (if pframe \<le> length buf then Some (drop pframe buf) else None);
       (_, f) \<leftarrow> aes_cipher w11 prwskey (tx_hdrlen a) f (unat (of_int len :: u32));
       Some (take pframe buf @ f)
     }"

definition rtw_aes_encrypt ::
    "bool \<Rightarrow> (bytes \<Rightarrow> sta_info option) \<Rightarrow> security_priv \<Rightarrow> u32 \<Rightarrow> xmit_frame \<Rightarrow> (int \<times> xmit_frame) option" where
  "rtw_aes_encrypt w11 stapriv sec frag_len x =
     (case buf_addr x of None \<Rightarrow> Some (rtw_FAIL, x)
      | Some (base, buf) \<Rightarrow>
          if tx_encrypt (xattrib x) = C_AES then
            (case tx_station stapriv (xattrib x) of None \<Rightarrow> Some (rtw_FAIL, x)
             | Some stainfo \<Rightarrow>
                 if sta_state stainfo AND C_FW_LINKED = 0 then Some (rtw_FAIL, x)
                 else do {
                   prwskey \<leftarrow> tx_key sec (xattrib x) stainfo;
                   buf \<leftarrow> frag_loop (aes_frag w11 prwskey (xattrib x)) base frag_len
                     (last_txcmdsz (xattrib x)) (tx_overhead (xattrib x)) (nr_frags (xattrib x))
                     (tx_start x) buf;
                   Some (rtw_SUCCESS, x\<lparr>buf_addr := Some (base, buf)\<rparr>)
                 })
          else Some (rtw_SUCCESS, x))"

definition rtw_aes_decrypt ::
    "bool \<Rightarrow> (bytes \<Rightarrow> sta_info option) \<Rightarrow> security_priv \<Rightarrow> recv_frame \<Rightarrow> bytes \<Rightarrow>
       (int \<times> recv_frame \<times> bytes) option" where
  "rtw_aes_decrypt w11 stapriv sec r message =
     (let a = rattrib r in
      if rx_encrypt a = C_AES then
        (case stapriv (rx_ta a) of None \<Rightarrow> Some (rtw_FAIL, r, message)
         | Some stainfo \<Rightarrow>
             if IS_MCAST (rx_ra a) \<and> \<not> binstallGrpkey sec then Some (rtw_FAIL, r, message)
             else if IS_MCAST (rx_ra a) \<and> dot118021XGrpKeyid sec \<noteq> rx_key_index a then
               Some (rtw_FAIL, r, message)
             else do {
               prwskey \<leftarrow> (if IS_MCAST (rx_ra a) then idx (dot118021XGrpKey sec) (rx_key_index a)
                           else Some (sta_UncstKey stainfo));
               let len = rx_len r - of_nat (rx_hdrlen a) - of_nat (rx_iv_len a);
               (res, buf, message) \<leftarrow> aes_decipher w11 prwskey (rx_hdrlen a) (rx_data r) len message;
               Some (res, r\<lparr>rx_data := buf\<rparr>, message)
             })
      else Some (rtw_SUCCESS, r, message))"

section \<open>What a per-fragment cipher promises, and what the loop makes of it\<close>

text \<open>The fragments of a frame: offset and size.\<close>

fun frag_plan :: "nat \<Rightarrow> u32 \<Rightarrow> u32 \<Rightarrow> nat \<Rightarrow> nat \<Rightarrow> (nat \<times> nat) list" where
  "frag_plan base frag_len lastsz 0 off = []"
| "frag_plan base frag_len lastsz (Suc r) off =
     (if r = 0 then [(off, unat lastsz)]
      else (off, unat frag_len)
        # frag_plan base frag_len lastsz r (RND4 (base + off + unat frag_len) - base))"

definition region :: "bytes \<Rightarrow> nat \<times> nat \<Rightarrow> bytes" where
  "region buf f = take (snd f) (drop (fst f) buf)"

lemma RND4_ge: "x \<le> RND4 x"
  using div_mult_mod_eq [of x 4] mod_less_divisor [of 4 x]
  by (cases "x mod 4 = 0") (simp_all add: RND4_def add_mult_distrib)

lemma RND4_aligned: "RND4 x mod 4 = 0"
  by (simp add: RND4_def)

lemma next_frag_ge: "off + n \<le> RND4 (base + off + n) - base"
  using RND4_ge [of "base + off + n"] by simp

lemma frag_plan_ge: "f \<in> set (frag_plan base fl ls r off) \<Longrightarrow> off \<le> fst f"
proof (induction r arbitrary: off)
  case (Suc r)
  then show ?case
    using next_frag_ge [of off "unat fl" base] by (fastforce split: if_splits)
qed simp

lemma sint_u32_small:
  assumes "unat (w :: u32) < 2 ^ 31"
  shows "sint w = int (unat w)"
proof -
  have "uint w < 2 ^ 31" using assms by (metis of_nat_less_iff of_nat_numeral of_nat_power of_nat_unat)
  moreover have "- (2 ^ 31) \<le> uint w" by (rule order_trans [of _ 0]) simp_all
  ultimately have "signed_take_bit 31 (uint w) = uint w" by (simp only: signed_take_bit_int_eq_self)
  then show ?thesis by (simp add: sint_uint)
qed

lemma unat_diff_of_nat:
  assumes "ovh \<le> unat (w :: u32)"
  shows "unat (w - of_nat ovh) = unat w - ovh"
proof -
  have "ovh < 2 ^ 32" using assms unsigned_less [of w, where ?'a = nat] by simp
  then have "unat (of_nat ovh :: u32) = ovh" by (simp add: unat_of_nat)
  then show ?thesis using assms by (simp add: unat_sub word_le_nat_alt)
qed

lemma sint_diff:
  assumes "ovh \<le> unat (w :: u32)" and "unat w < 2 ^ 31"
  shows "sint (w - of_nat ovh) = int (unat w - ovh)"
  using assms unat_diff_of_nat [OF assms(1)] sint_u32_small [of "w - of_nat ovh"] by simp

locale fragment_cipher =
  fixes body :: "nat \<Rightarrow> int \<Rightarrow> 's \<Rightarrow> 's option"
    and mem :: "'s \<Rightarrow> bytes"
    and ok :: "'s \<Rightarrow> bool"
    and ovh :: nat
    and wf :: "bytes \<Rightarrow> bool"
    and seal :: "bytes \<Rightarrow> bytes"
  assumes seal_length: "wf r \<Longrightarrow> length (seal r) = length r"
    and wf_size: "wf r \<Longrightarrow> ovh \<le> length r"
    and body_seal: "ok s \<Longrightarrow> off + n \<le> length (mem s) \<Longrightarrow> n < 2 ^ 31 \<Longrightarrow> wf (region (mem s) (off, n)) \<Longrightarrow>
      \<exists>s'. body off (int (n - ovh)) s = Some s' \<and> ok s'
        \<and> mem s' = take off (mem s) @ seal (region (mem s) (off, n)) @ drop (off + n) (mem s)"
begin

lemma body_effect:
  assumes "ok s" and "off + n \<le> length (mem s)" and "n < 2 ^ 31" and "wf (region (mem s) (off, n))"
  obtains s' where "body off (int (n - ovh)) s = Some s'" and "ok s'"
    and "length (mem s') = length (mem s)" and "take off (mem s') = take off (mem s)"
    and "region (mem s') (off, n) = seal (region (mem s) (off, n))"
    and "drop (off + n) (mem s') = drop (off + n) (mem s)"
proof -
  obtain s' where s': "body off (int (n - ovh)) s = Some s'" "ok s'"
    "mem s' = take off (mem s) @ seal (region (mem s) (off, n)) @ drop (off + n) (mem s)"
    using body_seal [OF assms] by blast
  have "length (seal (region (mem s) (off, n))) = n"
    using seal_length [OF assms(4)] assms(2) by (simp add: region_def)
  then show thesis using that [of s'] s' assms(2) by (simp add: region_def)
qed

text \<open>Every fragment is sealed, independently of the others, and nothing before the first changes.\<close>

lemma loop_seals:
  assumes "ok s" and "ovh \<le> unat frag_len" and "unat frag_len < 2 ^ 31" and "unat lastsz < 2 ^ 31"
    and "\<forall>f \<in> set (frag_plan base frag_len lastsz r off).
      fst f + snd f \<le> length (mem s) \<and> wf (region (mem s) f)"
  shows "\<exists>s'. frag_loop body base frag_len lastsz ovh r off s = Some s' \<and> ok s'
    \<and> length (mem s') = length (mem s) \<and> take off (mem s') = take off (mem s)
    \<and> (\<forall>f \<in> set (frag_plan base frag_len lastsz r off). region (mem s') f = seal (region (mem s) f))"
  using assms
proof (induction r arbitrary: off s)
  case (Suc r)
  show ?case
  proof (cases "r = 0")
    case True
    then have f: "off + unat lastsz \<le> length (mem s)" "wf (region (mem s) (off, unat lastsz))"
      using Suc.prems(5) by simp_all
    then have "ovh \<le> unat lastsz" using wf_size [OF f(2)] by (simp add: region_def)
    then have "sint (lastsz - of_nat ovh) = int (unat lastsz - ovh)"
      using Suc.prems(4) by (rule sint_diff)
    then show ?thesis
      using body_effect [OF Suc.prems(1) f(1) Suc.prems(4) f(2)] True by (auto split: if_splits)
  next
    case False
    let ?n = "unat frag_len" and ?next = "RND4 (base + off + unat frag_len) - base"
    let ?plan = "frag_plan base frag_len lastsz r ?next"
    have f: "off + ?n \<le> length (mem s)" "wf (region (mem s) (off, ?n))"
      using Suc.prems(5) False by simp_all
    obtain s1 where s1: "body off (int (?n - ovh)) s = Some s1" "ok s1"
      "length (mem s1) = length (mem s)" "take off (mem s1) = take off (mem s)"
      "region (mem s1) (off, ?n) = seal (region (mem s) (off, ?n))"
      "drop (off + ?n) (mem s1) = drop (off + ?n) (mem s)"
      using body_effect [OF Suc.prems(1) f(1) Suc.prems(3) f(2)] by blast
    have nxt: "off + ?n \<le> ?next" by (rule next_frag_ge)
    have same: "region (mem s1) g = region (mem s) g" if "g \<in> set ?plan" for g
    proof -
      have "off + ?n \<le> fst g" using frag_plan_ge [OF that] nxt by simp
      then have "drop (fst g) (mem s1) = drop (fst g) (mem s)"
        using s1(6) by (rule drop_eq_le [rotated])
      then show ?thesis by (simp add: region_def)
    qed
    have pre: "\<forall>g \<in> set ?plan. fst g + snd g \<le> length (mem s1) \<and> wf (region (mem s1) g)"
      using Suc.prems(5) False same s1(3) by simp
    obtain s2 where s2: "frag_loop body base frag_len lastsz ovh r ?next s1 = Some s2" "ok s2"
      "length (mem s2) = length (mem s1)" "take ?next (mem s2) = take ?next (mem s1)"
      "\<forall>g \<in> set ?plan. region (mem s2) g = seal (region (mem s1) g)"
      using Suc.IH [OF s1(2) Suc.prems(2-4) pre] by blast
    have keep: "take k (mem s2) = take k (mem s1)" if "k \<le> ?next" for k
      using s2(4) that by (rule take_eq_le)
    have "region (mem s2) (off, ?n) = region (mem s1) (off, ?n)"
      using keep [OF nxt] by (simp add: region_def take_drop add.commute)
    moreover have "take off (mem s2) = take off (mem s1)" using nxt by (intro keep) simp
    moreover have "frag_loop body base frag_len lastsz ovh (Suc r) off s = Some s2"
      using s1(1) s2(1) False sint_diff [OF Suc.prems(2,3)] by simp
    ultimately show ?thesis
      using s1(3-5) s2(2,3,5) same False by (intro exI [of _ s2]) simp
  qed
qed simp

end

locale protected_path = fragment_cipher +
  fixes unseal :: "bytes \<Rightarrow> bytes option"
    and icv :: nat
  assumes unseal_seal: "wf r \<Longrightarrow> \<exists>r'. unseal (seal r) = Some r' \<and> take (length r - icv) r' = take (length r - icv) r"
begin

text \<open>The receiver opens every fragment of the transmitted frame and finds what was sent.\<close>

lemma every_fragment_received:
  assumes "ok s" and "ovh \<le> unat frag_len" and "unat frag_len < 2 ^ 31" and "unat lastsz < 2 ^ 31"
    and "\<forall>f \<in> set (frag_plan base frag_len lastsz r off).
      fst f + snd f \<le> length (mem s) \<and> wf (region (mem s) f)"
  shows "\<exists>s'. frag_loop body base frag_len lastsz ovh r off s = Some s' \<and> ok s'
    \<and> length (mem s') = length (mem s)
    \<and> (\<forall>f \<in> set (frag_plan base frag_len lastsz r off). \<exists>r'. unseal (region (mem s') f) = Some r'
        \<and> take (snd f - icv) r' = take (snd f - icv) (region (mem s) f))"
proof -
  obtain s' where s': "frag_loop body base frag_len lastsz ovh r off s = Some s'" "ok s'"
    "length (mem s') = length (mem s)"
    "\<forall>f \<in> set (frag_plan base frag_len lastsz r off). region (mem s') f = seal (region (mem s) f)"
    using loop_seals [OF assms] by blast
  have "\<exists>r'. unseal (region (mem s') f) = Some r' \<and> take (snd f - icv) r' = take (snd f - icv) (region (mem s) f)"
    if "f \<in> set (frag_plan base frag_len lastsz r off)" for f
  proof -
    have "wf (region (mem s) f)" "length (region (mem s) f) = snd f"
      using assms(5) that by (auto simp: region_def)
    then show ?thesis using unseal_seal [of "region (mem s) f"] s'(4) that by auto
  qed
  then show ?thesis using s' by blast
qed

end

section \<open>RC4 protection is such a cipher\<close>

definition rc4_image :: "bytes \<Rightarrow> nat \<Rightarrow> bytes \<Rightarrow> bytes" where
  "rc4_image key klen p = fst (arcfour_encrypt (arcfour_init key klen) (p @ u32_le (crc32_spec p)))"

definition rc4_seal :: "(bytes \<Rightarrow> bytes) \<Rightarrow> nat \<Rightarrow> nat \<Rightarrow> bytes \<Rightarrow> bytes" where
  "rc4_seal keyf klen h r = take h r @ rc4_image (keyf r) klen (take (length r - h - 4) (drop h r))"

lemma length_rc4_image [simp]: "length (rc4_image key klen p) = length p + 4"
  by (simp add: rc4_image_def arc.crypt_length)

lemma rc4_protect_run:
  assumes "crc32_ok st" and "payload + n + 4 \<le> length buf"
  shows "\<exists>st'. rc4_protect key klen payload (int n) (buf, st) =
    Some (take payload buf @ rc4_image key klen (take n (drop payload buf)) @ drop (payload + n + 4) buf, st')
    \<and> crc32_ok st'"
proof -
  let ?p = "take n (drop payload buf)" and ?c0 = "arcfour_init key klen"
  obtain c1 ctx where e1: "arcfour_encrypt ?c0 ?p = (c1, ctx)" by fastforce
  obtain c2 ctx' where e2: "arcfour_encrypt ctx (u32_le (crc32_spec ?p)) = (c2, ctx')" by fastforce
  have img: "rc4_image key klen ?p = c1 @ c2"
    using arc.crypt_append [of ?c0 ?p "u32_le (crc32_spec ?p)"] e1 e2 by (simp add: rc4_image_def)
  have l: "length c1 = n" "length c2 = 4"
    using arc.crypt_length [of ?c0 ?p] arc.crypt_length [of ctx "u32_le (crc32_spec ?p)"] e1 e2 assms(2)
    by simp_all
  obtain st' where crc: "getcrc32 st ?p = (crc32_spec ?p, st')" "crc32_ok st'"
    using getcrc32_value [OF assms(1), of ?p] by (cases "getcrc32 st ?p") auto
  have "nat (int payload + int n) = payload + n" by simp
  then have "rc4_protect key klen payload (int n) (buf, st)
      = Some (take payload buf @ (c1 @ c2) @ drop (payload + n + 4) buf, st')"
    using assms(2) l e1 e2 crc(1) by (simp add: rc4_protect_def rdn_Some wrn_Some ac_simps)
  then show ?thesis using img crc(2) by simp
qed

lemma rc4_unprotect_run:
  fixes key buf :: bytes and klen payload n :: nat
  assumes "crc32_ok st" and "payload + n + 4 \<le> length buf"
  defines "d \<equiv> fst (arcfour_encrypt (arcfour_init key klen) (take (n + 4) (drop payload buf)))"
  shows "\<exists>st'. rc4_unprotect key klen payload (int (n + 4)) (buf, st) =
    Some (u32_le (crc32_spec (take n d)) = drop n d, take payload buf @ d @ drop (payload + n + 4) buf, st')"
proof -
  let ?p = "take (n + 4) (drop payload buf)"
  obtain ctx where e: "arcfour_encrypt (arcfour_init key klen) ?p = (d, ctx)"
    unfolding d_def by (cases "arcfour_encrypt (arcfour_init key klen) ?p") simp
  have l: "length d = n + 4" using arc.crypt_length [of "arcfour_init key klen" ?p] e assms(2) by simp
  obtain st' where crc: "getcrc32 st (take n d) = (crc32_spec (take n d), st')"
    using getcrc32_value(1) [OF assms(1), of "take n d"] by (cases "getcrc32 st (take n d)") auto
  let ?b = "take payload buf @ d @ drop (payload + n + 4) buf"
  have "nat (int (n + 4)) = n + 4" "nat (int (n + 4) - 4) = n"
    "nat (int payload + int (n + 4) - 4) = payload + n" "\<not> int payload + int (n + 4) - 4 < 0"
    by simp_all
  moreover have "rdn buf payload (n + 4) = Some ?p" "wrn buf payload d = Some ?b"
    using assms(2) l by (simp_all add: rdn_def wrn_def add.assoc)
  moreover have "rdn ?b payload n = Some (take n d)" "rdn ?b (payload + n) 4 = Some (drop n d)"
    using assms(2) l by (simp_all add: rdn_def)
  ultimately show ?thesis
    by (simp only: rc4_unprotect_def prod.case bind.bind_lunit e crc Let_def if_False) blast
qed

lemma rc4_open_image:
  "fst (arcfour_encrypt (arcfour_init key klen) (rc4_image key klen p)) = p @ u32_le (crc32_spec p)"
  unfolding rc4_image_def by (rule arc.crypt_involution)

lemma length_rc4_seal: "h + 4 \<le> length r \<Longrightarrow> length (rc4_seal keyf klen h r) = length r"
  by (simp add: rc4_seal_def)

text \<open>The receiver's operation on a sealed frame, when it derives the same key.\<close>

lemma rc4_unprotect_seal:
  assumes "crc32_ok st" and "h + 4 \<le> length r" and "key = keyf r"
  shows "\<exists>st'. rc4_unprotect key klen h (int (length r - h)) (rc4_seal keyf klen h r, st) =
    Some (True, take (length r - 4) r @ u32_le (crc32_spec (take (length r - h - 4) (drop h r))), st')"
proof -
  let ?n = "length r - h - 4" and ?s = "rc4_seal keyf klen h r"
  let ?p = "take ?n (drop h r)"
  have n: "int (length r - h) = int (?n + 4)" "h + ?n + 4 \<le> length ?s"
    using assms(2) by (simp_all add: length_rc4_seal)
  have parts: "take (?n + 4) (drop h ?s) = rc4_image key klen ?p" "take h ?s = take h r" "drop (h + ?n + 4) ?s = []"
    using assms(2,3) by (simp_all add: rc4_seal_def)
  have "length ?p = ?n" using assms(2) by simp
  then have td: "take ?n (?p @ x) = ?p" "drop ?n (?p @ x) = x" for x by simp_all
  have "length r - 4 = h + ?n" using assms(2) by simp
  then have "take h r @ ?p = take (length r - 4) r" by (simp only: take_add)
  then have joined: "take h r @ ?p @ x = take (length r - 4) r @ x" for x by (simp flip: append_assoc)
  show ?thesis
    using rc4_unprotect_run [OF assms(1) n(2), of key klen] unfolding n(1) parts rc4_open_image
    by (simp only: td joined append_assoc append_Nil2 simp_thms)
qed

section \<open>The three instances\<close>

subsection \<open>TKIP\<close>

text \<open>
  A receiver's view of one transmitted fragment: the frame handed to
  \<^verbatim>\<open>rtw_tkip_decrypt\<close>, and its data when the verdict is success.
\<close>

definition tkip_receive ::
    "u32 \<Rightarrow> (u32 \<Rightarrow> int) \<Rightarrow> (bytes \<Rightarrow> sta_info option) \<Rightarrow> security_priv \<Rightarrow> rx_pkt_attrib \<Rightarrow>
       crc32_static \<Rightarrow> tkip_rx_static \<Rightarrow> bytes \<Rightarrow> bytes option" where
  "tkip_receive now passing_ms stapriv sec ra st g r =
     (case rtw_tkip_decrypt now passing_ms stapriv sec
             \<lparr>rx_data = r, rx_len = of_nat (length r), rattrib = ra\<rparr> st g of
        Some (res, r', _) \<Rightarrow> if res = rtw_SUCCESS then Some (rx_data r') else None
      | None \<Rightarrow> None)"

text \<open>Transmitter and receiver agree on the header lengths, the transmitter address and the key.\<close>

definition rx_key :: "(bytes \<Rightarrow> sta_info option) \<Rightarrow> security_priv \<Rightarrow> rx_pkt_attrib \<Rightarrow> bytes \<Rightarrow> bool" where
  "rx_key stapriv sec ra key \<longleftrightarrow>
     (case stapriv (rx_ta ra) of None \<Rightarrow> False
      | Some stainfo \<Rightarrow>
          if IS_MCAST (rx_ra ra)
          then binstallGrpkey sec \<and> idx (dot118021XGrpKey sec) (rx_key_index ra) = Some key
          else sta_UncstKey stainfo = key)"

definition tkip_match :: "bytes \<Rightarrow> pkt_attrib \<Rightarrow> (bytes \<Rightarrow> sta_info option) \<Rightarrow> security_priv \<Rightarrow> rx_pkt_attrib \<Rightarrow> bool" where
  "tkip_match key a stapriv sec ra \<longleftrightarrow>
     rx_encrypt ra = C_TKIP \<and> rx_hdrlen ra = tx_hdrlen a \<and> rx_iv_len ra = 8 \<and> tx_iv_len a = 8 \<and>
     tx_icv_len a = 4 \<and> rx_ta ra = tx_ta a \<and> rx_key stapriv sec ra key"

definition tkip_wf ::
    "bytes \<Rightarrow> pkt_attrib \<Rightarrow> (bytes \<Rightarrow> sta_info option) \<Rightarrow> security_priv \<Rightarrow> rx_pkt_attrib \<Rightarrow> crc32_static \<Rightarrow> bytes \<Rightarrow> bool" where
  "tkip_wf key a stapriv sec ra rst r \<longleftrightarrow>
     tkip_match key a stapriv sec ra \<and> crc32_ok rst \<and> tx_hdrlen a + 12 \<le> length r \<and> length r < 2 ^ 31"

definition tkip_seal :: "bytes \<Rightarrow> pkt_attrib \<Rightarrow> bytes \<Rightarrow> bytes" where
  "tkip_seal key a =
     rc4_seal (\<lambda>r. tkip_rc4key key (tx_ta a) (take 8 (drop (tx_hdrlen a) r))) 16 (tx_hdrlen a + 8)"

text \<open>The body of the loop seals the fragment at \<open>off\<close>.\<close>

lemma rc4_protect_seal:
  assumes "crc32_ok st" and "off + n \<le> length buf" and "h + 4 \<le> n" and "key = keyf (region buf (off, n))"
  shows "\<exists>st'. rc4_protect key klen (off + h) (int (n - h - 4)) (buf, st) =
    Some (take off buf @ rc4_seal keyf klen h (region buf (off, n)) @ drop (off + n) buf, st') \<and> crc32_ok st'"
proof -
  let ?r = "region buf (off, n)"
  have n: "length ?r = n" using assms(2) by (simp add: region_def)
  have r: "take h ?r = take h (drop off buf)"
    "take (length ?r - h - 4) (drop h ?r) = take (n - h - 4) (drop (off + h) buf)"
    unfolding n using assms(3) by (simp_all add: region_def drop_take add.commute)
  have "rc4_seal keyf klen h ?r = take h (drop off buf)
      @ rc4_image key klen (take (n - h - 4) (drop (off + h) buf))"
    by (simp only: rc4_seal_def r assms(4))
  moreover have "take (off + h) buf = take off buf @ take h (drop off buf)" by (rule take_add)
  moreover have "off + h + (n - h - 4) + 4 = off + n" using assms(3) by simp
  ultimately show ?thesis
    using rc4_protect_run [OF assms(1), of "off + h" "n - h - 4" buf key klen] assms(2,3) by simp
qed

lemma tkip_body:
  assumes "crc32_ok (snd s)" and "off + n \<le> length (fst s)" and "tkip_wf key a stapriv sec ra rst (region (fst s) (off, n))"
  shows "\<exists>s'. tkip_frag key a off (int (n - tx_overhead a)) s = Some s' \<and> crc32_ok (snd s')
    \<and> fst s' = take off (fst s) @ tkip_seal key a (region (fst s) (off, n)) @ drop (off + n) (fst s)"
proof -
  obtain buf st where s: "s = (buf, st)" by (cases s)
  let ?h = "tx_hdrlen a" and ?r = "region buf (off, n)"
  have "length ?r = n" using assms(2) by (simp add: s region_def)
  then have wf: "tx_iv_len a = 8" "tx_icv_len a = 4" "?h + 8 + 4 \<le> n"
    using assms(3) by (simp_all add: s tkip_wf_def tkip_match_def)
  then have ovh: "n - tx_overhead a = n - (?h + 8) - 4" by (simp add: tx_overhead_def)
  have iv: "rdn buf (off + ?h) 8 = Some (take 8 (drop ?h ?r))"
    using assms(2) wf by (simp add: s rdn_def region_def drop_take add.commute)
  have "tkip_frag key a off (int (n - tx_overhead a)) s
      = rc4_protect (tkip_rc4key key (tx_ta a) (take 8 (drop ?h ?r))) 16 (off + (?h + 8)) (int (n - (?h + 8) - 4)) (buf, st)"
    using iv wf by (simp add: tkip_frag_def s ovh ac_simps)
  moreover obtain st' where "rc4_protect (tkip_rc4key key (tx_ta a) (take 8 (drop ?h ?r))) 16 (off + (?h + 8))
      (int (n - (?h + 8) - 4)) (buf, st) = Some (take off buf @ tkip_seal key a ?r @ drop (off + n) buf, st')"
      "crc32_ok st'"
    using rc4_protect_seal [of st off n buf "?h + 8" _ "\<lambda>r. tkip_rc4key key (tx_ta a) (take 8 (drop ?h r))" 16]
      assms wf by (auto simp: s tkip_seal_def)
  ultimately show ?thesis by (simp add: s)
qed

lemma sint_rx_len:
  assumes "h1 + h2 \<le> length r" and "length r < 2 ^ 31"
  shows "sint (of_nat (length r) - of_nat h1 - of_nat h2 :: u32) = int (length r - (h2 + h1))"
proof -
  have "unat (of_nat (length r) :: u32) = length r" using assms(2) by (simp add: unat_of_nat)
  then have "sint (of_nat (length r) - of_nat (h1 + h2) :: u32) = int (length r - (h1 + h2))"
    using assms sint_diff [of "h1 + h2" "of_nat (length r)"] by simp
  then show ?thesis by (simp add: diff_diff_eq add.commute)
qed

lemma take_rc4_seal: "off + n \<le> h \<Longrightarrow> h \<le> length r \<Longrightarrow>
  take n (drop off (rc4_seal keyf klen h r)) = take n (drop off r)"
  by (simp add: rc4_seal_def drop_take)

lemma tkip_open:
  assumes "tkip_wf key a stapriv sec ra rst r"
  shows "\<exists>r'. tkip_receive now passing_ms stapriv sec ra rst g (tkip_seal key a r) = Some r'
    \<and> take (length r - 4) r' = take (length r - 4) r"
proof -
  let ?h = "tx_hdrlen a" and ?s = "tkip_seal key a r"
  let ?iv = "take 8 (drop ?h r)"
  let ?out = "take (length r - 4) r @ u32_le (crc32_spec (take (length r - (?h + 8) - 4) (drop (?h + 8) r)))"
  have m: "tkip_match key a stapriv sec ra" "crc32_ok rst" "?h + 8 + 4 \<le> length r" "length r < 2 ^ 31"
    using assms by (simp_all add: tkip_wf_def)
  have l: "length ?s = length r" using m(3) unfolding tkip_seal_def by (intro length_rc4_seal)
  have "take 8 (drop ?h ?s) = ?iv" using m(3) unfolding tkip_seal_def by (intro take_rc4_seal) simp_all
  then have iv: "rdn ?s ?h 8 = Some ?iv" using m(3) l by (simp add: rdn_def)
  have len: "sint (of_nat (length r) - of_nat ?h - of_nat 8 :: u32) = int (length r - (8 + ?h))"
    using m by (intro sint_rx_len) simp_all
  obtain st' where un: "rc4_unprotect (tkip_rc4key key (tx_ta a) ?iv) 16 (?h + 8) (int (length r - (?h + 8))) (?s, rst)
      = Some (True, ?out, st')"
    using rc4_unprotect_seal [OF m(2,3), of _ "\<lambda>r. tkip_rc4key key (tx_ta a) (take 8 (drop ?h r))"]
    by (auto simp: tkip_seal_def)
  obtain stainfo where sta: "stapriv (rx_ta ra) = Some stainfo"
    using m(1) by (auto simp: tkip_match_def rx_key_def split: option.splits)
  have "\<exists>res g'. rtw_tkip_decrypt now passing_ms stapriv sec
      \<lparr>rx_data = ?s, rx_len = of_nat (length ?s), rattrib = ra\<rparr> rst g
      = Some (rtw_SUCCESS, \<lparr>rx_data = ?out, rx_len = of_nat (length ?s), rattrib = ra\<rparr>, st', g')"
    using m(1) sta iv un len l
    by (auto simp: rtw_tkip_decrypt_def tkip_match_def rx_key_def add.commute split: if_splits)
  then show ?thesis by (auto simp: tkip_receive_def)
qed

interpretation tkip: protected_path "tkip_frag key a" fst "\<lambda>s. crc32_ok (snd s)" "tx_overhead a"
  "tkip_wf key a stapriv sec ra rst" "tkip_seal key a" "tkip_receive now passing_ms stapriv sec ra rst g" 4
  for key a stapriv sec ra rst now passing_ms g
proof unfold_locales
  show "length (tkip_seal key a r) = length r" if "tkip_wf key a stapriv sec ra rst r" for r
    using that by (simp add: tkip_seal_def tkip_wf_def length_rc4_seal)
  show "tx_overhead a \<le> length r" if "tkip_wf key a stapriv sec ra rst r" for r
    using that by (simp add: tkip_wf_def tkip_match_def tx_overhead_def)
qed (rule tkip_body tkip_open, assumption+)+

subsection \<open>WEP\<close>

definition wep_receive :: "security_priv \<Rightarrow> rx_pkt_attrib \<Rightarrow> crc32_static \<Rightarrow> bytes \<Rightarrow> bytes option" where
  "wep_receive sec ra st r =
     map_option (\<lambda>(r', _). rx_data r')
       (rtw_wep_decrypt sec \<lparr>rx_data = r, rx_len = of_nat (length r), rattrib = ra\<rparr> st)"

text \<open>The key fits the 16-byte \<^verbatim>\<open>wepkey\<close> behind the three IV bytes.\<close>

definition wep_wf ::
    "bytes \<Rightarrow> nat \<Rightarrow> pkt_attrib \<Rightarrow> security_priv \<Rightarrow> rx_pkt_attrib \<Rightarrow> crc32_static \<Rightarrow> bytes \<Rightarrow> bool" where
  "wep_wf skey klen a sec ra rst r \<longleftrightarrow>
     (rx_encrypt ra = C_WEP40 \<or> rx_encrypt ra = C_WEP104) \<and> rx_hdrlen ra = tx_hdrlen a \<and>
     rx_iv_len ra = 4 \<and> tx_iv_len a = 4 \<and> tx_icv_len a = 4 \<and>
     idx (dot11DefKey sec) (rx_key_index ra) = Some skey \<and>
     idx (dot11DefKeylen sec) (rx_key_index ra) = Some klen \<and> klen \<le> 13 \<and> length skey = 16 \<and>
     crc32_ok rst \<and> tx_hdrlen a + 8 \<le> length r \<and> length r < 2 ^ 31"

definition wep_seal :: "bytes \<Rightarrow> nat \<Rightarrow> pkt_attrib \<Rightarrow> bytes \<Rightarrow> bytes" where
  "wep_seal skey klen a =
     rc4_seal (\<lambda>r. the (wep_key skey klen (take 3 (drop (tx_hdrlen a) r)))) (3 + klen) (tx_hdrlen a + 4)"

lemma wep_key_some:
  "klen \<le> 13 \<Longrightarrow> length skey = 16 \<Longrightarrow> length iv = 3 \<Longrightarrow> wep_key skey klen iv = Some (the (wep_key skey klen iv))"
  by (simp add: wep_key_def rdn_def wrn_def)

lemma wep_body:
  assumes "crc32_ok (snd s)" and "off + n \<le> length (fst s)" and "wep_wf skey klen a sec ra rst (region (fst s) (off, n))"
  shows "\<exists>s'. wep_frag skey klen a off (int (n - tx_overhead a)) s = Some s' \<and> crc32_ok (snd s')
    \<and> fst s' = take off (fst s) @ wep_seal skey klen a (region (fst s) (off, n)) @ drop (off + n) (fst s)"
proof -
  obtain buf st where s: "s = (buf, st)" by (cases s)
  let ?h = "tx_hdrlen a" and ?r = "region buf (off, n)"
  let ?iv = "take 3 (drop ?h ?r)"
  have n: "length ?r = n" using assms(2) by (simp add: s region_def)
  then have wf: "tx_iv_len a = 4" "tx_icv_len a = 4" "?h + 4 + 4 \<le> n" "klen \<le> 13" "length skey = 16"
    using assms(3) by (simp_all add: s wep_wf_def)
  then have ovh: "n - tx_overhead a = n - (?h + 4) - 4" by (simp add: tx_overhead_def)
  have iv: "rdn buf (off + ?h) 3 = Some ?iv"
    using assms(2) wf by (simp add: s rdn_def region_def drop_take add.commute)
  have key: "wep_key skey klen ?iv = Some (the (wep_key skey klen ?iv))"
    using wf n by (intro wep_key_some) simp_all
  have "wep_frag skey klen a off (int (n - tx_overhead a)) s
      = rc4_protect (the (wep_key skey klen ?iv)) (3 + klen) (off + (?h + 4)) (int (n - (?h + 4) - 4)) (buf, st)"
    unfolding wep_frag_def s fst_conv iv bind.bind_lunit ovh by (subst key) (simp add: wf ac_simps)
  moreover obtain st' where "rc4_protect (the (wep_key skey klen ?iv)) (3 + klen) (off + (?h + 4))
      (int (n - (?h + 4) - 4)) (buf, st) = Some (take off buf @ wep_seal skey klen a ?r @ drop (off + n) buf, st')"
      "crc32_ok st'"
    using rc4_protect_seal [of st off n buf "?h + 4" _ "\<lambda>r. the (wep_key skey klen (take 3 (drop ?h r)))" "3 + klen"]
      assms wf by (auto simp: s wep_seal_def)
  ultimately show ?thesis by (simp add: s)
qed

lemma wep_open:
  assumes "wep_wf skey klen a sec ra rst r"
  shows "\<exists>r'. wep_receive sec ra rst (wep_seal skey klen a r) = Some r'
    \<and> take (length r - 4) r' = take (length r - 4) r"
proof -
  let ?h = "tx_hdrlen a" and ?s = "wep_seal skey klen a r"
  let ?iv = "take 3 (drop ?h r)"
  let ?out = "take (length r - 4) r @ u32_le (crc32_spec (take (length r - (?h + 4) - 4) (drop (?h + 4) r)))"
  have m: "crc32_ok rst" "?h + 4 + 4 \<le> length r" "length r < 2 ^ 31" "klen \<le> 13" "length skey = 16"
    using assms by (simp_all add: wep_wf_def)
  have l: "length ?s = length r" using m(2) unfolding wep_seal_def by (intro length_rc4_seal)
  have "take 3 (drop ?h ?s) = ?iv" using m(2) unfolding wep_seal_def by (intro take_rc4_seal) simp_all
  then have iv: "rdn ?s ?h 3 = Some ?iv" using m(2) l by (simp add: rdn_def)
  obtain wk where key: "wep_key skey klen ?iv = Some wk"
    using wep_key_some [OF m(4,5), of ?iv] m(2) by auto
  have len: "sint (of_nat (length r) - of_nat ?h - of_nat 4 :: u32) = int (length r - (4 + ?h))"
    using m by (intro sint_rx_len) simp_all
  obtain st' where un: "rc4_unprotect wk (3 + klen) (?h + 4) (int (length r - (?h + 4))) (?s, rst)
      = Some (True, ?out, st')"
    using rc4_unprotect_seal [OF m(1,2), of wk "\<lambda>r. the (wep_key skey klen (take 3 (drop ?h r)))"] key
    by (auto simp: wep_seal_def)
  have "rtw_wep_decrypt sec \<lparr>rx_data = ?s, rx_len = of_nat (length ?s), rattrib = ra\<rparr> rst
      = Some (\<lparr>rx_data = ?out, rx_len = of_nat (length ?s), rattrib = ra\<rparr>, st')"
    using assms iv un len l key by (auto simp: rtw_wep_decrypt_def wep_wf_def add.commute)
  then show ?thesis by (simp add: wep_receive_def)
qed

interpretation wep: protected_path "wep_frag skey klen a" fst "\<lambda>s. crc32_ok (snd s)" "tx_overhead a"
  "wep_wf skey klen a sec ra rst" "wep_seal skey klen a" "wep_receive sec ra rst" 4
  for skey klen a sec ra rst
proof unfold_locales
  show "length (wep_seal skey klen a r) = length r" if "wep_wf skey klen a sec ra rst r" for r
    using that by (simp add: wep_seal_def wep_wf_def length_rc4_seal)
  show "tx_overhead a \<le> length r" if "wep_wf skey klen a sec ra rst r" for r
    using that by (simp add: wep_wf_def tx_overhead_def)
qed (rule wep_body wep_open, assumption+)+

subsection \<open>CCMP\<close>

definition aes_receive ::
    "bool \<Rightarrow> (bytes \<Rightarrow> sta_info option) \<Rightarrow> security_priv \<Rightarrow> rx_pkt_attrib \<Rightarrow> bytes \<Rightarrow> bytes \<Rightarrow> bytes option" where
  "aes_receive w11 stapriv sec ra message r =
     (case rtw_aes_decrypt w11 stapriv sec \<lparr>rx_data = r, rx_len = of_nat (length r), rattrib = ra\<rparr> message of
        Some (res, r', _) \<Rightarrow> if res = rtw_SUCCESS then Some (rx_data r') else None
      | None \<Rightarrow> None)"

definition aes_wf ::
    "bytes \<Rightarrow> pkt_attrib \<Rightarrow> (bytes \<Rightarrow> sta_info option) \<Rightarrow> security_priv \<Rightarrow> rx_pkt_attrib \<Rightarrow> bytes \<Rightarrow> bytes \<Rightarrow> bool" where
  "aes_wf key a stapriv sec ra message r \<longleftrightarrow>
     rx_encrypt ra = C_AES \<and> rx_hdrlen ra = tx_hdrlen a \<and> rx_iv_len ra = 8 \<and> tx_iv_len a = 8 \<and>
     tx_icv_len a = 8 \<and> rx_key stapriv sec ra key \<and>
     (IS_MCAST (rx_ra ra) \<longrightarrow> dot118021XGrpKeyid sec = rx_key_index ra) \<and>
     24 \<le> tx_hdrlen a \<and> snd (ccm_qos (tx_hdrlen a) r) = tx_hdrlen a \<and>
     tx_hdrlen a + 16 \<le> length r \<and> length r \<le> MAX_MSG_SIZE \<and> length message = MAX_MSG_SIZE"

definition aes_seal :: "bool \<Rightarrow> bytes \<Rightarrow> pkt_attrib \<Rightarrow> bytes \<Rightarrow> bytes" where
  "aes_seal w11 key a r = ccm_seal w11 key (tx_hdrlen a) r (length r - tx_hdrlen a - 16)"

lemma ccm_seal_append:
  assumes "24 \<le> hdrlen" and "ccm_body hdrlen r + n + 8 \<le> length r"
  shows "ccm_seal w key hdrlen (r @ t) n = ccm_seal w key hdrlen r n @ t"
proof -
  have "take (ccm_body hdrlen r) r = take (ccm_body hdrlen r) (r @ t)" using assms(2) by simp
  note same = ccm_header_only [OF this assms(1) order_refl]
  show ?thesis using assms(2) by (simp add: ccm_seal_def Let_def same)
qed

lemma aes_body:
  assumes "off + n \<le> length buf" and "aes_wf key a stapriv sec ra message (region buf (off, n))"
  shows "aes_frag w11 key a off (int (n - tx_overhead a)) buf
    = Some (take off buf @ aes_seal w11 key a (region buf (off, n)) @ drop (off + n) buf)"
proof -
  let ?h = "tx_hdrlen a" and ?r = "region buf (off, n)"
  have n: "length ?r = n" using assms(1) by (simp add: region_def)
  then have wf: "tx_iv_len a = 8" "tx_icv_len a = 8" "24 \<le> ?h" "snd (ccm_qos ?h ?r) = ?h" "?h + 16 \<le> n" "n \<le> 2048"
    using assms(2) by (simp_all add: aes_wf_def MAX_MSG_SIZE_def)
  then have ovh: "n - tx_overhead a = n - ?h - 16" by (simp add: tx_overhead_def)
  have "unat (of_int (int (n - ?h - 16)) :: u32) = n - ?h - 16" using wf(6) by (simp add: unat_of_nat)
  then have len: "unat (of_int (int (n - tx_overhead a)) :: u32) = n - ?h - 16" by (simp only: ovh)
  have d: "drop off buf = ?r @ drop (off + n) buf" using assms(1) by (simp add: region_def add.commute flip: drop_drop)
  have body: "ccm_body ?h ?r = ?h + 8" using wf(4) by (simp add: ccm_body_def)
  have "take (ccm_body ?h ?r) ?r = take (ccm_body ?h ?r) (?r @ drop (off + n) buf)" using n wf(5) by (simp add: body)
  then have body': "ccm_body ?h (drop off buf) = ?h + 8"
    using ccm_header_only(2) [OF _ wf(3) order_refl, of ?r] body d by metis
  have "aes_cipher w11 key ?h (drop off buf) (n - ?h - 16) = Some (rtw_SUCCESS, ccm_seal w11 key ?h (drop off buf) (n - ?h - 16))"
    using wf assms(1) by (intro aes_cipher_seal) (simp_all add: body')
  also have "ccm_seal w11 key ?h (drop off buf) (n - ?h - 16) = aes_seal w11 key a ?r @ drop (off + n) buf"
    using wf n ccm_seal_append [of ?h ?r "n - ?h - 16" w11 key "drop (off + n) buf"]
    by (simp add: d aes_seal_def body)
  finally show ?thesis using assms(1) by (simp add: aes_frag_def len [simplified])
qed

lemma aes_open_whole:
  assumes "aes_wf key a stapriv sec ra message r"
  shows "\<exists>r'. aes_receive w11 stapriv sec ra message (aes_seal w11 key a r) = Some r'
    \<and> take (length r - 8) r' = take (length r - 8) r \<and> length r' = length r"
proof -
  let ?h = "tx_hdrlen a" and ?n = "length r - tx_hdrlen a - 16" and ?s = "aes_seal w11 key a r"
  let ?plen = "of_nat (length r) - of_nat ?h - of_nat 8 :: u32"
  have wf: "24 \<le> ?h" "snd (ccm_qos ?h r) = ?h" "?h + 16 \<le> length r" "length r \<le> 2048" "length message = MAX_MSG_SIZE"
    using assms by (simp_all add: aes_wf_def MAX_MSG_SIZE_def)
  have body: "ccm_body ?h r = ?h + 8" using wf(2) by (simp add: ccm_body_def)
  have fits: "ccm_body ?h r + ?n + 8 \<le> length r" using wf(3) by (simp add: body)
  note so = seal_open [OF wf(1) fits, of w11 key, folded aes_seal_def]
  have "unat (of_nat (length r) :: u32) = length r" using wf(4) by (simp add: unat_of_nat)
  then have "unat (of_nat (length r) - of_nat (?h + 8) :: u32) = ?n + 8"
    using unat_diff_of_nat [of "?h + 8" "of_nat (length r)"] wf(3) by simp
  then have plen: "unat ?plen = ?n + 8" by (simp add: diff_diff_eq)
  then have minus: "unat ?plen - 8 = ?n" by simp
  obtain message' where dec: "aes_decipher w11 key ?h ?s ?plen message
      = Some (rtw_SUCCESS, ccm_open w11 key ?h ?s ?n, message')"
    using aes_decipher_open [OF wf(1), of ?s ?plen message w11 key, unfolded minus] so wf plen
    by (fastforce simp: MAX_MSG_SIZE_def)
  obtain stainfo where sta: "stapriv (rx_ta ra) = Some stainfo"
    using assms by (auto simp: aes_wf_def rx_key_def split: option.splits)
  have "rtw_aes_decrypt w11 stapriv sec \<lparr>rx_data = ?s, rx_len = of_nat (length ?s), rattrib = ra\<rparr> message
      = Some (rtw_SUCCESS, \<lparr>rx_data = ccm_open w11 key ?h ?s ?n, rx_len = of_nat (length ?s), rattrib = ra\<rparr>, message')"
    using assms sta dec so(4) by (auto simp: rtw_aes_decrypt_def aes_wf_def rx_key_def)
  moreover have "?h + 8 + ?n = length r - 8" using wf(3) by simp
  moreover have "length (ccm_open w11 key ?h ?s ?n) = length r"
    using so(3,4) fits body by (simp add: ccm_open_def Let_def length_ctr_crypt ccm_body_def)
  ultimately show ?thesis using so(2) by (auto simp: aes_receive_def body)
qed

lemma aes_open:
  assumes "aes_wf key a stapriv sec ra message r"
  shows "\<exists>r'. aes_receive w11 stapriv sec ra message (aes_seal w11 key a r) = Some r'
    \<and> take (length r - 8) r' = take (length r - 8) r"
  using aes_open_whole [OF assms] by blast

interpretation aes: protected_path "aes_frag w11 key a" "\<lambda>b. b" "\<lambda>b. True" "tx_overhead a"
  "aes_wf key a stapriv sec ra message" "aes_seal w11 key a" "aes_receive w11 stapriv sec ra message" 8
  for w11 key a stapriv sec ra message
proof unfold_locales
  show "length (aes_seal w11 key a r) = length r" if "aes_wf key a stapriv sec ra message r" for r
    using that seal_open(4) [of "tx_hdrlen a" r "length r - tx_hdrlen a - 16" w11 key]
    by (simp add: aes_seal_def aes_wf_def ccm_body_def)
  show "tx_overhead a \<le> length r" if "aes_wf key a stapriv sec ra message r" for r
    using that by (simp add: aes_wf_def tx_overhead_def)
qed (simp_all add: aes_body aes_open)

section \<open>Properties\<close>

text \<open>All fragments of a transmit frame lie in its buffer.\<close>

definition plan_of :: "nat \<Rightarrow> u32 \<Rightarrow> xmit_frame \<Rightarrow> (nat \<times> nat) list" where
  "plan_of base frag_len x =
     frag_plan base frag_len (last_txcmdsz (xattrib x)) (nr_frags (xattrib x)) (tx_start x)"

text \<open>
  C7. TKIP end to end: when the station is linked and every fragment fits the buffer,
  \<^verbatim>\<open>rtw_tkip_encrypt\<close> succeeds, and a receiver with the same key, transmitter address and
  header lengths accepts every single fragment in \<^verbatim>\<open>rtw_tkip_decrypt\<close> and finds in it
  the header, IV and payload that were there before, for any number of fragments and
  any alignment of the buffer.
\<close>

theorem tkip_frame_roundtrip:
  assumes "buf_addr x = Some (base, buf)" and "tx_encrypt (xattrib x) = C_TKIP"
    and "tx_station stapriv (xattrib x) = Some stainfo" and "sta_state stainfo AND C_FW_LINKED \<noteq> 0"
    and "tx_key sec (xattrib x) stainfo = Some key" and "crc32_ok st"
    and "tx_overhead (xattrib x) \<le> unat frag_len" and "unat frag_len < 2 ^ 31"
    and "unat (last_txcmdsz (xattrib x)) < 2 ^ 31"
    and "\<forall>f \<in> set (plan_of base frag_len x). fst f + snd f \<le> length buf
           \<and> tkip_wf key (xattrib x) rstapriv rsec ra rst (region buf f)"
  shows "\<exists>buf' st'. rtw_tkip_encrypt stapriv sec frag_len x st
      = Some (rtw_SUCCESS, x\<lparr>buf_addr := Some (base, buf')\<rparr>, st')
    \<and> (\<forall>f \<in> set (plan_of base frag_len x).
        \<exists>r. tkip_receive now passing_ms rstapriv rsec ra rst g (region buf' f) = Some r
          \<and> take (snd f - 4) r = take (snd f - 4) (region buf f))"
  using tkip.every_fragment_received [where s = "(buf, st)" and key = key and a = "xattrib x"
      and frag_len = frag_len and base = base and r = "nr_frags (xattrib x)" and off = "tx_start x"
      and lastsz = "last_txcmdsz (xattrib x)" and stapriv = rstapriv and sec = rsec and ra = ra and rst = rst]
    assms
  by (fastforce simp: rtw_tkip_encrypt_def plan_of_def)

text \<open>A two-fragment frame, its sender and its receiver.\<close>

definition sample_sta :: sta_info where
  "sample_sta = \<lparr>sta_state = 1, sta_UncstKey = replicate 16 7\<rparr>"

definition sample_sec :: security_priv where
  "sample_sec = \<lparr>dot11PrivacyKeyIndex = 0, dot11DefKey = replicate 4 (replicate 16 3),
     dot11DefKeylen = replicate 4 5, dot118021XGrpKeyid = 1,
     dot118021XGrpKey = replicate 4 (replicate 16 9), binstallGrpkey = True\<rparr>"

definition sample_tx :: "nat \<Rightarrow> nat \<Rightarrow> nat \<Rightarrow> nat \<Rightarrow> pkt_attrib" where
  "sample_tx alg hdr iv icv =
     \<lparr>tx_hdrlen = hdr, nr_frags = 2, last_txcmdsz = 45, tx_encrypt = alg, tx_iv_len = iv, tx_icv_len = icv,
      tx_ta = replicate 6 2, tx_ra = replicate 6 4, tx_psta = Some sample_sta\<rparr>"

definition sample_rx :: "nat \<Rightarrow> nat \<Rightarrow> nat \<Rightarrow> rx_pkt_attrib" where
  "sample_rx alg hdr iv =
     \<lparr>rx_hdrlen = hdr, rx_encrypt = alg, rx_iv_len = iv, rx_ta = replicate 6 2, rx_ra = replicate 6 4,
      rx_key_index = 0\<rparr>"

definition sample_x :: "nat \<Rightarrow> nat \<Rightarrow> nat \<Rightarrow> nat \<Rightarrow> xmit_frame" where
  "sample_x alg hdr iv icv =
     \<lparr>buf_addr = Some (1001, replicate 200 0), pkt_offset = 1, xattrib = sample_tx alg hdr iv icv\<rparr>"

lemma frag_plan_2:
  "frag_plan base fl ls 2 off = [(off, unat fl), (RND4 (base + off + unat fl) - base, unat ls)]"
  by (simp add: numeral_2_eq_2)

lemma sample_plan: "plan_of 1001 46 (sample_x alg hdr iv icv) = [(40, 46), (87, 45)]"
  by (simp add: plan_of_def sample_x_def sample_tx_def tx_start_def TXDESC_SIZE_def PACKET_OFFSET_SZ_def
      frag_plan_2 RND4_def)

lemmas sample_defs = sample_x_def sample_tx_def sample_rx_def sample_sta_def sample_sec_def

theorem tkip_frame_roundtrip_witness:
  "\<exists>buf' st'. rtw_tkip_encrypt (\<lambda>_. None) sample_sec 46 (sample_x C_TKIP 24 8 4) crc32_boot
      = Some (rtw_SUCCESS, (sample_x C_TKIP 24 8 4)\<lparr>buf_addr := Some (1001, buf')\<rparr>, st')
    \<and> (\<forall>f \<in> set [(40, 46), (87, 45)].
        \<exists>r. tkip_receive 5 (\<lambda>_. 0) (\<lambda>_. Some sample_sta) sample_sec (sample_rx C_TKIP 24 8) crc32_boot
              \<lparr>gk_start = 0, no_gkey_bc_cnt = 0, no_gkey_mc_cnt = 0\<rparr> (region buf' f) = Some r
          \<and> take (snd f - 4) r = take (snd f - 4) (region (replicate 200 0) f))"
  using tkip_frame_roundtrip [of "sample_x C_TKIP 24 8 4" 1001 "replicate 200 0" "\<lambda>_. None" sample_sta
      sample_sec "replicate 16 7" crc32_boot 46 "\<lambda>_. Some sample_sta" sample_sec "sample_rx C_TKIP 24 8"
      crc32_boot 5 "\<lambda>_. 0" "\<lparr>gk_start = 0, no_gkey_bc_cnt = 0, no_gkey_mc_cnt = 0\<rparr>"]
  unfolding sample_plan
  by (simp add: sample_defs tx_station_def tx_key_def IS_MCAST_def C_FW_LINKED_def crc32_ok_boot
      tx_overhead_def tkip_wf_def tkip_match_def rx_key_def region_def)

text \<open>
  C8. CCMP end to end: under the same conditions \<^verbatim>\<open>rtw_aes_encrypt\<close> succeeds and
  \<^verbatim>\<open>rtw_aes_decrypt\<close> accepts every fragment (of at most 2048 bytes, with a header the QoS
  test leaves alone) and restores its header and payload.
\<close>

theorem aes_frame_roundtrip:
  assumes "buf_addr x = Some (base, buf)" and "tx_encrypt (xattrib x) = C_AES"
    and "tx_station stapriv (xattrib x) = Some stainfo" and "sta_state stainfo AND C_FW_LINKED \<noteq> 0"
    and "tx_key sec (xattrib x) stainfo = Some key"
    and "tx_overhead (xattrib x) \<le> unat frag_len" and "unat frag_len < 2 ^ 31"
    and "unat (last_txcmdsz (xattrib x)) < 2 ^ 31"
    and "\<forall>f \<in> set (plan_of base frag_len x). fst f + snd f \<le> length buf
           \<and> aes_wf key (xattrib x) rstapriv rsec ra message (region buf f)"
  shows "\<exists>buf'. rtw_aes_encrypt w11 stapriv sec frag_len x
      = Some (rtw_SUCCESS, x\<lparr>buf_addr := Some (base, buf')\<rparr>)
    \<and> (\<forall>f \<in> set (plan_of base frag_len x).
        \<exists>r. aes_receive w11 rstapriv rsec ra message (region buf' f) = Some r
          \<and> take (snd f - 8) r = take (snd f - 8) (region buf f))"
  using aes.every_fragment_received [where s = buf and key = key and a = "xattrib x" and ?w11.0 = w11
      and frag_len = frag_len and base = base and r = "nr_frags (xattrib x)" and off = "tx_start x"
      and lastsz = "last_txcmdsz (xattrib x)" and stapriv = rstapriv and sec = rsec and ra = ra
      and message = message] assms
  by (fastforce simp: rtw_aes_encrypt_def plan_of_def)

lemma zero_frame_qos: "2 \<le> n \<Longrightarrow> ccm_qos hdrlen (replicate n 0) = (False, hdrlen)"
  by (simp add: ccm_qos_def GetFrameType_def GetFrameSubType_def le16_at_def rd_def ccmp_qos_def
      WIFI_DATA_CFACK_def WIFI_DATA_CFPOLL_def WIFI_DATA_CFACKPOLL_def WIFI_DATA_def)

theorem aes_frame_roundtrip_witness:
  "\<exists>buf'. rtw_aes_encrypt False (\<lambda>_. None) sample_sec 46 (sample_x C_AES 24 8 8)
      = Some (rtw_SUCCESS, (sample_x C_AES 24 8 8)\<lparr>buf_addr := Some (1001, buf')\<rparr>)
    \<and> (\<forall>f \<in> set [(40, 46), (87, 45)].
        \<exists>r. aes_receive False (\<lambda>_. Some sample_sta) sample_sec (sample_rx C_AES 24 8) (replicate 2048 0)
              (region buf' f) = Some r
          \<and> take (snd f - 8) r = take (snd f - 8) (region (replicate 200 0) f))"
  using aes_frame_roundtrip [of "sample_x C_AES 24 8 8" 1001 "replicate 200 0" "\<lambda>_. None" sample_sta
      sample_sec "replicate 16 7" 46 "\<lambda>_. Some sample_sta" sample_sec "sample_rx C_AES 24 8"
      "replicate 2048 0" False]
  unfolding sample_plan
  by (simp add: sample_defs tx_station_def tx_key_def IS_MCAST_def C_FW_LINKED_def
      tx_overhead_def aes_wf_def rx_key_def region_def zero_frame_qos MAX_MSG_SIZE_def)

text \<open>
  WEP end to end: \<^verbatim>\<open>rtw_wep_encrypt\<close> leaves a frame of which \<^verbatim>\<open>rtw_wep_decrypt\<close>, with
  the same default key, recovers every fragment; keys of up to 13 bytes fit the
  16-byte key buffer.
\<close>

theorem wep_frame_roundtrip:
  assumes "buf_addr x = Some (base, buf)"
    and "tx_encrypt (xattrib x) = C_WEP40 \<or> tx_encrypt (xattrib x) = C_WEP104"
    and "idx (dot11DefKeylen sec) (dot11PrivacyKeyIndex sec) = Some klen"
    and "idx (dot11DefKey sec) (dot11PrivacyKeyIndex sec) = Some skey" and "crc32_ok st"
    and "tx_overhead (xattrib x) \<le> unat frag_len" and "unat frag_len < 2 ^ 31"
    and "unat (last_txcmdsz (xattrib x)) < 2 ^ 31"
    and "\<forall>f \<in> set (plan_of base frag_len x). fst f + snd f \<le> length buf
           \<and> wep_wf skey klen (xattrib x) rsec ra rst (region buf f)"
  shows "\<exists>buf' st'. rtw_wep_encrypt sec frag_len x st = Some (x\<lparr>buf_addr := Some (base, buf')\<rparr>, st')
    \<and> (\<forall>f \<in> set (plan_of base frag_len x).
        \<exists>r. wep_receive rsec ra rst (region buf' f) = Some r
          \<and> take (snd f - 4) r = take (snd f - 4) (region buf f))"
  using wep.every_fragment_received [where s = "(buf, st)" and skey = skey and klen = klen and a = "xattrib x"
      and frag_len = frag_len and base = base and r = "nr_frags (xattrib x)" and off = "tx_start x"
      and lastsz = "last_txcmdsz (xattrib x)" and sec = rsec and ra = ra and rst = rst] assms
  by (fastforce simp: rtw_wep_encrypt_def plan_of_def)

theorem wep_frame_roundtrip_witness:
  "\<exists>buf' st'. rtw_wep_encrypt sample_sec 46 (sample_x C_WEP40 24 4 4) crc32_boot
      = Some ((sample_x C_WEP40 24 4 4)\<lparr>buf_addr := Some (1001, buf')\<rparr>, st')
    \<and> (\<forall>f \<in> set [(40, 46), (87, 45)].
        \<exists>r. wep_receive sample_sec (sample_rx C_WEP40 24 4) crc32_boot (region buf' f) = Some r
          \<and> take (snd f - 4) r = take (snd f - 4) (region (replicate 200 0) f))"
  using wep_frame_roundtrip [of "sample_x C_WEP40 24 4 4" 1001 "replicate 200 0" sample_sec 5 "replicate 16 3"
      crc32_boot 46 sample_sec "sample_rx C_WEP40 24 4" crc32_boot]
  unfolding sample_plan
  by (simp add: sample_defs idx_def crc32_ok_boot tx_overhead_def wep_wf_def region_def)

end
