(* ===== verification/Rtw_Scan.thy ===== *)
theory Rtw_Scan
  imports Rtw_Prelude
begin

text \<open>
  The loop all element and attribute searches of the driver share,
  \<^verbatim>\<open>while (cnt < limit) { if (hit at cnt) return; cnt += length at cnt; }\<close>, with the body as
  a parameter. The body may fault (\<open>None\<close>), return (\<open>Inl\<close>) or go on at another offset
  (\<open>Inr\<close>); the loop is a partial function, so that running forever is \<open>None\<close> too. What
  tells the two apart is the body: a body that answers \<open>Inr cnt\<close> at \<open>cnt\<close> does not fault.

  The locale \<open>tlv_search\<close> is the contract between such a body and an encoding of items: the
  body at the start of an encoded item returns if the item is a hit, and goes on behind it
  otherwise. Under it the loop over a sequence of encoded items returns the first hit.
\<close>

partial_function (option) scan_loop :: "(nat \<Rightarrow> ('a + nat) option) \<Rightarrow> nat \<Rightarrow> nat \<Rightarrow> 'a option option" where
  "scan_loop step limit cnt =
     (if cnt < limit then
        (case step cnt of None \<Rightarrow> None
         | Some (Inl a) \<Rightarrow> Some (Some a)
         | Some (Inr cnt') \<Rightarrow> scan_loop step limit cnt')
      else Some None)"

lemma scan_loop_end: "limit \<le> cnt \<Longrightarrow> scan_loop step limit cnt = Some None"
  by (subst scan_loop.simps) simp

lemma scan_loop_hit: "cnt < limit \<Longrightarrow> step cnt = Some (Inl a) \<Longrightarrow> scan_loop step limit cnt = Some (Some a)"
  by (subst scan_loop.simps) simp

lemma scan_loop_next:
  "cnt < limit \<Longrightarrow> step cnt = Some (Inr cnt') \<Longrightarrow> scan_loop step limit cnt = scan_loop step limit cnt'"
  by (subst scan_loop.simps) simp

lemma scan_loop_fault: "cnt < limit \<Longrightarrow> step cnt = None \<Longrightarrow> scan_loop step limit cnt = None"
  by (subst scan_loop.simps) simp

text \<open>A body that stays at the same offset never returns.\<close>

lemma scan_loop_diverges:
  assumes "cnt < limit" "step cnt = Some (Inr cnt)"
  shows "scan_loop step limit cnt = None"
proof (rule ccontr)
  assume "scan_loop step limit cnt \<noteq> None"
  then obtain r where r: "scan_loop step limit cnt = Some r" by blast
  have "\<not> (cnt < limit \<and> step cnt = Some (Inr cnt))"
  proof (rule scan_loop.raw_induct [where P = "\<lambda>step limit cnt r. \<not> (cnt < limit \<and> step cnt = Some (Inr cnt))", OF _ r])
    fix f step limit cnt r
    assume IH: "\<And>s l c r. f s l c = Some r \<Longrightarrow> \<not> (c < l \<and> s c = Some (Inr c))"
      and b: "(if cnt < limit then (case step cnt of None \<Rightarrow> None | Some (Inl a) \<Rightarrow> Some (Some a)
         | Some (Inr cnt') \<Rightarrow> f step limit cnt') else Some None) = Some r"
    show "\<not> (cnt < limit \<and> step cnt = Some (Inr cnt))"
    proof
      assume *: "cnt < limit \<and> step cnt = Some (Inr cnt)"
      then have "f step limit cnt = Some r" using b by simp
      then show False using IH * by blast
    qed
  qed
  then show False using assms by blast
qed

text \<open>The first hit in a list of items, with its offset.\<close>

fun seek :: "('i \<Rightarrow> bytes) \<Rightarrow> ('i \<Rightarrow> bool) \<Rightarrow> nat \<Rightarrow> 'i list \<Rightarrow> (nat \<times> 'i) option" where
  "seek enc hit off [] = None"
| "seek enc hit off (x # xs) = (if hit x then Some (off, x) else seek enc hit (off + length (enc x)) xs)"

abbreviation enc_all :: "('i \<Rightarrow> bytes) \<Rightarrow> 'i list \<Rightarrow> bytes" where
  "enc_all enc xs \<equiv> concat (map enc xs)"

lemma seek_Some:
  "seek enc hit off xs = Some (k, x) \<Longrightarrow>
     \<exists>ys zs. xs = ys @ x # zs \<and> hit x \<and> (\<forall>y \<in> set ys. \<not> hit y) \<and> k = off + length (enc_all enc ys)"
proof (induction xs arbitrary: off)
  case (Cons a xs)
  show ?case
  proof (cases "hit a")
    case True
    then show ?thesis using Cons.prems by (intro exI [of _ "[]"] exI [of _ xs]) auto
  next
    case False
    then obtain ys zs where "xs = ys @ x # zs" "hit x" "\<forall>y \<in> set ys. \<not> hit y"
      "k = off + length (enc a) + length (enc_all enc ys)"
      using Cons by fastforce
    then show ?thesis using False by (intro exI [of _ "a # ys"] exI [of _ zs]) auto
  qed
qed simp

lemma seek_None: "seek enc hit off xs = None \<longleftrightarrow> (\<forall>x \<in> set xs. \<not> hit x)"
  by (induction xs arbitrary: off) auto

lemma seek_append_miss:
  "\<forall>y \<in> set ys. \<not> hit y \<Longrightarrow> seek enc hit off (ys @ xs) = seek enc hit (off + length (enc_all enc ys)) xs"
  by (induction ys arbitrary: off) (auto simp: add.assoc)

locale tlv_search =
  fixes enc :: "'i \<Rightarrow> bytes"
    and wf :: "'i \<Rightarrow> bool"
    and step :: "bytes \<Rightarrow> nat \<Rightarrow> ('a + nat) option"
    and hit :: "'i \<Rightarrow> bool"
    and res :: "nat \<Rightarrow> 'i \<Rightarrow> 'a"
  assumes enc_nonempty: "wf i \<Longrightarrow> enc i \<noteq> []"
    and step_hit: "wf i \<Longrightarrow> hit i \<Longrightarrow> step (pre @ enc i @ post) (length pre) = Some (Inl (res (length pre) i))"
    and step_miss: "wf i \<Longrightarrow> \<not> hit i \<Longrightarrow>
      step (pre @ enc i @ post) (length pre) = Some (Inr (length pre + length (enc i)))"
begin

lemma loop_seeks:
  assumes "\<forall>i \<in> set xs. wf i"
  shows "scan_loop (step (pre @ enc_all enc xs @ post)) (length pre + length (enc_all enc xs)) (length pre)
    = Some (map_option (\<lambda>(k, i). res k i) (seek enc hit (length pre) xs))"
  using assms
proof (induction xs arbitrary: pre)
  case Nil
  then show ?case by (simp add: scan_loop_end)
next
  case (Cons x xs)
  have lt: "length pre < length pre + length (enc_all enc (x # xs))"
    using enc_nonempty [of x] Cons.prems by simp
  show ?case
  proof (cases "hit x")
    case True
    then show ?thesis
      using lt step_hit [of x pre "enc_all enc xs @ post"] Cons.prems by (simp add: scan_loop_hit)
  next
    case False
    have "scan_loop (step ((pre @ enc x) @ enc_all enc xs @ post)) (length (pre @ enc x) + length (enc_all enc xs)) (length (pre @ enc x))
      = Some (map_option (\<lambda>(k, i). res k i) (seek enc hit (length (pre @ enc x)) xs))"
      using Cons.prems by (intro Cons.IH) simp
    moreover have "scan_loop (step (pre @ enc_all enc (x # xs) @ post)) (length pre + length (enc_all enc (x # xs))) (length pre)
      = scan_loop (step (pre @ enc_all enc (x # xs) @ post)) (length pre + length (enc_all enc (x # xs))) (length pre + length (enc x))"
      using lt step_miss [of x pre "enc_all enc xs @ post"] Cons.prems False by (intro scan_loop_next) simp_all
    ultimately show ?thesis using False by (simp add: add.assoc)
  qed
qed

lemma loop_finds:
  assumes "\<forall>i \<in> set xs. wf i \<and> \<not> hit i" "wf x" "hit x" "length pre + length (enc_all enc xs) < limit"
  shows "scan_loop (step (pre @ enc_all enc xs @ enc x @ post)) limit (length pre)
    = Some (Some (res (length pre + length (enc_all enc xs)) x))"
  using assms
proof (induction xs arbitrary: pre)
  case Nil
  then show ?case using step_hit [of x pre post] by (simp add: scan_loop_hit)
next
  case (Cons y ys)
  have "scan_loop (step (pre @ enc_all enc (y # ys) @ enc x @ post)) limit (length pre)
    = scan_loop (step (pre @ enc_all enc (y # ys) @ enc x @ post)) limit (length pre + length (enc y))"
    using step_miss [of y pre "enc_all enc ys @ enc x @ post"] enc_nonempty [of y] Cons.prems by (intro scan_loop_next) simp_all
  then show ?case using Cons.IH [of "pre @ enc y"] Cons.prems by (simp add: add.assoc)
qed

end

end
