(* ===== verification/Rtw_Ie.thy ===== *)
theory Rtw_Ie
  imports Rtw_Scan
begin

unbundle bit_operations_syntax

text \<open>
  Information elements, the first half of \<^verbatim>\<open>core/rtw_ieee80211.c\<close>: rate sets, writing
  elements (\<^verbatim>\<open>rtw_set_ie\<close> and its users), searching (\<^verbatim>\<open>rtw_get_ie\<close>, \<^verbatim>\<open>rtw_get_ie_ex\<close>) and
  removing them (\<^verbatim>\<open>rtw_ies_remove_ie\<close>), and the elements of an own ad-hoc network
  (\<^verbatim>\<open>rtw_generate_ie\<close>).

  A pointer into a buffer is an offset, \<^verbatim>\<open>NULL\<close> is \<open>None\<close>, an output buffer that may be
  \<^verbatim>\<open>NULL\<close> an option. The specification side is the list of elements, an element being its
  identifier and its data, with \<open>ie_enc\<close> the encoding.
\<close>

section \<open>Rates\<close>

definition WIFI_CCKRATES :: bytes where
  "WIFI_CCKRATES = [0x02 OR 0x80, 0x04 OR 0x80, 0x0B OR 0x80, 0x16 OR 0x80]"

definition WIFI_OFDMRATES :: bytes where
  "WIFI_OFDMRATES = [0x0C, 0x12, 0x18, 0x24, 0x30, 0x48, 0x60, 0x6C]"

definition dot11_rate_table :: bytes where
  "dot11_rate_table = [2, 4, 11, 22, 12, 18, 24, 36, 48, 72, 96, 108, 0]"

fun rate_bit :: "bytes \<Rightarrow> nat \<Rightarrow> u8 \<Rightarrow> u32 option" where
  "rate_bit [] i val = None"
| "rate_bit (r # rs) i val = (if r \<noteq> 0 then (if r = val then Some (push_bit i 1) else rate_bit rs (Suc i) val) else Some 0)"

definition rtw_get_bit_value_from_ieee_value :: "u8 \<Rightarrow> u32 option" where
  "rtw_get_bit_value_from_ieee_value val = rate_bit dot11_rate_table 0 val"

definition is_cck :: "u8 \<Rightarrow> bool" where
  "is_cck r \<longleftrightarrow> r AND 0x7F = 2 \<or> r AND 0x7F = 4 \<or> r AND 0x7F = 11 \<or> r AND 0x7F = 22"

fun rtw_is_cckrates_included :: "bytes \<Rightarrow> bool option" where
  "rtw_is_cckrates_included [] = None"
| "rtw_is_cckrates_included (r # rs) =
     (if r \<noteq> 0 then (if is_cck r then Some True else rtw_is_cckrates_included rs) else Some False)"

fun rtw_is_cckratesonly_included :: "bytes \<Rightarrow> bool option" where
  "rtw_is_cckratesonly_included [] = None"
| "rtw_is_cckratesonly_included (r # rs) =
     (if r \<noteq> 0 then (if \<not> is_cck r then Some False else rtw_is_cckratesonly_included rs) else Some True)"

definition WIRELESS_INVALID :: u32 where "WIRELESS_INVALID = 0"
definition WIRELESS_11B :: u32 where "WIRELESS_11B = 1"
definition WIRELESS_11G :: u32 where "WIRELESS_11G = 2"
definition WIRELESS_11A :: u32 where "WIRELESS_11A = 4"
definition WIRELESS_11_24N :: u32 where "WIRELESS_11_24N = 8"
definition WIRELESS_11_5N :: u32 where "WIRELESS_11_5N = 16"
definition WIRELESS_11BG :: u32 where "WIRELESS_11BG = WIRELESS_11B OR WIRELESS_11G"
definition WIRELESS_11G_24N :: u32 where "WIRELESS_11G_24N = WIRELESS_11G OR WIRELESS_11_24N"
definition WIRELESS_11A_5N :: u32 where "WIRELESS_11A_5N = WIRELESS_11A OR WIRELESS_11_5N"
definition WIRELESS_11BG_24N :: u32 where
  "WIRELESS_11BG_24N = WIRELESS_11B OR WIRELESS_11G OR WIRELESS_11_24N"
definition WIRELESS_11ABGN :: u32 where
  "WIRELESS_11ABGN = WIRELESS_11A OR WIRELESS_11B OR WIRELESS_11G OR WIRELESS_11_24N OR WIRELESS_11_5N"

lemmas wireless_defs = WIRELESS_INVALID_def WIRELESS_11B_def WIRELESS_11G_def WIRELESS_11A_def
  WIRELESS_11_24N_def WIRELESS_11_5N_def WIRELESS_11BG_def WIRELESS_11G_24N_def WIRELESS_11A_5N_def
  WIRELESS_11BG_24N_def WIRELESS_11ABGN_def

definition rtw_check_network_type :: "bytes \<Rightarrow> int \<Rightarrow> u32 option" where
  "rtw_check_network_type rate channel =
     (if channel > 14 then
        do { c \<leftarrow> rtw_is_cckrates_included rate; Some (if c then WIRELESS_INVALID else WIRELESS_11A) }
      else do {
        only \<leftarrow> rtw_is_cckratesonly_included rate;
        if only then Some WIRELESS_11B
        else do {
          c \<leftarrow> rtw_is_cckrates_included rate;
          Some (if c then WIRELESS_11BG else WIRELESS_11G)
        }
      })"

definition NDIS_802_11_LENGTH_RATES_EX :: nat where "NDIS_802_11_LENGTH_RATES_EX = 16"

definition rtw_set_supported_rate :: "u32 \<Rightarrow> bytes" where
  "rtw_set_supported_rate mode =
     (let z = replicate NDIS_802_11_LENGTH_RATES_EX 0 in
      if mode = WIRELESS_11B then WIFI_CCKRATES @ drop 4 z
      else if mode = WIRELESS_11G \<or> mode = WIRELESS_11A \<or> mode = WIRELESS_11_5N \<or> mode = WIRELESS_11A_5N then
        WIFI_OFDMRATES @ drop 8 z
      else if mode = WIRELESS_11BG \<or> mode = WIRELESS_11G_24N \<or> mode = WIRELESS_11_24N \<or> mode = WIRELESS_11BG_24N then
        WIFI_CCKRATES @ WIFI_OFDMRATES @ drop 12 z
      else z)"

text \<open>\<^verbatim>\<open>while (1) { if (rateset[i] == 0) break; if (i > 12) break; i++; }\<close>\<close>

fun rateset_len :: "bytes \<Rightarrow> nat \<Rightarrow> nat option" where
  "rateset_len [] i = None"
| "rateset_len (r # rs) i = (if r = 0 then Some i else if i > 12 then Some i else rateset_len rs (Suc i))"

definition rtw_get_rateset_len :: "bytes \<Rightarrow> nat option" where
  "rtw_get_rateset_len rateset = rateset_len rateset 0"

section \<open>Writing elements\<close>

definition rtw_set_fixed_ie :: "bytes \<Rightarrow> nat \<Rightarrow> nat \<Rightarrow> bytes \<Rightarrow> nat \<Rightarrow> (nat \<times> nat \<times> bytes) option" where
  "rtw_set_fixed_ie buf pbuf len src frlen =
     do {
       s \<leftarrow> rdn src 0 len;
       buf \<leftarrow> wrn buf pbuf s;
       Some (pbuf + len, frlen + len, buf)
     }"

definition rtw_set_ie :: "bytes \<Rightarrow> nat \<Rightarrow> int \<Rightarrow> nat \<Rightarrow> bytes \<Rightarrow> nat \<Rightarrow> (nat \<times> nat \<times> bytes) option" where
  "rtw_set_ie buf pbuf index len src frlen =
     do {
       buf \<leftarrow> wrn buf pbuf [of_int index];
       buf \<leftarrow> wrn buf (pbuf + 1) [of_nat len];
       buf \<leftarrow> (if len > 0 then do { s \<leftarrow> rdn src 0 len; wrn buf (pbuf + 2) s } else Some buf);
       Some (pbuf + len + 2, frlen + (len + 2), buf)
     }"

definition WLAN_EID_CHANNEL_SWITCH :: int where "WLAN_EID_CHANNEL_SWITCH = 37"
definition WLAN_EID_SECONDARY_CHANNEL_OFFSET :: int where "WLAN_EID_SECONDARY_CHANNEL_OFFSET = 62"

definition rtw_set_ie_ch_switch :: "bytes \<Rightarrow> nat \<Rightarrow> nat \<Rightarrow> u8 \<Rightarrow> u8 \<Rightarrow> u8 \<Rightarrow> (nat \<times> nat \<times> bytes) option" where
  "rtw_set_ie_ch_switch buf p buf_len ch_switch_mode new_ch ch_switch_cnt =
     rtw_set_ie buf p WLAN_EID_CHANNEL_SWITCH 3 [ch_switch_mode, new_ch, ch_switch_cnt] buf_len"

definition SCN :: u8 where "SCN = 0"
definition SCA :: u8 where "SCA = 1"
definition SCB :: u8 where "SCB = 3"
definition HAL_PRIME_CHNL_OFFSET_DONT_CARE :: u8 where "HAL_PRIME_CHNL_OFFSET_DONT_CARE = 0"
definition HAL_PRIME_CHNL_OFFSET_LOWER :: u8 where "HAL_PRIME_CHNL_OFFSET_LOWER = 1"
definition HAL_PRIME_CHNL_OFFSET_UPPER :: u8 where "HAL_PRIME_CHNL_OFFSET_UPPER = 2"

lemmas ch_offset_defs = SCN_def SCA_def SCB_def HAL_PRIME_CHNL_OFFSET_DONT_CARE_def
  HAL_PRIME_CHNL_OFFSET_LOWER_def HAL_PRIME_CHNL_OFFSET_UPPER_def

definition secondary_ch_offset_to_hal_ch_offset :: "u8 \<Rightarrow> u8" where
  "secondary_ch_offset_to_hal_ch_offset ch_offset =
     (if ch_offset = SCN then HAL_PRIME_CHNL_OFFSET_DONT_CARE
      else if ch_offset = SCA then HAL_PRIME_CHNL_OFFSET_UPPER
      else if ch_offset = SCB then HAL_PRIME_CHNL_OFFSET_LOWER
      else HAL_PRIME_CHNL_OFFSET_DONT_CARE)"

definition hal_ch_offset_to_secondary_ch_offset :: "u8 \<Rightarrow> u8" where
  "hal_ch_offset_to_secondary_ch_offset ch_offset =
     (if ch_offset = HAL_PRIME_CHNL_OFFSET_DONT_CARE then SCN
      else if ch_offset = HAL_PRIME_CHNL_OFFSET_LOWER then SCB
      else if ch_offset = HAL_PRIME_CHNL_OFFSET_UPPER then SCA
      else SCN)"

definition rtw_set_ie_secondary_ch_offset :: "bytes \<Rightarrow> nat \<Rightarrow> nat \<Rightarrow> u8 \<Rightarrow> (nat \<times> nat \<times> bytes) option" where
  "rtw_set_ie_secondary_ch_offset buf p buf_len secondary_ch_offset =
     rtw_set_ie buf p WLAN_EID_SECONDARY_CHANNEL_OFFSET 1 [secondary_ch_offset] buf_len"

definition RTW_PUT_LE16 :: "u16 \<Rightarrow> bytes" where
  "RTW_PUT_LE16 val = [ucast (val AND 0xFF), ucast (drop_bit 8 val)]"

definition rtw_set_ie_mesh_ch_switch_parm ::
    "bytes \<Rightarrow> nat \<Rightarrow> nat \<Rightarrow> u8 \<Rightarrow> u8 \<Rightarrow> u16 \<Rightarrow> u16 \<Rightarrow> (nat \<times> nat \<times> bytes) option" where
  "rtw_set_ie_mesh_ch_switch_parm buf p buf_len ttl flags reason precedence =
     rtw_set_ie buf p 0x118 6 ([ttl, flags] @ RTW_PUT_LE16 reason @ RTW_PUT_LE16 precedence) buf_len"

section \<open>Searching\<close>

text \<open>
  The body of the loop of \<^verbatim>\<open>rtw_get_ie\<close>; the loop tests \<^verbatim>\<open>i >= limit\<close> at its end, which with
  \<^verbatim>\<open>limit >= 1\<close> at the start is a test at the beginning.
\<close>

definition get_ie_step :: "bytes \<Rightarrow> int \<Rightarrow> nat \<Rightarrow> ((nat \<times> nat) + nat) option" where
  "get_ie_step buf index p =
     do {
       b \<leftarrow> rd buf p;
       n \<leftarrow> rd buf (p + 1);
       Some (if int (unat b) = index then Inl (p, unat n) else Inr (p + (unat n + 2)))
     }"

definition rtw_get_ie :: "bytes \<Rightarrow> nat \<Rightarrow> int \<Rightarrow> nat \<Rightarrow> int \<Rightarrow> (nat option \<times> nat) option" where
  "rtw_get_ie buf pbuf index len limit =
     (if limit < 1 then Some (None, len)
      else do {
        r \<leftarrow> scan_loop (get_ie_step buf index) (pbuf + nat limit) pbuf;
        Some (case r of None \<Rightarrow> (None, 0) | Some (p, n) \<Rightarrow> (Some p, n))
      })"

text \<open>\<^verbatim>\<open>_rtw_memcmp\<close> compares \<open>n\<close> bytes of two buffers.\<close>

definition rtw_memcmp :: "bytes \<Rightarrow> nat \<Rightarrow> bytes \<Rightarrow> nat \<Rightarrow> bool option" where
  "rtw_memcmp buf off s n = do { a \<leftarrow> rdn buf off n; b \<leftarrow> rdn s 0 n; Some (a = b) }"

definition get_ie_ex_step :: "bytes \<Rightarrow> u8 \<Rightarrow> bytes option \<Rightarrow> nat \<Rightarrow> nat \<Rightarrow> (nat + nat) option" where
  "get_ie_ex_step in_ie eid oui oui_len cnt =
     do {
       b \<leftarrow> rd in_ie cnt;
       hit \<leftarrow> (if eid = b then (case oui of None \<Rightarrow> Some True | Some o' \<Rightarrow> rtw_memcmp in_ie (cnt + 2) o' oui_len)
              else Some False);
       if hit then Some (Inl cnt)
       else do { n \<leftarrow> rd in_ie (cnt + 1); Some (Inr (cnt + (unat n + 2))) }
     }"

definition rtw_get_ie_ex ::
    "bytes option \<Rightarrow> nat \<Rightarrow> nat \<Rightarrow> u8 \<Rightarrow> bytes option \<Rightarrow> nat \<Rightarrow> bytes option \<Rightarrow> nat option \<Rightarrow>
       (nat option \<times> bytes option \<times> nat option) option" where
  "rtw_get_ie_ex buf in_ie in_len eid oui oui_len ie ielen =
     (let ielen = map_option (\<lambda>_. 0) ielen in
      case buf of None \<Rightarrow> Some (None, ie, ielen)
      | Some buf \<Rightarrow>
          if in_len = 0 then Some (None, ie, ielen)
          else do {
            r \<leftarrow> scan_loop (get_ie_ex_step buf eid oui oui_len) (in_ie + in_len) in_ie;
            case r of None \<Rightarrow> Some (None, ie, ielen)
            | Some cnt \<Rightarrow> do {
                ie \<leftarrow> (case ie of None \<Rightarrow> Some None
                       | Some d \<Rightarrow> do { n \<leftarrow> rd buf (cnt + 1); s \<leftarrow> rdn buf cnt (unat n + 2);
                                        d \<leftarrow> wrn d 0 s; Some (Some d) });
                ielen \<leftarrow> (case ielen of None \<Rightarrow> Some None
                          | Some _ \<Rightarrow> do { n \<leftarrow> rd buf (cnt + 1); Some (Some (unat n + 2)) });
                Some (Some cnt, ie, ielen)
              }
          })"

section \<open>Removing\<close>

definition MAX_IE_SZ :: nat where "MAX_IE_SZ = 768"

text \<open>
  The loop of \<^verbatim>\<open>rtw_ies_remove_ie\<close>: \<^verbatim>\<open>remain_len\<close> is an unsigned difference, and the
  elements behind the removed one travel through the local \<^verbatim>\<open>buf[MAX_IE_SZ]\<close>.
\<close>

partial_function (option) ies_remove_loop ::
    "bytes \<Rightarrow> nat \<Rightarrow> nat \<Rightarrow> nat \<Rightarrow> u8 \<Rightarrow> bytes option \<Rightarrow> nat \<Rightarrow> int \<Rightarrow> (int \<times> bytes \<times> nat) option" where
  "ies_remove_loop ies ies_len start search_len eid oui oui_len ret =
     do {
       (target, _, n) \<leftarrow> rtw_get_ie_ex (Some ies) start search_len eid oui oui_len None (Some 0);
       case target of None \<Rightarrow> Some (ret, ies, ies_len)
       | Some target_ie \<Rightarrow>
           let target_ielen = the n in
           if target_ielen = 0 then Some (ret, ies, ies_len)
           else do {
             let remain_ies = target_ie + target_ielen;
             let remain_len = unat (of_nat search_len - of_nat (remain_ies - start) :: u32);
             s \<leftarrow> rdn ies remain_ies remain_len;
             b \<leftarrow> wrn (replicate MAX_IE_SZ 0) 0 s;
             ies \<leftarrow> wrn ies target_ie (take remain_len b);
             ies_remove_loop ies (ies_len - target_ielen) target_ie remain_len eid oui oui_len 1
           }
     }"

definition rtw_ies_remove_ie ::
    "bytes option \<Rightarrow> nat option \<Rightarrow> nat \<Rightarrow> u8 \<Rightarrow> bytes option \<Rightarrow> nat \<Rightarrow> (int \<times> bytes option \<times> nat option) option" where
  "rtw_ies_remove_ie ies ies_len offset eid oui oui_len =
     (case (ies, ies_len) of
        (Some b, Some n) \<Rightarrow>
          if n \<le> offset then Some (0, ies, ies_len)
          else do {
            (ret, b, n) \<leftarrow> ies_remove_loop b n offset (n - offset) eid oui oui_len 0;
            Some (ret, Some b, Some n)
          }
      | _ \<Rightarrow> Some (0, ies, ies_len))"

section \<open>The elements of an own ad-hoc network\<close>

record wlan_network =
  net_IEs :: bytes
  net_BeaconPeriod :: u32
  net_DSConfig :: u32
  net_ATIMWindow :: u32
  net_Privacy :: u32
  net_SsidLength :: nat
  net_Ssid :: bytes
  net_SupportedRates :: bytes

record registry_priv =
  reg_preamble :: u8
  reg_wireless_mode :: u8
  reg_network :: wlan_network

definition cap_IBSS :: u16 where "cap_IBSS = 2"
definition cap_Privacy :: u16 where "cap_Privacy = 16"
definition cap_ShortPremble :: u16 where "cap_ShortPremble = 32"
definition PREAMBLE_SHORT :: u8 where "PREAMBLE_SHORT = 3"

definition generate_cap :: "registry_priv \<Rightarrow> u16" where
  "generate_cap r =
     (let c = 0 OR cap_IBSS;
          c = (if reg_preamble r = PREAMBLE_SHORT then c OR cap_ShortPremble else c)
      in if net_Privacy (reg_network r) \<noteq> 0 then c OR cap_Privacy else c)"

definition generate_mode :: "registry_priv \<Rightarrow> u32" where
  "generate_mode r =
     (if ucast (reg_wireless_mode r) = WIRELESS_11ABGN then
        (if net_DSConfig (reg_network r) > 14 then WIRELESS_11A_5N else WIRELESS_11BG_24N)
      else ucast (reg_wireless_mode r))"

definition rtw_generate_ie :: "registry_priv \<Rightarrow> (nat \<times> registry_priv) option" where
  "rtw_generate_ie r =
     do {
       let net = reg_network r;
       let b = net_IEs net;
       let sz = 8;
       b \<leftarrow> wrn b 8 (RTW_PUT_LE16 (ucast (net_BeaconPeriod net)));
       let sz = sz + 2;
       b \<leftarrow> wrn b 10 (RTW_PUT_LE16 (generate_cap r));
       let sz = sz + 2;
       (p, sz, b) \<leftarrow> rtw_set_ie b 12 0 (net_SsidLength net) (net_Ssid net) sz;
       let rates = rtw_set_supported_rate (generate_mode r);
       rateLen \<leftarrow> rtw_get_rateset_len rates;
       (p, sz, b) \<leftarrow> (if rateLen > 8 then rtw_set_ie b p 1 8 rates sz else rtw_set_ie b p 1 rateLen rates sz);
       (p, sz, b) \<leftarrow> rtw_set_ie b p 3 1 (u32_le (net_DSConfig net)) sz;
       (p, sz, b) \<leftarrow> rtw_set_ie b p 6 2 (u32_le (net_ATIMWindow net)) sz;
       (p, sz, b) \<leftarrow> (if rateLen > 8 then rtw_set_ie b p 50 (rateLen - 8) (drop 8 rates) sz else Some (p, sz, b));
       Some (sz, r\<lparr>reg_network := net\<lparr>net_IEs := b, net_SupportedRates := rates\<rparr>\<rparr>)
     }"

section \<open>Elements and their encoding\<close>

type_synonym ie = "u8 \<times> bytes"

definition ie_enc :: "ie \<Rightarrow> bytes" where
  "ie_enc x = fst x # of_nat (length (snd x)) # snd x"

definition ie_wf :: "ie \<Rightarrow> bool" where
  "ie_wf x \<longleftrightarrow> length (snd x) < 256"

definition ie_match :: "u8 \<Rightarrow> bytes option \<Rightarrow> nat \<Rightarrow> ie \<Rightarrow> bool" where
  "ie_match eid oui oui_len x \<longleftrightarrow> fst x = eid \<and> (case oui of None \<Rightarrow> True | Some o' \<Rightarrow> take oui_len (snd x) = take oui_len o')"

text \<open>An element that is compared with an OUI is long enough to hold one.\<close>

definition ie_oui_wf :: "u8 \<Rightarrow> bytes option \<Rightarrow> nat \<Rightarrow> ie \<Rightarrow> bool" where
  "ie_oui_wf eid oui oui_len x \<longleftrightarrow> ie_wf x \<and>
     (case oui of None \<Rightarrow> True | Some o' \<Rightarrow> oui_len \<le> length o' \<and> (fst x = eid \<longrightarrow> oui_len \<le> length (snd x)))"

lemma length_ie_enc [simp]: "length (ie_enc x) = length (snd x) + 2"
  by (simp add: ie_enc_def)

lemma unat_len8 [simp]: "n < 256 \<Longrightarrow> unat (of_nat n :: u8) = n"
  by (simp add: unat_of_nat)

lemma rd_ie [mem_simps]:
  "rd (pre @ ie_enc x @ post) (length pre) = Some (fst x)"
  "rd (pre @ ie_enc x @ post) (Suc (length pre)) = Some (of_nat (length (snd x)))"
  by (simp_all add: rd_def nth_append ie_enc_def)

lemma rdn_ie_data:
  "n \<le> length (snd x) \<Longrightarrow> rdn (pre @ ie_enc x @ post) (length pre + 2) n = Some (take n (snd x))"
  by (simp add: rdn_def ie_enc_def)

lemma rdn_ie_whole: "rdn (pre @ ie_enc x @ post) (length pre) (length (snd x) + 2) = Some (ie_enc x)"
  by (simp add: rdn_def)

lemma get_ie_step_ie:
  "ie_wf x \<Longrightarrow> get_ie_step (pre @ ie_enc x @ post) index (length pre) =
    Some (if int (unat (fst x)) = index then Inl (length pre, length (snd x)) else Inr (length pre + length (ie_enc x)))"
  by (simp add: get_ie_step_def rd_ie ie_wf_def)

interpretation get_ie: tlv_search ie_enc ie_wf "\<lambda>buf. get_ie_step buf index" "\<lambda>x. int (unat (fst x)) = index"
    "\<lambda>k x. (k, length (snd x))" for index
  by unfold_locales (simp_all add: get_ie_step_ie, simp add: ie_enc_def)

lemma get_ie_ex_step_ie:
  assumes "ie_oui_wf eid oui oui_len x"
  shows "get_ie_ex_step (pre @ ie_enc x @ post) eid oui oui_len (length pre) =
    Some (if ie_match eid oui oui_len x then Inl (length pre) else Inr (length pre + length (ie_enc x)))"
proof (cases "eid = fst x")
  case True
  then show ?thesis
    using assms rdn_ie_data [of oui_len x pre post]
    by (cases oui)
      (simp_all add: get_ie_ex_step_def mem_simps ie_oui_wf_def ie_wf_def ie_match_def rtw_memcmp_def rdn_def [of _ 0])
next
  case False
  then show ?thesis
    using assms by (auto simp: get_ie_ex_step_def mem_simps ie_oui_wf_def ie_wf_def ie_match_def)
qed

interpretation get_ie_ex: tlv_search ie_enc "ie_oui_wf eid oui oui_len" "\<lambda>buf. get_ie_ex_step buf eid oui oui_len"
    "ie_match eid oui oui_len" "\<lambda>k x. k" for eid oui oui_len
  by unfold_locales (simp_all add: get_ie_ex_step_ie, simp add: ie_enc_def)

lemma rtw_get_ie_seek:
  assumes "\<forall>x \<in> set xs. ie_wf x" "xs \<noteq> []"
  shows "rtw_get_ie (pre @ enc_all ie_enc xs @ post) (length pre) index len (int (length (enc_all ie_enc xs)))
    = Some (case seek ie_enc (\<lambda>x. int (unat (fst x)) = index) (length pre) xs of
        None \<Rightarrow> (None, 0) | Some (k, x) \<Rightarrow> (Some k, length (snd x)))"
proof -
  have "enc_all ie_enc xs \<noteq> []" using assms(2) by (cases xs) (simp_all add: ie_enc_def)
  then have "\<not> int (length (enc_all ie_enc xs)) < 1" by (cases "enc_all ie_enc xs") auto
  then show ?thesis
    unfolding rtw_get_ie_def nat_int using get_ie.loop_seeks [OF assms(1), where index = index and pre = pre and post = post]
    by (cases "seek ie_enc (\<lambda>x. int (unat (fst x)) = index) (length pre) xs") auto
qed

lemma rtw_set_ie_writes:
  assumes "p + (len + 2) \<le> length buf" "len \<le> length src"
  shows "rtw_set_ie buf p index len src frlen
    = Some (p + len + 2, frlen + (len + 2), take p buf @ of_int index # of_nat len # take len src @ drop (p + (len + 2)) buf)"
proof -
  obtain a b c where buf: "buf = a @ b @ c" "length a = p" "length b = len + 2"
    using assms(1) by (rule buf_split3)
  then obtain b1 b2 b' where b: "b = b1 # b2 # b'" "length b' = len"
    by (cases b; cases "tl b") auto
  have "wrn buf p [of_int index] = Some (a @ of_int index # b2 # b' @ c)"
    using buf b by (simp add: wrn_def)
  moreover have "wrn (a @ of_int index # b2 # b' @ c) (p + 1) [of_nat len] = Some (a @ of_int index # of_nat len # b' @ c)"
    using buf b by (simp add: wrn_def)
  moreover have "wrn (a @ of_int index # of_nat len # b' @ c) (p + 2) (take len src) = Some (a @ of_int index # of_nat len # take len src @ c)"
    using buf b assms(2) by (simp add: wrn_def)
  ultimately show ?thesis
    using assms(2) buf b by (auto simp: rtw_set_ie_def rdn_def)
qed

lemma rtw_get_ie_ex_seek:
  assumes "\<forall>x \<in> set xs. ie_oui_wf eid oui oui_len x"
  shows "rtw_get_ie_ex (Some (pre @ enc_all ie_enc xs @ post)) (length pre) (length (enc_all ie_enc xs)) eid oui oui_len None (Some l)
    = Some (case seek ie_enc (ie_match eid oui oui_len) (length pre) xs of
        None \<Rightarrow> (None, None, Some 0) | Some (k, x) \<Rightarrow> (Some k, None, Some (length (snd x) + 2)))"
proof (cases "xs = []")
  case False
  then have ne: "length (enc_all ie_enc xs) \<noteq> 0" by (cases xs) (simp_all add: ie_enc_def)
  note loop = get_ie_ex.loop_seeks [OF assms, where pre = pre and post = post]
  show ?thesis
  proof (cases "seek ie_enc (ie_match eid oui oui_len) (length pre) xs")
    case None
    then show ?thesis using ne loop by (simp add: rtw_get_ie_ex_def Let_def)
  next
    case (Some kx)
    then obtain k x where kx: "seek ie_enc (ie_match eid oui oui_len) (length pre) xs = Some (k, x)" by (cases kx) auto
    then obtain ys zs where yz: "xs = ys @ x # zs" "k = length pre + length (enc_all ie_enc ys)"
      using seek_Some [OF kx] by auto
    have "length (snd x) < 256" using assms yz by (simp add: ie_oui_wf_def ie_wf_def)
    then have "rd (pre @ enc_all ie_enc xs @ post) (k + 1) = Some (of_nat (length (snd x)))"
      using rd_ie(2) [of "pre @ enc_all ie_enc ys" x "enc_all ie_enc zs @ post"] yz by simp
    then show ?thesis using ne loop kx \<open>length (snd x) < 256\<close> by (simp add: rtw_get_ie_ex_def Let_def)
  qed
qed (simp add: rtw_get_ie_ex_def Let_def)

lemma ies_remove_loop_filters:
  assumes "\<forall>x \<in> set xs. ie_oui_wf eid oui oui_len x" "length (enc_all ie_enc xs) \<le> MAX_IE_SZ"
  shows "\<exists>post'. length post' = length post + length (enc_all ie_enc (filter (ie_match eid oui oui_len) xs)) \<and>
    ies_remove_loop (pre @ enc_all ie_enc xs @ post) n (length pre) (length (enc_all ie_enc xs)) eid oui oui_len ret
    = Some (if \<exists>x \<in> set xs. ie_match eid oui oui_len x then 1 else ret,
        pre @ enc_all ie_enc (filter (\<lambda>x. \<not> ie_match eid oui oui_len x) xs) @ post',
        n - length (enc_all ie_enc (filter (ie_match eid oui oui_len) xs)))"
  using assms
proof (induction "length xs" arbitrary: xs pre post n ret rule: less_induct)
  case less
  let ?m = "ie_match eid oui oui_len"
  show ?case
  proof (cases "seek ie_enc ?m (length pre) xs")
    case None
    then have no: "\<forall>x \<in> set xs. \<not> ?m x" by (simp add: seek_None)
    then have "filter ?m xs = []" "filter (\<lambda>x. \<not> ?m x) xs = xs" by (simp_all add: filter_empty_conv filter_id_conv)
    then show ?thesis
      using no None rtw_get_ie_ex_seek [OF less.prems(1), of pre post 0]
      by (intro exI [of _ post]) (subst ies_remove_loop.simps, simp)
  next
    case (Some kx)
    then obtain k x where kx: "seek ie_enc ?m (length pre) xs = Some (k, x)" by (cases kx) auto
    then obtain ys zs where yz: "xs = ys @ x # zs" "k = length pre + length (enc_all ie_enc ys)" "?m x" "\<forall>y \<in> set ys. \<not> ?m y"
      using seek_Some [OF kx] by auto
    let ?X = "ie_enc x" and ?Y = "enc_all ie_enc ys" and ?Z = "enc_all ie_enc zs"
    define post1 where "post1 = drop (length ?Z) (?X @ ?Z @ post)"
    have lZ: "length ?Z \<le> 768" using less.prems(2) by (simp add: yz(1) MAX_IE_SZ_def)
    have search: "length (enc_all ie_enc xs) = length ?Y + (length (snd x) + 2) + length ?Z" by (simp add: yz(1))
    have rl: "unat (of_nat (length (enc_all ie_enc xs)) - of_nat (k + (length (snd x) + 2) - length pre) :: u32) = length ?Z"
      using lZ unfolding search yz(2) by (simp add: unat_of_nat)
    have r: "rdn (pre @ enc_all ie_enc xs @ post) (k + (length (snd x) + 2)) (length ?Z) = Some ?Z"
      by (simp add: rdn_def yz(1,2))
    have w: "wrn (pre @ enc_all ie_enc xs @ post) k ?Z = Some ((pre @ ?Y) @ ?Z @ post1)"
      by (simp add: wrn_def yz(1,2) post1_def drop_append add.commute add.left_commute)
    have b: "wrn (replicate MAX_IE_SZ 0) 0 ?Z = Some (?Z @ replicate (768 - length ?Z) 0)"
      using lZ by (simp add: wrn_def MAX_IE_SZ_def)
    have step: "ies_remove_loop (pre @ enc_all ie_enc xs @ post) n (length pre) (length (enc_all ie_enc xs)) eid oui oui_len ret
      = ies_remove_loop ((pre @ ?Y) @ ?Z @ post1) (n - (length (snd x) + 2)) (length (pre @ ?Y)) (length ?Z) eid oui oui_len 1"
      using rtw_get_ie_ex_seek [OF less.prems(1), of pre post 0] kx rl r b w
      by (subst ies_remove_loop.simps) (simp add: Let_def yz(2))
    have "\<exists>post'. length post' = length post1 + length (enc_all ie_enc (filter ?m zs)) \<and>
      ies_remove_loop ((pre @ ?Y) @ ?Z @ post1) (n - (length (snd x) + 2)) (length (pre @ ?Y)) (length ?Z) eid oui oui_len 1
      = Some (if \<exists>x \<in> set zs. ?m x then 1 else 1, (pre @ ?Y) @ enc_all ie_enc (filter (\<lambda>x. \<not> ?m x) zs) @ post',
          n - (length (snd x) + 2) - length (enc_all ie_enc (filter ?m zs)))"
      using less.prems by (intro less.hyps) (simp_all add: yz(1))
    then obtain post' where p: "length post' = length post1 + length (enc_all ie_enc (filter ?m zs))"
      "ies_remove_loop ((pre @ ?Y) @ ?Z @ post1) (n - (length (snd x) + 2)) (length (pre @ ?Y)) (length ?Z) eid oui oui_len 1
      = Some (1, (pre @ ?Y) @ enc_all ie_enc (filter (\<lambda>x. \<not> ?m x) zs) @ post',
          n - (length (snd x) + 2) - length (enc_all ie_enc (filter ?m zs)))"
      by auto
    have f: "filter ?m ys = []" "filter (\<lambda>x. \<not> ?m x) ys = ys" using yz(4) by (simp_all add: filter_empty_conv filter_id_conv)
    have "length post1 = length post + (length (snd x) + 2)" by (simp add: post1_def)
    then have "length post' = length post + length (enc_all ie_enc (filter ?m xs))"
      using p(1) yz(3) f by (simp add: yz(1))
    moreover have "Some (1, (pre @ ?Y) @ enc_all ie_enc (filter (\<lambda>x. \<not> ?m x) zs) @ post',
          n - (length (snd x) + 2) - length (enc_all ie_enc (filter ?m zs)))
        = Some (if \<exists>x \<in> set xs. ?m x then 1 else ret, pre @ enc_all ie_enc (filter (\<lambda>x. \<not> ?m x) xs) @ post',
          n - length (enc_all ie_enc (filter ?m xs)))"
      using yz(3) f by (simp add: yz(1))
    ultimately show ?thesis unfolding step p(2) by blast
  qed
qed

lemma rtw_set_ie_append:
  assumes "len + 2 \<le> length rest" "len \<le> length src"
  shows "rtw_set_ie (pre @ rest) (length pre) index len src frlen
    = Some (length (pre @ ie_enc (of_int index, take len src)), frlen + (len + 2),
        (pre @ ie_enc (of_int index, take len src)) @ drop (len + 2) rest)"
  using assms rtw_set_ie_writes [of "length pre" len "pre @ rest" src index frlen]
  by (simp add: ie_enc_def min_def)

lemma supported_rates_ok:
  "length (rtw_set_supported_rate m) = 16"
  "\<exists>n. rtw_get_rateset_len (rtw_set_supported_rate m) = Some n \<and> n \<le> 12"
proof -
  have z: "replicate NDIS_802_11_LENGTH_RATES_EX (0 :: u8) = [0,0,0,0,0,0,0,0,0,0,0,0,0,0,0,0]"
    by (simp add: NDIS_802_11_LENGTH_RATES_EX_def numeral_eq_Suc)
  show "length (rtw_set_supported_rate m) = 16"
    unfolding rtw_set_supported_rate_def Let_def z WIFI_CCKRATES_def WIFI_OFDMRATES_def by simp
  show "\<exists>n. rtw_get_rateset_len (rtw_set_supported_rate m) = Some n \<and> n \<le> 12"
    unfolding rtw_set_supported_rate_def Let_def z WIFI_CCKRATES_def WIFI_OFDMRATES_def rtw_get_rateset_len_def
    by simp
qed

lemma length_RTW_PUT_LE16 [simp]: "length (RTW_PUT_LE16 w) = 2"
  by (simp add: RTW_PUT_LE16_def)

text \<open>The elements of the generated network.\<close>

definition generate_elems :: "registry_priv \<Rightarrow> nat \<Rightarrow> ie list" where
  "generate_elems r n =
     (let net = reg_network r; rates = rtw_set_supported_rate (generate_mode r)
      in [(0, take (net_SsidLength net) (net_Ssid net)), (1, take (min n 8) rates),
          (3, take 1 (u32_le (net_DSConfig net))), (6, take 2 (u32_le (net_ATIMWindow net)))]
         @ (if n > 8 then [(50, take (n - 8) (drop 8 rates))] else []))"

lemma rtw_generate_ie_elems:
  assumes "length (net_IEs (reg_network r)) = MAX_IE_SZ" "net_SsidLength (reg_network r) \<le> 32"
    "length (net_Ssid (reg_network r)) = 32"
  shows "\<exists>n sz r'. rtw_get_rateset_len (rtw_set_supported_rate (generate_mode r)) = Some n \<and> n \<le> 12 \<and>
    rtw_generate_ie r = Some (sz, r') \<and> sz = 12 + length (enc_all ie_enc (generate_elems r n)) \<and>
    net_IEs (reg_network r') = take 8 (net_IEs (reg_network r)) @ RTW_PUT_LE16 (ucast (net_BeaconPeriod (reg_network r)))
      @ RTW_PUT_LE16 (generate_cap r) @ enc_all ie_enc (generate_elems r n) @ drop sz (net_IEs (reg_network r))"
proof -
  let ?net = "reg_network r" and ?rates = "rtw_set_supported_rate (generate_mode r)"
  obtain n where n: "rtw_get_rateset_len ?rates = Some n" "n \<le> 12" using supported_rates_ok(2) by blast
  obtain a b1 rest where B1: "net_IEs ?net = a @ b1 @ rest" "length a = 8" "length b1 = 4"
    using buf_split3 [of 8 4 "net_IEs ?net"] assms(1) by (auto simp: MAX_IE_SZ_def)
  have bc': "b1 = take 2 b1 @ drop 2 b1" "length (take 2 b1) = 2" "length (drop 2 b1) = 2" using B1(3) by simp_all
  then obtain b c where bc: "b1 = b @ c" "length b = 2" "length c = 2" by blast
  have rest: "length rest = 756" using B1 assms(1) by (simp add: MAX_IE_SZ_def)
  let ?hdr = "a @ RTW_PUT_LE16 (ucast (net_BeaconPeriod ?net)) @ RTW_PUT_LE16 (generate_cap r)"
  let ?S = "net_SsidLength ?net" and ?x1 = "(0, take (net_SsidLength ?net) (net_Ssid ?net)) :: ie"
  let ?m = "min n 8" and ?x2 = "(1, take (min n 8) ?rates) :: ie"
  let ?x3 = "(3, take 1 (u32_le (net_DSConfig ?net))) :: ie" and ?x4 = "(6, take 2 (u32_le (net_ATIMWindow ?net))) :: ie"
  let ?x5 = "(50, take (n - 8) (drop 8 ?rates)) :: ie"
  let ?p1 = "?hdr @ ie_enc ?x1" and ?r1 = "drop (?S + 2) rest"
  let ?p2 = "?p1 @ ie_enc ?x2" and ?r2 = "drop (?m + 2) ?r1"
  let ?p3 = "?p2 @ ie_enc ?x3" and ?r3 = "drop (1 + 2) ?r2"
  let ?p4 = "?p3 @ ie_enc ?x4" and ?r4 = "drop (2 + 2) ?r3"
  let ?p5 = "?p4 @ ie_enc ?x5" and ?r5 = "drop (n - 8 + 2) ?r4"
  have w1: "wrn (net_IEs ?net) 8 (RTW_PUT_LE16 (ucast (net_BeaconPeriod ?net)))
      = Some (a @ RTW_PUT_LE16 (ucast (net_BeaconPeriod ?net)) @ c @ rest)"
    using wrn_middle [of b "RTW_PUT_LE16 (ucast (net_BeaconPeriod ?net))" a "c @ rest"] B1 bc by simp
  have w2: "wrn (a @ RTW_PUT_LE16 (ucast (net_BeaconPeriod ?net)) @ c @ rest) 10 (RTW_PUT_LE16 (generate_cap r))
      = Some (?hdr @ rest)"
    using wrn_middle [of c "RTW_PUT_LE16 (generate_cap r)" "a @ RTW_PUT_LE16 (ucast (net_BeaconPeriod ?net))" rest] B1 bc by simp
  have l: "length ?hdr = 12" using B1(2) by simp
  have s1: "rtw_set_ie (?hdr @ rest) 12 0 ?S (net_Ssid ?net) 12 = Some (length ?p1, 12 + (?S + 2), ?p1 @ ?r1)"
    using rtw_set_ie_append [of ?S rest "net_Ssid ?net" ?hdr 0 12] assms(2,3) rest unfolding l by simp
  have s2: "rtw_set_ie (?p1 @ ?r1) (length ?p1) 1 ?m ?rates f = Some (length ?p2, f + (?m + 2), ?p2 @ ?r2)" for f
    using rtw_set_ie_append [of ?m ?r1 ?rates ?p1 1 f] assms(2) rest supported_rates_ok(1) [of "generate_mode r"] by simp
  have s3: "rtw_set_ie (?p2 @ ?r2) (length ?p2) 3 1 (u32_le (net_DSConfig ?net)) f = Some (length ?p3, f + (1 + 2), ?p3 @ ?r3)" for f
    using rtw_set_ie_append [of 1 ?r2 "u32_le (net_DSConfig ?net)" ?p2 3 f] assms(2) rest by simp
  have s4: "rtw_set_ie (?p3 @ ?r3) (length ?p3) 6 2 (u32_le (net_ATIMWindow ?net)) f = Some (length ?p4, f + (2 + 2), ?p4 @ ?r4)" for f
    using rtw_set_ie_append [of 2 ?r3 "u32_le (net_ATIMWindow ?net)" ?p3 6 f] assms(2) rest by simp
  have s5: "rtw_set_ie (?p4 @ ?r4) (length ?p4) 50 (n - 8) (drop 8 ?rates) f = Some (length ?p5, f + (n - 8 + 2), ?p5 @ ?r5)" for f
    using rtw_set_ie_append [of "n - 8" ?r4 "drop 8 ?rates" ?p4 50 f] assms(2) rest n(2) supported_rates_ok(1) [of "generate_mode r"] by simp
  have k: "(8 :: nat) + 2 + 2 = 12" by simp
  have run: "rtw_generate_ie r = Some (if n > 8 then (12 + (?S + 2) + (?m + 2) + (1 + 2) + (2 + 2) + (n - 8 + 2),
        r\<lparr>reg_network := ?net\<lparr>net_IEs := ?p5 @ ?r5, net_SupportedRates := ?rates\<rparr>\<rparr>)
      else (12 + (?S + 2) + (?m + 2) + (1 + 2) + (2 + 2),
        r\<lparr>reg_network := ?net\<lparr>net_IEs := ?p4 @ ?r4, net_SupportedRates := ?rates\<rparr>\<rparr>))"
  proof (cases "n > 8")
    case True
    then have m: "?m = 8" by simp
    show ?thesis using True
      by (simp only: rtw_generate_ie_def Let_def w1 w2 s1 s2 [unfolded m] s3 [unfolded m] s4 [unfolded m] s5 [unfolded m] n(1) bind.bind_lunit prod.case m if_True k)
  next
    case False
    then have m: "?m = n" by simp
    show ?thesis using False
      by (simp only: rtw_generate_ie_def Let_def w1 w2 s1 s2 [unfolded m] s3 [unfolded m] s4 [unfolded m] n(1) bind.bind_lunit prod.case m if_False k)
  qed
  have d: "drop (12 + k) (net_IEs ?net) = drop k rest" "take 8 (net_IEs ?net) = a" for k using B1 by simp_all
  have el: "enc_all ie_enc (generate_elems r n) = ie_enc ?x1 @ ie_enc ?x2 @ ie_enc ?x3 @ ie_enc ?x4
      @ (if n > 8 then ie_enc ?x5 else [])"
    by (simp add: generate_elems_def Let_def)
  have len: "length (enc_all ie_enc (generate_elems r n))
      = (?S + 2) + (?m + 2) + (1 + 2) + (2 + 2) + (if n > 8 then n - 8 + 2 else 0)"
    unfolding el using assms(2,3) supported_rates_ok(1) [of "generate_mode r"] n(2) by simp
  have ies: "net_IEs (reg_network (snd (the (rtw_generate_ie r)))) = a @ RTW_PUT_LE16 (ucast (net_BeaconPeriod ?net)) @ RTW_PUT_LE16 (generate_cap r)
      @ enc_all ie_enc (generate_elems r n) @ drop (length (enc_all ie_enc (generate_elems r n))) rest"
    unfolding run len unfolding el by (simp add: ac_simps)
  show ?thesis
  proof (intro exI conjI)
    show "rtw_get_rateset_len ?rates = Some n" "n \<le> 12" by (fact n)+
    show "rtw_generate_ie r = Some (fst (the (rtw_generate_ie r)), snd (the (rtw_generate_ie r)))"
      unfolding run by simp
    show "fst (the (rtw_generate_ie r)) = 12 + length (enc_all ie_enc (generate_elems r n))"
      unfolding run len by simp
    then show "net_IEs (reg_network (snd (the (rtw_generate_ie r)))) = take 8 (net_IEs ?net)
      @ RTW_PUT_LE16 (ucast (net_BeaconPeriod ?net)) @ RTW_PUT_LE16 (generate_cap r)
      @ enc_all ie_enc (generate_elems r n) @ drop (fst (the (rtw_generate_ie r))) (net_IEs ?net)"
      using ies by (simp only: d)
  qed
qed

section \<open>Properties\<close>

text \<open>
  Writing an element and finding it. Behind a sequence of elements \<^verbatim>\<open>rtw_set_ie\<close> appends
  exactly the encoding of the new one; \<^verbatim>\<open>rtw_get_ie\<close> over the result then answers, for every
  identifier, the position and length of the first element that has it, and no access leaves
  the buffer.
\<close>

theorem set_then_get_ie:
  assumes "\<forall>x \<in> set xs. ie_wf x" "len < 256" "len \<le> length src" "len + 2 \<le> length rest"
  shows "\<exists>buf'. rtw_set_ie (enc_all ie_enc xs @ rest) (length (enc_all ie_enc xs)) index len src frlen
      = Some (length (enc_all ie_enc xs) + len + 2, frlen + (len + 2), buf')
    \<and> take (length (enc_all ie_enc xs) + len + 2) buf' = enc_all ie_enc (xs @ [(of_int index, take len src)])
    \<and> drop (length (enc_all ie_enc xs) + len + 2) buf' = drop (len + 2) rest
    \<and> (\<forall>i l. rtw_get_ie buf' 0 i l (int (length (enc_all ie_enc xs) + len + 2))
        = Some (case seek ie_enc (\<lambda>x. int (unat (fst x)) = i) 0 (xs @ [(of_int index, take len src)]) of
            None \<Rightarrow> (None, 0) | Some (k, x) \<Rightarrow> (Some k, length (snd x))))"
proof -
  let ?x = "(of_int index, take len src) :: ie" and ?E = "enc_all ie_enc xs"
  have L: "length ?E + len + 2 = length (enc_all ie_enc (xs @ [?x]))" using assms(3) by simp
  have w: "rtw_set_ie (?E @ rest) (length ?E) index len src frlen
      = Some (length ?E + len + 2, frlen + (len + 2), enc_all ie_enc (xs @ [?x]) @ drop (len + 2) rest)"
    using rtw_set_ie_append [OF assms(4,3), of ?E index frlen] assms(3) by simp
  have g: "rtw_get_ie (enc_all ie_enc (xs @ [?x]) @ drop (len + 2) rest) 0 i l (int (length ?E + len + 2))
      = Some (case seek ie_enc (\<lambda>x. int (unat (fst x)) = i) 0 (xs @ [?x]) of
          None \<Rightarrow> (None, 0) | Some (k, x) \<Rightarrow> (Some k, length (snd x)))" for i l
    unfolding L using rtw_get_ie_seek [of "xs @ [?x]" "[]" "drop (len + 2) rest" i l] assms
    by (simp add: ie_wf_def del: map_append concat_append)
  show ?thesis using w g unfolding L by auto
qed

definition sample_ies :: "ie list" where
  "sample_ies = [(221, [0, 80, 242, 4]), (0, [65]), (221, [0, 80, 242, 1])]"

lemma sample_ies_wf: "\<forall>x \<in> set sample_ies. ie_wf x" "\<forall>x \<in> set sample_ies. ie_oui_wf 221 (Some [0, 80, 242, 4]) 4 x"
  "length (enc_all ie_enc sample_ies) \<le> MAX_IE_SZ"
  by (simp_all add: sample_ies_def ie_wf_def ie_oui_wf_def MAX_IE_SZ_def)

theorem set_then_get_ie_witness:
  "\<exists>buf'. rtw_set_ie (enc_all ie_enc sample_ies @ replicate 6 0) (length (enc_all ie_enc sample_ies)) 3 1 [11] 0
      = Some (length (enc_all ie_enc sample_ies) + 1 + 2, 0 + (1 + 2), buf')
    \<and> take (length (enc_all ie_enc sample_ies) + 1 + 2) buf' = enc_all ie_enc (sample_ies @ [(3, [11])])"
  using set_then_get_ie [of sample_ies 1 "[11]" "replicate 6 0" 3 0] sample_ies_wf(1) by fastforce

text \<open>
  C18. \<^verbatim>\<open>rtw_ies_remove_ie\<close> removes every element with the identifier and OUI asked for and no
  other, keeps their order, closes the gaps, shortens the length by the removed bytes and
  reports success exactly when something was removed, for elements that fit the local buffer
  of \<^verbatim>\<open>MAX_IE_SZ\<close> bytes.
\<close>

theorem ies_remove_ie_filters:
  assumes "\<forall>x \<in> set xs. ie_oui_wf eid oui oui_len x" "length (enc_all ie_enc xs) \<le> MAX_IE_SZ"
  shows "\<exists>post'. rtw_ies_remove_ie (Some (pre @ enc_all ie_enc xs @ post)) (Some (length pre + length (enc_all ie_enc xs)))
      (length pre) eid oui oui_len
    = Some (if \<exists>x \<in> set xs. ie_match eid oui oui_len x then 1 else 0,
        Some (pre @ enc_all ie_enc (filter (\<lambda>x. \<not> ie_match eid oui oui_len x) xs) @ post'),
        Some (length pre + length (enc_all ie_enc (filter (\<lambda>x. \<not> ie_match eid oui oui_len x) xs))))"
proof -
  let ?m = "ie_match eid oui oui_len"
  have part: "length (enc_all ie_enc xs) = length (enc_all ie_enc (filter ?m xs)) + length (enc_all ie_enc (filter (\<lambda>x. \<not> ?m x) xs))"
    by (induction xs) auto
  show ?thesis
  proof (cases "xs = []")
    case False
    then have "\<not> length pre + length (enc_all ie_enc xs) \<le> length pre" by (cases xs) auto
    moreover obtain post' where "ies_remove_loop (pre @ enc_all ie_enc xs @ post) (length pre + length (enc_all ie_enc xs))
        (length pre) (length (enc_all ie_enc xs)) eid oui oui_len 0
      = Some (if \<exists>x \<in> set xs. ?m x then 1 else 0, pre @ enc_all ie_enc (filter (\<lambda>x. \<not> ?m x) xs) @ post',
          length pre + length (enc_all ie_enc xs) - length (enc_all ie_enc (filter ?m xs)))"
      using ies_remove_loop_filters [OF assms] by blast
    moreover have "length pre + length (enc_all ie_enc xs) - length (enc_all ie_enc (filter ?m xs))
        = length pre + length (enc_all ie_enc (filter (\<lambda>x. \<not> ?m x) xs))" using part by simp
    ultimately show ?thesis
      by (intro exI [of _ post']) (auto simp: rtw_ies_remove_ie_def)
  qed (auto simp: rtw_ies_remove_ie_def)
qed

theorem ies_remove_ie_filters_witness:
  "\<exists>post'. rtw_ies_remove_ie (Some ([9] @ enc_all ie_enc sample_ies @ [7])) (Some (length [9 :: u8] + length (enc_all ie_enc sample_ies)))
      (length [9 :: u8]) 221 (Some [0, 80, 242, 4]) 4
    = Some (1, Some ([9] @ enc_all ie_enc [(0, [65]), (221, [0, 80, 242, 1])] @ post'),
        Some (length [9 :: u8] + length (enc_all ie_enc [(0, [65 :: u8]), (221, [0, 80, 242, 1])])))"
proof -
  have "filter (\<lambda>x. \<not> ie_match 221 (Some [0, 80, 242, 4]) 4 x) sample_ies = [(0, [65]), (221, [0, 80, 242, 1])]"
    "\<exists>x \<in> set sample_ies. ie_match 221 (Some [0, 80, 242, 4]) 4 x"
    by (simp_all add: sample_ies_def ie_match_def)
  then show ?thesis
    using ies_remove_ie_filters [OF sample_ies_wf(2,3), of "[9]" "[7]"] by (simp only: if_True)
qed

text \<open>
  \<^verbatim>\<open>rtw_generate_ie\<close> fills the element buffer of the own ad-hoc network with beacon
  interval, capabilities and the elements SSID, supported rates (at most eight), DS and IBSS
  parameters and, for more than eight rates, extended rates; it leaves the time stamp and
  everything behind the last element as it was, and returns the total length.
\<close>

theorem generate_ie_layout:
  assumes "length (net_IEs (reg_network r)) = MAX_IE_SZ" "net_SsidLength (reg_network r) \<le> 32"
    "length (net_Ssid (reg_network r)) = 32"
  shows "\<exists>n sz r'. rtw_get_rateset_len (rtw_set_supported_rate (generate_mode r)) = Some n \<and> n \<le> 12 \<and>
    rtw_generate_ie r = Some (sz, r') \<and> sz = 12 + length (enc_all ie_enc (generate_elems r n)) \<and>
    net_IEs (reg_network r') = take 8 (net_IEs (reg_network r)) @ RTW_PUT_LE16 (ucast (net_BeaconPeriod (reg_network r)))
      @ RTW_PUT_LE16 (generate_cap r) @ enc_all ie_enc (generate_elems r n) @ drop sz (net_IEs (reg_network r))"
  using assms by (rule rtw_generate_ie_elems)

definition sample_registry :: registry_priv where
  "sample_registry = \<lparr>reg_preamble = 3, reg_wireless_mode = 11, reg_network =
     \<lparr>net_IEs = replicate MAX_IE_SZ 0, net_BeaconPeriod = 100, net_DSConfig = 6, net_ATIMWindow = 0, net_Privacy = 0,
      net_SsidLength = 4, net_Ssid = replicate 32 65, net_SupportedRates = []\<rparr>\<rparr>"

theorem generate_ie_layout_witness:
  "\<exists>n sz r'. rtw_generate_ie sample_registry = Some (sz, r') \<and> sz = 12 + length (enc_all ie_enc (generate_elems sample_registry n))"
  using generate_ie_layout [of sample_registry] by (auto simp: sample_registry_def)

text \<open>
  \<^verbatim>\<open>rtw_set_ie_mesh_ch_switch_parm\<close> does not write the mesh channel switch element (118):
  the identifier \<^verbatim>\<open>0x118\<close> it passes is cut to the reserved identifier 24.
\<close>

theorem mesh_ch_switch_wrong_id:
  "8 \<le> length (rest :: bytes) \<Longrightarrow> \<exists>b. rtw_set_ie_mesh_ch_switch_parm (pre @ rest) (length pre) n ttl flags reason precedence
    = Some (length pre + 8, n + 8, b) \<and> b ! length pre = 24"
  using rtw_set_ie_append [of 6 rest "[ttl, flags] @ RTW_PUT_LE16 reason @ RTW_PUT_LE16 precedence" pre "0x118" n]
  by (simp add: rtw_set_ie_mesh_ch_switch_parm_def ie_enc_def nth_append)

theorem mesh_ch_switch_wrong_id_witness:
  "\<exists>b. rtw_set_ie_mesh_ch_switch_parm ([] @ replicate 8 0) (length []) 0 1 2 3 4 = Some (0 + 8, 0 + 8, b) \<and> b ! 0 = 24"
  using mesh_ch_switch_wrong_id [of "replicate 8 0" "[]" 0 1 2 3 4] by simp

end
