(* ===== verification/Rtw_Attr.thy ===== *)
theory Rtw_Attr
  imports Rtw_Ie
begin

unbundle bit_operations_syntax

text \<open>
  The vendor elements of \<^verbatim>\<open>core/rtw_ieee80211.c\<close> that carry attributes: finding the WPS, P2P and WFD elements
  and their attributes, writing, merging and removing P2P attributes. Pointers are offsets into
  one buffer, so the offset of an element is an argument and a result; an output buffer or an
  output length that may be \<^verbatim>\<open>NULL\<close> is an option.
\<close>

section \<open>Finding a vendor element\<close>

definition VENDOR_SPECIFIC_IE :: u8 where "VENDOR_SPECIFIC_IE = 221"
definition wps_oui :: bytes where "wps_oui = [0x00, 0x50, 0xF2, 0x04]"
definition p2p_oui :: bytes where "p2p_oui = [0x50, 0x6F, 0x9A, 0x09]"
definition wfd_oui :: bytes where "wfd_oui = [0x50, 0x6F, 0x9A, 0x0A]"

text \<open>Is the element at \<open>p\<close> a vendor element of the organisation?\<close>

definition vendor_at :: "bytes \<Rightarrow> bytes \<Rightarrow> nat \<Rightarrow> bool option" where
  "vendor_at oui buf p = do { eid \<leftarrow> rd buf p; if eid = VENDOR_SPECIFIC_IE then rtw_memcmp buf (p + 2) oui 4 else Some False }"

definition rtw_is_wps_ie :: "bytes option \<Rightarrow> nat \<Rightarrow> nat \<Rightarrow> (bool \<times> nat) option" where
  "rtw_is_wps_ie buf ie_ptr wps_ielen =
     (case buf of None \<Rightarrow> Some (False, wps_ielen)
      | Some buf \<Rightarrow> do {
          hit \<leftarrow> vendor_at wps_oui buf ie_ptr;
          if hit then do { n \<leftarrow> rd buf (ie_ptr + 1); Some (True, unat n + 2) } else Some (False, wps_ielen) })"

text \<open>One iteration of the search, and what the functions do with an element they found.\<close>

definition vendor_step :: "bytes \<Rightarrow> bytes \<Rightarrow> nat \<Rightarrow> (nat + nat) option" where
  "vendor_step oui buf p =
     do { hit \<leftarrow> vendor_at oui buf p;
          if hit then Some (Inl p) else do { n \<leftarrow> rd buf (p + 1); Some (Inr (p + (unat n + 2))) } }"

definition vendor_found :: "bytes \<Rightarrow> nat \<Rightarrow> bytes option \<Rightarrow> nat option \<Rightarrow> (nat option \<times> bytes option \<times> nat option) option" where
  "vendor_found buf p ie ielen =
     do { ie \<leftarrow> (case ie of None \<Rightarrow> Some None
                | Some d \<Rightarrow> do { n \<leftarrow> rd buf (p + 1); s \<leftarrow> rdn buf p (unat n + 2); d \<leftarrow> wrn d 0 s; Some (Some d) });
          ielen \<leftarrow> (case ielen of None \<Rightarrow> Some None | Some _ \<Rightarrow> do { n \<leftarrow> rd buf (p + 1); Some (Some (unat n + 2)) });
          Some (Some p, ie, ielen) }"

definition rtw_get_wps_ie :: "bytes option \<Rightarrow> nat \<Rightarrow> nat \<Rightarrow> bytes option \<Rightarrow> nat option \<Rightarrow> (nat option \<times> bytes option \<times> nat option) option" where
  "rtw_get_wps_ie buf in_ie in_len wps_ie wps_ielen =
     (let wps_ielen = map_option (\<lambda>_. 0) wps_ielen in
      case buf of None \<Rightarrow> Some (None, wps_ie, wps_ielen)
      | Some buf \<Rightarrow>
          if in_len = 0 then Some (None, wps_ie, wps_ielen)
          else do {
            r \<leftarrow> scan_loop (vendor_step wps_oui buf) (in_ie + in_len) in_ie;
            case r of None \<Rightarrow> Some (None, wps_ie, wps_ielen) | Some p \<Rightarrow> vendor_found buf p wps_ie wps_ielen })"

text \<open>
  \<^verbatim>\<open>rtw_get_p2p_ie\<close> compares the unsigned \<^verbatim>\<open>cnt\<close> with the signed \<^verbatim>\<open>in_len\<close>: a negative length is a large one, and the
  loop is left by the guard after its first load.
\<close>

definition p2p_step :: "bytes \<Rightarrow> nat \<Rightarrow> int \<Rightarrow> nat \<Rightarrow> (nat option + nat) option" where
  "p2p_step buf in_ie in_len p =
     do { eid \<leftarrow> rd buf p;
          if in_len < 0 \<or> p - in_ie > MAX_IE_SZ then Some (Inl None)
          else do { r \<leftarrow> vendor_step p2p_oui buf p; Some (map_sum Some (\<lambda>q. q) r) } }"

definition rtw_get_p2p_ie :: "bytes \<Rightarrow> nat \<Rightarrow> int \<Rightarrow> bytes option \<Rightarrow> nat option \<Rightarrow> (nat option \<times> bytes option \<times> nat option) option" where
  "rtw_get_p2p_ie buf in_ie in_len p2p_ie p2p_ielen =
     (let p2p_ielen = map_option (\<lambda>_. 0) p2p_ielen in
      do { r \<leftarrow> scan_loop (p2p_step buf in_ie in_len) (in_ie + unat (of_int in_len :: u32)) in_ie;
           case r of Some (Some p) \<Rightarrow> vendor_found buf p p2p_ie p2p_ielen | _ \<Rightarrow> Some (None, p2p_ie, p2p_ielen) })"

text \<open>\<^verbatim>\<open>rtw_get_wfd_ie\<close> returns the offset behind the element, relative to \<^verbatim>\<open>in_ie\<close>, or 0.\<close>

definition rtw_get_wfd_ie :: "bytes \<Rightarrow> nat \<Rightarrow> int \<Rightarrow> bytes option \<Rightarrow> nat option \<Rightarrow> (nat \<times> bytes option \<times> nat option) option" where
  "rtw_get_wfd_ie buf in_ie in_len wfd_ie wfd_ielen =
     (if in_len < 0 then Some (0, wfd_ie, wfd_ielen)
      else do {
        r \<leftarrow> scan_loop (vendor_step wfd_oui buf) (in_ie + nat in_len) in_ie;
        case r of None \<Rightarrow> Some (0, wfd_ie, wfd_ielen)
        | Some p \<Rightarrow> do { (_, wfd_ie, wfd_ielen) \<leftarrow> vendor_found buf p wfd_ie wfd_ielen;
                         n \<leftarrow> rd buf (p + 1);
                         Some (p - in_ie + (unat n + 2), wfd_ie, wfd_ielen) } })"

section \<open>Finding an attribute\<close>

definition RTW_GET_BE16 :: "bytes \<Rightarrow> nat \<Rightarrow> u16 option" where
  "RTW_GET_BE16 buf p = do { a \<leftarrow> rd buf p; b \<leftarrow> rd buf (p + 1); Some (push_bit 8 (ucast a) OR ucast b) }"

definition RTW_GET_LE16 :: "bytes \<Rightarrow> nat \<Rightarrow> u16 option" where
  "RTW_GET_LE16 buf p = do { b \<leftarrow> rd buf (p + 1); a \<leftarrow> rd buf p; Some (push_bit 8 (ucast b) OR ucast a) }"

definition wps_attr_step :: "bytes \<Rightarrow> u16 \<Rightarrow> nat \<Rightarrow> ((nat \<times> u16) + nat) option" where
  "wps_attr_step buf target_attr_id p =
     do { attr_id \<leftarrow> RTW_GET_BE16 buf p;
          attr_data_len \<leftarrow> RTW_GET_BE16 buf (p + 2);
          let attr_len = attr_data_len + 4;
          Some (if attr_id = target_attr_id then Inl (p, attr_len) else Inr (p + unat attr_len)) }"

definition p2p_attr_step :: "bytes \<Rightarrow> u8 \<Rightarrow> nat \<Rightarrow> ((nat \<times> u16) + nat) option" where
  "p2p_attr_step buf target_attr_id p =
     do { attr_id \<leftarrow> rd buf p;
          attr_data_len \<leftarrow> RTW_GET_LE16 buf (p + 1);
          let attr_len = attr_data_len + 3;
          Some (if attr_id = target_attr_id then Inl (p, attr_len) else Inr (p + unat attr_len)) }"

definition attr_found :: "bytes \<Rightarrow> nat \<Rightarrow> u16 \<Rightarrow> bytes option \<Rightarrow> u32 option \<Rightarrow> (nat option \<times> bytes option \<times> u32 option) option" where
  "attr_found buf p attr_len buf_attr len_attr =
     do { buf_attr \<leftarrow> (case buf_attr of None \<Rightarrow> Some None
                      | Some d \<Rightarrow> do { s \<leftarrow> rdn buf p (unat attr_len); d \<leftarrow> wrn d 0 s; Some (Some d) });
          Some (Some p, buf_attr, map_option (\<lambda>_. ucast attr_len) len_attr) }"

definition rtw_get_wps_attr :: "bytes \<Rightarrow> nat \<Rightarrow> nat \<Rightarrow> u16 \<Rightarrow> bytes option \<Rightarrow> u32 option \<Rightarrow> (nat option \<times> bytes option \<times> u32 option) option" where
  "rtw_get_wps_attr buf wps_ie wps_ielen target_attr_id buf_attr len_attr =
     (let len_attr = map_option (\<lambda>_. 0) len_attr in
      do { hit \<leftarrow> vendor_at wps_oui buf wps_ie;
           if \<not> hit then Some (None, buf_attr, len_attr)
           else do {
             r \<leftarrow> scan_loop (wps_attr_step buf target_attr_id) (wps_ie + wps_ielen) (wps_ie + 6);
             case r of None \<Rightarrow> Some (None, buf_attr, len_attr) | Some (p, n) \<Rightarrow> attr_found buf p n buf_attr len_attr } })"

definition rtw_get_p2p_attr :: "bytes option \<Rightarrow> nat \<Rightarrow> nat \<Rightarrow> u8 \<Rightarrow> bytes option \<Rightarrow> u32 option \<Rightarrow> (nat option \<times> bytes option \<times> u32 option) option" where
  "rtw_get_p2p_attr buf p2p_ie p2p_ielen target_attr_id buf_attr len_attr =
     (let len_attr = map_option (\<lambda>_. 0) len_attr in
      case buf of None \<Rightarrow> Some (None, buf_attr, len_attr)
      | Some buf \<Rightarrow> do {
           hit \<leftarrow> vendor_at p2p_oui buf p2p_ie;
           if \<not> hit then Some (None, buf_attr, len_attr)
           else do {
             r \<leftarrow> scan_loop (p2p_attr_step buf target_attr_id) (p2p_ie + p2p_ielen) (p2p_ie + 6);
             case r of None \<Rightarrow> Some (None, buf_attr, len_attr) | Some (p, n) \<Rightarrow> attr_found buf p n buf_attr len_attr } })"

text \<open>The content of an attribute, behind a header of 4 (WPS) or 3 (P2P) bytes.\<close>

definition content_found :: "nat \<Rightarrow> bytes \<Rightarrow> nat option \<Rightarrow> u32 \<Rightarrow> bytes option \<Rightarrow> u32 option \<Rightarrow> (nat option \<times> bytes option \<times> u32 option) option" where
  "content_found hdr buf attr_ptr attr_len buf_content len_content =
     (case attr_ptr of None \<Rightarrow> Some (None, buf_content, len_content)
      | Some p \<Rightarrow>
          if attr_len = 0 then Some (None, buf_content, len_content)
          else do {
            buf_content \<leftarrow> (case buf_content of None \<Rightarrow> Some None
              | Some d \<Rightarrow> do { s \<leftarrow> rdn buf (p + hdr) (unat (attr_len - of_nat hdr)); d \<leftarrow> wrn d 0 s; Some (Some d) });
            Some (Some (p + hdr), buf_content, map_option (\<lambda>_. attr_len - of_nat hdr) len_content) })"

definition rtw_get_wps_attr_content :: "bytes \<Rightarrow> nat \<Rightarrow> nat \<Rightarrow> u16 \<Rightarrow> bytes option \<Rightarrow> u32 option \<Rightarrow> (nat option \<times> bytes option \<times> u32 option) option" where
  "rtw_get_wps_attr_content buf wps_ie wps_ielen target_attr_id buf_content len_content =
     do { (attr_ptr, _, attr_len) \<leftarrow> rtw_get_wps_attr buf wps_ie wps_ielen target_attr_id None (Some 0);
          content_found 4 buf attr_ptr (the attr_len) buf_content (map_option (\<lambda>_. 0) len_content) }"

definition rtw_get_p2p_attr_content :: "bytes option \<Rightarrow> nat \<Rightarrow> nat \<Rightarrow> u8 \<Rightarrow> bytes option \<Rightarrow> u32 option \<Rightarrow> (nat option \<times> bytes option \<times> u32 option) option" where
  "rtw_get_p2p_attr_content buf p2p_ie p2p_ielen target_attr_id buf_content len_content =
     do { (attr_ptr, _, attr_len) \<leftarrow> rtw_get_p2p_attr buf p2p_ie p2p_ielen target_attr_id None (Some 0);
          content_found 3 (case buf of None \<Rightarrow> [] | Some b \<Rightarrow> b) attr_ptr (the attr_len) buf_content (map_option (\<lambda>_. 0) len_content) }"

definition wfd_attr_step :: "bytes \<Rightarrow> u8 \<Rightarrow> nat \<Rightarrow> ((nat \<times> u16) + nat) option" where
  "wfd_attr_step buf target_attr_id p =
     do { attrlen \<leftarrow> RTW_GET_BE16 buf (p + 1);
          attr_id \<leftarrow> rd buf p;
          Some (if attr_id = target_attr_id then Inl (p, attrlen) else Inr (p + (unat attrlen + 3))) }"

definition rtw_get_wfd_attr_content :: "bytes \<Rightarrow> nat \<Rightarrow> nat \<Rightarrow> u8 \<Rightarrow> bytes option \<Rightarrow> u32 option \<Rightarrow> (bool \<times> bytes option \<times> u32 option) option" where
  "rtw_get_wfd_attr_content buf wfd_ie wfd_ielen target_attr_id attr_content attr_contentlen =
     do { hit \<leftarrow> vendor_at wfd_oui buf wfd_ie;
          if \<not> hit then Some (False, attr_content, attr_contentlen)
          else do {
            r \<leftarrow> scan_loop (wfd_attr_step buf target_attr_id) (wfd_ie + wfd_ielen) (wfd_ie + 6);
            case r of None \<Rightarrow> Some (False, attr_content, attr_contentlen)
            | Some (p, n) \<Rightarrow> do {
                attr_content \<leftarrow> (case attr_content of None \<Rightarrow> Some None
                  | Some d \<Rightarrow> do { s \<leftarrow> rdn buf (p + 3) (unat n); d \<leftarrow> wrn d 0 s; Some (Some d) });
                Some (True, attr_content, map_option (\<lambda>_. ucast n) attr_contentlen) } } }"

section \<open>Writing, merging and removing P2P attributes\<close>

definition rtw_set_p2p_attr_content :: "bytes \<Rightarrow> nat \<Rightarrow> u8 \<Rightarrow> u16 \<Rightarrow> bytes option \<Rightarrow> (nat \<times> bytes) option" where
  "rtw_set_p2p_attr_content buf p attr_id attr_len pdata_attr =
     do { buf \<leftarrow> wrn buf p [attr_id];
          buf \<leftarrow> wrn buf (p + 1) (RTW_PUT_LE16 attr_len);
          buf \<leftarrow> (case pdata_attr of None \<Rightarrow> Some buf
                 | Some d \<Rightarrow> do { s \<leftarrow> rdn d 0 (unat attr_len); wrn buf (p + 3) s });
          Some (unat attr_len + 3, buf) }"

text \<open>
  The loops of \<^verbatim>\<open>rtw_get_p2p_merged_ies_len\<close> and \<^verbatim>\<open>rtw_p2p_merge_ies\<close>. A P2P element shorter than its OUI
  makes the length of the copy negative, which as a \<^verbatim>\<open>size_t\<close> is a copy that no buffer holds.
\<close>

function p2p_merged_loop :: "bytes \<Rightarrow> nat \<Rightarrow> nat \<Rightarrow> int \<Rightarrow> int option" where
  "p2p_merged_loop in_ie in_len i len =
     (if i < in_len then do {
        hit \<leftarrow> vendor_at p2p_oui in_ie i;
        n \<leftarrow> rd in_ie (i + 1);
        p2p_merged_loop in_ie in_len (i + (unat n + 2)) (if hit then len + (int (unat n) - 4) else len) }
      else Some len)"
  by pat_completeness auto
termination by (relation "measure (\<lambda>(in_ie, in_len, i, len). in_len - i)") auto

definition rtw_get_p2p_merged_ies_len :: "bytes \<Rightarrow> nat \<Rightarrow> u32 option" where
  "rtw_get_p2p_merged_ies_len in_ie in_len = map_option (\<lambda>len. of_int (len + 4)) (p2p_merged_loop in_ie in_len 0 0)"

function p2p_merge_loop :: "bytes \<Rightarrow> nat \<Rightarrow> nat \<Rightarrow> bytes \<Rightarrow> nat \<Rightarrow> u8 \<Rightarrow> (u8 \<times> bytes) option" where
  "p2p_merge_loop in_ie in_len i merge_ie m len =
     (if i < in_len then do {
        hit \<leftarrow> vendor_at p2p_oui in_ie i;
        n \<leftarrow> rd in_ie (i + 1);
        if \<not> hit then p2p_merge_loop in_ie in_len (i + (unat n + 2)) merge_ie m len
        else if n < 4 then None
        else do {
          s \<leftarrow> rdn in_ie (i + 2 + 4) (unat n - 4);
          merge_ie \<leftarrow> wrn merge_ie m s;
          p2p_merge_loop in_ie in_len (i + (unat n + 2)) merge_ie (m + (unat n - 4)) (len + (n - 4)) } }
      else Some (len, merge_ie))"
  by pat_completeness auto
termination by (relation "measure (\<lambda>(in_ie, in_len, i, merge_ie, m, len). in_len - i)") auto

definition rtw_p2p_merge_ies :: "bytes \<Rightarrow> nat \<Rightarrow> bytes option \<Rightarrow> (int \<times> bytes option) option" where
  "rtw_p2p_merge_ies in_ie in_len merge_ie =
     (case merge_ie of None \<Rightarrow> Some (0, None)
      | Some m \<Rightarrow> do {
          m \<leftarrow> wrn m 0 ([0xDD, 0x00] @ p2p_oui);
          (len, m) \<leftarrow> p2p_merge_loop in_ie in_len 0 m 6 0;
          Some (uint len + 4, Some m) })"

text \<open>
  \<^verbatim>\<open>rtw_p2p_attr_remove\<close>: the overlapping \<^verbatim>\<open>memcpy\<close> copies towards lower addresses, as from a copy of the source.
\<close>

partial_function (option) p2p_attr_remove :: "bytes \<Rightarrow> nat \<Rightarrow> u32 \<Rightarrow> u8 \<Rightarrow> (u32 \<times> bytes) option" where
  "p2p_attr_remove buf ie ielen attr_id =
     do { (target_attr, _, l) \<leftarrow> rtw_get_p2p_attr (Some buf) ie (unat ielen) attr_id None (Some 0);
          let target_attr_len = the l;
          case target_attr of None \<Rightarrow> Some (ielen, buf)
          | Some t \<Rightarrow>
              if target_attr_len = 0 then Some (ielen, buf)
              else do {
                let next_attr = t + unat target_attr_len;
                let remain_len = ielen - of_nat (next_attr - ie);
                buf \<leftarrow> memset_at buf t 0 (unat target_attr_len);
                s \<leftarrow> rdn buf next_attr (unat remain_len);
                buf \<leftarrow> wrn buf t s;
                buf \<leftarrow> memset_at buf (t + unat remain_len) 0 (unat target_attr_len);
                n \<leftarrow> rd buf (ie + 1);
                buf \<leftarrow> wrn buf (ie + 1) [n - ucast target_attr_len];
                p2p_attr_remove buf ie (ielen - target_attr_len) attr_id } }"

definition FIXED_IE_LENGTH :: nat where "FIXED_IE_LENGTH = 12"

definition rtw_WLAN_BSSID_EX_remove_p2p_attr :: "bytes \<Rightarrow> u32 \<Rightarrow> u8 \<Rightarrow> (bytes \<times> u32) option" where
  "rtw_WLAN_BSSID_EX_remove_p2p_attr IEs IELength attr_id =
     do { (p2p_ie, _, l) \<leftarrow> rtw_get_p2p_ie IEs FIXED_IE_LENGTH (sint (IELength - of_nat FIXED_IE_LENGTH)) None (Some 0);
          case p2p_ie of None \<Rightarrow> Some (IEs, IELength)
          | Some p \<Rightarrow> do {
              let p2p_ielen_ori = of_nat (the l);
              (p2p_ielen, IEs) \<leftarrow> p2p_attr_remove IEs p p2p_ielen_ori attr_id;
              if p2p_ielen = p2p_ielen_ori then Some (IEs, IELength)
              else do {
                let next_ie_ori = p + unat p2p_ielen_ori;
                let next_ie = p + unat p2p_ielen;
                let remain_len = IELength - of_nat next_ie_ori;
                s \<leftarrow> rdn IEs next_ie_ori (unat remain_len);
                IEs \<leftarrow> wrn IEs next_ie s;
                IEs \<leftarrow> memset_at IEs (next_ie + unat remain_len) 0 (unat (p2p_ielen_ori - p2p_ielen));
                Some (IEs, IELength - (p2p_ielen_ori - p2p_ielen)) } } }"

section \<open>Attributes and their encodings\<close>

definition be_bytes :: "u16 \<Rightarrow> bytes" where "be_bytes w = [ucast (drop_bit 8 w), ucast w]"

type_synonym 'i attr = "'i \<times> bytes"

definition wps_attr_enc :: "u16 attr \<Rightarrow> bytes" where
  "wps_attr_enc x = be_bytes (fst x) @ be_bytes (of_nat (length (snd x))) @ snd x"

definition p2p_attr_enc :: "u8 attr \<Rightarrow> bytes" where
  "p2p_attr_enc x = fst x # RTW_PUT_LE16 (of_nat (length (snd x))) @ snd x"

definition wfd_attr_enc :: "u8 attr \<Rightarrow> bytes" where
  "wfd_attr_enc x = fst x # be_bytes (of_nat (length (snd x))) @ snd x"

text \<open>The 16-bit length of the whole attribute has to exist.\<close>

definition wps_attr_wf :: "u16 attr \<Rightarrow> bool" where "wps_attr_wf x \<longleftrightarrow> length (snd x) + 4 < 65536"
definition p2p_attr_wf :: "u8 attr \<Rightarrow> bool" where "p2p_attr_wf x \<longleftrightarrow> length (snd x) + 3 < 65536"
definition wfd_attr_wf :: "u8 attr \<Rightarrow> bool" where "wfd_attr_wf x \<longleftrightarrow> length (snd x) < 65536"

lemma length_be_bytes [simp]: "length (be_bytes w) = 2" by (simp add: be_bytes_def)

lemma join_bytes16: "push_bit 8 (ucast (ucast (drop_bit 8 w) :: u8)) OR ucast (ucast w :: u8) = (w :: u16)"
  by (rule bit_word_eqI) (auto simp: bit_simps)

lemma join_bytes16_mask: "push_bit 8 (ucast (ucast (drop_bit 8 w) :: u8)) OR ucast (ucast (w AND 0xFF) :: u8) = (w :: u16)"
proof -
  have m: "(0xFF :: u16) = mask 8" by (simp add: mask_eq_exp_minus_1)
  show ?thesis unfolding m by (intro bit_word_eqI) (auto simp: bit_simps)
qed

lemma BE16_at: "RTW_GET_BE16 (pre @ be_bytes w @ post) (length pre) = Some w"
  by (simp add: RTW_GET_BE16_def be_bytes_def rd_def nth_append join_bytes16)

lemma LE16_at: "RTW_GET_LE16 (pre @ RTW_PUT_LE16 w @ post) (length pre) = Some w"
  by (simp add: RTW_GET_LE16_def RTW_PUT_LE16_def rd_def nth_append join_bytes16_mask)


lemma unat_attr_len: "n + k < 65536 \<Longrightarrow> unat (of_nat n + of_nat k :: u16) = n + k"
  by (simp only: of_nat_add [symmetric] unat_of_nat) simp

lemma wps_attr_step_enc:
  assumes "wps_attr_wf x"
  shows "wps_attr_step (pre @ wps_attr_enc x @ post) i (length pre) =
    Some (if fst x = i then Inl (length pre, of_nat (length (wps_attr_enc x))) else Inr (length pre + length (wps_attr_enc x)))"
proof -
  have "RTW_GET_BE16 (pre @ wps_attr_enc x @ post) (length pre) = Some (fst x)"
    using BE16_at [of pre "fst x"] by (simp add: wps_attr_enc_def)
  moreover have "RTW_GET_BE16 (pre @ wps_attr_enc x @ post) (length pre + 2) = Some (of_nat (length (snd x)))"
    using BE16_at [of "pre @ be_bytes (fst x)" "of_nat (length (snd x))" "snd x @ post"] by (simp add: wps_attr_enc_def)
  moreover have "length (wps_attr_enc x) = length (snd x) + 4" by (simp add: wps_attr_enc_def)
  ultimately show ?thesis
    using assms unat_attr_len [of "length (snd x)" 4] by (simp add: wps_attr_step_def wps_attr_wf_def)
qed

lemma p2p_attr_step_enc:
  assumes "p2p_attr_wf x"
  shows "p2p_attr_step (pre @ p2p_attr_enc x @ post) i (length pre) =
    Some (if fst x = i then Inl (length pre, of_nat (length (p2p_attr_enc x))) else Inr (length pre + length (p2p_attr_enc x)))"
proof -
  have "RTW_GET_LE16 (pre @ p2p_attr_enc x @ post) (length pre + 1) = Some (of_nat (length (snd x)))"
    using LE16_at [of "pre @ [fst x]" "of_nat (length (snd x))" "snd x @ post"] by (simp add: p2p_attr_enc_def)
  moreover have "length (p2p_attr_enc x) = length (snd x) + 3" by (simp add: p2p_attr_enc_def RTW_PUT_LE16_def)
  moreover have "rd (pre @ p2p_attr_enc x @ post) (length pre) = Some (fst x)" by (simp add: rd_def p2p_attr_enc_def)
  ultimately show ?thesis
    using assms unat_attr_len [of "length (snd x)" 3] by (simp add: p2p_attr_step_def p2p_attr_wf_def)
qed

lemma wfd_attr_step_enc:
  assumes "wfd_attr_wf x"
  shows "wfd_attr_step (pre @ wfd_attr_enc x @ post) i (length pre) =
    Some (if fst x = i then Inl (length pre, of_nat (length (snd x))) else Inr (length pre + length (wfd_attr_enc x)))"
proof -
  have "RTW_GET_BE16 (pre @ wfd_attr_enc x @ post) (length pre + 1) = Some (of_nat (length (snd x)))"
    using BE16_at [of "pre @ [fst x]" "of_nat (length (snd x))" "snd x @ post"] by (simp add: wfd_attr_enc_def)
  moreover have "length (wfd_attr_enc x) = length (snd x) + 3" by (simp add: wfd_attr_enc_def)
  moreover have "rd (pre @ wfd_attr_enc x @ post) (length pre) = Some (fst x)" by (simp add: rd_def wfd_attr_enc_def)
  ultimately show ?thesis
    using assms by (simp add: wfd_attr_step_def wfd_attr_wf_def unat_of_nat)
qed

interpretation wps_attr: tlv_search wps_attr_enc wps_attr_wf "\<lambda>buf. wps_attr_step buf i" "\<lambda>x. fst x = i"
    "\<lambda>k x. (k, of_nat (length (wps_attr_enc x)))" for i
  by unfold_locales (simp_all add: wps_attr_step_enc, simp add: wps_attr_enc_def be_bytes_def)

interpretation p2p_attr: tlv_search p2p_attr_enc p2p_attr_wf "\<lambda>buf. p2p_attr_step buf i" "\<lambda>x. fst x = i"
    "\<lambda>k x. (k, of_nat (length (p2p_attr_enc x)))" for i
  by unfold_locales (simp_all add: p2p_attr_step_enc, simp add: p2p_attr_enc_def)

interpretation wfd_attr: tlv_search wfd_attr_enc wfd_attr_wf "\<lambda>buf. wfd_attr_step buf i" "\<lambda>x. fst x = i"
    "\<lambda>k x. (k, of_nat (length (snd x)))" for i
  by unfold_locales (simp_all add: wfd_attr_step_enc, simp add: wfd_attr_enc_def)

text \<open>A vendor element with attributes.\<close>

definition vendor_enc :: "bytes \<Rightarrow> bytes \<Rightarrow> bytes" where
  "vendor_enc oui body = VENDOR_SPECIFIC_IE # of_nat (length body + 4) # oui @ body"

lemma vendor_at_enc:
  assumes "length oui = 4" "length oui' = 4"
  shows "vendor_at oui (pre @ vendor_enc oui' body @ post) (length pre) = Some (oui' = oui)"
  using assms by (auto simp: vendor_at_def vendor_enc_def rd_def rtw_memcmp_def rdn_def)


lemma rdn_at: "rdn (a @ b @ c) (length a) (length b) = Some b"
  by (simp add: rdn_def)

lemma wrn_front: "length s \<le> length d \<Longrightarrow> wrn d 0 s = Some (s @ drop (length s) d)"
  by (simp add: wrn_def)

lemma rdn_found:
  assumes k: "seek enc hit (length pre) xs = Some (k, x)" and e: "enc x = hdr @ d" "length hdr = h"
  shows "rdn (pre @ enc_all enc xs @ post) (k + h) (length d) = Some d"
proof -
  obtain ys zs where "xs = ys @ x # zs" "k = length pre + length (enc_all enc ys)" using seek_Some [OF k] by blast
  then show ?thesis using rdn_at [of "pre @ enc_all enc ys @ hdr" d "enc_all enc zs @ post"] e by (simp add: add.assoc)
qed

text \<open>What the searches for the content of an attribute answer.\<close>

definition content_answer :: "nat \<Rightarrow> bytes \<Rightarrow> (nat \<times> 'i attr) option \<Rightarrow> nat option \<times> bytes option \<times> u32 option" where
  "content_answer h d r = (case r of None \<Rightarrow> (None, Some d, Some 0)
     | Some (k, x) \<Rightarrow> (Some (k + h), Some (snd x @ drop (length (snd x)) d), Some (of_nat (length (snd x)))))"

lemma attr_len_words:
  assumes "n + k < 65536" "0 < k"
  shows "ucast (of_nat (n + k) :: u16) = (of_nat n + of_nat k :: u32)" "(of_nat n + of_nat k :: u32) \<noteq> 0"
    "unat (of_nat n :: u32) = n"
  using assms by (simp_all add: word_unat_eq_iff unsigned_ucast_eq take_bit_eq_mod unat_of_nat unat_word_ariths)

lemma wps_content:
  assumes wf: "\<forall>x \<in> set xs. wps_attr_wf x" and d: "\<forall>x \<in> set xs. length (snd x) \<le> length d"
  shows "rtw_get_wps_attr_content (pre @ vendor_enc wps_oui (enc_all wps_attr_enc xs) @ post) (length pre)
      (length (vendor_enc wps_oui (enc_all wps_attr_enc xs))) i (Some d) (Some n)
    = Some (content_answer 4 d (seek wps_attr_enc (\<lambda>x. fst x = i) (length pre + 6) xs))"
proof -
  let ?hdr = "VENDOR_SPECIFIC_IE # of_nat (length (enc_all wps_attr_enc xs) + 4) # wps_oui"
  let ?buf = "pre @ vendor_enc wps_oui (enc_all wps_attr_enc xs) @ post"
  have buf: "?buf = (pre @ ?hdr) @ enc_all wps_attr_enc xs @ post" by (simp add: vendor_enc_def)
  have len: "length pre + length (vendor_enc wps_oui (enc_all wps_attr_enc xs)) = length (pre @ ?hdr) + length (enc_all wps_attr_enc xs)"
    "length pre + 6 = length (pre @ ?hdr)" by (simp_all add: vendor_enc_def wps_oui_def)
  have v: "vendor_at wps_oui ?buf (length pre) = Some True" by (simp add: vendor_at_enc wps_oui_def)
  note loop = wps_attr.loop_seeks [OF wf, of "pre @ ?hdr" post i]
  show ?thesis
  proof (cases "seek wps_attr_enc (\<lambda>x. fst x = i) (length (pre @ ?hdr)) xs")
    case None
    then show ?thesis using loop v
      unfolding rtw_get_wps_attr_content_def rtw_get_wps_attr_def len buf [symmetric]
      by (simp add: content_found_def content_answer_def)
  next
    case (Some kx)
    obtain k x where kx: "seek wps_attr_enc (\<lambda>x. fst x = i) (length (pre @ ?hdr)) xs = Some (k, x)" using Some by (cases kx) auto
    have x: "x \<in> set xs" using seek_Some [OF kx] by auto
    have r: "rdn ?buf (k + 4) (length (snd x)) = Some (snd x)"
      unfolding buf by (rule rdn_found [OF kx, of "be_bytes (fst x) @ be_bytes (of_nat (length (snd x)))"]) (simp_all add: wps_attr_enc_def)
    have l: "length (wps_attr_enc x) = length (snd x) + 4" "length (snd x) + 4 < 65536" using wf x by (auto simp: wps_attr_enc_def wps_attr_wf_def)
    note u = attr_len_words [OF l(2)]
    show ?thesis using loop v kx u r d x
      unfolding rtw_get_wps_attr_content_def rtw_get_wps_attr_def len buf [symmetric]
      by (simp add: l(1) attr_found_def content_found_def content_answer_def wrn_front)
  qed
qed


lemma p2p_attr_seek:
  assumes wf: "\<forall>x \<in> set xs. p2p_attr_wf x"
  shows "rtw_get_p2p_attr (Some (pre @ vendor_enc p2p_oui (enc_all p2p_attr_enc xs) @ post)) (length pre)
      (length (vendor_enc p2p_oui (enc_all p2p_attr_enc xs))) i None (Some n)
    = Some (case seek p2p_attr_enc (\<lambda>x. fst x = i) (length pre + 6) xs of None \<Rightarrow> (None, None, Some 0)
        | Some (k, x) \<Rightarrow> (Some k, None, Some (of_nat (length (snd x) + 3))))"
proof -
  let ?hdr = "VENDOR_SPECIFIC_IE # of_nat (length (enc_all p2p_attr_enc xs) + 4) # p2p_oui"
  let ?buf = "pre @ vendor_enc p2p_oui (enc_all p2p_attr_enc xs) @ post"
  have buf: "?buf = (pre @ ?hdr) @ enc_all p2p_attr_enc xs @ post" by (simp add: vendor_enc_def)
  have len: "length pre + length (vendor_enc p2p_oui (enc_all p2p_attr_enc xs)) = length (pre @ ?hdr) + length (enc_all p2p_attr_enc xs)"
    "length pre + 6 = length (pre @ ?hdr)" by (simp_all add: vendor_enc_def p2p_oui_def)
  have v: "vendor_at p2p_oui ?buf (length pre) = Some True" by (simp add: vendor_at_enc p2p_oui_def)
  note loop = p2p_attr.loop_seeks [OF wf, of "pre @ ?hdr" post i]
  show ?thesis
  proof (cases "seek p2p_attr_enc (\<lambda>x. fst x = i) (length (pre @ ?hdr)) xs")
    case None
    then show ?thesis using loop v unfolding rtw_get_p2p_attr_def len buf [symmetric] by simp
  next
    case (Some kx)
    obtain k x where kx: "seek p2p_attr_enc (\<lambda>x. fst x = i) (length (pre @ ?hdr)) xs = Some (k, x)" using Some by (cases kx) auto
    have x: "x \<in> set xs" using seek_Some [OF kx] by auto
    have l: "length (p2p_attr_enc x) = length (snd x) + 3" "length (snd x) + 3 < 65536"
      using wf x by (auto simp: p2p_attr_enc_def RTW_PUT_LE16_def p2p_attr_wf_def)
    show ?thesis using loop v kx attr_len_words [OF l(2)]
      unfolding rtw_get_p2p_attr_def len buf [symmetric] by (simp add: l(1) attr_found_def)
  qed
qed

lemma p2p_content:
  assumes wf: "\<forall>x \<in> set xs. p2p_attr_wf x" and d: "\<forall>x \<in> set xs. length (snd x) \<le> length d"
  shows "rtw_get_p2p_attr_content (Some (pre @ vendor_enc p2p_oui (enc_all p2p_attr_enc xs) @ post)) (length pre)
      (length (vendor_enc p2p_oui (enc_all p2p_attr_enc xs))) i (Some d) (Some n)
    = Some (content_answer 3 d (seek p2p_attr_enc (\<lambda>x. fst x = i) (length pre + 6) xs))"
proof (cases "seek p2p_attr_enc (\<lambda>x. fst x = i) (length pre + 6) xs")
  case None
  then show ?thesis using p2p_attr_seek [OF wf, of pre post i 0]
    by (simp add: rtw_get_p2p_attr_content_def content_found_def content_answer_def)
next
  case (Some kx)
  let ?hdr = "VENDOR_SPECIFIC_IE # of_nat (length (enc_all p2p_attr_enc xs) + 4) # p2p_oui"
  obtain k x where kx: "seek p2p_attr_enc (\<lambda>x. fst x = i) (length pre + 6) xs = Some (k, x)" using Some by (cases kx) auto
  have lh: "length (pre @ ?hdr) = length pre + 6" by (simp add: p2p_oui_def)
  have kx': "seek p2p_attr_enc (\<lambda>x. fst x = i) (length (pre @ ?hdr)) xs = Some (k, x)" unfolding lh by (rule kx)
  have x: "x \<in> set xs" using seek_Some [OF kx] by auto
  have r: "rdn (pre @ vendor_enc p2p_oui (enc_all p2p_attr_enc xs) @ post) (k + 3) (length (snd x)) = Some (snd x)"
    using rdn_found [OF kx', of "fst x # RTW_PUT_LE16 (of_nat (length (snd x)))" "snd x" 3 post]
    by (simp add: p2p_attr_enc_def vendor_enc_def)
  have l: "length (snd x) + 3 < 65536" using wf x by (simp add: p2p_attr_wf_def)
  show ?thesis using p2p_attr_seek [OF wf, of pre post i 0] kx attr_len_words [OF l] r d x
    by (simp add: rtw_get_p2p_attr_content_def content_found_def content_answer_def wrn_front)
qed

lemma wfd_content:
  assumes wf: "\<forall>x \<in> set xs. wfd_attr_wf x" and d: "\<forall>x \<in> set xs. length (snd x) \<le> length d"
  shows "rtw_get_wfd_attr_content (pre @ vendor_enc wfd_oui (enc_all wfd_attr_enc xs) @ post) (length pre)
      (length (vendor_enc wfd_oui (enc_all wfd_attr_enc xs))) i (Some d) (Some n)
    = Some (case find (\<lambda>x. fst x = i) xs of None \<Rightarrow> (False, Some d, Some n)
        | Some x \<Rightarrow> (True, Some (snd x @ drop (length (snd x)) d), Some (of_nat (length (snd x)))))"
proof -
  let ?hdr = "VENDOR_SPECIFIC_IE # of_nat (length (enc_all wfd_attr_enc xs) + 4) # wfd_oui"
  let ?buf = "pre @ vendor_enc wfd_oui (enc_all wfd_attr_enc xs) @ post"
  have buf: "?buf = (pre @ ?hdr) @ enc_all wfd_attr_enc xs @ post" by (simp add: vendor_enc_def)
  have len: "length pre + length (vendor_enc wfd_oui (enc_all wfd_attr_enc xs)) = length (pre @ ?hdr) + length (enc_all wfd_attr_enc xs)"
    "length pre + 6 = length (pre @ ?hdr)" by (simp_all add: vendor_enc_def wfd_oui_def)
  have v: "vendor_at wfd_oui ?buf (length pre) = Some True" by (simp add: vendor_at_enc wfd_oui_def)
  have f: "find (\<lambda>x. fst x = i) xs = map_option snd (seek wfd_attr_enc (\<lambda>x. fst x = i) off xs)" for off
    by (induction xs arbitrary: off) auto
  note loop = wfd_attr.loop_seeks [OF wf, of "pre @ ?hdr" post i]
  show ?thesis
  proof (cases "seek wfd_attr_enc (\<lambda>x. fst x = i) (length (pre @ ?hdr)) xs")
    case None
    then show ?thesis using loop v f [of "length (pre @ ?hdr)"]
      unfolding rtw_get_wfd_attr_content_def len buf [symmetric] by simp
  next
    case (Some kx)
    obtain k x where kx: "seek wfd_attr_enc (\<lambda>x. fst x = i) (length (pre @ ?hdr)) xs = Some (k, x)" using Some by (cases kx) auto
    have x: "x \<in> set xs" using seek_Some [OF kx] by auto
    have r: "rdn ?buf (k + 3) (length (snd x)) = Some (snd x)"
      unfolding buf by (rule rdn_found [OF kx, of "fst x # be_bytes (of_nat (length (snd x)))"]) (simp_all add: wfd_attr_enc_def)
    have l: "length (snd x) < 65536" using wf x by (simp add: wfd_attr_wf_def)
    have u: "ucast (of_nat (length (snd x)) :: u16) = (of_nat (length (snd x)) :: u32)" "unat (of_nat (length (snd x)) :: u16) = length (snd x)"
      using l by (simp_all add: word_unat_eq_iff unsigned_ucast_eq take_bit_eq_mod unat_of_nat)
    show ?thesis using loop v kx u r d x f [of "length (pre @ ?hdr)"]
      unfolding rtw_get_wfd_attr_content_def len buf [symmetric] by (simp add: wrn_front)
  qed
qed


section \<open>Removing attributes\<close>

lemma wrn_at: "length b = length xs \<Longrightarrow> n = length a \<Longrightarrow> wrn (a @ b @ c) n xs = Some (a @ xs @ c)"
  by (simp add: wrn_middle)

lemma shift_down:
  fixes A X Z post :: bytes
  assumes t: "t = length A" and n: "n = length X" and r: "r = length Z"
  obtains b where "rdn (A @ X @ Z @ post) (t + n) r = Some Z" "wrn (A @ X @ Z @ post) t Z = Some b"
    "memset_at b (t + r) 0 n = Some (A @ Z @ replicate n 0 @ post)"
proof
  define T where "T = drop r (X @ Z)"
  have T: "length T = n" by (simp add: T_def r n)
  show "rdn (A @ X @ Z @ post) (t + n) r = Some Z"
    using rdn_at [of "A @ X" Z post] by (simp add: t n r)
  have e: "X @ Z = take r (X @ Z) @ T" unfolding T_def by (rule append_take_drop_id [symmetric])
  have "wrn (A @ take r (X @ Z) @ T @ post) t Z = Some (A @ Z @ T @ post)"
    by (rule wrn_at) (simp_all add: t r)
  then show "wrn (A @ X @ Z @ post) t Z = Some (A @ Z @ T @ post)" using e by (metis append.assoc)
  show "memset_at (A @ Z @ T @ post) (t + r) 0 n = Some (A @ Z @ replicate n 0 @ post)"
    using wrn_at [of T "replicate n 0" "t + r" "A @ Z" post] by (simp add: memset_at_def t r T)
qed

lemma length_p2p_attr_enc [simp]: "length (p2p_attr_enc x) = length (snd x) + 3"
  by (simp add: p2p_attr_enc_def RTW_PUT_LE16_def)

lemma length_vendor_enc: "length oui = 4 \<Longrightarrow> length (vendor_enc oui b) = length b + 6"
  by (simp add: vendor_enc_def)

lemma p2p_attrs_wf: "length (enc_all p2p_attr_enc xs) + 4 < 256 \<Longrightarrow> \<forall>x \<in> set xs. p2p_attr_wf x"
  by (induction xs) (auto simp: p2p_attr_wf_def)

definition p2p_attrs :: "u8 attr list \<Rightarrow> bytes" where
  "p2p_attrs xs = enc_all p2p_attr_enc xs"

text \<open>One attribute is taken out; what follows moves up, and zeros fill the end.\<close>

lemma p2p_attr_remove_step:
  assumes n: "length (p2p_attrs (ys @ x # zs)) + 4 < 256" and x: "fst x = i" and ys: "\<forall>y \<in> set ys. fst y \<noteq> i"
  shows "p2p_attr_remove (pre @ vendor_enc p2p_oui (p2p_attrs (ys @ x # zs)) @ post) (length pre)
      (of_nat (length (vendor_enc p2p_oui (p2p_attrs (ys @ x # zs))))) i
    = p2p_attr_remove (pre @ vendor_enc p2p_oui (p2p_attrs (ys @ zs)) @ replicate (length (snd x) + 3) 0 @ post) (length pre)
      (of_nat (length (vendor_enc p2p_oui (p2p_attrs (ys @ zs))))) i"
proof -
  let ?xs = "ys @ x # zs" and ?n = "length (snd x) + 3" and ?H = "\<lambda>m. VENDOR_SPECIFIC_IE # of_nat m # p2p_oui"
  let ?buf = "pre @ vendor_enc p2p_oui (p2p_attrs ?xs) @ post"
  define k where "k = length pre + 6 + length (p2p_attrs ys)"
  have lV: "length (vendor_enc p2p_oui b) = length b + 6" for b by (simp add: length_vendor_enc p2p_oui_def)
  have L: "length (p2p_attrs ?xs) = length (p2p_attrs ys) + ?n + length (p2p_attrs zs)" by (simp add: p2p_attrs_def)
  have seek: "seek p2p_attr_enc (\<lambda>x. fst x = i) (length pre + 6) ?xs = Some (k, x)"
    using ys x by (simp add: seek_append_miss p2p_attrs_def k_def)
  have wf: "\<forall>x \<in> set ?xs. p2p_attr_wf x" using n unfolding p2p_attrs_def by (rule p2p_attrs_wf)
  note s = p2p_attr_seek [OF wf, of pre post i 0, folded p2p_attrs_def, unfolded lV seek]
  have un: "unat (of_nat (length (p2p_attrs ?xs) + 6) :: u32) = length (p2p_attrs ?xs) + 6" "(of_nat ?n :: u32) \<noteq> 0" "unat (of_nat ?n :: u32) = ?n"
    using n L by (simp_all add: word_unat_eq_iff unat_of_nat del: of_nat_add)
  have rl: "unat ((of_nat (length (p2p_attrs ?xs) + 6) :: u32) - of_nat (k + ?n - length pre)) = length (p2p_attrs zs)"
  proof -
    have "k + ?n - length pre = length (p2p_attrs ys) + ?n + 6" by (simp add: k_def)
    moreover have "(of_nat (length (p2p_attrs ?xs) + 6) :: u32) = of_nat (length (p2p_attrs ys) + ?n + 6) + of_nat (length (p2p_attrs zs))" by (simp add: L)
    ultimately show ?thesis using n L by (simp add: unat_of_nat del: of_nat_add)
  qed
  define A where "A = pre @ ?H (length (p2p_attrs ?xs) + 4) @ p2p_attrs ys"
  have A: "k = length A" by (simp add: A_def p2p_oui_def k_def)
  have buf: "?buf = A @ p2p_attr_enc x @ p2p_attrs zs @ post" by (simp add: vendor_enc_def A_def p2p_attrs_def)
  have m: "memset_at ?buf k 0 ?n = Some (A @ replicate ?n 0 @ p2p_attrs zs @ post)"
    unfolding memset_at_def buf by (rule wrn_at) (simp_all add: A)
  obtain b where sh: "rdn (A @ replicate ?n 0 @ p2p_attrs zs @ post) (k + ?n) (length (p2p_attrs zs)) = Some (p2p_attrs zs)"
      "wrn (A @ replicate ?n 0 @ p2p_attrs zs @ post) k (p2p_attrs zs) = Some b"
      "memset_at b (k + length (p2p_attrs zs)) 0 ?n = Some (A @ p2p_attrs zs @ replicate ?n 0 @ post)"
    using shift_down [OF A, of ?n "replicate ?n 0" _ "p2p_attrs zs" post] by auto
  have n8: "rd (A @ p2p_attrs zs @ replicate ?n 0 @ post) (length pre + 1) = Some (of_nat (length (p2p_attrs ?xs) + 4))"
    by (simp add: A_def rd_def nth_append)
  have "ucast (of_nat ?n :: u32) = (of_nat ?n :: u8)" using n L
    by (simp add: word_unat_eq_iff unsigned_ucast_eq take_bit_eq_mod unat_of_nat del: of_nat_add)
  then have d8: "(of_nat (length (p2p_attrs ?xs) + 4) :: u8) - ucast (of_nat ?n :: u32) = of_nat (length (p2p_attrs (ys @ zs)) + 4)"
    by (simp add: L p2p_attrs_def)
  have w8: "wrn (A @ p2p_attrs zs @ replicate ?n 0 @ post) (length pre + 1) [of_nat (length (p2p_attrs ?xs) + 4) - ucast (of_nat ?n :: u32)]
      = Some (pre @ vendor_enc p2p_oui (p2p_attrs (ys @ zs)) @ replicate ?n 0 @ post)"
    unfolding d8 using wrn_at [of "[of_nat (length (p2p_attrs ?xs) + 4)]" "[of_nat (length (p2p_attrs (ys @ zs)) + 4)]" "length pre + 1" "pre @ [VENDOR_SPECIFIC_IE]"
        "p2p_oui @ p2p_attrs ys @ p2p_attrs zs @ replicate ?n 0 @ post"]
    by (simp add: A_def vendor_enc_def) (simp add: p2p_attrs_def)
  have il: "(of_nat (length (p2p_attrs ?xs) + 6) :: u32) - of_nat ?n = of_nat (length (p2p_attrs (ys @ zs)) + 6)" by (simp add: L p2p_attrs_def)
  show ?thesis using m sh n8 w8 s
    by (subst p2p_attr_remove.simps) (simp add: lV un rl il Let_def del: of_nat_add)
qed

lemma p2p_attr_remove_filters:
  assumes "length (p2p_attrs xs) + 4 < 256"
  shows "p2p_attr_remove (pre @ vendor_enc p2p_oui (p2p_attrs xs) @ post) (length pre) (of_nat (length (vendor_enc p2p_oui (p2p_attrs xs)))) i
    = (let ys = filter (\<lambda>x. fst x \<noteq> i) xs; e = vendor_enc p2p_oui (p2p_attrs ys) in
       Some (of_nat (length e), pre @ e @ replicate (length (p2p_attrs xs) - length (p2p_attrs ys)) 0 @ post))"
  using assms
proof (induction "length xs" arbitrary: xs post rule: less_induct)
  case less
  have lV: "length (vendor_enc p2p_oui b) = length b + 6" for b by (simp add: length_vendor_enc p2p_oui_def)
  show ?case
  proof (cases "seek p2p_attr_enc (\<lambda>x. fst x = i) (length pre + 6) xs")
    case None
    have "unat (of_nat (length (p2p_attrs xs) + 6) :: u32) = length (p2p_attrs xs) + 6" using less.prems by (simp add: unat_of_nat del: of_nat_add)
    moreover have "filter (\<lambda>x. fst x \<noteq> i) xs = xs" using None by (simp add: seek_None filter_id_conv)
    moreover note p2p_attr_seek [OF p2p_attrs_wf, of xs pre post i 0, folded p2p_attrs_def, unfolded lV None, OF less.prems]
    ultimately show ?thesis by (subst p2p_attr_remove.simps) (simp add: lV Let_def del: of_nat_add)
  next
    case (Some kx)
    then obtain ys x zs where yz: "xs = ys @ x # zs" "fst x = i" "\<forall>y \<in> set ys. fst y \<noteq> i"
      by (cases kx) (auto dest!: seek_Some)
    note step = p2p_attr_remove_step [of ys x zs i pre post, folded p2p_attrs_def, OF less.prems [unfolded yz(1)] yz(2,3), folded yz(1)]
    have f: "filter (\<lambda>x. fst x \<noteq> i) (ys @ zs) = filter (\<lambda>x. fst x \<noteq> i) xs" by (simp add: yz(1,2))
    have L: "length (p2p_attrs xs) = length (p2p_attrs (ys @ zs)) + (length (snd x) + 3)" by (simp add: yz(1) p2p_attrs_def)
    have le: "length (p2p_attrs (filter P us)) \<le> length (p2p_attrs us)" for P us by (induction us) (auto simp: p2p_attrs_def)
    have "length (p2p_attrs (ys @ zs)) - length (p2p_attrs (filter (\<lambda>x. fst x \<noteq> i) xs)) + (length (snd x) + 3)
        = length (p2p_attrs xs) - length (p2p_attrs (filter (\<lambda>x. fst x \<noteq> i) xs))"
      unfolding L f [symmetric] using le by (rule Nat.add_diff_assoc2)
    moreover have "length (p2p_attrs (ys @ zs)) + 4 < 256" "length (ys @ zs) < length xs" using less.prems L by (auto simp: yz(1))
    ultimately show ?thesis
      using less.hyps [of "ys @ zs" "replicate (length (snd x) + 3) 0 @ post"] unfolding step f Let_def
      by (simp add: replicate_add [symmetric])
  qed
qed

section \<open>Vendor elements in a sequence of elements\<close>

lemma vendor_step_ie_ex: "vendor_step oui buf p = get_ie_ex_step buf VENDOR_SPECIFIC_IE (Some oui) 4 p"
  by (simp add: vendor_step_def vendor_at_def get_ie_ex_step_def eq_commute [of _ VENDOR_SPECIFIC_IE] cong: if_cong)

lemma rtw_get_wps_ie_is_get_ie_ex:
  "rtw_get_wps_ie buf in_ie in_len wps_ie wps_ielen = rtw_get_ie_ex buf in_ie in_len VENDOR_SPECIFIC_IE (Some wps_oui) 4 wps_ie wps_ielen"
  unfolding rtw_get_wps_ie_def rtw_get_ie_ex_def vendor_found_def vendor_step_ie_ex [abs_def] Let_def
  by (auto split: option.splits intro!: option.case_cong bind_option_cong)


lemma vendor_step_advances: "vendor_step oui buf p = Some (Inr q) \<Longrightarrow> p < q"
  by (auto simp: vendor_step_def split: bind_splits if_splits)

lemma p2p_scan:
  assumes "limit \<le> in_ie + MAX_IE_SZ" "0 \<le> in_len" "in_ie \<le> p"
  shows "scan_loop (p2p_step buf in_ie in_len) limit p = map_option (map_option Some) (scan_loop (vendor_step p2p_oui buf) limit p)"
  using assms(3)
proof (induction "limit - p" arbitrary: p rule: less_induct)
  case less
  show ?case
  proof (cases "p < limit")
    case False
    then show ?thesis by (simp add: scan_loop_end)
  next
    case True
    have g: "\<not> (in_len < 0 \<or> p - in_ie > MAX_IE_SZ)" using True assms less.prems by auto
    have e: "p2p_step buf in_ie in_len p = map_option (map_sum Some (\<lambda>q. q)) (vendor_step p2p_oui buf p)"
      using g by (cases "rd buf p") (auto simp: p2p_step_def vendor_step_def vendor_at_def split: bind_splits)
    show ?thesis
    proof (cases "vendor_step p2p_oui buf p")
      case None
      then show ?thesis using True e by (simp add: scan_loop_fault)
    next
      case (Some r)
      show ?thesis
      proof (cases r)
        case (Inl a)
        then show ?thesis using True e Some by (simp add: scan_loop_hit)
      next
        case (Inr q)
        then have q: "p < q" using vendor_step_advances Some by simp
        have "scan_loop (p2p_step buf in_ie in_len) limit q = map_option (map_option Some) (scan_loop (vendor_step p2p_oui buf) limit q)"
          using q True less.prems by (intro less.hyps) auto
        then show ?thesis using True e Some Inr by (simp add: scan_loop_next)
      qed
    qed
  qed
qed

lemma rtw_get_p2p_ie_is_get_ie_ex:
  assumes "n \<le> MAX_IE_SZ"
  shows "rtw_get_p2p_ie buf in_ie (int n) p2p_ie p2p_ielen = rtw_get_ie_ex (Some buf) in_ie n VENDOR_SPECIFIC_IE (Some p2p_oui) 4 p2p_ie p2p_ielen"
proof (cases "n = 0")
  case True
  then show ?thesis by (simp add: rtw_get_p2p_ie_def rtw_get_ie_ex_def scan_loop_end)
next
  case False
  have "unat (of_int (int n) :: u32) = n" using assms by (simp add: MAX_IE_SZ_def unat_of_nat)
  then show ?thesis
    using p2p_scan [of "in_ie + n" in_ie "int n" in_ie buf] assms False
    unfolding rtw_get_p2p_ie_def rtw_get_ie_ex_def vendor_found_def vendor_step_ie_ex [abs_def] Let_def
    by (cases "scan_loop (get_ie_ex_step buf VENDOR_SPECIFIC_IE (Some p2p_oui) 4) (in_ie + n) in_ie")
      (auto split: option.splits intro!: option.case_cong bind_option_cong)
qed

abbreviation p2p_elem_wf :: "ie \<Rightarrow> bool" where
  "p2p_elem_wf \<equiv> ie_oui_wf VENDOR_SPECIFIC_IE (Some p2p_oui) 4"

abbreviation is_p2p :: "ie \<Rightarrow> bool" where
  "is_p2p \<equiv> ie_match VENDOR_SPECIFIC_IE (Some p2p_oui) 4"

lemma vendor_enc_ie: "length oui = 4 \<Longrightarrow> vendor_enc oui b = ie_enc (VENDOR_SPECIFIC_IE, oui @ b)"
  by (simp add: vendor_enc_def ie_enc_def)

lemma find_p2p_ie:
  assumes us: "\<forall>u \<in> set us. p2p_elem_wf u \<and> \<not> is_p2p u" and ws: "\<forall>u \<in> set ws. p2p_elem_wf u"
    and b: "length b + 4 < 256" and n: "length (enc_all ie_enc us) + length (vendor_enc p2p_oui b) + length (enc_all ie_enc ws) \<le> MAX_IE_SZ"
  shows "rtw_get_p2p_ie (F @ enc_all ie_enc us @ vendor_enc p2p_oui b @ enc_all ie_enc ws @ post) (length F)
      (int (length (enc_all ie_enc us) + length (vendor_enc p2p_oui b) + length (enc_all ie_enc ws))) None (Some l)
    = Some (Some (length F + length (enc_all ie_enc us)), None, Some (length b + 6))"
proof -
  let ?v = "(VENDOR_SPECIFIC_IE, p2p_oui @ b) :: ie"
  have o: "length p2p_oui = 4" by (simp add: p2p_oui_def)
  have v: "vendor_enc p2p_oui b = ie_enc ?v" using o by (rule vendor_enc_ie)
  have wf: "\<forall>x \<in> set (us @ ?v # ws). p2p_elem_wf x"
    using us ws b o by (auto simp: ie_oui_wf_def ie_wf_def)
  have "seek ie_enc is_p2p (length F) (us @ ?v # ws) = Some (length F + length (enc_all ie_enc us), ?v)"
    using us o by (subst seek_append_miss) (auto simp: ie_match_def)
  then show ?thesis
    using rtw_get_ie_ex_seek [OF wf, of F post l] o unfolding rtw_get_p2p_ie_is_get_ie_ex [OF n] by (simp add: v ac_simps)
qed

text \<open>Removing an attribute from the elements of a network.\<close>

lemma remove_p2p_attr_bss:
  fixes us ws xs i
  defines "U \<equiv> enc_all ie_enc us" and "W \<equiv> enc_all ie_enc ws" and "V \<equiv> vendor_enc p2p_oui (p2p_attrs xs)"
    and "V' \<equiv> vendor_enc p2p_oui (p2p_attrs (filter (\<lambda>x. fst x \<noteq> i) xs))"
  assumes F: "length F = FIXED_IE_LENGTH" and us: "\<forall>u \<in> set us. p2p_elem_wf u \<and> \<not> is_p2p u" and ws: "\<forall>u \<in> set ws. p2p_elem_wf u"
    and b: "length (p2p_attrs xs) + 4 < 256" and n: "length U + length V + length W \<le> MAX_IE_SZ"
  shows "rtw_WLAN_BSSID_EX_remove_p2p_attr (F @ U @ V @ W @ post) (of_nat (FIXED_IE_LENGTH + length U + length V + length W)) i
    = Some (F @ U @ V' @ W @ replicate (length V - length V') 0 @ post, of_nat (FIXED_IE_LENGTH + length U + length V' + length W))"
proof -
  let ?IEs = "F @ U @ V @ W @ post" and ?L = "FIXED_IE_LENGTH + length U + length V + length W" and ?d = "length V - length V'"
  have lV: "length (vendor_enc p2p_oui b) = length b + 6" for b by (simp add: length_vendor_enc p2p_oui_def)
  have le: "length V' \<le> length V"
    unfolding V_def V'_def lV p2p_attrs_def by (induction xs) auto
  have V: "length V < 262" using b by (simp add: V_def lV)
  have "(of_nat ?L :: u32) - of_nat FIXED_IE_LENGTH = of_nat (length U + length V + length W)" by simp
  moreover have "sint (of_nat k :: u32) = int k" if "k \<le> MAX_IE_SZ" for k
  proof -
    have "uint (of_nat k :: u32) = int k" using that by (simp add: MAX_IE_SZ_def unsigned_of_nat take_bit_nat_eq_self)
    then show ?thesis using that by (simp add: sint_uint MAX_IE_SZ_def signed_take_bit_int_eq_self)
  qed
  ultimately have s: "sint ((of_nat ?L :: u32) - of_nat FIXED_IE_LENGTH) = int (length U + length V + length W)" using n by (simp del: of_nat_add)
  have f: "rtw_get_p2p_ie ?IEs FIXED_IE_LENGTH (sint ((of_nat ?L :: u32) - of_nat FIXED_IE_LENGTH)) None (Some 0)
      = Some (Some (length (F @ U)), None, Some (length V))"
    using find_p2p_ie [OF us ws b n [unfolded U_def V_def W_def], of F post 0] unfolding s unfolding F [symmetric]
    by (simp add: U_def V_def W_def lV)
  have r: "p2p_attr_remove ?IEs (length (F @ U)) (of_nat (length V)) i = Some (of_nat (length V'), (F @ U @ V') @ replicate ?d 0 @ W @ post)"
    using p2p_attr_remove_filters [OF b, of "F @ U" "W @ post" i] by (simp add: Let_def V_def V'_def lV)
  have u: "unat (of_nat (length V) :: u32) = length V" "unat (of_nat (length V') :: u32) = length V'"
    "(of_nat (length V) :: u32) - of_nat (length V') = of_nat ?d"
    using V le by (simp_all add: unat_of_nat of_nat_diff)
  have u4: "unat (of_nat ?d :: u32) = ?d" using V by (simp only: unat_of_nat) simp
  have "(of_nat ?L :: u32) = of_nat (length (F @ U) + length V) + of_nat (length W)" by (simp add: F)
  then have rl: "unat ((of_nat ?L :: u32) - of_nat (length (F @ U) + length V)) = length W"
    using n by (simp add: unat_of_nat MAX_IE_SZ_def)
  have il: "(of_nat ?L :: u32) - of_nat ?d = of_nat (FIXED_IE_LENGTH + length U + length V' + length W)"
    using le by (simp add: of_nat_diff)
  have t: "length (F @ U) + length V' = length (F @ U @ V')" by simp
  obtain b2 where sh: "rdn ((F @ U @ V') @ replicate ?d 0 @ W @ post) (length (F @ U) + length V' + ?d) (length W) = Some W"
      "wrn ((F @ U @ V') @ replicate ?d 0 @ W @ post) (length (F @ U) + length V') W = Some b2"
      "memset_at b2 (length (F @ U) + length V' + length W) 0 ?d = Some ((F @ U @ V') @ W @ replicate ?d 0 @ post)"
    using shift_down [OF t, of ?d "replicate ?d 0" _ W post] by auto
  have d: "length (F @ U) + length V' + ?d = length (F @ U) + length V" using le by simp
  have ne: "(of_nat (length V') = (of_nat (length V) :: u32)) = (length V' = length V)" using u(1,2) by metis
  show ?thesis
    unfolding rtw_WLAN_BSSID_EX_remove_p2p_attr_def f
    using r u u4 sh [unfolded d] rl il ne
    by (cases "length V' = length V") (simp_all add: Let_def del: of_nat_add length_append)
qed


section \<open>Merging elements\<close>

definition p2p_body :: "ie list \<Rightarrow> bytes" where
  "p2p_body xs = concat (map (\<lambda>x. drop 4 (snd x)) (filter is_p2p xs))"

lemma p2p_elem_at:
  assumes "p2p_elem_wf x"
  shows "vendor_at p2p_oui (pre @ ie_enc x @ post) (length pre) = Some (is_p2p x)"
    and "rd (pre @ ie_enc x @ post) (length pre + 1) = Some (of_nat (length (snd x)))"
    and "is_p2p x \<Longrightarrow> 4 \<le> length (snd x)" and "length (snd x) < 256"
proof -
  have o: "rdn p2p_oui 0 4 = Some p2p_oui" "take 4 p2p_oui = p2p_oui" by (simp_all add: rdn_def p2p_oui_def)
  show "vendor_at p2p_oui (pre @ ie_enc x @ post) (length pre) = Some (is_p2p x)"
    "rd (pre @ ie_enc x @ post) (length pre + 1) = Some (of_nat (length (snd x)))"
    "is_p2p x \<Longrightarrow> 4 \<le> length (snd x)" "length (snd x) < 256"
    using assms rd_ie [of pre x post] rdn_ie_data [of 4 x pre post]
    by (auto simp: vendor_at_def rtw_memcmp_def ie_match_def ie_oui_wf_def ie_wf_def o)
qed

declare p2p_merged_loop.simps [simp del] p2p_merge_loop.simps [simp del]

lemma p2p_merged_loop_sum:
  assumes "\<forall>x \<in> set xs. p2p_elem_wf x"
  shows "p2p_merged_loop (pre @ enc_all ie_enc xs @ post) (length pre + length (enc_all ie_enc xs)) (length pre) len
    = Some (len + int (length (p2p_body xs)))"
  using assms
proof (induction xs arbitrary: pre len)
  case Nil
  then show ?case by (simp add: p2p_body_def p2p_merged_loop.simps p2p_merge_loop.simps)
next
  case (Cons x xs)
  then have "p2p_elem_wf x" by simp
  note e = p2p_elem_at(1,2) [OF this, of pre "enc_all ie_enc xs @ post"] p2p_elem_at(3,4) [OF this]
  have "(if is_p2p x then len + (int (length (snd x)) - 4) else len) + int (length (p2p_body xs)) = len + int (length (p2p_body (x # xs)))"
    using e(3) by (auto simp: p2p_body_def of_nat_diff)
  moreover have "length pre < length pre + length (enc_all ie_enc (x # xs))" by (simp add: ie_enc_def)
  ultimately show ?case
    using Cons.IH [of "pre @ ie_enc x" "if is_p2p x then len + (int (length (snd x)) - 4) else len"] Cons.prems e
    by (cases "is_p2p x"; subst p2p_merged_loop.simps; simp add: add.assoc)
qed

lemma p2p_merge_loop_joins:
  assumes "\<forall>x \<in> set xs. p2p_elem_wf x" "length (p2p_body xs) \<le> length rest"
  shows "p2p_merge_loop (pre @ enc_all ie_enc xs @ post) (length pre + length (enc_all ie_enc xs)) (length pre) (out @ rest) (length out) len
    = Some (len + of_nat (length (p2p_body xs)), out @ p2p_body xs @ drop (length (p2p_body xs)) rest)"
  using assms
proof (induction xs arbitrary: pre out rest len)
  case Nil
  then show ?case by (simp add: p2p_body_def p2p_merged_loop.simps p2p_merge_loop.simps)
next
  case (Cons x xs)
  then have "p2p_elem_wf x" by simp
  note e = p2p_elem_at(1,2) [OF this, of pre "enc_all ie_enc xs @ post"] p2p_elem_at(3,4) [OF this]
  have lt: "length pre < length pre + length (enc_all ie_enc (x # xs))" by (simp add: ie_enc_def)
  show ?case
  proof (cases "is_p2p x")
    case False
    then show ?thesis using Cons.IH [where pre = "pre @ ie_enc x" and rest = rest and out = out and len = len] Cons.prems e lt
      by (subst p2p_merge_loop.simps) (simp add: p2p_body_def add.assoc)
  next
    case True
    let ?d = "drop 4 (snd x)"
    have b: "p2p_body (x # xs) = ?d @ p2p_body xs" using True by (simp add: p2p_body_def)
    have n: "unat (of_nat (length (snd x)) :: u8) = length (snd x)" "\<not> (of_nat (length (snd x)) :: u8) < 4"
      "(of_nat (length (snd x)) :: u8) - 4 = of_nat (length ?d)"
      using e(3,4) True by (simp_all add: unat_of_nat word_less_nat_alt of_nat_diff)
    have td: "take 4 (snd x) @ ?d @ r = snd x @ r" for r by (metis append.assoc append_take_drop_id)
    have r: "rdn (pre @ ie_enc x @ enc_all ie_enc xs @ post) (length pre + 2 + 4) (length (snd x) - 4) = Some ?d"
      using rdn_at [of "pre @ fst x # of_nat (length (snd x)) # take 4 (snd x)" ?d "enc_all ie_enc xs @ post"] e(3) True
      by (simp add: ie_enc_def add.commute td)
    have w: "wrn (out @ rest) (length out) ?d = Some ((out @ ?d) @ drop (length ?d) rest)"
      using wrn_at [of "take (length ?d) rest" ?d "length out" out "drop (length ?d) rest"] Cons.prems(2) b by simp
    let ?buf = "pre @ enc_all ie_enc (x # xs) @ post" and ?stop = "length pre + length (enc_all ie_enc (x # xs))"
    have step: "p2p_merge_loop ?buf ?stop (length pre) (out @ rest) (length out) len
      = p2p_merge_loop ?buf ?stop (length pre + (length (snd x) + 2)) ((out @ ?d) @ drop (length ?d) rest) (length out + (length (snd x) - 4))
          (len + of_nat (length ?d))"
      using e(1,2) lt True n r w by (subst p2p_merge_loop.simps) simp
    have ih: "p2p_merge_loop ((pre @ ie_enc x) @ enc_all ie_enc xs @ post) (length (pre @ ie_enc x) + length (enc_all ie_enc xs)) (length (pre @ ie_enc x))
        ((out @ ?d) @ drop (length ?d) rest) (length (out @ ?d)) (len + of_nat (length ?d))
      = Some (len + of_nat (length ?d) + of_nat (length (p2p_body xs)),
          (out @ ?d) @ p2p_body xs @ drop (length (p2p_body xs)) (drop (length ?d) rest))"
      using Cons.prems b by (intro Cons.IH) simp_all
    have "?buf = (pre @ ie_enc x) @ enc_all ie_enc xs @ post" "?stop = length (pre @ ie_enc x) + length (enc_all ie_enc xs)"
      "length pre + (length (snd x) + 2) = length (pre @ ie_enc x)" "length out + (length (snd x) - 4) = length (out @ ?d)" by simp_all
    then show ?thesis unfolding step b using ih by (simp only:) (simp add: ac_simps)
  qed
qed


lemma rtw_set_p2p_attr_content_appends:
  assumes "length d < 65536" "length d + 3 \<le> length rest"
  shows "rtw_set_p2p_attr_content (pre @ rest) (length pre) i (of_nat (length d)) (Some d)
    = Some (length (p2p_attr_enc (i, d)), pre @ p2p_attr_enc (i, d) @ drop (length d + 3) rest)"
proof -
  obtain r1 r2 r3 where rest: "rest = r1 @ r2 @ r3 @ drop (length d + 3) rest" and len: "length r1 = 1" "length r2 = 2" "length r3 = length d"
  proof
    show "rest = take 1 rest @ take 2 (drop 1 rest) @ take (length d) (drop 3 rest) @ drop (length d + 3) rest"
      by (metis (no_types, opaque_lifting) add.commute append_take_drop_id drop_drop one_add_one numeral_3_eq_3 numeral_2_eq_2 plus_1_eq_Suc)
  qed (use assms(2) in simp_all)
  let ?post = "drop (length d + 3) rest"
  have 1: "wrn (pre @ rest) (length pre) [i] = Some (pre @ [i] @ r2 @ r3 @ ?post)"
    using wrn_at [of r1 "[i]" "length pre" pre "r2 @ r3 @ ?post"] len by (subst rest) simp
  have 2: "wrn (pre @ [i] @ r2 @ r3 @ ?post) (length pre + 1) (RTW_PUT_LE16 (of_nat (length d)))
      = Some ((pre @ [i] @ RTW_PUT_LE16 (of_nat (length d))) @ r3 @ ?post)"
    using wrn_at [of r2 "RTW_PUT_LE16 (of_nat (length d))" "length pre + 1" "pre @ [i]" "r3 @ ?post"] len by simp
  have 3: "wrn ((pre @ [i] @ RTW_PUT_LE16 (of_nat (length d))) @ r3 @ ?post) (length pre + 3) d
      = Some ((pre @ [i] @ RTW_PUT_LE16 (of_nat (length d))) @ d @ ?post)"
    using wrn_at [of r3 d "length pre + 3" "pre @ [i] @ RTW_PUT_LE16 (of_nat (length d))" ?post] len by simp
  show ?thesis using 1 2 3 assms(1) by (simp add: rtw_set_p2p_attr_content_def unat_of_nat rdn_def p2p_attr_enc_def)
qed

section \<open>Properties\<close>

text \<open>C19. The searches for the content of an attribute (\<^verbatim>\<open>rtw_get_wps_attr_content\<close>, \<^verbatim>\<open>rtw_get_p2p_attr_content\<close>,
  \<^verbatim>\<open>rtw_get_wfd_attr_content\<close>) on an element made of encoded attributes answer the content of the first attribute with the
  wanted identifier, copy exactly its bytes, and report its length, or report that there is none.\<close>

theorem attr_content_correct:
  assumes "list_all (\<lambda>x. wps_attr_wf x \<and> length (snd x) \<le> length d) xs"
    and "list_all (\<lambda>x. p2p_attr_wf x \<and> length (snd x) \<le> length d) ys"
    and "list_all (\<lambda>x. wfd_attr_wf x \<and> length (snd x) \<le> length d) zs"
  shows "(rtw_get_wps_attr_content (pre @ vendor_enc wps_oui (enc_all wps_attr_enc xs) @ post) (length pre)
        (length (vendor_enc wps_oui (enc_all wps_attr_enc xs))) i (Some d) (Some n)
      = Some (content_answer 4 d (seek wps_attr_enc (\<lambda>x. fst x = i) (length pre + 6) xs))) \<and>
    (rtw_get_p2p_attr_content (Some (pre @ vendor_enc p2p_oui (enc_all p2p_attr_enc ys) @ post)) (length pre)
        (length (vendor_enc p2p_oui (enc_all p2p_attr_enc ys))) j (Some d) (Some n)
      = Some (content_answer 3 d (seek p2p_attr_enc (\<lambda>x. fst x = j) (length pre + 6) ys))) \<and>
    (rtw_get_wfd_attr_content (pre @ vendor_enc wfd_oui (enc_all wfd_attr_enc zs) @ post) (length pre)
        (length (vendor_enc wfd_oui (enc_all wfd_attr_enc zs))) j (Some d) (Some n)
      = Some (case find (\<lambda>x. fst x = j) zs of None \<Rightarrow> (False, Some d, Some n)
          | Some x \<Rightarrow> (True, Some (snd x @ drop (length (snd x)) d), Some (of_nat (length (snd x))))))"
  using assms by (simp add: list_all_iff wps_content p2p_content wfd_content)

theorem attr_content_correct_witness:
  "rtw_get_p2p_attr_content (Some (vendor_enc p2p_oui (enc_all p2p_attr_enc [(2, [7, 8]), (4, [9])]))) 0
     (length (vendor_enc p2p_oui (enc_all p2p_attr_enc [(2, [7, 8]), (4, [9])]))) 4 (Some [0, 0]) (Some 0)
   = Some (Some 14, Some [9, 0], Some 1)"
  using attr_content_correct [where xs = "[]" and ys = "[(2, [7, 8]), (4, [9])]" and zs = "[]" and d = "[0, 0]" and pre = "[]" and post = "[]" and i = 0 and j = 4 and n = 0]
  by (simp add: p2p_attr_wf_def content_answer_def)



text \<open>The merge of several P2P elements: \<^verbatim>\<open>rtw_p2p_merge_ies\<close> writes the header of a vendor element and the bodies of all
  P2P elements in order, and \<^verbatim>\<open>rtw_get_p2p_merged_ies_len\<close> gives the size of the bodies with the OUI. The
  header keeps the length 0 it was written with, and the result of the merge is the size modulo 256.\<close>

theorem p2p_merge_joins:
  assumes "list_all p2p_elem_wf xs" "length (p2p_body xs) + 6 \<le> length m"
  shows "(rtw_get_p2p_merged_ies_len (enc_all ie_enc xs) (length (enc_all ie_enc xs)) = Some (of_nat (length (p2p_body xs) + 4))) \<and>
    (rtw_p2p_merge_ies (enc_all ie_enc xs) (length (enc_all ie_enc xs)) (Some m)
      = Some (int (length (p2p_body xs) mod 256) + 4, Some ([0xDD, 0x00] @ p2p_oui @ p2p_body xs @ drop (length (p2p_body xs) + 6) m)))"
proof (intro conjI)
  have wf: "\<forall>x \<in> set xs. p2p_elem_wf x" using assms(1) by (simp add: list_all_iff)
  show "rtw_get_p2p_merged_ies_len (enc_all ie_enc xs) (length (enc_all ie_enc xs)) = Some (of_nat (length (p2p_body xs) + 4))"
    using p2p_merged_loop_sum [OF wf, of "[]" "[]" 0] by (simp add: rtw_get_p2p_merged_ies_len_def)
  let ?h = "[0xDD, 0x00] @ p2p_oui"
  have h: "length ?h = 6" by (simp add: p2p_oui_def)
  have u8: "uint (of_nat k :: u8) = int (k mod 256)" for k by (simp add: unsigned_of_nat take_bit_eq_mod)
  have w: "wrn m 0 ?h = Some (?h @ drop 6 m)" using assms(2) h wrn_front [of ?h m] by simp
  have "length (p2p_body xs) \<le> length (drop 6 m)" using assms(2) by simp
  note j = p2p_merge_loop_joins [OF wf this, where pre = "[]" and post = "[]" and out = ?h and len = 0]
  show "rtw_p2p_merge_ies (enc_all ie_enc xs) (length (enc_all ie_enc xs)) (Some m)
      = Some (int (length (p2p_body xs) mod 256) + 4, Some ([0xDD, 0x00] @ p2p_oui @ p2p_body xs @ drop (length (p2p_body xs) + 6) m))"
    unfolding rtw_p2p_merge_ies_def option.case w bind.simps(2) h [symmetric]
    using j h by (simp add: u8)
qed

theorem p2p_merge_joins_witness:
  "rtw_p2p_merge_ies (enc_all ie_enc [(221, p2p_oui @ [1]), (0, []), (221, p2p_oui @ [2, 3])]) 17 (Some (replicate 9 0))
   = Some (7, Some ([0xDD, 0x00] @ p2p_oui @ [1, 2, 3]))"
proof -
  have wf: "list_all p2p_elem_wf [(221, p2p_oui @ [1]), (0, []), (221, p2p_oui @ [2, 3])]"
    by (simp add: ie_oui_wf_def ie_wf_def p2p_oui_def VENDOR_SPECIFIC_IE_def)
  have b: "p2p_body [(221, p2p_oui @ [1]), (0, []), (221, p2p_oui @ [2, 3])] = [1, 2, 3]"
    by (simp add: p2p_body_def ie_match_def p2p_oui_def VENDOR_SPECIFIC_IE_def)
  have l: "length (enc_all ie_enc [(221, p2p_oui @ [1]), (0, []), (221, p2p_oui @ [2, 3])]) = 17" by (simp add: p2p_oui_def)
  show ?thesis using p2p_merge_joins [OF wf, of "replicate 9 0"] unfolding l b by (simp del: of_nat_add)
qed

text \<open>C21. The searches for a WPS or P2P attribute do not return when an attribute before the wanted one announces
  0xFFFC or 0xFFFD bytes: the 16-bit length of the attribute wraps to 0, and the loop stays where it is,
  without ever leaving the buffer.\<close>

theorem attr_search_hangs:
  assumes "wps_ielen > 6" "i' \<noteq> i" "j' \<noteq> j"
  shows "(wps_attr_step (pre @ vendor_enc wps_oui (be_bytes i' @ [0xFF, 0xFC] @ body) @ post) i (length pre + 6) = Some (Inr (length pre + 6))) \<and>
    (rtw_get_wps_attr (pre @ vendor_enc wps_oui (be_bytes i' @ [0xFF, 0xFC] @ body) @ post) (length pre) wps_ielen i None len_attr = None) \<and>
    (p2p_attr_step (pre @ vendor_enc p2p_oui ([j', 0xFD, 0xFF] @ body) @ post) j (length pre + 6) = Some (Inr (length pre + 6))) \<and>
    (rtw_get_p2p_attr (Some (pre @ vendor_enc p2p_oui ([j', 0xFD, 0xFF] @ body) @ post)) (length pre) wps_ielen j None len_attr = None)"
proof (intro conjI)
  let ?w = "pre @ vendor_enc wps_oui (be_bytes i' @ [0xFF, 0xFC] @ body) @ post"
  let ?p = "pre @ vendor_enc p2p_oui ([j', 0xFD, 0xFF] @ body) @ post"
  let ?hw = "pre @ VENDOR_SPECIFIC_IE # of_nat (length (be_bytes i' @ [0xFF, 0xFC] @ body) + 4) # wps_oui"
  let ?hp = "pre @ VENDOR_SPECIFIC_IE # of_nat (length ([j', 0xFD, 0xFF] @ body) + 4) # p2p_oui"
  have h: "length ?hw = length pre + 6" "length ?hp = length pre + 6" by (simp_all add: wps_oui_def p2p_oui_def)
  have be: "be_bytes 0xFFFC = [0xFF, 0xFC]" and le: "RTW_PUT_LE16 0xFFFD = [0xFD, 0xFF]" by (simp_all add: be_bytes_def RTW_PUT_LE16_def)
  have "RTW_GET_BE16 ?w (length pre + 6) = Some i'"
    using BE16_at [of ?hw i' "[0xFF, 0xFC] @ body @ post"] unfolding h by (simp add: vendor_enc_def)
  moreover have "RTW_GET_BE16 ?w (length pre + 6 + 2) = Some 0xFFFC"
    using BE16_at [of "?hw @ be_bytes i'" "0xFFFC" "body @ post"] h unfolding be by (simp add: vendor_enc_def)
  ultimately show s: "wps_attr_step ?w i (length pre + 6) = Some (Inr (length pre + 6))"
    using assms(2) by (simp add: wps_attr_step_def)
  have "vendor_at wps_oui ?w (length pre) = Some True" by (simp add: vendor_at_enc wps_oui_def)
  then show "rtw_get_wps_attr ?w (length pre) wps_ielen i None len_attr = None"
    using scan_loop_diverges [of "length pre + 6" "length pre + wps_ielen" "wps_attr_step ?w i"] s assms(1) by (simp add: rtw_get_wps_attr_def)
  have "rd ?p (length pre + 6) = Some j'"
    using h(2) by (simp add: rd_def vendor_enc_def nth_append p2p_oui_def)
  moreover have "RTW_GET_LE16 ?p (length pre + 6 + 1) = Some 0xFFFD"
    using LE16_at [of "?hp @ [j']" "0xFFFD" "body @ post"] h(2) unfolding le by (simp add: vendor_enc_def)
  ultimately show s: "p2p_attr_step ?p j (length pre + 6) = Some (Inr (length pre + 6))"
    using assms(3) by (simp add: p2p_attr_step_def)
  have "vendor_at p2p_oui ?p (length pre) = Some True" by (simp add: vendor_at_enc p2p_oui_def)
  then show "rtw_get_p2p_attr (Some ?p) (length pre) wps_ielen j None len_attr = None"
    using scan_loop_diverges [of "length pre + 6" "length pre + wps_ielen" "p2p_attr_step ?p j"] s assms(1) by (simp add: rtw_get_p2p_attr_def)
qed

theorem attr_search_hangs_witness:
  "rtw_get_wps_attr (vendor_enc wps_oui (be_bytes 1 @ [0xFF, 0xFC])) 0 10 2 None (Some 0) = None"
  using attr_search_hangs [where wps_ielen = 10 and i' = 1 and i = 2 and j' = 1 and j = 0 and pre = "[]" and body = "[]" and post = "[]" and len_attr = "Some 0"]
  by simp

end
