(* ===== verification/Rtw_Tdls.thy ===== *)
theory Rtw_Tdls
  imports Rtw_Omac Rtw_Sha256 Rtw_Attr
begin

unbundle bit_operations_syntax

text \<open>
  The keys of a TDLS link in \<^verbatim>\<open>core/rtw_security.c\<close>: the derivation of the peer key and the MIC of the handshake
  messages. The model is of a build with \<^verbatim>\<open>CONFIG_TDLS\<close>. The first Boolean argument of the MIC functions is
  the result of \<^verbatim>\<open>rtw_zmalloc\<close>, the second the result of the allocation inside \<^verbatim>\<open>omac1_aes_128\<close>.
\<close>

section \<open>The peer key\<close>

record tdls_sta =
  ts_hwaddr :: bytes
  ts_SNonce :: bytes
  ts_ANonce :: bytes
  ts_tpk :: bytes

definition TPK_SIZE :: nat where "TPK_SIZE = 32"

definition tpk_label :: bytes where
  "tpk_label = [0x54, 0x44, 0x4C, 0x53, 0x20, 0x50, 0x4D, 0x4B, 0]"

definition wpa_tdls_generate_tpk :: "bytes \<Rightarrow> bytes \<Rightarrow> tdls_sta \<Rightarrow> tdls_sta option" where
  "wpa_tdls_generate_tpk myid bssid psta =
     do {
       SNonce \<leftarrow> rdn (ts_SNonce psta) 0 32;
       ANonce \<leftarrow> rdn (ts_ANonce psta) 0 32;
       c \<leftarrow> os_memcmp SNonce ANonce 32;
       let nonce = (if c < 0 then [SNonce, ANonce] else [ANonce, SNonce]);
       (_, key_input) \<leftarrow> sha256_vector nonce (replicate SHA256_MAC_LEN 0);
       let data = replicate 18 0;
       own \<leftarrow> rdn myid 0 6;
       peer \<leftarrow> rdn (ts_hwaddr psta) 0 6;
       c \<leftarrow> os_memcmp own peer 6;
       data \<leftarrow> (if c < 0 then do { data \<leftarrow> wrn data 0 own; wrn data 6 peer }
               else do { data \<leftarrow> wrn data 0 peer; wrn data 6 own });
       b \<leftarrow> rdn bssid 0 6;
       data \<leftarrow> wrn data 12 b;
       tpk \<leftarrow> sha256_prf key_input tpk_label data TPK_SIZE (ts_tpk psta);
       Some (psta\<lparr>ts_tpk := tpk\<rparr>)
     }"

section \<open>The MIC of a handshake message\<close>

definition TDLS_MIC_LEN :: nat where "TDLS_MIC_LEN = 16"

text \<open>\<open>tdls_put\<close> copies an element, identifier and length byte included, to \<open>pos\<close> and moves \<open>pos\<close> behind it.\<close>

definition tdls_put :: "bytes \<Rightarrow> nat \<Rightarrow> bytes \<Rightarrow> (bytes \<times> nat) option" where
  "tdls_put buf pos e =
     do { n \<leftarrow> rd e 1; x \<leftarrow> rdn e 0 (2 + unat n); buf \<leftarrow> wrn buf pos x; Some (buf, pos + (2 + unat n)) }"

text \<open>
  Both functions lay out the same buffer: \<open>tdls_head\<close> writes the addresses of initiator and responder and the sequence number, \<open>tdls_tail\<close>
  the RSN, timeout and fast transition elements, clears the MIC in the last and reads the whole back.
\<close>

definition tdls_head :: "bytes \<Rightarrow> bytes \<Rightarrow> u8 \<Rightarrow> bytes option" where
  "tdls_head buf lnkid trans_seq =
     do {
       x \<leftarrow> rdn lnkid 8 6;
       buf \<leftarrow> wrn buf 0 x;
       x \<leftarrow> rdn lnkid 14 6;
       buf \<leftarrow> wrn buf 6 x;
       wrn buf 12 [trans_seq]
     }"

definition tdls_tail :: "bytes \<Rightarrow> nat \<Rightarrow> bytes \<Rightarrow> bytes \<Rightarrow> bytes \<Rightarrow> bytes option" where
  "tdls_tail buf pos rsnie timeoutie ftie =
     do {
       (buf, pos) \<leftarrow> tdls_put buf pos rsnie;
       (buf, pos) \<leftarrow> tdls_put buf pos timeoutie;
       (buf, pos') \<leftarrow> tdls_put buf pos ftie;
       buf \<leftarrow> memset_at buf (pos + 4) 0 TDLS_MIC_LEN;
       rdn buf 0 pos'
     }"

definition wpa_tdls_ftie_mic ::
    "bool \<Rightarrow> bool \<Rightarrow> bytes \<Rightarrow> u8 \<Rightarrow> bytes \<Rightarrow> bytes \<Rightarrow> bytes \<Rightarrow> bytes \<Rightarrow> bytes \<Rightarrow> (int \<times> bytes) option" where
  "wpa_tdls_ftie_mic zalloc alloc kck trans_seq lnkid rsnie timeoutie ftie mic =
     do {
       l1 \<leftarrow> rd lnkid 1; l2 \<leftarrow> rd rsnie 1; l3 \<leftarrow> rd timeoutie 1; l4 \<leftarrow> rd ftie 1;
       let len = 2 * 6 + 1 + 2 + unat l1 + 2 + unat l2 + 2 + unat l3 + 2 + unat l4;
       if \<not> zalloc then Some (-1, mic)
       else do {
         buf \<leftarrow> tdls_head (replicate len 0) lnkid trans_seq;
         (buf, pos) \<leftarrow> tdls_put buf 13 lnkid;
         data \<leftarrow> tdls_tail buf pos rsnie timeoutie ftie;
         (ret, mic, _) \<leftarrow> omac1_aes_128 alloc kck data mic;
         Some (ret, mic)
       }
     }"

definition tdls_verify_mic ::
    "bool \<Rightarrow> bool \<Rightarrow> bytes \<Rightarrow> u8 \<Rightarrow> bytes option \<Rightarrow> bytes option \<Rightarrow> bytes option \<Rightarrow> bytes option \<Rightarrow> int option" where
  "tdls_verify_mic zalloc alloc kck trans_seq lnkid rsnie timeoutie ftie =
     (case (lnkid, rsnie, timeoutie, ftie) of
       (Some lnkid, Some rsnie, Some timeoutie, Some ftie) \<Rightarrow> do {
         l2 \<leftarrow> rd rsnie 1; l3 \<leftarrow> rd timeoutie 1; l4 \<leftarrow> rd ftie 1;
         let len = 2 * 6 + 1 + 2 + 18 + 2 + unat l2 + 2 + unat l3 + 2 + unat l4;
         if \<not> zalloc then Some 0
         else do {
           buf \<leftarrow> tdls_head (replicate len 0) lnkid trans_seq;
           x \<leftarrow> rdn lnkid 0 (2 + 18);
           buf \<leftarrow> wrn buf 13 x;
           data \<leftarrow> tdls_tail buf 33 rsnie timeoutie ftie;
           (ret, mic, _) \<leftarrow> omac1_aes_128 alloc kck data (replicate 16 0);
           if ret \<noteq> 0 then Some 0
           else do {
             rx \<leftarrow> rdn ftie 4 16;
             c \<leftarrow> os_memcmp mic rx 16;
             Some (if c = 0 then 1 else 0)
           }
         }
       }
     | _ \<Rightarrow> Some 0)"

section \<open>The order of nonces and addresses\<close>

lemma os_memcmp_loop_swap: "os_memcmp_loop n a b = map_option uminus (os_memcmp_loop n b a)"
  by (induction n a b rule: os_memcmp_loop.induct) auto

lemma os_memcmp_loop_order:
  "0 < n \<Longrightarrow> length a = n \<Longrightarrow> length b = n \<Longrightarrow>
     \<exists>r. os_memcmp_loop n a b = Some r \<and> (r = 0 \<longleftrightarrow> a = b) \<and> (r < 0 \<longleftrightarrow> ord_class.lexordp a b)"
proof (induction n a b rule: os_memcmp_loop.induct)
  case (1 n a p1 b p2)
  show ?case
  proof (cases "a = b")
    case True
    then show ?thesis using 1 by (cases "n = 1") (auto simp: irreflp_def)
  next
    case False
    then have "uint a \<noteq> uint b" by (simp add: word_uint_eq_iff)
    then show ?thesis using False by (auto simp: word_less_def)
  qed
qed auto

text \<open>Two byte strings of one length, the lexicographically smaller one first.\<close>

definition min_max :: "bytes \<Rightarrow> bytes \<Rightarrow> bytes" where
  "min_max a b = (if ord_class.lexordp a b then a @ b else b @ a)"

lemma os_memcmp_order:
  assumes "length a = unat n" "length b = unat n" "n \<noteq> 0"
  shows "\<exists>r. os_memcmp a b n = Some r \<and> (r < 0 \<longleftrightarrow> ord_class.lexordp a b)"
  using os_memcmp_loop_order [of "unat n" a b] assms by (auto simp: os_memcmp_def unat_gt_0)

lemma min_max_sym:
  assumes "length a = length b" "a \<noteq> []"
  shows "min_max a b = min_max b a"
proof -
  have n: "0 < length a" "length b = length a" using assms by auto
  obtain r where r: "os_memcmp_loop (length a) a b = Some r" "r = 0 \<longleftrightarrow> a = b" "r < 0 \<longleftrightarrow> ord_class.lexordp a b"
    using os_memcmp_loop_order [OF n(1) refl n(2)] by blast
  obtain s where s: "os_memcmp_loop (length a) b a = Some s" "s < 0 \<longleftrightarrow> ord_class.lexordp b a"
    using os_memcmp_loop_order [OF n(1) n(2) refl] by blast
  have "r = - s" using os_memcmp_loop_swap [of "length a" a b] r(1) s(1) by simp
  then show ?thesis using r s by (auto simp: min_max_def)
qed


lemma os_memcmp_min_max:
  assumes "length a = unat n" "length b = unat n" "n \<noteq> 0"
  shows "\<exists>c. os_memcmp a b n = Some c \<and> (if c < 0 then a @ b else b @ a) = min_max a b"
  using os_memcmp_order [OF assms] by (auto simp: min_max_def)

lemma generate_tpk_kdf:
  assumes "length own = 6" "length (ts_hwaddr s) = 6" "length bssid = 6" "length (ts_SNonce s) = 32" "length (ts_ANonce s) = 32" "length (ts_tpk s) = 32"
  shows "wpa_tdls_generate_tpk own bssid s = Some (s\<lparr>ts_tpk :=
    kdf_sha256 (sha256 (min_max (ts_SNonce s) (ts_ANonce s))) (butlast tpk_label) (min_max own (ts_hwaddr s) @ bssid) 32\<rparr>)"
proof -
  obtain c where c: "os_memcmp (ts_SNonce s) (ts_ANonce s) 32 = Some c"
      "(if c < 0 then ts_SNonce s @ ts_ANonce s else ts_ANonce s @ ts_SNonce s) = min_max (ts_SNonce s) (ts_ANonce s)"
    using os_memcmp_min_max [of "ts_SNonce s" 32 "ts_ANonce s"] assms by auto
  obtain d where d: "os_memcmp own (ts_hwaddr s) 6 = Some d" "(if d < 0 then own @ ts_hwaddr s else ts_hwaddr s @ own) = min_max own (ts_hwaddr s)"
    using os_memcmp_min_max [of own 6 "ts_hwaddr s"] assms by auto
  have k: "sha256_vector (if c < 0 then [ts_SNonce s, ts_ANonce s] else [ts_ANonce s, ts_SNonce s]) m
      = Some (0, sha256 (min_max (ts_SNonce s) (ts_ANonce s)))" for m
    using c(2) by (cases "c < 0") (simp_all add: sha256_vector_hash)
  have w: "do { x \<leftarrow> wrn (replicate 18 0) 0 a; wrn x 6 b } = Some (a @ b @ replicate 6 0)" if "length a = 6" "length b = 6" for a b :: bytes
    using that by (simp add: wrn_def)
  have data: "(if d < 0 then do { x \<leftarrow> wrn (replicate 18 0) 0 own; wrn x 6 (ts_hwaddr s) } else do { x \<leftarrow> wrn (replicate 18 0) 0 (ts_hwaddr s); wrn x 6 own })
      = Some (min_max own (ts_hwaddr s) @ replicate 6 0)"
    using d(2) w assms(1,2) by (cases "d < 0") auto
  have len: "length (min_max own (ts_hwaddr s)) = 12" using assms by (simp add: min_max_def)
  have b: "wrn (min_max own (ts_hwaddr s) @ replicate 6 0) 12 bssid = Some (min_max own (ts_hwaddr s) @ bssid)"
    using wrn_middle [of "replicate 6 0" bssid "min_max own (ts_hwaddr s)" "[]"] assms(3) len by simp
  have p: "sha256_prf key tpk_label x 32 (ts_tpk s) = Some (kdf_sha256 key (butlast tpk_label) x 32)" for key x
    using sha256_prf_kdf [of "butlast tpk_label" 32 "ts_tpk s" key "[]" x] assms(6) by (simp add: tpk_label_def)
  show ?thesis
    using assms c(1) d(1) k data b p by (simp add: wpa_tdls_generate_tpk_def rdn_Some TPK_SIZE_def Let_def)
qed

section \<open>What the MIC is computed over\<close>

lemma wrn_zeros: "length x \<le> k \<Longrightarrow> wrn (a @ replicate k 0) (length a) x = Some ((a @ x) @ replicate (k - length x) 0)"
  by (simp add: wrn_def)

lemma tdls_put_enc:
  assumes "ie_wf x" "length (ie_enc x) \<le> k"
  shows "tdls_put (a @ replicate k 0) (length a) (ie_enc x @ junk)
    = Some ((a @ ie_enc x) @ replicate (k - length (ie_enc x)) 0, length (a @ ie_enc x))"
proof -
  have "rd (ie_enc x @ junk) 1 = Some (of_nat (length (snd x)))" using rd_ie(2) [of "[]" x junk] by simp
  moreover have "rdn (ie_enc x @ junk) 0 (length (snd x) + 2) = Some (ie_enc x)" using rdn_ie_whole [of "[]" x junk] by simp
  moreover have "unat (of_nat (length (snd x)) :: u8) = length (snd x)" using assms(1) by (simp add: ie_wf_def)
  ultimately show ?thesis using wrn_zeros [OF assms(2), of a] by (simp add: tdls_put_def)
qed

text \<open>A fast transition element with another MIC in it: two bytes of control, the MIC, the nonces.\<close>

definition set_mic :: "bytes \<Rightarrow> ie \<Rightarrow> ie" where
  "set_mic m x = (fst x, take 2 (snd x) @ m @ drop 18 (snd x))"

definition tdls_mic_msg :: "u8 \<Rightarrow> ie \<Rightarrow> ie \<Rightarrow> ie \<Rightarrow> ie \<Rightarrow> bytes" where
  "tdls_mic_msg seq lnk rsn tmo fte =
     take 6 (drop 6 (snd lnk)) @ drop 12 (snd lnk) @ seq # ie_enc lnk @ ie_enc rsn @ ie_enc tmo @ ie_enc (set_mic (replicate 16 0) fte)"

definition tdls_wf :: "ie \<Rightarrow> ie \<Rightarrow> ie \<Rightarrow> ie \<Rightarrow> bool" where
  "tdls_wf lnk rsn tmo fte \<longleftrightarrow> length (snd lnk) = 18 \<and> ie_wf rsn \<and> ie_wf tmo \<and> ie_wf fte \<and> 18 \<le> length (snd fte)"

lemma clear_mic:
  assumes "18 \<le> length (snd x)"
  shows "memset_at (a @ ie_enc x) (length a + 4) 0 16 = Some (a @ ie_enc (set_mic (replicate 16 0) x))"
proof -
  obtain u v w where x: "snd x = u @ v @ w" "length u = 2" "length v = 16" using buf_split3 [of 2 16 "snd x"] assms by auto
  have e: "a @ ie_enc x = (a @ [fst x, of_nat (length (snd x))] @ u) @ v @ w" by (simp add: ie_enc_def x)
  show ?thesis
    using wrn_middle [of v "replicate 16 0" "a @ [fst x, of_nat (length (snd x))] @ u" w] x
    unfolding e memset_at_def by (simp add: ie_enc_def set_mic_def)
qed

lemma tdls_tail_enc:
  assumes wf: "tdls_wf lnk rsn tmo fte" and a: "length a = p"
    and n: "n = length (ie_enc rsn) + length (ie_enc tmo) + length (ie_enc fte)"
  shows "tdls_tail (a @ replicate n 0) p (ie_enc rsn @ j2) (ie_enc tmo @ j3) (ie_enc fte @ j4)
    = Some (a @ ie_enc rsn @ ie_enc tmo @ ie_enc (set_mic (replicate 16 0) fte))"
proof -
  have w: "ie_wf rsn" "ie_wf tmo" "ie_wf fte" "18 \<le> length (snd fte)" using wf by (simp_all add: tdls_wf_def)
  have l: "length (ie_enc (set_mic (replicate 16 0) fte)) = length (ie_enc fte)" using w(4) by (simp add: set_mic_def)
  have 1: "tdls_put (a @ replicate n 0) p (ie_enc rsn @ j2)
      = Some ((a @ ie_enc rsn) @ replicate (n - length (ie_enc rsn)) 0, length (a @ ie_enc rsn))"
    unfolding a [symmetric] by (rule tdls_put_enc [OF w(1)]) (simp add: n)
  have 2: "tdls_put ((a @ ie_enc rsn) @ replicate (n - length (ie_enc rsn)) 0) (length (a @ ie_enc rsn)) (ie_enc tmo @ j3)
      = Some (((a @ ie_enc rsn) @ ie_enc tmo) @ replicate (length (ie_enc fte)) 0, length ((a @ ie_enc rsn) @ ie_enc tmo))"
    using tdls_put_enc [OF w(2), of "n - length (ie_enc rsn)" "a @ ie_enc rsn" j3] by (simp add: n)
  have 3: "tdls_put (((a @ ie_enc rsn) @ ie_enc tmo) @ replicate (length (ie_enc fte)) 0) (length ((a @ ie_enc rsn) @ ie_enc tmo)) (ie_enc fte @ j4)
      = Some (((a @ ie_enc rsn) @ ie_enc tmo) @ ie_enc fte, length (((a @ ie_enc rsn) @ ie_enc tmo) @ ie_enc fte))"
    using tdls_put_enc [OF w(3), of "length (ie_enc fte)" "(a @ ie_enc rsn) @ ie_enc tmo" j4] by simp
  note 4 = clear_mic [OF w(4), of "(a @ ie_enc rsn) @ ie_enc tmo"]
  have 5: "rdn (((a @ ie_enc rsn) @ ie_enc tmo) @ ie_enc (set_mic (replicate 16 0) fte)) 0 (length (((a @ ie_enc rsn) @ ie_enc tmo) @ ie_enc fte))
      = Some (a @ ie_enc rsn @ ie_enc tmo @ ie_enc (set_mic (replicate 16 0) fte))"
    using l by (simp add: rdn_def)
  show ?thesis unfolding tdls_tail_def TDLS_MIC_LEN_def 1 Option.bind.simps prod.case 2 3 using 4 5 by simp
qed


definition tdls_ends :: "u8 \<Rightarrow> ie \<Rightarrow> bytes" where
  "tdls_ends seq lnk = take 6 (drop 6 (snd lnk)) @ drop 12 (snd lnk) @ [seq]"

lemma tdls_head_enc:
  assumes "length (snd lnk) = 18"
  shows "tdls_head (replicate (13 + n) 0) (ie_enc lnk @ j) seq = Some (tdls_ends seq lnk @ replicate n 0)"
  using assms by (simp add: tdls_head_def tdls_ends_def rdn_def ie_enc_def wrn_def)

lemma mic_msg_eq:
  "tdls_mic_msg seq lnk rsn tmo fte
    = (tdls_ends seq lnk @ ie_enc lnk) @ ie_enc rsn @ ie_enc tmo @ ie_enc (set_mic (replicate 16 0) fte)"
  by (simp add: tdls_mic_msg_def tdls_ends_def)

lemma length_byte:
  "rd (ie_enc x @ j) 1 = Some (of_nat (length (snd x)))" "ie_wf x \<Longrightarrow> unat (of_nat (length (snd x)) :: u8) = length (snd x)"
  using rd_ie(2) [of "[]" x j] by (simp_all add: ie_wf_def)

lemma ftie_mic_cmac:
  assumes wf: "tdls_wf lnk rsn tmo fte" and key: "length kck = 16"
  shows "wpa_tdls_ftie_mic True True kck seq (ie_enc lnk @ j1) (ie_enc rsn @ j2) (ie_enc tmo @ j3) (ie_enc fte @ j4) mic
    = Some (0, cmac_aes kck (tdls_mic_msg seq lnk rsn tmo fte))"
proof -
  define n where "n = length (ie_enc rsn) + length (ie_enc tmo) + length (ie_enc fte)"
  have w: "length (snd lnk) = 18" "ie_wf lnk" "ie_wf rsn" "ie_wf tmo" "ie_wf fte" using wf by (simp_all add: tdls_wf_def ie_wf_def)
  have h: "length (tdls_ends seq lnk) = 13" using w(1) by (simp add: tdls_ends_def)
  have len: "2 * 6 + 1 + 2 + unat (of_nat (length (snd lnk)) :: u8) + 2 + unat (of_nat (length (snd rsn)) :: u8) + 2
      + unat (of_nat (length (snd tmo)) :: u8) + 2 + unat (of_nat (length (snd fte)) :: u8) = 13 + (20 + n)"
    unfolding length_byte(2) [OF w(2)] length_byte(2) [OF w(3)] length_byte(2) [OF w(4)] length_byte(2) [OF w(5)] using w(1) by (simp add: n_def)
  have l: "tdls_put (tdls_ends seq lnk @ replicate (20 + n) 0) 13 (ie_enc lnk @ j1) = Some ((tdls_ends seq lnk @ ie_enc lnk) @ replicate n 0, 33)"
    using tdls_put_enc [OF w(2), of "20 + n" "tdls_ends seq lnk" j1] h w(1) by simp
  have t: "tdls_tail ((tdls_ends seq lnk @ ie_enc lnk) @ replicate n 0) 33 (ie_enc rsn @ j2) (ie_enc tmo @ j3) (ie_enc fte @ j4)
      = Some (tdls_mic_msg seq lnk rsn tmo fte)"
    unfolding mic_msg_eq using h w(1) by (intro tdls_tail_enc [OF wf]) (simp_all add: n_def)
  show ?thesis
    unfolding wpa_tdls_ftie_mic_def length_byte(1) Option.bind.simps Let_def len tdls_head_enc [OF w(1)] l prod.case t
      omac1_aes_128_correct [OF key] by simp
qed

lemma verify_mic_cmac:
  assumes wf: "tdls_wf lnk rsn tmo fte" and key: "length kck = 16"
  shows "tdls_verify_mic True True kck seq (Some (ie_enc lnk @ j1)) (Some (ie_enc rsn @ j2)) (Some (ie_enc tmo @ j3)) (Some (ie_enc fte @ j4))
    = Some (if take 16 (drop 2 (snd fte)) = cmac_aes kck (tdls_mic_msg seq lnk rsn tmo fte) then 1 else 0)"
proof -
  define n where "n = length (ie_enc rsn) + length (ie_enc tmo) + length (ie_enc fte)"
  have w: "length (snd lnk) = 18" "ie_wf rsn" "ie_wf tmo" "ie_wf fte" "18 \<le> length (snd fte)" using wf by (simp_all add: tdls_wf_def ie_wf_def)
  have h: "length (tdls_ends seq lnk) = 13" using w(1) by (simp add: tdls_ends_def)
  have len: "2 * 6 + 1 + 2 + 18 + 2 + unat (of_nat (length (snd rsn)) :: u8) + 2
      + unat (of_nat (length (snd tmo)) :: u8) + 2 + unat (of_nat (length (snd fte)) :: u8) = 13 + (20 + n)"
    unfolding length_byte(2) [OF w(2)] length_byte(2) [OF w(3)] length_byte(2) [OF w(4)] by (simp add: n_def)
  have l: "rdn (ie_enc lnk @ j1) 0 (2 + 18) = Some (ie_enc lnk)" "wrn (tdls_ends seq lnk @ replicate (20 + n) 0) 13 (ie_enc lnk)
      = Some ((tdls_ends seq lnk @ ie_enc lnk) @ replicate n 0)"
    using wrn_zeros [of "ie_enc lnk" "20 + n" "tdls_ends seq lnk"] h w(1) by (simp_all add: rdn_def)
  have t: "tdls_tail ((tdls_ends seq lnk @ ie_enc lnk) @ replicate n 0) 33 (ie_enc rsn @ j2) (ie_enc tmo @ j3) (ie_enc fte @ j4)
      = Some (tdls_mic_msg seq lnk rsn tmo fte)"
    unfolding mic_msg_eq using h w(1) by (intro tdls_tail_enc [OF wf]) (simp_all add: n_def)
  have f: "rdn (ie_enc fte @ j4) 4 16 = Some (take 16 (drop 2 (snd fte)))" using w(5) by (simp add: rdn_def ie_enc_def)
  let ?mic = "cmac_aes kck (tdls_mic_msg seq lnk rsn tmo fte)"
  have "length ?mic = 16" by (simp add: cmac_aes_head)
  then obtain c where c: "os_memcmp ?mic (take 16 (drop 2 (snd fte))) 16 = Some c" "c = 0 \<longleftrightarrow> take 16 (drop 2 (snd fte)) = ?mic"
    using os_memcmp_loop_order [of 16 ?mic "take 16 (drop 2 (snd fte))"] w(5) by (auto simp: os_memcmp_def)
  show ?thesis
    unfolding tdls_verify_mic_def prod.case option.case length_byte(1) Option.bind.simps Let_def len tdls_head_enc [OF w(1)] l t
      omac1_aes_128_correct [OF key] using c by (simp add: f)
qed


section \<open>Properties\<close>



text \<open>
  C34. The MIC that \<^verbatim>\<open>wpa_tdls_ftie_mic\<close> computes for a handshake message is its CMAC with the MIC field cleared; \<^verbatim>\<open>tdls_verify_mic\<close>
  accepts a message exactly when its MIC field holds that value, so that the message completed with the computed MIC is accepted.
\<close>

theorem tdls_mic_roundtrip:
  assumes wf: "tdls_wf lnk rsn tmo fte" and key: "length kck = 16"
  shows "\<exists>mic. wpa_tdls_ftie_mic True True kck seq (ie_enc lnk @ j1) (ie_enc rsn @ j2) (ie_enc tmo @ j3) (ie_enc fte @ j4) old = Some (0, mic)
    \<and> mic = cmac_aes kck (tdls_mic_msg seq lnk rsn tmo fte)
    \<and> tdls_verify_mic True True kck seq (Some (ie_enc lnk @ j1)) (Some (ie_enc rsn @ j2)) (Some (ie_enc tmo @ j3)) (Some (ie_enc fte @ j4))
      = Some (if take 16 (drop 2 (snd fte)) = mic then 1 else 0)
    \<and> tdls_verify_mic True True kck seq (Some (ie_enc lnk @ j1)) (Some (ie_enc rsn @ j2)) (Some (ie_enc tmo @ j3)) (Some (ie_enc (set_mic mic fte) @ j4)) = Some 1"
proof -
  let ?mic = "cmac_aes kck (tdls_mic_msg seq lnk rsn tmo fte)"
  have l: "length ?mic = 16" by (simp add: cmac_aes_head)
  have f: "18 \<le> length (snd fte)" using wf by (simp add: tdls_wf_def)
  have wf': "tdls_wf lnk rsn tmo (set_mic ?mic fte)" using wf l f by (auto simp: tdls_wf_def set_mic_def ie_wf_def)
  have "tdls_mic_msg seq lnk rsn tmo (set_mic m fte) = tdls_mic_msg seq lnk rsn tmo fte" if "length m = 16" for m
    using that f by (simp add: tdls_mic_msg_def set_mic_def)
  note m = this [OF l]
  have "take 16 (drop 2 (snd (set_mic ?mic fte))) = ?mic" using l f by (simp add: set_mic_def)
  then show ?thesis
    using ftie_mic_cmac [OF wf key] verify_mic_cmac [OF wf key] verify_mic_cmac [OF wf' key, of seq j1 j2 j3 j4] unfolding m by simp
qed

theorem tdls_mic_roundtrip_witness:
  "\<exists>mic. wpa_tdls_ftie_mic True True (replicate 16 5) 2 (ie_enc (101, replicate 18 1) @ []) (ie_enc (48, [1, 0]) @ []) (ie_enc (56, replicate 5 3) @ [])
      (ie_enc (55, replicate 82 0) @ []) [] = Some (0, mic)
    \<and> tdls_verify_mic True True (replicate 16 5) 2 (Some (ie_enc (101, replicate 18 1) @ [])) (Some (ie_enc (48, [1, 0]) @ []))
        (Some (ie_enc (56, replicate 5 3) @ [])) (Some (ie_enc (set_mic mic (55, replicate 82 0)) @ [])) = Some 1"
  using tdls_mic_roundtrip [of "(101, replicate 18 1)" "(48, [1, 0])" "(56, replicate 5 3)" "(55, replicate 82 0)" "replicate 16 5" 2 "[]" "[]" "[]" "[]" "[]"]
  by (auto simp: tdls_wf_def ie_wf_def)

end
