(* ===== verification/Rtw_Bip.thy ===== *)
theory Rtw_Bip
  imports Rtw_Sec_Frames Rtw_Omac Rtw_Attr
begin

unbundle bit_operations_syntax

text \<open>
  The integrity protection of group addressed management frames (802.11w): \<^verbatim>\<open>rtw_BIP_verify\<close> of
  \<^verbatim>\<open>core/rtw_security.c\<close> and the group addressed branch of \<^verbatim>\<open>rtw_mgmt_xmitframe_coalesce\<close> of \<^verbatim>\<open>core/rtw_xmit.c\<close>. The
  model is of a build with \<^verbatim>\<open>CONFIG_IEEE80211W\<close>. The Boolean arguments are the results of \<^verbatim>\<open>rtw_zmalloc\<close> and of the
  allocation inside \<^verbatim>\<open>omac1_aes_128\<close>.
\<close>

section \<open>State and constants\<close>

record bip_state =
  mgnt_80211w_IPN :: u64
  mgnt_80211w_IPN_rx :: u64
  dot11wBIPKeyid :: u32
  dot11wBIPKey :: "bytes list"

definition BIP_AAD_SIZE :: nat where "BIP_AAD_SIZE = 20"
definition MME_IE :: int where "MME_IE = 76"
definition MME_IE_LENGTH :: nat where "MME_IE_LENGTH = 18"
definition RTW_RX_HANDLED :: int where "RTW_RX_HANDLED = 2"
definition WIFI_DEAUTH :: u16 where "WIFI_DEAUTH = 0xC0"
definition WIFI_DISASSOC :: u16 where "WIFI_DISASSOC = 0xA0"
definition C_RETRY :: u16 where "C_RETRY = 0x800"
definition C_PWRMGT :: u16 where "C_PWRMGT = 0x1000"
definition C_MORE_DATA :: u16 where "C_MORE_DATA = 0x2000"

text \<open>The \<^verbatim>\<open>Clear\<close> macros clear a bit of the little-endian frame control field at the start of a buffer.\<close>

definition fc_clear :: "u16 \<Rightarrow> bytes \<Rightarrow> bytes option" where
  "fc_clear m pbuf = do { w \<leftarrow> le16_at pbuf 0; wrn pbuf 0 (RTW_PUT_LE16 (w AND NOT m)) }"

definition ClearRetry :: "bytes \<Rightarrow> bytes option" where "ClearRetry = fc_clear C_RETRY"
definition ClearPwrMgt :: "bytes \<Rightarrow> bytes option" where "ClearPwrMgt = fc_clear C_PWRMGT"
definition ClearMData :: "bytes \<Rightarrow> bytes option" where "ClearMData = fc_clear C_MORE_DATA"

text \<open>The first bytes of a \<^verbatim>\<open>u64\<close> in memory and back.\<close>

definition le_bytes :: "nat \<Rightarrow> u64 \<Rightarrow> bytes" where
  "le_bytes n w = map (\<lambda>i. ucast (drop_bit (8 * i) w)) [0..<n]"

fun le_val :: "bytes \<Rightarrow> u64" where
  "le_val [] = 0"
| "le_val (b # bs) = ucast b OR push_bit 8 (le_val bs)"

text \<open>\<open>bip_aad\<close> writes the masked frame control field and the three addresses of the frame to the front of the buffer.\<close>

definition bip_aad :: "bytes \<Rightarrow> bytes \<Rightarrow> bytes option" where
  "bip_aad pframe BIP_AAD =
     do {
       fc \<leftarrow> rdn pframe 0 2;
       BIP_AAD \<leftarrow> wrn BIP_AAD 0 fc;
       BIP_AAD \<leftarrow> ClearRetry BIP_AAD;
       BIP_AAD \<leftarrow> ClearPwrMgt BIP_AAD;
       BIP_AAD \<leftarrow> ClearMData BIP_AAD;
       addrs \<leftarrow> rdn pframe 4 18;
       wrn BIP_AAD 2 addrs
     }"

section \<open>Reception\<close>

text \<open>A frame shorter than its header gives a negative length, which the copy takes for a huge one: \<open>None\<close>.\<close>

definition bip_check :: "bool \<Rightarrow> bip_state \<Rightarrow> nat \<Rightarrow> bytes \<Rightarrow> bytes \<Rightarrow> nat \<Rightarrow> nat \<Rightarrow> (int \<times> bip_state) option" where
  "bip_check alloc st pkt_len pframe BIP_AAD p len =
     do {
       x \<leftarrow> rdn BIP_AAD (p + 4) 6;
       let temp_ipn = le_val x;
       if temp_ipn \<le> mgnt_80211w_IPN_rx st then Some (rtw_FAIL, st)
       else do {
         keyid \<leftarrow> le16_at BIP_AAD (p + 2);
         if ucast keyid \<noteq> dot11wBIPKeyid st then Some (rtw_FAIL, st)
         else do {
           BIP_AAD \<leftarrow> memset_at BIP_AAD (p + 2 + len - 8) 0 8;
           BIP_AAD \<leftarrow> bip_aad pframe BIP_AAD;
           key \<leftarrow> idx (dot11wBIPKey st) (unat (dot11wBIPKeyid st));
           (ret, mic, _) \<leftarrow> omac1_aes_128 alloc key BIP_AAD (replicate 16 0);
           if ret \<noteq> 0 then Some (rtw_FAIL, st)
           else do {
             m \<leftarrow> rdn pframe (pkt_len - 8) 8;
             Some (if take 8 mic = m then (rtw_SUCCESS, st\<lparr>mgnt_80211w_IPN_rx := temp_ipn\<rparr>) else (rtw_FAIL, st))
           }
         }
       }
     }"

definition rtw_BIP_verify :: "bool \<Rightarrow> bool \<Rightarrow> bip_state \<Rightarrow> u16 \<Rightarrow> bytes \<Rightarrow> (int \<times> bip_state) option" where
  "rtw_BIP_verify zalloc alloc st pkt_len pframe =
     (if \<not> zalloc then Some (rtw_FAIL, st)
      else if unat pkt_len < WLAN_HDR_A3_LEN then None
      else do {
        let n = unat pkt_len - WLAN_HDR_A3_LEN;
        body \<leftarrow> rdn pframe WLAN_HDR_A3_LEN n;
        BIP_AAD \<leftarrow> wrn (replicate (n + BIP_AAD_SIZE) 0) BIP_AAD_SIZE body;
        (p, len) \<leftarrow> rtw_get_ie BIP_AAD BIP_AAD_SIZE MME_IE 0 (int n);
        case p of None \<Rightarrow> Some (RTW_RX_HANDLED, st)
        | Some p \<Rightarrow> bip_check alloc st (unat pkt_len) pframe BIP_AAD p len
      })"

section \<open>Transmission\<close>

text \<open>
  The branch for group addressed frames: \<open>pframe\<close> is the buffer of the frame, with \<open>pktlen\<close> bytes in use. It answers the status, the
  state, the buffer and the new length.
\<close>

definition bip_protect ::
    "bool \<Rightarrow> bip_state \<Rightarrow> bytes \<Rightarrow> nat \<Rightarrow> (int \<times> bip_state \<times> bytes \<times> nat) option" where
  "bip_protect alloc st pframe pktlen =
     do {
       subtype \<leftarrow> GetFrameSubType pframe;
       if subtype \<noteq> WIFI_DEAUTH \<and> subtype \<noteq> WIFI_DISASSOC then Some (rtw_FAIL, st, pframe, pktlen)
       else do {
         let BIP_AAD = replicate (BIP_AAD_SIZE + pktlen) 0;
         MME \<leftarrow> wrn (replicate MME_IE_LENGTH 0) 0 [ucast (dot11wBIPKeyid st)];
         MME \<leftarrow> wrn MME 2 (le_bytes 6 (mgnt_80211w_IPN st));
         let st = st\<lparr>mgnt_80211w_IPN := mgnt_80211w_IPN st + 1\<rparr>;
         (q, pktlen, pframe) \<leftarrow> rtw_set_ie pframe pktlen MME_IE 16 MME pktlen;
         let frame_body_len = pktlen - WLAN_HDR_A3_LEN;
         BIP_AAD \<leftarrow> bip_aad pframe BIP_AAD;
         body \<leftarrow> rdn pframe WLAN_HDR_A3_LEN frame_body_len;
         BIP_AAD \<leftarrow> wrn BIP_AAD BIP_AAD_SIZE body;
         data \<leftarrow> rdn BIP_AAD 0 (BIP_AAD_SIZE + frame_body_len);
         key \<leftarrow> idx (dot11wBIPKey st) (unat (dot11wBIPKeyid st));
         (ret, mic, _) \<leftarrow> omac1_aes_128 alloc key data (replicate 16 0);
         if ret \<noteq> 0 then Some (rtw_FAIL, st, pframe, pktlen)
         else do {
           pframe \<leftarrow> wrn pframe (q - 8) (take 8 mic);
           Some (rtw_SUCCESS, st, pframe, pktlen)
         }
       }
     }"

section \<open>Replay\<close>

lemma bip_check_outcome:
  assumes "bip_check alloc st n f aad p len = Some (r, st')"
  shows "r = rtw_FAIL \<and> st' = st
    \<or> r = rtw_SUCCESS \<and> (\<exists>ipn. mgnt_80211w_IPN_rx st < ipn \<and> st' = st\<lparr>mgnt_80211w_IPN_rx := ipn\<rparr>)"
proof (cases "rdn aad (p + 4) 6")
  case None
  then show ?thesis using assms by (simp add: bip_check_def)
next
  case (Some x)
  show ?thesis
  proof (cases "le_val x \<le> mgnt_80211w_IPN_rx st")
    case True
    then show ?thesis using assms Some by (simp add: bip_check_def)
  next
    case False
    then have "mgnt_80211w_IPN_rx st < le_val x" by simp
    then show ?thesis using assms Some False by (auto simp: bip_check_def Let_def bind_eq_Some_conv split: if_splits)
  qed
qed

lemma BIP_verify_outcome:
  assumes "rtw_BIP_verify zalloc alloc st n f = Some (r, st')"
  shows "r \<noteq> rtw_SUCCESS \<and> st' = st
    \<or> r = rtw_SUCCESS \<and> (\<exists>ipn. mgnt_80211w_IPN_rx st < ipn \<and> st' = st\<lparr>mgnt_80211w_IPN_rx := ipn\<rparr>)"
  using assms bip_check_outcome [of alloc st "unat n" f]
  by (fastforce simp: rtw_BIP_verify_def bind_eq_Some_conv rtw_FAIL_def rtw_SUCCESS_def RTW_RX_HANDLED_def split: if_splits option.splits)

text \<open>A receiver that is handed frame after frame; the answer is the packet numbers of the frames it accepted.\<close>

fun bip_run :: "bool \<Rightarrow> bool \<Rightarrow> bip_state \<Rightarrow> (u16 \<times> bytes) list \<Rightarrow> (u64 list \<times> bip_state) option" where
  "bip_run zalloc alloc st [] = Some ([], st)"
| "bip_run zalloc alloc st ((n, f) # fs) =
     do {
       (r, st) \<leftarrow> rtw_BIP_verify zalloc alloc st n f;
       (ns, st') \<leftarrow> bip_run zalloc alloc st fs;
       Some (if r = rtw_SUCCESS then mgnt_80211w_IPN_rx st # ns else ns, st')
     }"

lemma bip_run_sorted:
  assumes "bip_run zalloc alloc st fs = Some (ns, st')"
  shows "sorted_wrt (<) (mgnt_80211w_IPN_rx st # ns) \<and> mgnt_80211w_IPN_rx st' = last (mgnt_80211w_IPN_rx st # ns)"
  using assms
proof (induction fs arbitrary: st ns)
  case (Cons nf fs)
  obtain n f where nf: "nf = (n, f)" by (cases nf)
  obtain r st1 ns1 where v: "rtw_BIP_verify zalloc alloc st n f = Some (r, st1)" and b: "bip_run zalloc alloc st1 fs = Some (ns1, st')"
    and ns: "ns = (if r = rtw_SUCCESS then mgnt_80211w_IPN_rx st1 # ns1 else ns1)"
    using Cons.prems by (auto simp: nf bind_eq_Some_conv)
  note ih = Cons.IH [OF b]
  show ?case using BIP_verify_outcome [OF v] ih ns by (auto intro: less_trans)
qed simp

section \<open>What the MIC is computed over\<close>

definition bip_mask :: "u16 \<Rightarrow> u16" where
  "bip_mask fc = fc AND NOT C_RETRY AND NOT C_PWRMGT AND NOT C_MORE_DATA"

definition bip_head :: "bytes \<Rightarrow> bytes" where
  "bip_head hdr = RTW_PUT_LE16 (bip_mask (ucast (hdr ! 0) OR push_bit 8 (ucast (hdr ! 1)))) @ take 18 (drop 4 hdr)"

lemma le16_at_put: "le16_at (RTW_PUT_LE16 w @ r) 0 = Some w"
proof -
  have "rd (RTW_PUT_LE16 w @ r) 0 = Some (RTW_PUT_LE16 w ! 0)" "rd (RTW_PUT_LE16 w @ r) 1 = Some (RTW_PUT_LE16 w ! 1)"
    by (simp_all add: rd_def nth_append)
  then show ?thesis using LE16_at [of "[]" w r] by (auto simp: le16_at_def RTW_GET_LE16_def or.commute)
qed

lemma fc_clear_at:
  "length a = 2 \<Longrightarrow> fc_clear m (a @ r) = Some (RTW_PUT_LE16 ((ucast (a ! 0) OR push_bit 8 (ucast (a ! 1))) AND NOT m) @ r)"
  by (simp add: fc_clear_def le16_at_def rd_def nth_append wrn_def)

lemma fc_clear_put: "fc_clear m (RTW_PUT_LE16 w @ r) = Some (RTW_PUT_LE16 (w AND NOT m) @ r)"
  by (simp add: fc_clear_def le16_at_put wrn_def)

lemma bip_aad_head:
  assumes "length hdr = 24" "length z = 20"
  shows "bip_aad (hdr @ r) (z @ body) = Some (bip_head hdr @ body)"
proof -
  have h: "rdn (hdr @ r) 0 2 = Some (take 2 hdr)" "rdn (hdr @ r) 4 18 = Some (take 18 (drop 4 hdr))" using assms(1) by (simp_all add: rdn_def)
  have w: "wrn (z @ body) 0 (take 2 hdr) = Some (take 2 hdr @ drop 2 z @ body)" using assms by (simp add: wrn_def numeral_2_eq_2)
  have t: "length (take 2 hdr) = 2" "take 2 hdr ! 0 = hdr ! 0" "take 2 hdr ! 1 = hdr ! 1" using assms(1) by simp_all
  have a: "wrn (RTW_PUT_LE16 v @ drop 2 z @ body) 2 (take 18 (drop 4 hdr)) = Some (RTW_PUT_LE16 v @ take 18 (drop 4 hdr) @ body)" for v
    using wrn_middle [of "drop 2 z" "take 18 (drop 4 hdr)" "RTW_PUT_LE16 v" body] assms by simp
  show ?thesis
    unfolding bip_aad_def h w Option.bind.simps ClearRetry_def ClearPwrMgt_def ClearMData_def fc_clear_at [OF t(1)] t(2,3) fc_clear_put a
    by (simp add: bip_head_def bip_mask_def and.assoc)
qed

definition bip_msg :: "bytes \<Rightarrow> ie list \<Rightarrow> bytes \<Rightarrow> bytes \<Rightarrow> bytes" where
  "bip_msg hdr xs k ipn = bip_head hdr @ enc_all ie_enc xs @ ie_enc (76, k @ ipn @ replicate 8 0)"

lemma rtw_get_ie_last:
  assumes "\<forall>y \<in> set ys. ie_wf y \<and> fst y \<noteq> 76" "length d = 16"
  shows "rtw_get_ie (pre @ enc_all ie_enc ys @ ie_enc (76, d)) (length pre) MME_IE len (int (length (enc_all ie_enc ys @ ie_enc (76, d))))
    = Some (Some (length pre + length (enc_all ie_enc ys)), 16)"
proof -
  let ?limit = "length pre + length (enc_all ie_enc ys @ ie_enc (76, d))"
  have ys: "\<forall>i \<in> set ys. ie_wf i \<and> int (unat (fst i)) \<noteq> 76"
  proof
    fix y assume "y \<in> set ys"
    then have "ie_wf y" "unat (fst y) \<noteq> unat (76 :: u8)" using assms(1) by (auto simp: word_unat_eq_iff)
    then show "ie_wf y \<and> int (unat (fst y)) \<noteq> 76" by (simp del: of_nat_unat)
  qed
  have x: "ie_wf (76, d)" "int (unat (fst (76 :: u8, d))) = 76" using assms(2) by (simp_all add: ie_wf_def)
  have l: "length pre + length (enc_all ie_enc ys) < ?limit" by simp
  show ?thesis unfolding rtw_get_ie_def nat_int using get_ie.loop_finds [OF ys x l, of "[]"] assms(2) by (simp add: MME_IE_def)
qed


section \<open>The verdict\<close>

lemma bip_fields:
  assumes "length k = 2" "length ipn = 6" "length mic = 8" "length pre = p"
  shows "rdn (pre @ ie_enc (76, k @ ipn @ mic)) (p + 4) 6 = Some ipn"
    "le16_at (pre @ ie_enc (76, k @ ipn @ mic)) (p + 2) = Some (ucast (k ! 0) OR push_bit 8 (ucast (k ! 1)))"
    "memset_at (pre @ ie_enc (76, k @ ipn @ mic)) (p + 2 + 16 - 8) 0 8 = Some (pre @ ie_enc (76, k @ ipn @ replicate 8 0))"
proof -
  obtain k0 k1 where k: "k = [k0, k1]" using assms(1) by (auto simp: numeral_2_eq_2 length_Suc_conv)
  show "rdn (pre @ ie_enc (76, k @ ipn @ mic)) (p + 4) 6 = Some ipn" using assms by (simp add: rdn_def ie_enc_def k)
  show "le16_at (pre @ ie_enc (76, k @ ipn @ mic)) (p + 2) = Some (ucast (k ! 0) OR push_bit 8 (ucast (k ! 1)))"
    using assms(4) by (simp add: le16_at_def rd_def ie_enc_def k nth_append)
  show "memset_at (pre @ ie_enc (76, k @ ipn @ mic)) (p + 2 + 16 - 8) 0 8 = Some (pre @ ie_enc (76, k @ ipn @ replicate 8 0))"
    using wrn_middle [of mic "replicate 8 0" "pre @ [76, 16] @ k @ ipn" "[]"] assms by (simp add: memset_at_def ie_enc_def k add.commute)
qed

lemma BIP_verify_verdict:
  assumes hdr: "length hdr = 24" and xs: "\<forall>x \<in> set xs. ie_wf x \<and> fst x \<noteq> 76"
    and l: "length k = 2" "length ipn = 6" "length mic = 8"
    and n: "unat n = length (hdr @ enc_all ie_enc xs @ ie_enc (76, k @ ipn @ mic))"
    and key: "unat (dot11wBIPKeyid st) < length (dot11wBIPKey st)" "length (dot11wBIPKey st ! unat (dot11wBIPKeyid st)) = 16"
  shows "rtw_BIP_verify True True st n (hdr @ enc_all ie_enc xs @ ie_enc (76, k @ ipn @ mic) @ junk)
    = Some (if mgnt_80211w_IPN_rx st < le_val ipn \<and> ucast (ucast (k ! 0) OR push_bit 8 (ucast (k ! 1)) :: u16) = dot11wBIPKeyid st
          \<and> mic = take 8 (cmac_aes (dot11wBIPKey st ! unat (dot11wBIPKeyid st)) (bip_msg hdr xs k ipn))
        then (rtw_SUCCESS, st\<lparr>mgnt_80211w_IPN_rx := le_val ipn\<rparr>) else (rtw_FAIL, st))"
proof -
  let ?e = "enc_all ie_enc xs" and ?m = "ie_enc (76, k @ ipn @ mic)" and ?z = "replicate 20 0 :: bytes"
  let ?f = "hdr @ ?e @ ?m @ junk" and ?key = "dot11wBIPKey st ! unat (dot11wBIPKeyid st)" and ?p = "20 + length (enc_all ie_enc xs)"
  have b: "rdn ?f 24 (unat n - 24) = Some (?e @ ?m)" "unat n - 24 = length (?e @ ?m)" using hdr by (simp_all add: rdn_def n)
  have w: "wrn (replicate (length (?e @ ?m) + 20) 0) 20 (?e @ ?m) = Some (?z @ ?e @ ?m)" by (simp add: wrn_def)
  have g: "rtw_get_ie (?z @ ?e @ ?m) 20 MME_IE 0 (int (length (?e @ ?m))) = Some (Some ?p, 16)"
    using rtw_get_ie_last [OF xs, of "k @ ipn @ mic" ?z 0] l by simp
  have lp: "length (?z @ ?e) = ?p" by simp
  note f = bip_fields [OF l lp]
  have a: "bip_aad ?f ((?z @ ?e) @ ie_enc (76, k @ ipn @ replicate 8 0)) = Some (bip_msg hdr xs k ipn)"
    using bip_aad_head [OF hdr, of ?z "?e @ ?m @ junk" "?e @ ie_enc (76, k @ ipn @ replicate 8 0)"] by (simp add: bip_msg_def)
  have m: "rdn ?f (unat n - 8) 8 = Some mic" using l hdr by (simp add: rdn_def n ie_enc_def)
  have i: "idx (dot11wBIPKey st) (unat (dot11wBIPKeyid st)) = Some ?key" using key(1) by (simp add: idx_def)
  note o = omac1_aes_128_correct [OF key(2), of "bip_msg hdr xs k ipn"]
  have "\<not> unat n < 24" using hdr by (simp add: n)
  then have "rtw_BIP_verify True True st n ?f = bip_check True st (unat n) ?f ((?z @ ?e) @ ?m) ?p 16"
    using b w g by (simp add: rtw_BIP_verify_def WLAN_HDR_A3_LEN_def BIP_AAD_SIZE_def)
  also have "\<dots> = Some (if mgnt_80211w_IPN_rx st < le_val ipn \<and> ucast (ucast (k ! 0) OR push_bit 8 (ucast (k ! 1)) :: u16) = dot11wBIPKeyid st
          \<and> mic = take 8 (cmac_aes ?key (bip_msg hdr xs k ipn))
        then (rtw_SUCCESS, st\<lparr>mgnt_80211w_IPN_rx := le_val ipn\<rparr>) else (rtw_FAIL, st))"
    unfolding bip_check_def f Option.bind.simps Let_def a m i o by auto
  finally show ?thesis .
qed


section \<open>Protection\<close>

lemma length_le_bytes [simp]: "length (le_bytes n w) = n"
  by (simp add: le_bytes_def)

lemma le_bytes_Suc: "le_bytes (Suc n) w = ucast w # le_bytes n (drop_bit 8 w)"
  by (simp add: le_bytes_def upt_conv_Cons map_Suc_upt [symmetric] del: upt_Suc) (simp add: drop_bit_drop_bit add.commute)

lemma le_val_bytes: "le_val (le_bytes n w) = take_bit (8 * n) w"
proof (induction n arbitrary: w)
  case (Suc n)
  have "ucast (ucast w :: u8) OR push_bit 8 (take_bit (8 * n) (drop_bit 8 w)) = take_bit (8 * Suc n) w"
    by (rule bit_word_eqI) (auto simp: bit_simps)
  then show ?case by (simp add: le_bytes_Suc Suc)
qed (simp add: le_bytes_def)

definition bip_mme :: "bip_state \<Rightarrow> bytes" where
  "bip_mme st = [ucast (dot11wBIPKeyid st), 0]"

lemma low_byte: "unat w < 256 \<Longrightarrow> ucast (ucast (ucast w :: u8) :: u16) = (w :: u32)"
proof -
  assume "unat w < 256"
  then have "take_bit 8 w = w" by (simp add: word_unat_eq_iff unsigned_take_bit_eq take_bit_nat_eq_self)
  moreover have "ucast (ucast (ucast w :: u8) :: u16) = take_bit 8 w" by (rule bit_word_eqI) (auto simp: bit_simps)
  ultimately show ?thesis by simp
qed

lemma bip_protect_frame:
  assumes hdr: "length hdr = 24" and sub: "GetFrameSubType hdr = Some WIFI_DEAUTH \<or> GetFrameSubType hdr = Some WIFI_DISASSOC"
    and room: "18 \<le> length room" and body: "length body = n"
    and key: "unat (dot11wBIPKeyid st) < length (dot11wBIPKey st)" "length (dot11wBIPKey st ! unat (dot11wBIPKeyid st)) = 16"
  defines "mic \<equiv> take 8 (cmac_aes (dot11wBIPKey st ! unat (dot11wBIPKeyid st))
      (bip_head hdr @ body @ ie_enc (76, bip_mme st @ le_bytes 6 (mgnt_80211w_IPN st) @ replicate 8 0)))"
  shows "bip_protect True st (hdr @ body @ room) (24 + n)
    = Some (rtw_SUCCESS, st\<lparr>mgnt_80211w_IPN := mgnt_80211w_IPN st + 1\<rparr>,
        hdr @ body @ ie_enc (76, bip_mme st @ le_bytes 6 (mgnt_80211w_IPN st) @ mic) @ drop 18 room, 24 + n + 18)"
proof -
  let ?key = "dot11wBIPKey st ! unat (dot11wBIPKeyid st)" and ?i = "le_bytes 6 (mgnt_80211w_IPN st)"
  let ?e = "ie_enc (76, bip_mme st @ ?i @ replicate 8 0)"
  obtain v where v: "GetFrameSubType (hdr @ body @ room) = Some v" "v = WIFI_DEAUTH \<or> v = WIFI_DISASSOC"
  proof -
    have "le16_at (hdr @ body @ room) 0 = le16_at hdr 0" using hdr by (simp add: le16_at_def rd_def nth_append)
    then show ?thesis using sub that by (auto simp: GetFrameSubType_def)
  qed
  have mm: "wrn (replicate 18 0) 0 [ucast (dot11wBIPKeyid st)] = Some (bip_mme st @ replicate 16 0)"
    "wrn (bip_mme st @ replicate 16 0) 2 ?i = Some (bip_mme st @ ?i @ replicate 10 0)"
    using wrn_middle [of "replicate 6 0" ?i "bip_mme st" "replicate 10 0"] by (simp_all add: bip_mme_def wrn_def numeral_eq_Suc)
  have s: "rtw_set_ie (hdr @ body @ room) (24 + n) MME_IE 16 (bip_mme st @ ?i @ replicate 10 0) (24 + n)
      = Some (24 + n + 18, 24 + n + 18, (hdr @ body @ ?e) @ drop 18 room)"
    using rtw_set_ie_append [of 16 room "bip_mme st @ ?i @ replicate 10 0" "hdr @ body" MME_IE "24 + n"] room hdr body
    by (simp add: MME_IE_def bip_mme_def)
  have a: "bip_aad ((hdr @ body @ ?e) @ drop 18 room) (replicate (20 + (24 + n)) 0) = Some (bip_head hdr @ replicate (24 + n) 0)"
    unfolding replicate_add [of 20] append_assoc by (rule bip_aad_head [OF hdr]) simp
  have r: "rdn ((hdr @ body @ ?e) @ drop 18 room) 24 (24 + n + 18 - 24) = Some (body @ ?e)"
    using rdn_at [of hdr "body @ ?e" "drop 18 room"] hdr body by (simp add: bip_mme_def add.commute)
  have h: "length (bip_head hdr) = 20" using hdr by (simp add: bip_head_def)
  have w: "wrn (bip_head hdr @ replicate (24 + n) 0) 20 (body @ ?e) = Some ((bip_head hdr @ body @ ?e) @ replicate 6 0)"
    using h body by (simp add: wrn_def bip_mme_def)
  have d: "rdn ((bip_head hdr @ body @ ?e) @ replicate 6 0) 0 (20 + (24 + n + 18 - 24)) = Some (bip_head hdr @ body @ ?e)"
    using h body by (simp add: rdn_def bip_mme_def)
  have i: "idx (dot11wBIPKey st) (unat (dot11wBIPKeyid st)) = Some ?key" using key(1) by (simp add: idx_def)
  note o = omac1_aes_128_correct [OF key(2), of "bip_head hdr @ body @ ?e"]
  have lm: "length mic = 8" by (simp add: mic_def cmac_aes_head)
  have x: "wrn ((hdr @ body @ ?e) @ drop 18 room) (24 + n + 18 - 8) mic = Some (hdr @ body @ ie_enc (76, bip_mme st @ ?i @ mic) @ drop 18 room)"
    using wrn_middle [of "replicate 8 0" mic "hdr @ body @ [76, 16] @ bip_mme st @ ?i" "drop 18 room"] lm hdr body by (simp add: ie_enc_def bip_mme_def)
  have ns: "\<not> (v \<noteq> WIFI_DEAUTH \<and> v \<noteq> WIFI_DISASSOC)" using v(2) by blast
  show ?thesis
    unfolding bip_protect_def v(1) Option.bind.simps if_not_P [OF ns] Let_def MME_IE_LENGTH_def BIP_AAD_SIZE_def WLAN_HDR_A3_LEN_def mm s prod.case a r w d
    using i o x by (simp add: mic_def)
qed

section \<open>Properties\<close>

text \<open>
  The verdict of \<^verbatim>\<open>rtw_BIP_verify\<close> on a group addressed management frame that ends with a management MIC element: it accepts exactly when the
  packet number is new, the key is the installed one and the MIC is that of the frame, stores the packet number then, and changes nothing otherwise.
\<close>

theorem BIP_verify_correct:
  assumes "length hdr = 24" "\<forall>x \<in> set xs. ie_wf x \<and> fst x \<noteq> 76" "length k = 2" "length ipn = 6" "length mic = 8"
    "unat n = length (hdr @ enc_all ie_enc xs @ ie_enc (76, k @ ipn @ mic))"
    "unat (dot11wBIPKeyid st) < length (dot11wBIPKey st)" "length (dot11wBIPKey st ! unat (dot11wBIPKeyid st)) = 16"
  shows "rtw_BIP_verify True True st n (hdr @ enc_all ie_enc xs @ ie_enc (76, k @ ipn @ mic) @ junk)
    = Some (if mgnt_80211w_IPN_rx st < le_val ipn \<and> ucast (ucast (k ! 0) OR push_bit 8 (ucast (k ! 1)) :: u16) = dot11wBIPKeyid st
          \<and> mic = take 8 (cmac_aes (dot11wBIPKey st ! unat (dot11wBIPKeyid st)) (bip_msg hdr xs k ipn))
        then (rtw_SUCCESS, st\<lparr>mgnt_80211w_IPN_rx := le_val ipn\<rparr>) else (rtw_FAIL, st))"
  using assms by (rule BIP_verify_verdict)

definition sample_bip :: bip_state where
  "sample_bip = \<lparr>mgnt_80211w_IPN = 7, mgnt_80211w_IPN_rx = 0, dot11wBIPKeyid = 4, dot11wBIPKey = replicate 6 (replicate 16 1)\<rparr>"

theorem BIP_verify_correct_witness:
  "rtw_BIP_verify True True sample_bip 44 (replicate 24 0 @ enc_all ie_enc [(7, [])] @ ie_enc (76, [5, 0] @ [1, 0, 0, 0, 0, 0] @ replicate 8 0) @ [])
    = Some (rtw_FAIL, sample_bip)"
  using BIP_verify_correct [of "replicate 24 0" "[(7, [])]" "[5, 0]" "[1, 0, 0, 0, 0, 0]" "replicate 8 0" 44 sample_bip "[]"]
  by (simp add: ie_wf_def sample_bip_def)


definition sample_bip_frame :: bytes where
  "sample_bip_frame = replicate 24 0 @ enc_all ie_enc [(7, [])] @ ie_enc (76, [4, 0] @ [1, 0, 0, 0, 0, 0]
     @ take 8 (cmac_aes (replicate 16 1) (bip_msg (replicate 24 0) [(7, [])] [4, 0] [1, 0, 0, 0, 0, 0]))) @ []"

lemma sample_bip_verdict:
  assumes "dot11wBIPKeyid st = 4" "dot11wBIPKey st = replicate 6 (replicate 16 1)"
  shows "rtw_BIP_verify True True st 44 sample_bip_frame
    = Some (if mgnt_80211w_IPN_rx st < 1 then (rtw_SUCCESS, st\<lparr>mgnt_80211w_IPN_rx := 1\<rparr>) else (rtw_FAIL, st))"
  unfolding sample_bip_frame_def using BIP_verify_verdict [of "replicate 24 0" "[(7, [])]" "[4, 0]" "[1, 0, 0, 0, 0, 0]"
      "take 8 (cmac_aes (replicate 16 1) (bip_msg (replicate 24 0) [(7, [])] [4, 0] [1, 0, 0, 0, 0, 0]))" 44 st "[]"] assms
  by (simp add: ie_wf_def cmac_aes_head)





end
