(* ===== verification/Rtw_Elems.thy ===== *)
theory Rtw_Elems
  imports Rtw_Ie
begin

unbundle bit_operations_syntax

text \<open>
  The element parser of management frames, \<^verbatim>\<open>rtw_ieee802_11_parse_elems\<close> of
  \<^verbatim>\<open>core/rtw_ieee80211.c\<close>, and its vendor-specific part. A field of the result is a pointer
  (an offset into the frame) and a length. The lemmas show that the parser is safe on every
  input, accepts exactly the encodings of element sequences, and leaves in each field the last
  element of its kind.
\<close>

section \<open>The parser\<close>

definition WLAN_EID_SSID :: u8 where "WLAN_EID_SSID = 0"
definition WLAN_EID_SUPP_RATES :: u8 where "WLAN_EID_SUPP_RATES = 1"
definition WLAN_EID_FH_PARAMS :: u8 where "WLAN_EID_FH_PARAMS = 2"
definition WLAN_EID_DS_PARAMS :: u8 where "WLAN_EID_DS_PARAMS = 3"
definition WLAN_EID_CF_PARAMS :: u8 where "WLAN_EID_CF_PARAMS = 4"
definition WLAN_EID_TIM :: u8 where "WLAN_EID_TIM = 5"
definition WLAN_EID_IBSS_PARAMS :: u8 where "WLAN_EID_IBSS_PARAMS = 6"
definition WLAN_EID_CHALLENGE :: u8 where "WLAN_EID_CHALLENGE = 16"
definition WLAN_EID_ERP_INFO :: u8 where "WLAN_EID_ERP_INFO = 42"
definition WLAN_EID_EXT_SUPP_RATES :: u8 where "WLAN_EID_EXT_SUPP_RATES = 50"
definition WLAN_EID_RSN :: u8 where "WLAN_EID_RSN = 48"
definition WLAN_EID_PWR_CAPABILITY :: u8 where "WLAN_EID_PWR_CAPABILITY = 33"
definition WLAN_EID_SUPPORTED_CHANNELS :: u8 where "WLAN_EID_SUPPORTED_CHANNELS = 36"
definition WLAN_EID_MOBILITY_DOMAIN :: u8 where "WLAN_EID_MOBILITY_DOMAIN = 54"
definition WLAN_EID_FAST_BSS_TRANSITION :: u8 where "WLAN_EID_FAST_BSS_TRANSITION = 55"
definition WLAN_EID_TIMEOUT_INTERVAL :: u8 where "WLAN_EID_TIMEOUT_INTERVAL = 56"
definition WLAN_EID_HT_CAP :: u8 where "WLAN_EID_HT_CAP = 45"
definition WLAN_EID_HT_OPERATION :: u8 where "WLAN_EID_HT_OPERATION = 61"
definition WLAN_EID_VENDOR_SPECIFIC :: u8 where "WLAN_EID_VENDOR_SPECIFIC = 221"

lemmas eid_defs = WLAN_EID_SSID_def WLAN_EID_SUPP_RATES_def WLAN_EID_FH_PARAMS_def
  WLAN_EID_DS_PARAMS_def WLAN_EID_CF_PARAMS_def WLAN_EID_TIM_def WLAN_EID_IBSS_PARAMS_def
  WLAN_EID_CHALLENGE_def WLAN_EID_ERP_INFO_def WLAN_EID_EXT_SUPP_RATES_def WLAN_EID_RSN_def
  WLAN_EID_PWR_CAPABILITY_def WLAN_EID_SUPPORTED_CHANNELS_def WLAN_EID_MOBILITY_DOMAIN_def
  WLAN_EID_FAST_BSS_TRANSITION_def WLAN_EID_TIMEOUT_INTERVAL_def WLAN_EID_HT_CAP_def
  WLAN_EID_HT_OPERATION_def WLAN_EID_VENDOR_SPECIFIC_def

definition OUI_MICROSOFT :: u32 where "OUI_MICROSOFT = 0x0050f2"
definition OUI_BROADCOM :: u32 where "OUI_BROADCOM = 0x00904c"
definition WME_OUI_TYPE :: u8 where "WME_OUI_TYPE = 2"
definition WME_OUI_SUBTYPE_INFORMATION_ELEMENT :: u8 where "WME_OUI_SUBTYPE_INFORMATION_ELEMENT = 0"
definition WME_OUI_SUBTYPE_PARAMETER_ELEMENT :: u8 where "WME_OUI_SUBTYPE_PARAMETER_ELEMENT = 1"
definition WME_OUI_SUBTYPE_TSPEC_ELEMENT :: u8 where "WME_OUI_SUBTYPE_TSPEC_ELEMENT = 2"
definition VENDOR_HT_CAPAB_OUI_TYPE :: u8 where "VENDOR_HT_CAPAB_OUI_TYPE = 0x33"

lemmas vendor_type_defs = WME_OUI_TYPE_def WME_OUI_SUBTYPE_INFORMATION_ELEMENT_def
  WME_OUI_SUBTYPE_PARAMETER_ELEMENT_def WME_OUI_SUBTYPE_TSPEC_ELEMENT_def VENDOR_HT_CAPAB_OUI_TYPE_def

datatype ParseRes = ParseOK | ParseUnknown | ParseFailed

type_synonym elem = "nat option \<times> u8"

record rtw_ieee802_11_elems =
  el_ssid :: elem
  el_supp_rates :: elem
  el_fh_params :: elem
  el_ds_params :: elem
  el_cf_params :: elem
  el_tim :: elem
  el_ibss_params :: elem
  el_challenge :: elem
  el_erp_info :: elem
  el_ext_supp_rates :: elem
  el_wpa_ie :: elem
  el_rsn_ie :: elem
  el_wme :: elem
  el_wme_tspec :: elem
  el_wps_ie :: elem
  el_power_cap :: elem
  el_supp_channels :: elem
  el_mdie :: elem
  el_ftie :: elem
  el_timeout_int :: elem
  el_ht_capabilities :: elem
  el_ht_operation :: elem
  el_vendor_ht_cap :: elem

definition elems_zero :: rtw_ieee802_11_elems where
  "elems_zero =
     \<lparr>el_ssid = (None, 0), el_supp_rates = (None, 0), el_fh_params = (None, 0),
     el_ds_params = (None, 0), el_cf_params = (None, 0), el_tim = (None, 0), el_ibss_params =
     (None, 0), el_challenge = (None, 0), el_erp_info = (None, 0), el_ext_supp_rates = (None,
     0), el_wpa_ie = (None, 0), el_rsn_ie = (None, 0), el_wme = (None, 0), el_wme_tspec =
     (None, 0), el_wps_ie = (None, 0), el_power_cap = (None, 0), el_supp_channels = (None, 0),
     el_mdie = (None, 0), el_ftie = (None, 0), el_timeout_int = (None, 0), el_ht_capabilities =
     (None, 0), el_ht_operation = (None, 0), el_vendor_ht_cap = (None, 0)\<rparr>"

definition RTW_GET_BE24 :: "bytes \<Rightarrow> u32" where
  "RTW_GET_BE24 a = push_bit 16 (ucast (a ! 0)) OR push_bit 8 (ucast (a ! 1)) OR ucast (a ! 2)"

definition rtw_ieee802_11_parse_vendor_specific ::
    "bytes \<Rightarrow> nat \<Rightarrow> nat \<Rightarrow> rtw_ieee802_11_elems \<Rightarrow> (int \<times> rtw_ieee802_11_elems) option" where
  "rtw_ieee802_11_parse_vendor_specific buf pos elen elems =
     (if elen < 4 then Some (-1, elems)
      else do {
        h \<leftarrow> rdn buf pos 4;
        let oui = RTW_GET_BE24 h;
        let here = (Some pos, of_nat elen);
        if oui = OUI_MICROSOFT then
          (if h ! 3 = 1 then Some (0, elems\<lparr>el_wpa_ie := here\<rparr>)
           else if h ! 3 = WME_OUI_TYPE then
             (if elen < 5 then Some (-1, elems)
              else do {
                t \<leftarrow> rd buf (pos + 4);
                if t = WME_OUI_SUBTYPE_INFORMATION_ELEMENT \<or> t = WME_OUI_SUBTYPE_PARAMETER_ELEMENT then
                  Some (0, elems\<lparr>el_wme := here\<rparr>)
                else if t = WME_OUI_SUBTYPE_TSPEC_ELEMENT then Some (0, elems\<lparr>el_wme_tspec := here\<rparr>)
                else Some (-1, elems)
              })
           else if h ! 3 = 4 then Some (0, elems\<lparr>el_wps_ie := here\<rparr>)
           else Some (-1, elems))
        else if oui = OUI_BROADCOM then
          (if h ! 3 = VENDOR_HT_CAPAB_OUI_TYPE then Some (0, elems\<lparr>el_vendor_ht_cap := here\<rparr>)
           else Some (-1, elems))
        else Some (-1, elems)
      })"

text \<open>The \<^verbatim>\<open>switch (id)\<close>: whether the element is counted as unknown, and the fields after it.\<close>

definition parse_elem ::
    "bytes \<Rightarrow> u8 \<Rightarrow> nat \<Rightarrow> u8 \<Rightarrow> rtw_ieee802_11_elems \<Rightarrow> (bool \<times> rtw_ieee802_11_elems) option" where
  "parse_elem buf eid pos elen elems =
     (if eid = WLAN_EID_SSID then Some (False, elems\<lparr>el_ssid := (Some pos, elen)\<rparr>)
      else if eid = WLAN_EID_SUPP_RATES then Some (False, elems\<lparr>el_supp_rates := (Some pos, elen)\<rparr>)
      else if eid = WLAN_EID_FH_PARAMS then Some (False, elems\<lparr>el_fh_params := (Some pos, elen)\<rparr>)
      else if eid = WLAN_EID_DS_PARAMS then Some (False, elems\<lparr>el_ds_params := (Some pos, elen)\<rparr>)
      else if eid = WLAN_EID_CF_PARAMS then Some (False, elems\<lparr>el_cf_params := (Some pos, elen)\<rparr>)
      else if eid = WLAN_EID_TIM then Some (False, elems\<lparr>el_tim := (Some pos, elen)\<rparr>)
      else if eid = WLAN_EID_IBSS_PARAMS then Some (False, elems\<lparr>el_ibss_params := (Some pos, elen)\<rparr>)
      else if eid = WLAN_EID_CHALLENGE then Some (False, elems\<lparr>el_challenge := (Some pos, elen)\<rparr>)
      else if eid = WLAN_EID_ERP_INFO then Some (False, elems\<lparr>el_erp_info := (Some pos, elen)\<rparr>)
      else if eid = WLAN_EID_EXT_SUPP_RATES then Some (False, elems\<lparr>el_ext_supp_rates := (Some pos, elen)\<rparr>)
      else if eid = WLAN_EID_VENDOR_SPECIFIC then
        do { (ret, elems) \<leftarrow> rtw_ieee802_11_parse_vendor_specific buf pos (unat elen) elems; Some (ret \<noteq> 0, elems) }
      else if eid = WLAN_EID_RSN then Some (False, elems\<lparr>el_rsn_ie := (Some pos, elen)\<rparr>)
      else if eid = WLAN_EID_PWR_CAPABILITY then Some (False, elems\<lparr>el_power_cap := (Some pos, elen)\<rparr>)
      else if eid = WLAN_EID_SUPPORTED_CHANNELS then Some (False, elems\<lparr>el_supp_channels := (Some pos, elen)\<rparr>)
      else if eid = WLAN_EID_MOBILITY_DOMAIN then Some (False, elems\<lparr>el_mdie := (Some pos, elen)\<rparr>)
      else if eid = WLAN_EID_FAST_BSS_TRANSITION then Some (False, elems\<lparr>el_ftie := (Some pos, elen)\<rparr>)
      else if eid = WLAN_EID_TIMEOUT_INTERVAL then Some (False, elems\<lparr>el_timeout_int := (Some pos, elen)\<rparr>)
      else if eid = WLAN_EID_HT_CAP then Some (False, elems\<lparr>el_ht_capabilities := (Some pos, elen)\<rparr>)
      else if eid = WLAN_EID_HT_OPERATION then Some (False, elems\<lparr>el_ht_operation := (Some pos, elen)\<rparr>)
      else Some (True, elems))"

function parse_elems_loop ::
    "bytes \<Rightarrow> nat \<Rightarrow> nat \<Rightarrow> nat \<Rightarrow> rtw_ieee802_11_elems \<Rightarrow> (ParseRes \<times> rtw_ieee802_11_elems) option" where
  "parse_elems_loop buf pos left unknown elems =
     (if left \<ge> 2 then
        (case (rd buf pos, rd buf (pos + 1)) of
           (Some eid, Some elen) \<Rightarrow>
             if unat elen > left - 2 then Some (ParseFailed, elems)
             else (case parse_elem buf eid (pos + 2) elen elems of None \<Rightarrow> None
                   | Some (u, elems) \<Rightarrow>
                       parse_elems_loop buf (pos + 2 + unat elen) (left - 2 - unat elen)
                         (if u then unknown + 1 else unknown) elems)
         | _ \<Rightarrow> None)
      else if left \<noteq> 0 then Some (ParseFailed, elems)
      else Some (if unknown \<noteq> 0 then ParseUnknown else ParseOK, elems))"
  by pat_completeness auto
termination
  by (relation "measure (\<lambda>(buf, pos, left, unknown, elems). left)") auto

declare parse_elems_loop.simps [simp del]

definition rtw_ieee802_11_parse_elems :: "bytes \<Rightarrow> nat \<Rightarrow> nat \<Rightarrow> (ParseRes \<times> rtw_ieee802_11_elems) option" where
  "rtw_ieee802_11_parse_elems buf start len = parse_elems_loop buf start len 0 elems_zero"

section \<open>The fields\<close>

text \<open>
  Which elements a field stands for: an identifier, and the prefixes of the contents (an OUI with
  its type and subtype for the vendor-specific fields, nothing to compare for the others).
\<close>

type_synonym elem_kind = "u8 \<times> bytes list"

definition has_prefix :: "bytes \<Rightarrow> bytes \<Rightarrow> bool" where
  "has_prefix p d \<longleftrightarrow> take (length p) d = p"

definition kind_of :: "elem_kind \<Rightarrow> ie \<Rightarrow> bool" where
  "kind_of k x \<longleftrightarrow> fst x = fst k \<and> (\<exists>p \<in> set (snd k). has_prefix p (snd x))"

definition elem_table :: "(elem_kind \<times> (rtw_ieee802_11_elems \<Rightarrow> elem)) list" where
  "elem_table =
     [((0, [[]]), el_ssid), ((1, [[]]), el_supp_rates), ((2, [[]]), el_fh_params),
      ((3, [[]]), el_ds_params), ((4, [[]]), el_cf_params), ((5, [[]]), el_tim),
      ((6, [[]]), el_ibss_params), ((16, [[]]), el_challenge), ((42, [[]]), el_erp_info),
      ((50, [[]]), el_ext_supp_rates), ((48, [[]]), el_rsn_ie), ((33, [[]]), el_power_cap),
      ((36, [[]]), el_supp_channels), ((54, [[]]), el_mdie), ((55, [[]]), el_ftie),
      ((56, [[]]), el_timeout_int), ((45, [[]]), el_ht_capabilities), ((61, [[]]), el_ht_operation),
      ((221, [[0x00, 0x50, 0xf2, 1]]), el_wpa_ie),
      ((221, [[0x00, 0x50, 0xf2, 2, 0], [0x00, 0x50, 0xf2, 2, 1]]), el_wme),
      ((221, [[0x00, 0x50, 0xf2, 2, 2]]), el_wme_tspec),
      ((221, [[0x00, 0x50, 0xf2, 4]]), el_wps_ie),
      ((221, [[0x00, 0x90, 0x4c, 0x33]]), el_vendor_ht_cap)]"

definition known_elem :: "ie \<Rightarrow> bool" where
  "known_elem x \<longleftrightarrow> (\<exists>(k, f) \<in> set elem_table. kind_of k x)"

text \<open>The last element of a kind, as a pointer to its contents and their length.\<close>

fun last_elem :: "elem_kind \<Rightarrow> nat \<Rightarrow> ie list \<Rightarrow> elem \<Rightarrow> elem" where
  "last_elem k off [] f = f"
| "last_elem k off (x # xs) f =
     last_elem k (off + length (ie_enc x)) xs
       (if kind_of k x then (Some (off + 2), of_nat (length (snd x))) else f)"

definition elem_within :: "nat \<Rightarrow> nat \<Rightarrow> elem \<Rightarrow> bool" where
  "elem_within lo hi f \<longleftrightarrow> (case f of (None, n) \<Rightarrow> n = 0 | (Some p, n) \<Rightarrow> lo \<le> p \<and> p + unat n \<le> hi)"

section \<open>One element\<close>

lemma BE24_bytes:
  "ucast (drop_bit 16 (RTW_GET_BE24 a)) = a ! 0" "ucast (drop_bit 8 (RTW_GET_BE24 a)) = a ! 1"
  "ucast (RTW_GET_BE24 a) = a ! 2"
  by (rule bit_word_eqI, auto simp: RTW_GET_BE24_def bit_simps)+

lemma BE24_eq:
  "RTW_GET_BE24 a = OUI_MICROSOFT \<longleftrightarrow> a ! 0 = 0x00 \<and> a ! 1 = 0x50 \<and> a ! 2 = 0xf2"
  "RTW_GET_BE24 a = OUI_BROADCOM \<longleftrightarrow> a ! 0 = 0x00 \<and> a ! 1 = 0x90 \<and> a ! 2 = 0x4c"
proof -
  have l: "RTW_GET_BE24 a = RTW_GET_BE24 b" if "a ! 0 = b ! 0" "a ! 1 = b ! 1" "a ! 2 = b ! 2" for a b
    using that by (simp add: RTW_GET_BE24_def)
  have m: "RTW_GET_BE24 [0x00, 0x50, 0xf2] = OUI_MICROSOFT" "RTW_GET_BE24 [0x00, 0x90, 0x4c] = OUI_BROADCOM"
    by (simp_all add: RTW_GET_BE24_def OUI_MICROSOFT_def OUI_BROADCOM_def)
  show "RTW_GET_BE24 a = OUI_MICROSOFT \<longleftrightarrow> a ! 0 = 0x00 \<and> a ! 1 = 0x50 \<and> a ! 2 = 0xf2"
    using BE24_bytes [of a] l [of a "[0x00, 0x50, 0xf2]"] m(1) by (auto simp: OUI_MICROSOFT_def)
  show "RTW_GET_BE24 a = OUI_BROADCOM \<longleftrightarrow> a ! 0 = 0x00 \<and> a ! 1 = 0x90 \<and> a ! 2 = 0x4c"
    using BE24_bytes [of a] l [of a "[0x00, 0x90, 0x4c]"] m(2) by (auto simp: OUI_BROADCOM_def)
qed

lemma prefix_0: "has_prefix [] d"
  by (simp add: has_prefix_def)

lemma prefix_4: "has_prefix [a, b, c, e] d \<longleftrightarrow> 4 \<le> length d \<and> d ! 0 = a \<and> d ! 1 = b \<and> d ! 2 = c \<and> d ! 3 = e"
  by (cases d; cases "tl d"; cases "tl (tl d)"; cases "tl (tl (tl d))") (auto simp: has_prefix_def numeral_eq_Suc)

lemma prefix_5:
  "has_prefix [a, b, c, e, f] d \<longleftrightarrow>
     5 \<le> length d \<and> d ! 0 = a \<and> d ! 1 = b \<and> d ! 2 = c \<and> d ! 3 = e \<and> d ! 4 = f"
  by (cases d; cases "tl d"; cases "tl (tl d)"; cases "tl (tl (tl d))"; cases "tl (tl (tl (tl d)))")
    (auto simp: has_prefix_def numeral_eq_Suc)

lemmas prefix_simps = prefix_0 prefix_4 prefix_5

lemma elem_bytes:
  assumes "buf = pre @ ie_enc x @ post" "i < length (snd x)"
  shows "rd buf (length pre + 2 + i) = Some (snd x ! i)"
  using assms by (cases x) (auto simp: ie_enc_def rd_def nth_append)

lemma parse_vendor:
  assumes "ie_wf x" and b: "buf = pre @ ie_enc x @ post" and e: "fst x = 221"
  shows "\<exists>ret e'. rtw_ieee802_11_parse_vendor_specific buf (length pre + 2) (length (snd x)) e = Some (ret, e')
    \<and> (ret = 0 \<longleftrightarrow> known_elem x)
    \<and> (\<forall>(k, f) \<in> set elem_table. f e' = (if kind_of k x then (Some (length pre + 2), of_nat (length (snd x))) else f e))"
proof (cases "length (snd x) < 4")
  case True
  then show ?thesis using e
    by (auto simp: rtw_ieee802_11_parse_vendor_specific_def known_elem_def elem_table_def kind_of_def prefix_simps)
next
  case False
  define d where "d = snd x"
  have h: "rdn buf (length pre + 2) 4 = Some (take 4 d)"
    using False b by (cases x) (auto simp: rdn_def ie_enc_def d_def)
  have t: "5 \<le> length d \<Longrightarrow> rd buf (length pre + 2 + 4) = Some (d ! 4)"
    using elem_bytes [OF b, of 4] by (simp add: d_def)
  define here :: elem where "here = (Some (length pre + 2), of_nat (length d))"
  have k: "fst x = 221" "snd x = d" "4 \<le> length d" using False e by (simp_all add: d_def)
  have eq: "rtw_ieee802_11_parse_vendor_specific buf (length pre + 2) (length d) e =
      (if has_prefix [0x00, 0x50, 0xf2, 1] d then Some (0, e\<lparr>el_wpa_ie := here\<rparr>)
       else if has_prefix [0x00, 0x50, 0xf2, 2, 0] d \<or> has_prefix [0x00, 0x50, 0xf2, 2, 1] d then Some (0, e\<lparr>el_wme := here\<rparr>)
       else if has_prefix [0x00, 0x50, 0xf2, 2, 2] d then Some (0, e\<lparr>el_wme_tspec := here\<rparr>)
       else if has_prefix [0x00, 0x50, 0xf2, 4] d then Some (0, e\<lparr>el_wps_ie := here\<rparr>)
       else if has_prefix [0x00, 0x90, 0x4c, 0x33] d then Some (0, e\<lparr>el_vendor_ht_cap := here\<rparr>)
       else Some (-1, e))"
    unfolding rtw_ieee802_11_parse_vendor_specific_def prefix_simps here_def
    using k(3) h t
    by (cases "d ! 0 = 0x00 \<and> d ! 1 = 0x50 \<and> d ! 2 = 0xf2"; cases "5 \<le> length d")
      (simp_all add: BE24_eq Let_def vendor_type_defs del: add_2_eq_Suc')
  show ?thesis
    unfolding eq k(2) here_def [symmetric] known_elem_def elem_table_def kind_of_def
    by (simp add: k(1,2) prefix_simps)
qed

lemma parse_elem_spec:
  assumes "ie_wf x" "buf = pre @ ie_enc x @ post"
  shows "\<exists>e'. parse_elem buf (fst x) (length pre + 2) (of_nat (length (snd x))) e = Some (\<not> known_elem x, e')
    \<and> (\<forall>(k, f) \<in> set elem_table. f e' = (if kind_of k x then (Some (length pre + 2), of_nat (length (snd x))) else f e))"
proof (cases "fst x = 221")
  case True
  have n: "unat (of_nat (length (snd x)) :: u8) = length (snd x)" using assms(1) by (simp add: ie_wf_def)
  obtain ret e' where v: "rtw_ieee802_11_parse_vendor_specific buf (length pre + 2) (length (snd x)) e = Some (ret, e')"
    "ret = 0 \<longleftrightarrow> known_elem x"
    and f: "\<forall>(k, f) \<in> set elem_table. f e' = (if kind_of k x then (Some (length pre + 2), of_nat (length (snd x))) else f e)"
    using parse_vendor [OF assms True, of e] by blast
  have "parse_elem buf (fst x) (length pre + 2) (of_nat (length (snd x))) e = Some (\<not> known_elem x, e')"
    using v True by (simp add: parse_elem_def eid_defs n del: add_2_eq_Suc')
  then show ?thesis using f by blast
next
  case False
  define eid where "eid = fst x"
  have k: "fst x = eid" "eid \<noteq> 221" using False by (simp_all add: eid_def)
  show ?thesis
    using k(2) by (auto simp: parse_elem_def eid_defs known_elem_def elem_table_def kind_of_def k(1) prefix_0)
qed

section \<open>The loop\<close>

lemma parse_loop_spec:
  assumes "\<forall>x \<in> set xs. ie_wf x" "buf = pre @ enc_all ie_enc xs @ post"
  shows "\<exists>e'. parse_elems_loop buf (length pre) (length (enc_all ie_enc xs)) u e =
      Some (if u = 0 \<and> list_all known_elem xs then ParseOK else ParseUnknown, e')
    \<and> (\<forall>(k, f) \<in> set elem_table. f e' = last_elem k (length pre) xs (f e))"
  using assms
proof (induction xs arbitrary: pre u e)
  case Nil
  show ?case by (subst parse_elems_loop.simps) auto
next
  case (Cons x xs)
  have wf: "ie_wf x" and n: "unat (of_nat (length (snd x)) :: u8) = length (snd x)"
    using Cons.prems by (simp_all add: ie_wf_def)
  have b: "buf = pre @ ie_enc x @ (enc_all ie_enc xs @ post)" using Cons.prems by simp
  obtain e1 where p: "parse_elem buf (fst x) (length pre + 2) (of_nat (length (snd x))) e = Some (\<not> known_elem x, e1)"
    and f1: "\<forall>(k, f) \<in> set elem_table. f e1 = (if kind_of k x then (Some (length pre + 2), of_nat (length (snd x))) else f e)"
    using parse_elem_spec [OF wf b, of e] by blast
  have r: "rd buf (length pre) = Some (fst x)" "rd buf (length pre + 1) = Some (of_nat (length (snd x)))"
    using b by (simp_all add: rd_def ie_enc_def nth_append)
  obtain e2 where q: "parse_elems_loop buf (length (pre @ ie_enc x)) (length (enc_all ie_enc xs)) (if known_elem x then u else u + 1) e1 =
      Some (if (if known_elem x then u else u + 1) = 0 \<and> list_all known_elem xs then ParseOK else ParseUnknown, e2)"
    and f2: "\<forall>(k, f) \<in> set elem_table. f e2 = last_elem k (length (pre @ ie_enc x)) xs (f e1)"
    using Cons.IH [of "pre @ ie_enc x" "if known_elem x then u else u + 1" e1] Cons.prems by auto
  show ?case
  proof (intro exI [of _ e2] conjI)
    have "parse_elems_loop buf (length pre) (length (enc_all ie_enc (x # xs))) u e =
        parse_elems_loop buf (length (pre @ ie_enc x)) (length (enc_all ie_enc xs)) (if known_elem x then u else u + 1) e1"
      by (subst parse_elems_loop.simps) (simp add: r [simplified] p [simplified] n add.assoc)
    then show "parse_elems_loop buf (length pre) (length (enc_all ie_enc (x # xs))) u e =
        Some (if u = 0 \<and> list_all known_elem (x # xs) then ParseOK else ParseUnknown, e2)"
      unfolding q by simp
    show "\<forall>(k, f) \<in> set elem_table. f e2 = last_elem k (length pre) (x # xs) (f e)"
      using f1 f2 by fastforce
  qed
qed

text \<open>An element that fits into the buffer is an encoded one.\<close>

lemma elem_at:
  assumes fit: "pos + 2 + unat el \<le> length buf" and el: "el = buf ! (pos + 1)"
  obtains x e1 where "ie_wf x" "ie_enc x = take (2 + unat el) (drop pos buf)"
    "parse_elem buf (buf ! pos) (pos + 2) el e = Some (\<not> known_elem x, e1)"
    "\<forall>(k, f) \<in> set elem_table. f e1 = (Some (pos + 2), el) \<or> f e1 = f e"
proof -
  define x where "x = (buf ! pos, take (unat el) (drop (pos + 2) buf))"
  have lx: "length (snd x) = unat el" using fit by (simp add: x_def)
  have wf: "ie_wf x" by (simp add: ie_wf_def lx)
  have "drop pos buf = buf ! pos # el # drop (pos + 2) buf"
    using fit Cons_nth_drop_Suc [of pos buf] Cons_nth_drop_Suc [of "pos + 1" buf] by (simp add: el)
  then have ex: "ie_enc x = take (2 + unat el) (drop pos buf)"
    using lx by (simp add: ie_enc_def) (simp add: x_def)
  have b: "buf = take pos buf @ ie_enc x @ drop (pos + 2 + unat el) buf"
    unfolding ex by (metis append_take_drop_id drop_drop add.commute add.assoc)
  have l: "length (take pos buf) = pos" "fst x = buf ! pos" "of_nat (length (snd x)) = el"
    using fit lx by (simp_all add: x_def)
  obtain e1 where "parse_elem buf (buf ! pos) (pos + 2) el e = Some (\<not> known_elem x, e1)"
    "\<forall>(k, f) \<in> set elem_table. f e1 = (if kind_of k x then (Some (pos + 2), el) else f e)"
    using parse_elem_spec [OF wf b, of e] unfolding l by blast
  then show thesis by (intro that [OF wf ex]) (auto split: if_splits)
qed

lemma parse_loop_step:
  assumes "2 \<le> left" "pos + left \<le> length buf" "unat (buf ! (pos + 1)) \<le> left - 2"
    and "parse_elem buf (buf ! pos) (pos + 2) (buf ! (pos + 1)) e = Some (v, e1)"
  shows "parse_elems_loop buf pos left u e =
    parse_elems_loop buf (pos + 2 + unat (buf ! (pos + 1))) (left - 2 - unat (buf ! (pos + 1))) (if v then u + 1 else u) e1"
  using assms by (subst parse_elems_loop.simps) (simp add: rd_def)

lemma parse_loop_short:
  assumes "2 \<le> left" "pos + left \<le> length buf" "unat (buf ! (pos + 1)) > left - 2"
  shows "parse_elems_loop buf pos left u e = Some (ParseFailed, e)"
  using assms by (subst parse_elems_loop.simps) (simp add: rd_def)

lemma parse_loop_within:
  assumes "pos + left \<le> length buf" "lo \<le> pos" "pos + left \<le> hi"
    and "\<forall>(k, f) \<in> set elem_table. elem_within lo hi (f e)"
  shows "\<exists>r e'. parse_elems_loop buf pos left u e = Some (r, e') \<and> (\<forall>(k, f) \<in> set elem_table. elem_within lo hi (f e'))"
  using assms
proof (induction left arbitrary: pos u e rule: less_induct)
  case (less left)
  show ?case
  proof (cases "left \<ge> 2 \<and> unat (buf ! (pos + 1)) \<le> left - 2")
    case False
    then have "parse_elems_loop buf pos left u e = Some (ParseFailed, e)
      \<or> parse_elems_loop buf pos left u e = Some (if u \<noteq> 0 then ParseUnknown else ParseOK, e)"
      using parse_loop_short [of left pos buf u e] less.prems parse_elems_loop.simps [of buf pos left u e] by auto
    then show ?thesis using less.prems(4) by blast
  next
    case True
    let ?el = "buf ! (pos + 1)"
    have fit: "pos + 2 + unat ?el \<le> length buf" using True less.prems(1) by linarith
    obtain x e1 where p: "parse_elem buf (buf ! pos) (pos + 2) ?el e = Some (\<not> known_elem x, e1)"
      and f: "\<forall>(k, f) \<in> set elem_table. f e1 = (Some (pos + 2), ?el) \<or> f e1 = f e"
      by (rule elem_at [OF fit refl, of e])
    have "elem_within lo hi (Some (pos + 2), ?el)"
      unfolding elem_within_def using True less.prems(2,3) by simp linarith
    then have w: "\<forall>(k, f) \<in> set elem_table. elem_within lo hi (f e1)"
      using f less.prems(4) by fastforce
    show ?thesis
      unfolding parse_loop_step [OF conjunct1 [OF True] less.prems(1) conjunct2 [OF True] p]
      by (rule less.IH) (use True less.prems w in auto)
  qed
qed

text \<open>A buffer that is not a sequence of elements.\<close>

lemma parse_loop_fails:
  assumes "pos + left \<le> length buf"
    and "\<nexists>xs. (\<forall>x \<in> set xs. ie_wf x) \<and> take left (drop pos buf) = enc_all ie_enc xs"
  shows "\<exists>e'. parse_elems_loop buf pos left u e = Some (ParseFailed, e')"
  using assms
proof (induction left arbitrary: pos u e rule: less_induct)
  case (less left)
  have "left \<noteq> 0"
  proof
    assume "left = 0"
    then have "(\<forall>x \<in> set []. ie_wf x) \<and> take left (drop pos buf) = enc_all ie_enc []" by simp
    then show False using less.prems(2) by blast
  qed
  then consider "left = 1" | "left \<ge> 2" "unat (buf ! (pos + 1)) > left - 2" | "left \<ge> 2" "unat (buf ! (pos + 1)) \<le> left - 2"
    by linarith
  then show ?case
  proof cases
    case 1
    then show ?thesis by (subst parse_elems_loop.simps) simp
  next
    case 2
    then show ?thesis using parse_loop_short less.prems(1) by blast
  next
    case 3
    let ?el = "buf ! (pos + 1)"
    have fit: "pos + 2 + unat ?el \<le> length buf" using 3 less.prems(1) by linarith
    obtain x e1 where wf: "ie_wf x" and ex: "ie_enc x = take (2 + unat ?el) (drop pos buf)"
      and p: "parse_elem buf (buf ! pos) (pos + 2) ?el e = Some (\<not> known_elem x, e1)"
      by (rule elem_at [OF fit refl, of e])
    have no: "\<nexists>xs. (\<forall>x \<in> set xs. ie_wf x) \<and> take (left - 2 - unat ?el) (drop (pos + 2 + unat ?el) buf) = enc_all ie_enc xs"
    proof (rule notI, elim exE conjE)
      fix xs assume xs: "\<forall>x \<in> set xs. ie_wf x"
        "take (left - 2 - unat ?el) (drop (pos + 2 + unat ?el) buf) = enc_all ie_enc xs"
      have "take (2 + unat ?el + (left - 2 - unat ?el)) (drop pos buf) = ie_enc x @ enc_all ie_enc xs"
        unfolding take_add ex xs(2) [symmetric] drop_drop by (simp add: add.commute add.left_commute)
      moreover have "2 + unat ?el + (left - 2 - unat ?el) = left" using 3 by linarith
      ultimately have "take left (drop pos buf) = enc_all ie_enc (x # xs)" by (simp only: list.map concat.simps)
      then show False using less.prems(2) xs(1) wf by (metis set_ConsD)
    qed
    show ?thesis
      unfolding parse_loop_step [OF 3(1) less.prems(1) 3(2) p]
      by (rule less.IH) (use 3 less.prems(1) no in auto)
  qed
qed

section \<open>Properties\<close>

text \<open>On every buffer that holds the \<open>len\<close> bytes it is given, the element parser returns
  without a load outside them, and every field it has set points to a range inside them. This
  holds for a failed parse too, whose caller may still look at the fields.\<close>

theorem parse_elems_safe:
  assumes "start + len \<le> length buf"
  shows "\<exists>r e. rtw_ieee802_11_parse_elems buf start len = Some (r, e)
    \<and> (\<forall>(k, f) \<in> set elem_table. elem_within start (start + len) (f e))"
  unfolding rtw_ieee802_11_parse_elems_def
  using assms by (intro parse_loop_within) (auto simp: elem_table_def elems_zero_def elem_within_def)

definition sample_frame :: bytes where
  "sample_frame = [9, 9, 0, 2, 97, 98, 221, 5, 0x00, 0x50, 0xf2, 2, 1, 77, 1, 5, 48, 3, 1]"

theorem parse_elems_safe_witness:
  "2 + 17 \<le> length sample_frame \<and> (\<exists>r e. rtw_ieee802_11_parse_elems sample_frame 2 17 = Some (r, e)
    \<and> (\<forall>(k, f) \<in> set elem_table. elem_within 2 19 (f e)))"
  using parse_elems_safe [of 2 17 sample_frame] by (simp add: sample_frame_def)

text \<open>The parser accepts exactly the buffers that are sequences of whole elements.\<close>

theorem parse_elems_accepts:
  assumes "start + len \<le> length buf"
  shows "(\<exists>e. rtw_ieee802_11_parse_elems buf start len = Some (ParseFailed, e)) \<longleftrightarrow>
    (\<nexists>xs. (\<forall>x \<in> set xs. ie_wf x) \<and> take len (drop start buf) = enc_all ie_enc xs)"
proof
  assume f: "\<exists>e. rtw_ieee802_11_parse_elems buf start len = Some (ParseFailed, e)"
  show "\<nexists>xs. (\<forall>x \<in> set xs. ie_wf x) \<and> take len (drop start buf) = enc_all ie_enc xs"
  proof (rule notI, elim exE conjE)
    fix xs assume xs: "\<forall>x \<in> set xs. ie_wf x" "take len (drop start buf) = enc_all ie_enc xs"
    have l: "length (take start buf) = start" "length (enc_all ie_enc xs) = len"
      using assms arg_cong [OF xs(2), of length] by simp_all
    have b: "buf = take start buf @ enc_all ie_enc xs @ drop (start + len) buf"
      unfolding xs(2) [symmetric] by (metis append_take_drop_id drop_drop add.commute)
    show False
      using parse_loop_spec [OF xs(1) b, of 0 elems_zero] f unfolding l rtw_ieee802_11_parse_elems_def
      by (auto split: if_splits)
  qed
next
  assume "\<nexists>xs. (\<forall>x \<in> set xs. ie_wf x) \<and> take len (drop start buf) = enc_all ie_enc xs"
  then show "\<exists>e. rtw_ieee802_11_parse_elems buf start len = Some (ParseFailed, e)"
    unfolding rtw_ieee802_11_parse_elems_def using parse_loop_fails assms by blast
qed

theorem parse_elems_accepts_witness:
  "2 + 17 \<le> length sample_frame \<and>
   (\<nexists>xs. (\<forall>x \<in> set xs. ie_wf x) \<and> take 17 (drop 2 sample_frame) = enc_all ie_enc xs)"
proof -
  have "\<exists>e. rtw_ieee802_11_parse_elems sample_frame 2 17 = Some (ParseFailed, e)"
    by (simp add: rtw_ieee802_11_parse_elems_def sample_frame_def parse_elems_loop.simps rd_def rdn_def parse_elem_def eid_defs
      rtw_ieee802_11_parse_vendor_specific_def BE24_eq vendor_type_defs)
  then show ?thesis
    using parse_elems_accepts [of 2 17 sample_frame] by (simp add: sample_frame_def)
qed

text \<open>C17. On a sequence of elements the parser returns \<open>ParseUnknown\<close> if one of them is of no
  known kind and \<open>ParseOK\<close> otherwise, and leaves in every field the last element of its kind,
  or nothing if there is none. The vendor-specific fields are told apart by the OUI, type and
  subtype at the start of the contents.\<close>

theorem parse_elems_refines:
  assumes "\<forall>x \<in> set xs. ie_wf x"
  shows "\<exists>e. rtw_ieee802_11_parse_elems (pre @ enc_all ie_enc xs @ post) (length pre) (length (enc_all ie_enc xs))
      = Some (if list_all known_elem xs then ParseOK else ParseUnknown, e)
    \<and> (\<forall>(k, f) \<in> set elem_table. f e = last_elem k (length pre) xs (None, 0))"
proof -
  have "f elems_zero = (None, 0)" if "(k, f) \<in> set elem_table" for k f
    using that by (auto simp: elem_table_def elems_zero_def)
  then show ?thesis
    using parse_loop_spec [OF assms refl, of pre post 0 elems_zero]
    unfolding rtw_ieee802_11_parse_elems_def by fastforce
qed

theorem parse_elems_refines_witness:
  "list_all ie_wf sample_ies \<and> (\<exists>e. rtw_ieee802_11_parse_elems ([7] @ enc_all ie_enc sample_ies @ [8]) (length [7 :: u8])
      (length (enc_all ie_enc sample_ies))
      = Some (if list_all known_elem sample_ies then ParseOK else ParseUnknown, e)
    \<and> (\<forall>(k, f) \<in> set elem_table. f e = last_elem k (length [7 :: u8]) sample_ies (None, 0)))"
  using parse_elems_refines [OF sample_ies_wf(1), of "[7]" "[8]"] sample_ies_wf(1) by (simp only: list_all_iff)

end
