(* ===== verification/Rtw_Wpa.thy ===== *)
theory Rtw_Wpa
  imports Rtw_Attr
begin

unbundle bit_operations_syntax

text \<open>
  The security elements of \<^verbatim>\<open>core/rtw_ieee80211.c\<close>: finding and parsing the WPA and the RSN element, and the
  helpers behind them in the file (MAC address configuration, header length, rates of MCS sets,
  action frames).
\<close>

section \<open>Cipher suites\<close>

definition WPA_IE_ID :: u8 where "WPA_IE_ID = 0xdd"
definition WPA2_IE_ID :: u8 where "WPA2_IE_ID = 0x30"
definition RTW_WPA_OUI_TYPE :: bytes where "RTW_WPA_OUI_TYPE = [0x00, 0x50, 0xf2, 1]"
definition WPA_SELECTOR_LEN :: nat where "WPA_SELECTOR_LEN = 4"
definition RSN_SELECTOR_LEN :: nat where "RSN_SELECTOR_LEN = 4"

definition WPA_CIPHER_NONE :: u32 where "WPA_CIPHER_NONE = 1"
definition WPA_CIPHER_WEP40 :: u32 where "WPA_CIPHER_WEP40 = 2"
definition WPA_CIPHER_WEP104 :: u32 where "WPA_CIPHER_WEP104 = 4"
definition WPA_CIPHER_TKIP :: u32 where "WPA_CIPHER_TKIP = 8"
definition WPA_CIPHER_CCMP :: u32 where "WPA_CIPHER_CCMP = 16"

definition WPA_CIPHER_SUITE_NONE :: bytes where "WPA_CIPHER_SUITE_NONE = [0x00, 0x50, 0xf2, 0]"
definition WPA_CIPHER_SUITE_WEP40 :: bytes where "WPA_CIPHER_SUITE_WEP40 = [0x00, 0x50, 0xf2, 1]"
definition WPA_CIPHER_SUITE_TKIP :: bytes where "WPA_CIPHER_SUITE_TKIP = [0x00, 0x50, 0xf2, 2]"
definition WPA_CIPHER_SUITE_CCMP :: bytes where "WPA_CIPHER_SUITE_CCMP = [0x00, 0x50, 0xf2, 4]"
definition WPA_CIPHER_SUITE_WEP104 :: bytes where "WPA_CIPHER_SUITE_WEP104 = [0x00, 0x50, 0xf2, 5]"
definition RSN_CIPHER_SUITE_NONE :: bytes where "RSN_CIPHER_SUITE_NONE = [0x00, 0x0f, 0xac, 0]"
definition RSN_CIPHER_SUITE_WEP40 :: bytes where "RSN_CIPHER_SUITE_WEP40 = [0x00, 0x0f, 0xac, 1]"
definition RSN_CIPHER_SUITE_TKIP :: bytes where "RSN_CIPHER_SUITE_TKIP = [0x00, 0x0f, 0xac, 2]"
definition RSN_CIPHER_SUITE_CCMP :: bytes where "RSN_CIPHER_SUITE_CCMP = [0x00, 0x0f, 0xac, 4]"
definition RSN_CIPHER_SUITE_WEP104 :: bytes where "RSN_CIPHER_SUITE_WEP104 = [0x00, 0x0f, 0xac, 5]"

definition rtw_get_wpa_cipher_suite :: "bytes \<Rightarrow> nat \<Rightarrow> u32 option" where
  "rtw_get_wpa_cipher_suite buf s =
     do { x \<leftarrow> rdn buf s WPA_SELECTOR_LEN;
          Some (if x = WPA_CIPHER_SUITE_NONE then WPA_CIPHER_NONE
                else if x = WPA_CIPHER_SUITE_WEP40 then WPA_CIPHER_WEP40
                else if x = WPA_CIPHER_SUITE_TKIP then WPA_CIPHER_TKIP
                else if x = WPA_CIPHER_SUITE_CCMP then WPA_CIPHER_CCMP
                else if x = WPA_CIPHER_SUITE_WEP104 then WPA_CIPHER_WEP104
                else 0) }"

definition rtw_get_wpa2_cipher_suite :: "bytes \<Rightarrow> nat \<Rightarrow> u32 option" where
  "rtw_get_wpa2_cipher_suite buf s =
     do { x \<leftarrow> rdn buf s RSN_SELECTOR_LEN;
          Some (if x = RSN_CIPHER_SUITE_NONE then WPA_CIPHER_NONE
                else if x = RSN_CIPHER_SUITE_WEP40 then WPA_CIPHER_WEP40
                else if x = RSN_CIPHER_SUITE_TKIP then WPA_CIPHER_TKIP
                else if x = RSN_CIPHER_SUITE_CCMP then WPA_CIPHER_CCMP
                else if x = RSN_CIPHER_SUITE_WEP104 then WPA_CIPHER_WEP104
                else 0) }"

section \<open>Parsing\<close>

text \<open>
  The two parsers differ in the identifier, the offset of the group suite and the table of suites.
  \<open>suites_loop\<close> is their loop over the pairwise suites, \<open>parse_suites\<close> what follows the check of the header.
  The result is the status and the two ciphers, as far as they were set.
\<close>

fun suites_loop :: "(nat \<Rightarrow> u32 option) \<Rightarrow> nat \<Rightarrow> nat \<Rightarrow> u32 \<Rightarrow> u32 option" where
  "suites_loop suite pos 0 pw = Some pw"
| "suites_loop suite pos (Suc n) pw = do { c \<leftarrow> suite pos; suites_loop suite (pos + 4) n (pw OR c) }"

definition parse_pairwise :: "bytes \<Rightarrow> (nat \<Rightarrow> u32 option) \<Rightarrow> nat \<Rightarrow> int \<Rightarrow> u32 \<Rightarrow> u32 \<Rightarrow> (bool \<times> u32 \<times> u32) option" where
  "parse_pairwise buf suite pos left gc pw =
     (if left \<ge> 2 then do {
        n \<leftarrow> RTW_GET_LE16 buf pos;
        if n = 0 \<or> left - 2 < int (unat n) * 4 then Some (False, gc, pw)
        else do { pw \<leftarrow> suites_loop suite (pos + 2) (unat n) pw; Some (True, gc, pw) } }
      else if left = 1 then Some (False, gc, pw)
      else Some (True, gc, pw))"

definition parse_suites :: "bytes \<Rightarrow> (nat \<Rightarrow> u32 option) \<Rightarrow> nat \<Rightarrow> int \<Rightarrow> u32 \<Rightarrow> u32 \<Rightarrow> (bool \<times> u32 \<times> u32) option" where
  "parse_suites buf suite pos left gc pw =
     (if left \<ge> 4 then do { g \<leftarrow> suite pos; parse_pairwise buf suite (pos + 4) (left - 4) g pw }
      else if left > 0 then Some (False, gc, pw)
      else parse_pairwise buf suite pos left gc pw)"

definition rtw_parse_wpa_ie :: "bytes \<Rightarrow> nat \<Rightarrow> int \<Rightarrow> u32 \<Rightarrow> u32 \<Rightarrow> (bool \<times> u32 \<times> u32) option" where
  "rtw_parse_wpa_ie buf wpa_ie wpa_ie_len gc pw =
     (if wpa_ie_len \<le> 0 then Some (False, gc, pw)
      else do {
        eid \<leftarrow> rd buf wpa_ie;
        if eid \<noteq> WPA_IE_ID then Some (False, gc, pw)
        else do {
          n \<leftarrow> rd buf (wpa_ie + 1);
          if n \<noteq> of_int (wpa_ie_len - 2) then Some (False, gc, pw)
          else do {
            o' \<leftarrow> rdn buf (wpa_ie + 2) WPA_SELECTOR_LEN;
            if o' \<noteq> RTW_WPA_OUI_TYPE then Some (False, gc, pw)
            else parse_suites buf (rtw_get_wpa_cipher_suite buf) (wpa_ie + 8) (wpa_ie_len - 8) gc pw } } })"

definition rtw_parse_wpa2_ie :: "bytes \<Rightarrow> nat \<Rightarrow> int \<Rightarrow> u32 \<Rightarrow> u32 \<Rightarrow> (bool \<times> u32 \<times> u32) option" where
  "rtw_parse_wpa2_ie buf rsn_ie rsn_ie_len gc pw =
     (if rsn_ie_len \<le> 0 then Some (False, gc, pw)
      else do {
        eid \<leftarrow> rd buf rsn_ie;
        if eid \<noteq> WPA2_IE_ID then Some (False, gc, pw)
        else do {
          n \<leftarrow> rd buf (rsn_ie + 1);
          if n \<noteq> of_int (rsn_ie_len - 2) then Some (False, gc, pw)
          else parse_suites buf (rtw_get_wpa2_cipher_suite buf) (rsn_ie + 4) (rsn_ie_len - 4) gc pw } })"

section \<open>Finding\<close>

definition wpa_at :: "bytes \<Rightarrow> nat \<Rightarrow> bool option" where
  "wpa_at buf p =
     do { o' \<leftarrow> rdn buf (p + 2) 4;
          if o' \<noteq> RTW_WPA_OUI_TYPE then Some False
          else do { val16 \<leftarrow> RTW_GET_LE16 buf (p + 6); Some (val16 = 1) } }"

partial_function (option) get_wpa_loop :: "bytes \<Rightarrow> nat \<Rightarrow> nat \<Rightarrow> int \<Rightarrow> (nat option \<times> nat) option" where
  "get_wpa_loop buf pbuf len limit =
     do { (r, len) \<leftarrow> rtw_get_ie buf pbuf (int (unat WPA_IE_ID)) len limit;
          case r of None \<Rightarrow> Some (None, 0)
          | Some p \<Rightarrow> do {
              ok \<leftarrow> wpa_at buf p;
              if ok then do { n \<leftarrow> rd buf (p + 1); Some (Some p, unat n) }
              else if limit - (2 + int len) \<le> 0 then Some (None, 0)
              else get_wpa_loop buf (p + (2 + len)) len (limit - (2 + int len)) } }"

definition rtw_get_wpa_ie :: "bytes \<Rightarrow> nat \<Rightarrow> int \<Rightarrow> (nat option \<times> nat) option" where
  "rtw_get_wpa_ie buf pie limit = get_wpa_loop buf pie 0 limit"

definition rtw_get_wpa2_ie :: "bytes \<Rightarrow> nat \<Rightarrow> nat \<Rightarrow> int \<Rightarrow> (nat option \<times> nat) option" where
  "rtw_get_wpa2_ie buf pie rsn_ie_len limit = rtw_get_ie buf pie (int (unat WPA2_IE_ID)) rsn_ie_len limit"

text \<open>
  \<^verbatim>\<open>rtw_get_sec_ie\<close> copies the last WPA and the last RSN element of a frame body. \<open>dump_loop\<close> is its loop
  \<^verbatim>\<open>for (i = 0; i < n; i = i + 8)\<close>, whose body only traces, with the 8-bit counter of the code.
\<close>

partial_function (option) dump_loop :: "u8 \<Rightarrow> nat \<Rightarrow> unit option" where
  "dump_loop i n = (if unat i < n then dump_loop (i + 8) n else Some ())"

record sec_ies =
  sec_rsn_ie :: bytes
  sec_rsn_len :: u16
  sec_wpa_ie :: bytes
  sec_wpa_len :: u16

partial_function (option) sec_ie_loop :: "bytes \<Rightarrow> nat \<Rightarrow> nat \<Rightarrow> sec_ies \<Rightarrow> sec_ies option" where
  "sec_ie_loop in_ie in_len cnt s =
     (if cnt < in_len then do {
        authmode \<leftarrow> rd in_ie cnt;
        wpa \<leftarrow> (if authmode = WPA_IE_ID then do { o' \<leftarrow> rdn in_ie (cnt + 2) 4; Some (o' = RTW_WPA_OUI_TYPE) } else Some False);
        n \<leftarrow> rd in_ie (cnt + 1);
        if wpa then do {
          x \<leftarrow> rdn in_ie cnt (unat n + 2);
          b \<leftarrow> wrn (sec_wpa_ie s) 0 x;
          _ \<leftarrow> dump_loop 0 (unat n + 2);
          sec_ie_loop in_ie in_len (cnt + (unat n + 2)) (s\<lparr>sec_wpa_ie := b, sec_wpa_len := of_nat (unat n + 2)\<rparr>) }
        else if authmode = WPA2_IE_ID then do {
          x \<leftarrow> rdn in_ie cnt (unat n + 2);
          b \<leftarrow> wrn (sec_rsn_ie s) 0 x;
          _ \<leftarrow> dump_loop 0 (unat n + 2);
          sec_ie_loop in_ie in_len (cnt + (unat n + 2)) (s\<lparr>sec_rsn_ie := b, sec_rsn_len := of_nat (unat n + 2)\<rparr>) }
        else sec_ie_loop in_ie in_len (cnt + (unat n + 2)) s }
      else Some s)"

definition rtw_get_sec_ie :: "bytes \<Rightarrow> nat \<Rightarrow> sec_ies \<Rightarrow> (int \<times> sec_ies) option" where
  "rtw_get_sec_ie in_ie in_len s =
     do { s \<leftarrow> sec_ie_loop in_ie in_len 12 s; Some (uint (sec_rsn_len s) + uint (sec_wpa_len s), s) }"

section \<open>Helpers\<close>

definition key_char2num :: "u8 \<Rightarrow> u8" where
  "key_char2num ch =
     (if 48 \<le> ch \<and> ch \<le> 57 then ch - 48 else if 97 \<le> ch \<and> ch \<le> 102 then ch - 97 + 10
      else if 65 \<le> ch \<and> ch \<le> 70 then ch - 65 + 10 else 0xff)"

definition str_2char2num :: "u8 \<Rightarrow> u8 \<Rightarrow> u8" where
  "str_2char2num hch lch = key_char2num hch * 10 + key_char2num lch"

definition key_2char2num :: "u8 \<Rightarrow> u8 \<Rightarrow> u8" where
  "key_2char2num hch lch = push_bit 4 (key_char2num hch) OR key_char2num lch"

definition convert_ip_addr :: "u8 \<Rightarrow> u8 \<Rightarrow> u8 \<Rightarrow> u8" where
  "convert_ip_addr hch mch lch = key_char2num hch * 100 + key_char2num mch * 10 + key_char2num lch"

definition rtw_macaddr_cfg :: "bytes option \<Rightarrow> bytes option \<Rightarrow> bytes option option" where
  "rtw_macaddr_cfg rtw_initmac mac_addr =
     (case mac_addr of None \<Rightarrow> Some None
      | Some mac_addr \<Rightarrow> do {
          (mac, mac_addr) \<leftarrow> (case rtw_initmac of
              Some str \<Rightarrow> do {
                s \<leftarrow> rdn str 0 17;
                let mac = map (\<lambda>jj. key_2char2num (s ! (3 * jj)) (s ! (3 * jj + 1))) [0..<6];
                mac_addr \<leftarrow> wrn mac_addr 0 mac;
                Some (mac, mac_addr) }
            | None \<Rightarrow> do { mac \<leftarrow> rdn mac_addr 0 6; Some (mac, mac_addr) });
          if mac = replicate 6 0xff \<or> mac = replicate 6 0 then
            map_option Some (wrn mac_addr 0 [0x00, 0xe0, 0x4c, 0x87, 0x00, 0x00])
          else Some (Some mac_addr) })"

function essid_empty_loop :: "bytes \<Rightarrow> nat \<Rightarrow> bool option" where
  "essid_empty_loop essid n = (if n = 0 then Some True else do { c \<leftarrow> rd essid (n - 1); if c \<noteq> 0 then Some False else essid_empty_loop essid (n - 1) })"
  by pat_completeness auto
termination by (relation "measure snd") auto

definition ieee80211_is_empty_essid :: "bytes \<Rightarrow> nat \<Rightarrow> bool option" where
  "ieee80211_is_empty_essid essid essid_len =
     do { c \<leftarrow> (if essid_len = 1 then map_option Some (rd essid 0) else Some None);
          if c = Some 32 then Some True else essid_empty_loop essid essid_len }"

definition ieee80211_get_hdrlen :: "u16 \<Rightarrow> nat" where
  "ieee80211_get_hdrlen fc =
     (let ftype = fc AND 0x000c; stype = fc AND 0x00f0 in
      if ftype = 0x0008 then
        24 + (if fc AND 0x0080 \<noteq> 0 then 2 else 0) + (if fc AND 0x0200 \<noteq> 0 \<and> fc AND 0x0100 \<noteq> 0 then 6 else 0)
      else if ftype = 0x0004 then (if stype = 0x00C0 \<or> stype = 0x00D0 then 10 else 16)
      else 24)"

definition mcs_pick :: "u8 \<Rightarrow> bool \<Rightarrow> bool \<Rightarrow> bool \<Rightarrow> (nat \<times> nat \<times> nat \<times> nat) list \<Rightarrow> nat" where
  "mcs_pick m bw40 sgi20 sgi40 rates =
     (case find (\<lambda>(b, _). bit m b) (zip [7, 6, 5, 4, 3, 2, 1, 0] rates) of None \<Rightarrow> 0
      | Some (_, s40, l40, s20, l20) \<Rightarrow> if bw40 then (if sgi40 then s40 else l40) else (if sgi20 then s20 else l20))"

definition mcs_rates_1 :: "(nat \<times> nat \<times> nat \<times> nat) list" where
  "mcs_rates_1 = [(1500, 1350, 722, 650), (1350, 1215, 650, 585), (1200, 1080, 578, 520), (900, 810, 433, 390),
     (600, 540, 289, 260), (450, 405, 217, 195), (300, 270, 144, 130), (150, 135, 72, 65)]"

definition mcs_rates_2 :: "(nat \<times> nat \<times> nat \<times> nat) list" where
  "mcs_rates_2 = [(3000, 2700, 1444, 1300), (2700, 2430, 1300, 1170), (2400, 2160, 1156, 1040), (1800, 1620, 867, 780),
     (1200, 1080, 578, 520), (900, 810, 433, 390), (600, 540, 289, 260), (300, 270, 144, 130)]"

definition RF_1T1R :: u8 where "RF_1T1R = 3"

definition rtw_mcs_rate :: "u8 \<Rightarrow> bool \<Rightarrow> bool \<Rightarrow> bool \<Rightarrow> bytes \<Rightarrow> nat option" where
  "rtw_mcs_rate rf_type bw40 sgi20 sgi40 MCS_rate =
     (if rf_type = RF_1T1R then do { m0 \<leftarrow> rd MCS_rate 0; Some (mcs_pick m0 bw40 sgi20 sgi40 mcs_rates_1) }
      else do {
        m1 \<leftarrow> rd MCS_rate 1;
        if m1 \<noteq> 0 then Some (mcs_pick m1 bw40 sgi20 sgi40 mcs_rates_2)
        else do { m0 \<leftarrow> rd MCS_rate 0; Some (mcs_pick m0 bw40 sgi20 sgi40 mcs_rates_1) } })"

text \<open>\<^verbatim>\<open>a0\<close> is the value of the local \<^verbatim>\<open>a\<close>, which a P2P action frame leaves uninitialised.\<close>

definition rtw_action_frame_parse :: "u8 \<Rightarrow> bytes \<Rightarrow> (bool \<times> (u8 \<times> u8) option) option" where
  "rtw_action_frame_parse a0 frame =
     do { fc \<leftarrow> RTW_GET_LE16 frame 0;
          if fc AND 0x00fc \<noteq> 0x00D0 then Some (False, None)
          else do {
            c \<leftarrow> rd frame 24;
            a \<leftarrow> (if c = 0x7f then Some a0 else rd frame 25);
            Some (True, Some (c, a)) } }"

section \<open>The parsers on encoded elements\<close>

definition wpa_suite :: "bytes \<Rightarrow> u32" where
  "wpa_suite x = (if x = [0x00, 0x50, 0xf2, 0] then 1 else if x = [0x00, 0x50, 0xf2, 1] then 2 else if x = [0x00, 0x50, 0xf2, 2] then 8
     else if x = [0x00, 0x50, 0xf2, 4] then 16 else if x = [0x00, 0x50, 0xf2, 5] then 4 else 0)"

definition rsn_suite :: "bytes \<Rightarrow> u32" where
  "rsn_suite x = (if x = [0x00, 0x0f, 0xac, 0] then 1 else if x = [0x00, 0x0f, 0xac, 1] then 2 else if x = [0x00, 0x0f, 0xac, 2] then 8
     else if x = [0x00, 0x0f, 0xac, 4] then 16 else if x = [0x00, 0x0f, 0xac, 5] then 4 else 0)"

lemmas suite_defs = WPA_CIPHER_SUITE_NONE_def WPA_CIPHER_SUITE_WEP40_def WPA_CIPHER_SUITE_TKIP_def WPA_CIPHER_SUITE_CCMP_def
  WPA_CIPHER_SUITE_WEP104_def RSN_CIPHER_SUITE_NONE_def RSN_CIPHER_SUITE_WEP40_def RSN_CIPHER_SUITE_TKIP_def RSN_CIPHER_SUITE_CCMP_def
  RSN_CIPHER_SUITE_WEP104_def WPA_CIPHER_NONE_def WPA_CIPHER_WEP40_def WPA_CIPHER_WEP104_def WPA_CIPHER_TKIP_def WPA_CIPHER_CCMP_def
  WPA_SELECTOR_LEN_def RSN_SELECTOR_LEN_def

lemma suite_reads:
  "rtw_get_wpa_cipher_suite buf s = map_option wpa_suite (rdn buf s 4)"
  "rtw_get_wpa2_cipher_suite buf s = map_option rsn_suite (rdn buf s 4)"
  unfolding rtw_get_wpa_cipher_suite_def rtw_get_wpa2_cipher_suite_def suite_defs
  by (cases "rdn buf s 4"; simp add: wpa_suite_def rsn_suite_def)+

definition suites_enc :: "bytes \<Rightarrow> bytes list \<Rightarrow> bytes" where
  "suites_enc g ps = g @ RTW_PUT_LE16 (of_nat (length ps)) @ concat ps"

definition suites_wf :: "bytes \<Rightarrow> bytes list \<Rightarrow> bool" where
  "suites_wf g ps \<longleftrightarrow> length g = 4 \<and> list_all (\<lambda>p. length p = 4) ps \<and> ps \<noteq> [] \<and> length ps < 65536"

lemma length_concat_4: "list_all (\<lambda>p. length p = 4) ps \<Longrightarrow> length (concat ps) = 4 * length ps"
  by (induction ps) auto

lemma suites_loop_reads:
  assumes "list_all (\<lambda>p. length p = 4) ps" "\<And>s. suite s = map_option m (rdn (pre @ concat ps @ post) s 4)"
  shows "suites_loop suite (length pre) (length ps) c = Some (fold (\<lambda>p c. c OR m p) ps c)"
  using assms
proof (induction ps arbitrary: pre c)
  case (Cons p ps)
  have "suites_loop suite (length (pre @ p)) (length ps) (c OR m p) = Some (fold (\<lambda>p c. c OR m p) ps (c OR m p))"
    using Cons.prems by (intro Cons.IH) simp_all
  moreover have "suite (length pre) = Some (m p)" using Cons.prems rdn_at [of pre p "concat ps @ post"] by simp
  ultimately show ?case using Cons.prems(1) by simp
qed simp

lemma parse_suites_reads:
  assumes wf: "suites_wf g ps" and suite: "\<And>s. suite s = map_option m (rdn (pre @ suites_enc g ps @ rest @ post) s 4)"
  shows "parse_suites (pre @ suites_enc g ps @ rest @ post) suite (length pre) (int (length (suites_enc g ps @ rest))) g0 pw
    = Some (True, m g, fold (\<lambda>p c. c OR m p) ps pw)"
proof -
  let ?b = "pre @ suites_enc g ps @ rest @ post" and ?n = "RTW_PUT_LE16 (of_nat (length ps))"
  have g: "length g = 4" and ps: "list_all (\<lambda>p. length p = 4) ps" "0 < length ps" "length ps < 65536" using wf by (auto simp: suites_wf_def)
  have b: "?b = pre @ g @ ?n @ concat ps @ rest @ post" by (simp add: suites_enc_def)
  have l: "int (length (suites_enc g ps @ rest)) = 6 + 4 * int (length ps) + int (length rest)"
    using length_concat_4 [OF ps(1)] g by (simp add: suites_enc_def)
  have "suite (length pre) = Some (m g)" using rdn_at [of pre g "?n @ concat ps @ rest @ post"] g by (simp add: suite b)
  moreover have "RTW_GET_LE16 ?b (length pre + 4) = Some (of_nat (length ps))"
    using LE16_at [of "pre @ g" "of_nat (length ps)" "concat ps @ rest @ post"] g by (simp add: b)
  moreover have "unat (of_nat (length ps) :: u16) = length ps" "(of_nat (length ps) :: u16) \<noteq> 0"
    "uint (of_nat (length ps) :: u16) = int (length ps)"
    using ps by (simp_all add: unat_of_nat word_unat_eq_iff unsigned_of_nat take_bit_nat_eq_self)
  moreover have "suites_loop suite (length (pre @ g @ ?n)) (length ps) pw = Some (fold (\<lambda>p c. c OR m p) ps pw)"
    by (rule suites_loop_reads [OF ps(1), where post = "rest @ post"]) (simp add: suite b)
  ultimately show ?thesis
    unfolding parse_suites_def parse_pairwise_def l using g by (simp add: add.commute [of 6])
qed

definition wpa_ie_enc :: "bytes \<Rightarrow> bytes \<Rightarrow> bytes list \<Rightarrow> bytes \<Rightarrow> bytes" where
  "wpa_ie_enc ver g ps rest = WPA_IE_ID # of_nat (length (RTW_WPA_OUI_TYPE @ ver @ suites_enc g ps @ rest)) # RTW_WPA_OUI_TYPE @ ver @ suites_enc g ps @ rest"

definition rsn_ie_enc :: "bytes \<Rightarrow> bytes \<Rightarrow> bytes list \<Rightarrow> bytes \<Rightarrow> bytes" where
  "rsn_ie_enc ver g ps rest = WPA2_IE_ID # of_nat (length (ver @ suites_enc g ps @ rest)) # ver @ suites_enc g ps @ rest"

lemma parse_wpa_ie_reads:
  assumes wf: "suites_wf g ps" and v: "length ver = 2"
  shows "rtw_parse_wpa_ie (pre @ wpa_ie_enc ver g ps rest @ post) (length pre) (int (length (wpa_ie_enc ver g ps rest))) g0 pw
    = Some (True, wpa_suite g, fold (\<lambda>p c. c OR wpa_suite p) ps pw)"
proof -
  let ?e = "wpa_ie_enc ver g ps rest"
  define n where "n = (of_nat (length (RTW_WPA_OUI_TYPE @ ver @ suites_enc g ps @ rest)) :: u8)"
  have o: "length RTW_WPA_OUI_TYPE = 4" by (simp add: RTW_WPA_OUI_TYPE_def)
  have e: "?e = WPA_IE_ID # n # RTW_WPA_OUI_TYPE @ ver @ suites_enc g ps @ rest" by (simp add: wpa_ie_enc_def n_def)
  have l: "int (length ?e) = 8 + int (length (suites_enc g ps @ rest))" using o v by (simp add: e)
  have "n = of_int (int (length ?e) - 2)" using o v by (simp add: e n_def)
  moreover have "rd (pre @ ?e @ post) (length pre) = Some WPA_IE_ID" "rd (pre @ ?e @ post) (length pre + 1) = Some n"
    by (simp_all add: rd_def e nth_append)
  moreover have "rdn (pre @ ?e @ post) (length pre + 2) 4 = Some RTW_WPA_OUI_TYPE"
    using rdn_at [of "pre @ [WPA_IE_ID, n]" RTW_WPA_OUI_TYPE "ver @ suites_enc g ps @ rest @ post"] o by (simp add: e)
  moreover have "parse_suites (pre @ ?e @ post) (rtw_get_wpa_cipher_suite (pre @ ?e @ post)) (length pre + 8) (int (length ?e) - 8) g0 pw
      = Some (True, wpa_suite g, fold (\<lambda>p c. c OR wpa_suite p) ps pw)"
    using parse_suites_reads [OF wf, of "rtw_get_wpa_cipher_suite (pre @ ?e @ post)" wpa_suite "pre @ [WPA_IE_ID, n] @ RTW_WPA_OUI_TYPE @ ver" rest post g0 pw]
      suite_reads(1) o v unfolding l by (simp add: e)
  ultimately show ?thesis by (simp add: rtw_parse_wpa_ie_def WPA_SELECTOR_LEN_def l)
qed

lemma parse_wpa2_ie_reads:
  assumes wf: "suites_wf g ps" and v: "length ver = 2"
  shows "rtw_parse_wpa2_ie (pre @ rsn_ie_enc ver g ps rest @ post) (length pre) (int (length (rsn_ie_enc ver g ps rest))) g0 pw
    = Some (True, rsn_suite g, fold (\<lambda>p c. c OR rsn_suite p) ps pw)"
proof -
  let ?e = "rsn_ie_enc ver g ps rest"
  define n where "n = (of_nat (length (ver @ suites_enc g ps @ rest)) :: u8)"
  have e: "?e = WPA2_IE_ID # n # ver @ suites_enc g ps @ rest" by (simp add: rsn_ie_enc_def n_def)
  have l: "int (length ?e) = 4 + int (length (suites_enc g ps @ rest))" using v by (simp add: e)
  have "n = of_int (int (length ?e) - 2)" using v by (simp add: e n_def)
  moreover have "rd (pre @ ?e @ post) (length pre) = Some WPA2_IE_ID" "rd (pre @ ?e @ post) (length pre + 1) = Some n"
    by (simp_all add: rd_def e nth_append)
  moreover have "parse_suites (pre @ ?e @ post) (rtw_get_wpa2_cipher_suite (pre @ ?e @ post)) (length pre + 4) (int (length ?e) - 4) g0 pw
      = Some (True, rsn_suite g, fold (\<lambda>p c. c OR rsn_suite p) ps pw)"
    using parse_suites_reads [OF wf, of "rtw_get_wpa2_cipher_suite (pre @ ?e @ post)" rsn_suite "pre @ [WPA2_IE_ID, n] @ ver" rest post g0 pw]
      suite_reads(2) v unfolding l by (simp add: e)
  ultimately show ?thesis by (simp add: rtw_parse_wpa2_ie_def l)
qed


section \<open>The parsers stay inside the element\<close>

lemma suites_loop_safe:
  assumes "pos + 4 * n \<le> length buf" "\<And>s. suite s = map_option m (rdn buf s 4)"
  shows "\<exists>r. suites_loop suite pos n c = Some r"
  using assms by (induction n arbitrary: pos c) (simp_all add: rdn_def)

lemma parse_pairwise_safe:
  assumes len: "int pos + left \<le> int (length buf)" and suite: "\<And>s. suite s = map_option m (rdn buf s 4)"
  shows "\<exists>r. parse_pairwise buf suite pos left gc pw = Some r"
proof (cases "left \<ge> 2")
  case True
  then obtain n where n: "RTW_GET_LE16 buf pos = Some n" using len by (simp add: RTW_GET_LE16_def rd_def)
  show ?thesis
  proof (cases "n = 0 \<or> left - 2 < int (unat n) * 4")
    case True
    then show ?thesis using n by (auto simp: parse_pairwise_def)
  next
    case False
    then have "pos + 2 + 4 * unat n \<le> length buf" using len by linarith
    then obtain r where "suites_loop suite (pos + 2) (unat n) pw = Some r" using suites_loop_safe [OF _ suite] by blast
    then show ?thesis using n True False by (auto simp: parse_pairwise_def)
  qed
qed (auto simp: parse_pairwise_def)

lemma parse_suites_safe:
  assumes len: "int pos + left \<le> int (length buf)" and suite: "\<And>s. suite s = map_option m (rdn buf s 4)"
  shows "\<exists>r. parse_suites buf suite pos left gc pw = Some r"
proof (cases "left \<ge> 4")
  case True
  then have p: "suite pos = Some (m (take 4 (drop pos buf)))" using len by (simp add: suite rdn_def)
  obtain r where "parse_pairwise buf suite (pos + 4) (left - 4) (m (take 4 (drop pos buf))) pw = Some r"
    using parse_pairwise_safe [OF _ suite, of "pos + 4" "left - 4"] len by (metis add.assoc add_diff_cancel_left' diff_add_cancel of_nat_add of_nat_numeral add.commute)
  then show ?thesis using p True by (cases r) (simp add: parse_suites_def)
next
  case False
  then show ?thesis using parse_pairwise_safe [OF len suite] by (cases "0 < left") (fastforce simp: parse_suites_def)+
qed

text \<open>The parsers of the WPA and RSN elements load nothing outside the element they are given, whatever it contains,
  provided it is at least as long as the header that is compared first (6 and 2 bytes).\<close>

theorem parse_sec_ie_safe:
  assumes "int p + n \<le> int (length buf)"
  shows "(6 \<le> n \<longrightarrow> rtw_parse_wpa_ie buf p n gc pw \<noteq> None) \<and> (2 \<le> n \<longrightarrow> rtw_parse_wpa2_ie buf p n gc pw \<noteq> None)"
proof -
  have "rtw_parse_wpa_ie buf p n gc pw \<noteq> None" if "6 \<le> n"
    using that assms parse_suites_safe [of "p + 8" "n - 8" buf "rtw_get_wpa_cipher_suite buf" wpa_suite gc pw] suite_reads(1)
    by (auto simp: rtw_parse_wpa_ie_def rd_def rdn_def WPA_SELECTOR_LEN_def)
  moreover have "rtw_parse_wpa2_ie buf p n gc pw \<noteq> None" if "2 \<le> n"
    using that assms parse_suites_safe [of "p + 4" "n - 4" buf "rtw_get_wpa2_cipher_suite buf" rsn_suite gc pw] suite_reads(2)
    by (auto simp: rtw_parse_wpa2_ie_def rd_def)
  ultimately show ?thesis by blast
qed

theorem parse_sec_ie_safe_witness: "rtw_parse_wpa2_ie (0x30 # replicate 21 0) 0 22 0 0 \<noteq> None"
  using parse_sec_ie_safe [of 0 22 "0x30 # replicate 21 0" 0 0] by simp

section \<open>Copying the security elements\<close>

lemma dump_loop_returns:
  assumes "n \<le> 248" "i = of_nat (8 * j)" "j \<le> 31"
  shows "dump_loop i n = Some ()"
  using assms
proof (induction "31 - j" arbitrary: i j)
  case 0
  then have "j = 31" by simp
  then show ?case using 0 by (subst dump_loop.simps) simp
next
  case (Suc k)
  then have "dump_loop (i + 8) n = Some ()" by (intro Suc.hyps(1) [of "j + 1"]) simp_all
  then show ?case by (subst dump_loop.simps) simp
qed

lemma dump_loop_hangs:
  assumes "248 < n"
  shows "dump_loop (of_nat (8 * j)) n = None"
proof (rule ccontr)
  assume "dump_loop (of_nat (8 * j)) n \<noteq> None"
  then obtain r where r: "dump_loop (of_nat (8 * j)) n = Some r" by blast
  have "\<not> (248 < n \<and> (\<exists>k. of_nat (8 * j) = (of_nat (8 * k) :: u8)))"
  proof (rule dump_loop.raw_induct [where P = "\<lambda>i n r. \<not> (248 < n \<and> (\<exists>j. i = of_nat (8 * j)))", OF _ r])
    fix f :: "u8 \<Rightarrow> nat \<Rightarrow> unit option" and i :: u8 and n r
    assume IH: "\<And>i n r. f i n = Some r \<Longrightarrow> \<not> (248 < n \<and> (\<exists>j. i = of_nat (8 * j)))"
      and b: "(if unat i < n then f (i + 8) n else Some ()) = Some r"
    show "\<not> (248 < n \<and> (\<exists>j. i = of_nat (8 * j)))"
    proof
      assume a: "248 < n \<and> (\<exists>j. i = of_nat (8 * j))"
      then obtain j where j: "i = of_nat (8 * j)" by blast
      have "unat i = 8 * (j mod 32)" unfolding j unat_of_nat by (simp add: mult_mod_right)
      moreover have "j mod 32 < 32" by simp
      ultimately have "unat i < n" using a by linarith
      then have "f (i + 8) n = Some r" using b by simp
      moreover have "i + 8 = of_nat (8 * (j + 1))" by (simp add: j)
      ultimately show False using IH a by blast
    qed
  qed
  then show False using assms by blast
qed


abbreviation is_wpa :: "ie \<Rightarrow> bool" where
  "is_wpa x \<equiv> fst x = WPA_IE_ID \<and> take 4 (snd x) = RTW_WPA_OUI_TYPE"

abbreviation is_rsn :: "ie \<Rightarrow> bool" where
  "is_rsn x \<equiv> fst x = WPA2_IE_ID"

definition sec_elem_wf :: "ie \<Rightarrow> bool" where
  "sec_elem_wf x \<longleftrightarrow> length (snd x) < 256 \<and> (fst x = WPA_IE_ID \<longrightarrow> 4 \<le> length (snd x)) \<and> (is_wpa x \<or> is_rsn x \<longrightarrow> length (snd x) \<le> 246)"

definition sec_store :: "ie \<Rightarrow> sec_ies \<Rightarrow> sec_ies" where
  "sec_store x s =
     (if is_wpa x then s\<lparr>sec_wpa_ie := ie_enc x @ drop (length (ie_enc x)) (sec_wpa_ie s), sec_wpa_len := of_nat (length (ie_enc x))\<rparr>
      else if is_rsn x then s\<lparr>sec_rsn_ie := ie_enc x @ drop (length (ie_enc x)) (sec_rsn_ie s), sec_rsn_len := of_nat (length (ie_enc x))\<rparr>
      else s)"

abbreviation sec_room :: "sec_ies \<Rightarrow> bool" where
  "sec_room s \<equiv> 248 \<le> length (sec_wpa_ie s) \<and> 248 \<le> length (sec_rsn_ie s)"

lemma sec_ie_at:
  assumes wf: "ie_wf x" and len: "fst x = WPA_IE_ID \<longrightarrow> 4 \<le> length (snd x)"
  shows "(if fst x = WPA_IE_ID then do { o' \<leftarrow> rdn (pre @ ie_enc x @ post) (length pre + 2) 4; Some (o' = RTW_WPA_OUI_TYPE) } else Some False) = Some (is_wpa x)"
  using assms by (auto simp: rdn_def ie_enc_def)

lemma sec_ie_loop_elem:
  assumes wf: "sec_elem_wf x" and room: "sec_room s" and lim: "length pre < in_len"
  shows "sec_ie_loop (pre @ ie_enc x @ post) in_len (length pre) s = sec_ie_loop (pre @ ie_enc x @ post) in_len (length (pre @ ie_enc x)) (sec_store x s)"
proof -
  have i: "ie_wf x" using wf by (simp add: sec_elem_wf_def ie_wf_def)
  have n: "unat (of_nat (length (snd x)) :: u8) = length (snd x)" using wf by (simp add: sec_elem_wf_def)
  have d: "dump_loop 0 (Suc (Suc (length (snd x)))) = Some ()" if "is_wpa x \<or> is_rsn x"
    using wf that dump_loop_returns [of "length (snd x) + 2" 0 0] by (simp add: sec_elem_wf_def)
  have r: "rd (pre @ ie_enc x @ post) (length pre) = Some (fst x)" "rd (pre @ ie_enc x @ post) (Suc (length pre)) = Some (of_nat (length (snd x)))"
    by (simp_all add: rd_def ie_enc_def nth_append)
  have w: "wrn (sec_wpa_ie s) 0 (ie_enc x) = Some (ie_enc x @ drop (length (ie_enc x)) (sec_wpa_ie s))"
    "wrn (sec_rsn_ie s) 0 (ie_enc x) = Some (ie_enc x @ drop (length (ie_enc x)) (sec_rsn_ie s))" if "is_wpa x \<or> is_rsn x"
    by (rule wrn_front; use wf room that in \<open>auto simp: sec_elem_wf_def\<close>)+
  have k: "WPA2_IE_ID \<noteq> WPA_IE_ID" by (simp add: WPA2_IE_ID_def WPA_IE_ID_def)
  note at = sec_ie_at [OF i, of pre post] and whole = rdn_ie_whole [of pre x post]
  show ?thesis
    using wf lim k at whole r d w n by (subst sec_ie_loop.simps) (auto simp: sec_store_def sec_elem_wf_def)
qed


lemma sec_store_room: "sec_elem_wf x \<Longrightarrow> sec_room s \<Longrightarrow> sec_room (sec_store x s)"
  by (auto simp: sec_store_def sec_elem_wf_def)

lemma sec_ie_loop_fold:
  assumes "\<forall>x \<in> set xs. sec_elem_wf x" "sec_room s"
  shows "sec_ie_loop (pre @ enc_all ie_enc xs) (length (pre @ enc_all ie_enc xs)) (length pre) s = Some (fold sec_store xs s)"
  using assms
proof (induction xs arbitrary: pre s)
  case Nil
  then show ?case by (subst sec_ie_loop.simps) simp
next
  case (Cons x xs)
  have "sec_ie_loop (pre @ enc_all ie_enc (x # xs)) (length (pre @ enc_all ie_enc (x # xs))) (length pre) s
      = sec_ie_loop ((pre @ ie_enc x) @ enc_all ie_enc xs) (length ((pre @ ie_enc x) @ enc_all ie_enc xs)) (length (pre @ ie_enc x)) (sec_store x s)"
    using sec_ie_loop_elem [of x s pre _ "enc_all ie_enc xs"] Cons.prems by simp
  also have "\<dots> = Some (fold sec_store xs (sec_store x s))"
    using Cons.prems sec_store_room [of x s] by (intro Cons.IH) simp_all
  finally show ?case by simp
qed

definition last_sec :: "(ie \<Rightarrow> bool) \<Rightarrow> ie list \<Rightarrow> bytes" where
  "last_sec k xs = (if filter k xs = [] then [] else ie_enc (last (filter k xs)))"

lemma last_sec_snoc: "last_sec k (xs @ [x]) = (if k x then ie_enc x else last_sec k xs)"
  by (simp add: last_sec_def)

lemma unat_len16: "n < 65536 \<Longrightarrow> unat (of_nat n :: u16) = n"
  by (simp add: unat_of_nat)

lemma fold_sec_store:
  assumes "\<forall>x \<in> set xs. sec_elem_wf x" "sec_wpa_len s = 0" "sec_rsn_len s = 0"
  shows "take (unat (sec_wpa_len (fold sec_store xs s))) (sec_wpa_ie (fold sec_store xs s)) = last_sec is_wpa xs
    \<and> take (unat (sec_rsn_len (fold sec_store xs s))) (sec_rsn_ie (fold sec_store xs s)) = last_sec is_rsn xs
    \<and> unat (sec_wpa_len (fold sec_store xs s)) = length (last_sec is_wpa xs) \<and> unat (sec_rsn_len (fold sec_store xs s)) = length (last_sec is_rsn xs)"
  using assms
proof (induction xs rule: rev_induct)
  case Nil
  then show ?case by (simp add: last_sec_def)
next
  case (snoc x xs)
  have k: "WPA2_IE_ID \<noteq> WPA_IE_ID" by (simp add: WPA2_IE_ID_def WPA_IE_ID_def)
  have n: "unat (of_nat (length (ie_enc x)) :: u16) = length (ie_enc x)" using snoc.prems(1) by (intro unat_len16) (simp add: sec_elem_wf_def)
  show ?case using snoc k n by (auto simp: sec_store_def last_sec_snoc)
qed

text \<open>On a frame body of well-formed elements, of which the security elements have at most 246 bytes, \<^verbatim>\<open>rtw_get_sec_ie\<close> returns, the two
  buffers hold the last WPA and the last RSN element of the body (nothing when there is none), and the result is the sum of their lengths.\<close>

theorem get_sec_ie_copies:
  assumes "length fixed = 12" "\<forall>x \<in> set xs. sec_elem_wf x" "sec_room s" "sec_wpa_len s = 0" "sec_rsn_len s = 0"
  shows "\<exists>r. rtw_get_sec_ie (fixed @ enc_all ie_enc xs) (length (fixed @ enc_all ie_enc xs)) s
      = Some (int (length (last_sec is_rsn xs) + length (last_sec is_wpa xs)), r)
    \<and> take (unat (sec_wpa_len r)) (sec_wpa_ie r) = last_sec is_wpa xs \<and> take (unat (sec_rsn_len r)) (sec_rsn_ie r) = last_sec is_rsn xs"
proof -
  note f = fold_sec_store [OF assms(2,4,5)]
  have "uint (sec_rsn_len (fold sec_store xs s)) + uint (sec_wpa_len (fold sec_store xs s)) = int (length (last_sec is_rsn xs) + length (last_sec is_wpa xs))"
    using f unfolding uint_nat by presburger
  then show ?thesis using sec_ie_loop_fold [OF assms(2,3), of fixed] f unfolding rtw_get_sec_ie_def assms(1) by auto
qed

theorem get_sec_ie_copies_witness:
  "\<exists>r. rtw_get_sec_ie (replicate 12 7 @ enc_all ie_enc [(0x30, [1, 0]), (0, [65]), (0x30, [2, 0])])
      (length (replicate 12 (7 :: u8) @ enc_all ie_enc [(0x30, [1, 0]), (0, [65]), (0x30, [2, 0])]))
      \<lparr>sec_rsn_ie = replicate 255 0, sec_rsn_len = 0, sec_wpa_ie = replicate 255 0, sec_wpa_len = 0\<rparr> = Some (4, r)
    \<and> take (unat (sec_rsn_len r)) (sec_rsn_ie r) = [0x30, 2, 2, 0]"
  using get_sec_ie_copies [of "replicate 12 7" "[(0x30, [1, 0]), (0, [65]), (0x30, [2, 0])]"
      "\<lparr>sec_rsn_ie = replicate 255 0, sec_rsn_len = 0, sec_wpa_ie = replicate 255 0, sec_wpa_len = 0\<rparr>"]
  by (auto simp: sec_elem_wf_def last_sec_def WPA2_IE_ID_def WPA_IE_ID_def ie_enc_def)


text \<open>An RSN element of 247 bytes or more makes \<^verbatim>\<open>rtw_get_sec_ie\<close> run forever, although every load and store is inside its
  buffers: the 8-bit counter of the loop that traces the copy steps by eight and wraps before it reaches the length.\<close>

theorem get_sec_ie_hangs:
  assumes "length fixed = 12" "is_rsn x" "247 \<le> length (snd x)" "length (snd x) < 256" "length (snd x) + 2 \<le> length (sec_rsn_ie s)"
  shows "dump_loop 0 (length (ie_enc x)) = None
    \<and> rtw_get_sec_ie (fixed @ ie_enc x @ post) (length (fixed @ ie_enc x @ post)) s = None"
proof -
  have d: "dump_loop 0 (length (ie_enc x)) = None" using dump_loop_hangs [of "length (ie_enc x)" 0] assms by simp
  have n: "unat (of_nat (length (snd x)) :: u8) = length (snd x)" using assms(4) by simp
  have w: "wrn (sec_rsn_ie s) 0 (ie_enc x) = Some (ie_enc x @ drop (length (ie_enc x)) (sec_rsn_ie s))"
    using assms(5) by (intro wrn_front) simp
  have k: "WPA2_IE_ID \<noteq> WPA_IE_ID" by (simp add: WPA2_IE_ID_def WPA_IE_ID_def)
  have "sec_ie_loop (fixed @ ie_enc x @ post) (length (fixed @ ie_enc x @ post)) (length fixed) s = None"
    using k n w d rdn_ie_whole [of fixed x post] rd_ie [of fixed x post] assms(2) by (subst sec_ie_loop.simps) simp
  then show ?thesis using d assms(1) by (simp add: rtw_get_sec_ie_def)
qed

theorem get_sec_ie_hangs_witness:
  "rtw_get_sec_ie (replicate 12 0 @ ie_enc (0x30, replicate 250 0) @ []) (length (replicate 12 (0 :: u8) @ ie_enc (0x30, replicate 250 0) @ []))
     \<lparr>sec_rsn_ie = replicate 255 0, sec_rsn_len = 0, sec_wpa_ie = replicate 255 0, sec_wpa_len = 0\<rparr> = None"
  using get_sec_ie_hangs [of "replicate 12 0" "(0x30, replicate 250 0)"
      "\<lparr>sec_rsn_ie = replicate 255 0, sec_rsn_len = 0, sec_wpa_ie = replicate 255 0, sec_wpa_len = 0\<rparr>" "[]"]
  by (simp add: WPA2_IE_ID_def)

text \<open>C22. Wherever they stand in memory, and whatever follows the pairwise suites inside them, a well-formed WPA element and a well-formed RSN element
  parse to the group cipher their group suite names and the union of the pairwise ciphers their suites name.\<close>

theorem parse_sec_ie_reads:
  assumes "suites_wf g ps" "length ver = 2"
  shows "rtw_parse_wpa_ie (pre @ wpa_ie_enc ver g ps rest @ post) (length pre) (int (length (wpa_ie_enc ver g ps rest))) g0 pw
      = Some (True, wpa_suite g, fold (\<lambda>p c. c OR wpa_suite p) ps pw)
    \<and> rtw_parse_wpa2_ie (pre @ rsn_ie_enc ver g ps rest @ post) (length pre) (int (length (rsn_ie_enc ver g ps rest))) g0 pw
      = Some (True, rsn_suite g, fold (\<lambda>p c. c OR rsn_suite p) ps pw)"
  using parse_wpa_ie_reads [OF assms] parse_wpa2_ie_reads [OF assms] by blast

theorem parse_sec_ie_reads_witness:
  "rtw_parse_wpa2_ie (rsn_ie_enc [1, 0] RSN_CIPHER_SUITE_TKIP [RSN_CIPHER_SUITE_CCMP, RSN_CIPHER_SUITE_TKIP] []) 0 18 0 0
     = Some (True, WPA_CIPHER_TKIP, WPA_CIPHER_CCMP OR WPA_CIPHER_TKIP)"
  using parse_sec_ie_reads [of RSN_CIPHER_SUITE_TKIP "[RSN_CIPHER_SUITE_CCMP, RSN_CIPHER_SUITE_TKIP]" "[1, 0]" "[]" "[]" "[]" 0 0]
  by (simp add: suites_wf_def suite_defs rsn_suite_def rsn_ie_enc_def suites_enc_def)


section \<open>Finding the WPA element\<close>

abbreviation is_wpa1 :: "ie \<Rightarrow> bool" where
  "is_wpa1 x \<equiv> fst x = WPA_IE_ID \<and> take 6 (snd x) = RTW_WPA_OUI_TYPE @ [1, 0]"

definition wpa_elem_wf :: "ie \<Rightarrow> bool" where
  "wpa_elem_wf x \<longleftrightarrow> ie_wf x \<and> (fst x = WPA_IE_ID \<longrightarrow> 6 \<le> length (snd x))"

lemma rtw_get_ie_finds:
  assumes "\<forall>y \<in> set ys. ie_wf y \<and> fst y \<noteq> eid" "ie_wf x" "fst x = eid" "int (length (enc_all ie_enc ys)) < limit"
  shows "rtw_get_ie (pre @ enc_all ie_enc ys @ ie_enc x @ post) (length pre) (int (unat eid)) len limit
    = Some (Some (length pre + length (enc_all ie_enc ys)), length (snd x))"
proof -
  have ys: "\<forall>i \<in> set ys. ie_wf i \<and> int (unat (fst i)) \<noteq> int (unat eid)"
    using assms(1) by (simp add: word_unat_eq_iff [symmetric] del: of_nat_unat)
  have l: "length pre + length (enc_all ie_enc ys) < length pre + nat limit" using assms(4) by linarith
  have "int (unat (fst x)) = int (unat eid)" using assms(3) by simp
  then show ?thesis using get_ie.loop_finds [OF ys assms(2) _ l, of post] assms(4) by (simp add: rtw_get_ie_def)
qed

lemma split_bytes16:
  "ucast (push_bit 8 (ucast f) OR ucast e :: u16) = (e :: u8)" "ucast (drop_bit 8 (push_bit 8 (ucast f) OR ucast e :: u16)) = (f :: u8)"
  by (auto intro!: bit_word_eqI simp: bit_simps)

lemma join16_one: "(push_bit 8 (ucast (0 :: u8)) OR ucast (1 :: u8) :: u16) = 1" "(ucast (1 :: u16) :: u8) = 1" "(ucast (drop_bit 8 (1 :: u16)) :: u8) = 0"
  by simp_all

lemma wpa_at_ie:
  assumes "wpa_elem_wf x" "fst x = WPA_IE_ID"
  shows "wpa_at (pre @ ie_enc x @ post) (length pre) = Some (is_wpa1 x)"
proof -
  obtain a b c d e f r where x: "snd x = a # b # c # d # e # f # r"
    using assms by (auto simp: wpa_elem_wf_def numeral_eq_Suc Suc_le_length_iff)
  have "rdn (pre @ ie_enc x @ post) (length pre + 2) 4 = Some [a, b, c, d]" by (simp add: rdn_def ie_enc_def x)
  moreover have "RTW_GET_LE16 (pre @ ie_enc x @ post) (length pre + 6) = Some (push_bit 8 (ucast f) OR ucast e)"
    by (simp add: rd_def ie_enc_def nth_append x RTW_GET_LE16_def)
  moreover have "(push_bit 8 (ucast f) OR ucast e :: u16) = 1 \<longleftrightarrow> e = 1 \<and> f = 0"
    using split_bytes16 [of f e] by (metis join16_one)
  ultimately show ?thesis using assms(2) by (auto simp: wpa_at_def x RTW_WPA_OUI_TYPE_def)
qed

lemma get_wpa_loop_skip:
  assumes "rtw_get_ie buf p (int (unat WPA_IE_ID)) len limit = Some (Some q, n)" "wpa_at buf q = Some False" "0 < limit - (2 + int n)"
  shows "get_wpa_loop buf p len limit = get_wpa_loop buf (q + (2 + n)) n (limit - (2 + int n))"
  using assms by (subst get_wpa_loop.simps) (simp del: of_nat_unat)

lemma get_wpa_loop_hit:
  assumes "rtw_get_ie buf p (int (unat WPA_IE_ID)) len limit = Some (Some q, n)" "wpa_at buf q = Some True" "rd buf (q + 1) = Some k"
  shows "get_wpa_loop buf p len limit = Some (Some q, unat k)"
  using assms by (subst get_wpa_loop.simps) (simp del: of_nat_unat)

lemma get_wpa_loop_finds:
  assumes "\<forall>y \<in> set ys. wpa_elem_wf y \<and> \<not> is_wpa1 y" "wpa_elem_wf x" "is_wpa1 x" "int (length (enc_all ie_enc ys)) < limit"
  shows "get_wpa_loop (pre @ enc_all ie_enc ys @ ie_enc x @ post) (length pre) len limit
    = Some (Some (length pre + length (enc_all ie_enc ys)), length (snd x))"
  using assms
proof (induction ys arbitrary: pre len limit rule: length_induct)
  case (1 ys)
  let ?b = "pre @ enc_all ie_enc ys @ ie_enc x @ post"
  have lx: "length (snd x) < 256" using "1.prems"(2) by (simp add: wpa_elem_wf_def ie_wf_def)
  show ?case
  proof (cases "\<exists>y \<in> set ys. fst y = WPA_IE_ID")
    case False
    then have g: "rtw_get_ie ?b (length pre) (int (unat WPA_IE_ID)) len limit = Some (Some (length pre + length (enc_all ie_enc ys)), length (snd x))"
      using "1.prems" by (intro rtw_get_ie_finds) (auto simp: wpa_elem_wf_def)
    show ?thesis
      using get_wpa_loop_hit [OF g] wpa_at_ie [of x "pre @ enc_all ie_enc ys" post] "1.prems"(2,3) rd_ie [of "pre @ enc_all ie_enc ys" x post] lx by simp
  next
    case True
    then obtain us v vs where ys: "ys = us @ v # vs" and v: "fst v = WPA_IE_ID" and us: "\<forall>y \<in> set us. fst y \<noteq> WPA_IE_ID"
      using split_list_first_prop [of ys "\<lambda>y. fst y = WPA_IE_ID"] by blast
    let ?pre = "pre @ enc_all ie_enc us @ ie_enc v"
    have b: "?b = ?pre @ enc_all ie_enc vs @ ie_enc x @ post" "?b = (pre @ enc_all ie_enc us) @ ie_enc v @ enc_all ie_enc vs @ ie_enc x @ post"
      by (simp_all add: ys)
    have g: "rtw_get_ie ?b (length pre) (int (unat WPA_IE_ID)) len limit = Some (Some (length pre + length (enc_all ie_enc us)), length (snd v))"
      unfolding b(2) append_assoc using "1.prems" us v by (intro rtw_get_ie_finds) (auto simp: wpa_elem_wf_def ys)
    have pos: "0 < limit - (2 + int (length (snd v)))" using "1.prems"(4) by (simp add: ys)
    have at: "wpa_at ?b (length pre + length (enc_all ie_enc us)) = Some False"
      using wpa_at_ie [of v "pre @ enc_all ie_enc us" "enc_all ie_enc vs @ ie_enc x @ post"] "1.prems"(1) v by (simp add: ys)
    have e: "length pre + length (enc_all ie_enc us) + (2 + length (snd v)) = length ?pre" by simp
    have "get_wpa_loop ?b (length pre) len limit = get_wpa_loop ?b (length ?pre) (length (snd v)) (limit - (2 + int (length (snd v))))"
      unfolding get_wpa_loop_skip [OF g at pos] e ..
    also have "\<dots> = Some (Some (length ?pre + length (enc_all ie_enc vs)), length (snd x))"
      unfolding b(1) using "1.prems" by (intro "1.IH" [rule_format]) (auto simp: ys)
    also have "length ?pre + length (enc_all ie_enc vs) = length pre + length (enc_all ie_enc ys)" by (simp add: ys)
    finally show ?thesis .
  qed
qed

text \<open>\<^verbatim>\<open>rtw_get_wpa_ie\<close> finds the first WPA element of version 1 of a list of elements that has one, and its length, whatever
  other vendor elements come before it.\<close>

theorem get_wpa_ie_finds_first:
  assumes "\<forall>y \<in> set ys. wpa_elem_wf y \<and> \<not> is_wpa1 y" "wpa_elem_wf x" "is_wpa1 x"
  shows "rtw_get_wpa_ie (pre @ enc_all ie_enc (ys @ x # zs) @ post) (length pre) (int (length (enc_all ie_enc (ys @ x # zs))))
    = Some (Some (length pre + length (enc_all ie_enc ys)), length (snd x))"
  using get_wpa_loop_finds [OF assms, of "int (length (enc_all ie_enc (ys @ x # zs)))" pre "enc_all ie_enc zs @ post" 0]
  by (simp add: rtw_get_wpa_ie_def)

theorem get_wpa_ie_finds_first_witness:
  "rtw_get_wpa_ie (enc_all ie_enc ([(0, [65]), (0xdd, [0, 80, 242, 4, 0, 0])] @ (0xdd, [0, 80, 242, 1, 1, 0, 0, 80, 242, 2]) # [])) 0 23
     = Some (Some 11, 10)"
  using get_wpa_ie_finds_first [of "[(0, [65]), (0xdd, [0, 80, 242, 4, 0, 0])]" "(0xdd, [0, 80, 242, 1, 1, 0, 0, 80, 242, 2])" "[]" "[]" "[]"]
  by (simp add: wpa_elem_wf_def ie_wf_def WPA_IE_ID_def RTW_WPA_OUI_TYPE_def)

section \<open>MAC addresses and header lengths\<close>

text \<open>A MAC address as the module parameter writes it: six pairs of hexadecimal digits with a separator between them.\<close>

definition hex_digit :: "u8 \<Rightarrow> u8" where
  "hex_digit d = (if d < 10 then d + 48 else d + 87)"

fun mac_string :: "u8 \<Rightarrow> bytes \<Rightarrow> bytes" where
  "mac_string sep [] = []"
| "mac_string sep [x] = [hex_digit (drop_bit 4 x), hex_digit (x AND 15)]"
| "mac_string sep (x # xs) = hex_digit (drop_bit 4 x) # hex_digit (x AND 15) # sep # mac_string sep xs"

lemma key_char2num_hex_digit:
  assumes "unat d < 16"
  shows "key_char2num (hex_digit d) = d"
proof -
  obtain k where k: "d = of_nat k" "k < 16" using assms that [of "unat d"] by simp
  then have "k = 0 \<or> k = 1 \<or> k = 2 \<or> k = 3 \<or> k = 4 \<or> k = 5 \<or> k = 6 \<or> k = 7 \<or> k = 8 \<or> k = 9 \<or> k = 10 \<or> k = 11 \<or> k = 12 \<or> k = 13 \<or> k = 14 \<or> k = 15" by presburger
  then show ?thesis unfolding k(1) by (elim disjE) (simp_all add: hex_digit_def key_char2num_def)
qed

lemma key_2char2num_hex: "key_2char2num (hex_digit (drop_bit 4 x)) (hex_digit (x AND 15)) = x"
proof -
  have m: "(15 :: u8) = mask 4" by (simp add: mask_eq_exp_minus_1)
  have "unat (drop_bit 4 x) < 16" unfolding unsigned_drop_bit_eq
    by (simp add: drop_bit_eq_div take_bit_eq_mod less_mult_imp_div_less)
  moreover have "unat (x AND 15) < 16" unfolding m take_bit_eq_mask [symmetric] unsigned_take_bit_eq
    by (simp add: take_bit_eq_mod)
  ultimately have "key_2char2num (hex_digit (drop_bit 4 x)) (hex_digit (x AND 15)) = push_bit 4 (drop_bit 4 x) OR (x AND 15)"
    by (simp add: key_2char2num_def key_char2num_hex_digit)
  also have "\<dots> = x" unfolding m by (rule bit_word_eqI) (auto simp: bit_simps)
  finally show ?thesis .
qed

lemma replicate_six: "replicate 6 v = [v, v, v, v, v, v]"
  by (simp add: numeral_eq_Suc)

text \<open>A MAC address given as a string is stored as the address the string spells, over whatever the buffer held, except that the
  broadcast and the all-zero address are replaced by the default address of the driver.\<close>

theorem macaddr_cfg_reads:
  assumes "length mac = 6" "length mac_addr = 6"
  shows "rtw_macaddr_cfg (Some (mac_string sep mac)) (Some mac_addr)
    = Some (Some (if mac = replicate 6 0xff \<or> mac = replicate 6 0 then [0x00, 0xe0, 0x4c, 0x87, 0x00, 0x00] else mac))"
proof -
  obtain a b c d e f where m: "mac = [a, b, c, d, e, f]" using assms(1) by (auto simp: numeral_eq_Suc length_Suc_conv)
  have u: "[0..<6] = [0, 1, 2, 3, 4, 5 :: nat]" by (simp add: upt_rec)
  have "rdn (mac_string sep mac) 0 17 = Some (mac_string sep mac)" by (simp add: m rdn_def)
  moreover have "map (\<lambda>jj. key_2char2num (mac_string sep mac ! (3 * jj)) (mac_string sep mac ! (3 * jj + 1))) [0..<6] = mac"
    unfolding m u by (simp add: key_2char2num_hex)
  moreover have "wrn ys 0 xs = Some xs" if "length xs = 6" "length ys = 6" for xs ys using that by (simp add: wrn_def)
  ultimately show ?thesis using assms by (simp add: rtw_macaddr_cfg_def Let_def)
qed

theorem macaddr_cfg_reads_witness:
  "rtw_macaddr_cfg (Some (mac_string 58 [0, 1, 2, 0xAB, 4, 5])) (Some (replicate 6 9)) = Some (Some [0, 1, 2, 0xAB, 4, 5])"
  using macaddr_cfg_reads [of "[0, 1, 2, 0xAB, 4, 5]" "replicate 6 9" 58] by (simp add: replicate_six)

lemma hdrlen_cases: "ieee80211_get_hdrlen fc \<in> {10, 16, 24, 26, 30, 32}"
  by (simp add: ieee80211_get_hdrlen_def Let_def)

end
