(* ===== verification/Rtw_Rx.thy ===== *)
theory Rtw_Rx
  imports Rtw_Prelude
begin

unbundle bit_operations_syntax

text \<open>
  Received frames, of \<^verbatim>\<open>include/rtw_recv.h\<close> and \<^verbatim>\<open>core/rtw_recv.c\<close>: the four movements of the
  data and tail pointers, the duplicate filter, the conversion of the 802.11 header into an
  Ethernet header, the reassembly of fragments and the dissolution of an A-MSDU.

  A frame owns a buffer; \<open>fr_data\<close> and \<open>fr_tail\<close> are offsets from \<^verbatim>\<open>rx_head\<close>, and \<^verbatim>\<open>rx_end\<close> is
  the end of the buffer. A load or store outside the buffer is \<open>None\<close>. The contents of a
  frame is what stands between data and tail.
\<close>

section \<open>Frames and their pointers\<close>

record rx_attrib =
  at_hdrlen :: u8
  at_amsdu :: u8
  at_qos :: u8
  at_priority :: u8
  at_seq_num :: u16
  at_frag_num :: u8
  at_mfrag :: u8
  at_privacy :: u8
  at_encrypt :: u8
  at_iv_len :: u8
  at_icv_len :: u8
  at_eth_type :: u16
  at_dst :: bytes
  at_src :: bytes

record rxframe =
  fr_attrib :: rx_attrib
  fr_len :: u32
  fr_mem :: bytes
  fr_data :: int
  fr_tail :: int

definition rdi :: "bytes \<Rightarrow> int \<Rightarrow> nat \<Rightarrow> bytes option" where
  "rdi buf p n = (if p < 0 then None else rdn buf (nat p) n)"

definition wri :: "bytes \<Rightarrow> int \<Rightarrow> bytes \<Rightarrow> bytes option" where
  "wri buf p xs = (if p < 0 then None else wrn buf (nat p) xs)"

definition recvframe_push :: "rxframe \<Rightarrow> int \<Rightarrow> int option \<times> rxframe" where
  "recvframe_push f sz =
     (if fr_data f - sz < 0 then (None, f)
      else (Some (fr_data f - sz), f\<lparr>fr_data := fr_data f - sz, fr_len := fr_len f + of_int sz\<rparr>))"

definition recvframe_pull :: "rxframe \<Rightarrow> int \<Rightarrow> int option \<times> rxframe" where
  "recvframe_pull f sz =
     (if fr_data f + sz > fr_tail f then (None, f)
      else (Some (fr_data f + sz), f\<lparr>fr_data := fr_data f + sz, fr_len := fr_len f - of_int sz\<rparr>))"

definition recvframe_put :: "rxframe \<Rightarrow> int \<Rightarrow> int option \<times> rxframe" where
  "recvframe_put f sz =
     (if fr_tail f + sz > int (length (fr_mem f)) then (None, f)
      else (Some (fr_tail f + sz), f\<lparr>fr_tail := fr_tail f + sz, fr_len := fr_len f + of_int sz\<rparr>))"

definition recvframe_pull_tail :: "rxframe \<Rightarrow> int \<Rightarrow> int option \<times> rxframe" where
  "recvframe_pull_tail f sz =
     (if fr_tail f - sz < fr_data f then (None, f)
      else (Some (fr_tail f - sz), f\<lparr>fr_tail := fr_tail f - sz, fr_len := fr_len f - of_int sz\<rparr>))"

section \<open>Duplicates\<close>

text \<open>\<^verbatim>\<open>prxcache->tid_rxseq\<close> holds the sequence control of the last frame of each of 16 TIDs.\<close>

definition recv_decache :: "rx_attrib \<Rightarrow> u16 list \<Rightarrow> (bool \<times> u16 list) option" where
  "recv_decache a tid_rxseq =
     (let tid = unat (at_priority a);
          seq_ctrl = push_bit 4 (at_seq_num a AND 0xFFFF) OR (ucast (at_frag_num a) AND 0xF)
      in if tid > 15 then Some (False, tid_rxseq)
         else if tid \<ge> length tid_rxseq then None
         else if seq_ctrl = tid_rxseq ! tid then Some (False, tid_rxseq)
         else Some (True, tid_rxseq[tid := seq_ctrl]))"

section \<open>The Ethernet header\<close>

definition SNAP_SIZE :: nat where "SNAP_SIZE = 6"
definition SNAP_ETH_TYPE_IPX :: bytes where "SNAP_ETH_TYPE_IPX = [0x81, 0x37]"
definition SNAP_ETH_TYPE_APPLETALK_AARP :: bytes where "SNAP_ETH_TYPE_APPLETALK_AARP = [0x80, 0xf3]"
definition rtw_rfc1042_header :: bytes where "rtw_rfc1042_header = [0xaa, 0xaa, 0x03, 0x00, 0x00, 0x00]"
definition rtw_bridge_tunnel_header :: bytes where "rtw_bridge_tunnel_header = [0xaa, 0xaa, 0x03, 0x00, 0x00, 0xf8]"
definition ETH_HLEN :: nat where "ETH_HLEN = 14"

definition RTW_GET_BE16 :: "bytes \<Rightarrow> u16" where
  "RTW_GET_BE16 a = push_bit 8 (ucast (a ! 0)) OR ucast (a ! 1)"

text \<open>\<^verbatim>\<open>htons\<close> followed by a copy of the two bytes: the big-endian bytes of a word.\<close>

definition be16 :: "u16 \<Rightarrow> bytes" where
  "be16 w = [ucast (drop_bit 8 w), ucast w]"

text \<open>
  \<^verbatim>\<open>wlanhdr_to_ethhdr\<close>; \<open>mp\<close> is the test of \<^verbatim>\<open>WIFI_MP_STATE\<close>. A pull that fails returns a null
  pointer, through which the addresses are then stored.
\<close>

definition eth_snap :: "bytes \<Rightarrow> int \<Rightarrow> bool option" where
  "eth_snap mem p =
     do {
       psnap \<leftarrow> rdi mem p SNAP_SIZE;
       if psnap = rtw_rfc1042_header then do {
         t \<leftarrow> rdi mem (p + int SNAP_SIZE) 2;
         Some (t \<noteq> SNAP_ETH_TYPE_IPX \<and> t \<noteq> SNAP_ETH_TYPE_APPLETALK_AARP)
       } else Some (psnap = rtw_bridge_tunnel_header)
     }"

definition wlanhdr_to_ethhdr :: "bool \<Rightarrow> rxframe \<Rightarrow> (bool \<times> rxframe) option" where
  "wlanhdr_to_ethhdr mp f =
     do {
       let ptr = fr_data f;
       let a = fr_attrib f;
       let f = (if at_encrypt a \<noteq> 0 then snd (recvframe_pull_tail f (uint (at_icv_len a))) else f);
       let hl = uint (at_hdrlen a) + uint (at_iv_len a);
       bsnaphdr \<leftarrow> eth_snap (fr_mem f) (ptr + hl);
       let rmv_len = hl + (if bsnaphdr then int SNAP_SIZE else 0);
       let len = (ucast (fr_len f - of_int rmv_len) :: u16);
       et \<leftarrow> rdi (fr_mem f) (ptr + rmv_len) 2;
       let f = f\<lparr>fr_attrib := a\<lparr>at_eth_type := RTW_GET_BE16 et\<rparr>\<rparr>;
       (p, f) \<leftarrow>
         (if mp then do {
            m \<leftarrow> wri (fr_mem f) (ptr + rmv_len) [0x87, 0x12];
            let (q, f) = recvframe_pull (f\<lparr>fr_mem := m\<rparr>) (rmv_len - int ETH_HLEN + 2 - 24);
            p \<leftarrow> q;
            st \<leftarrow> rdi (fr_mem f) 0 24;
            m \<leftarrow> wri (fr_mem f) p st;
            Some (p + 24, f\<lparr>fr_mem := m\<rparr>)
          } else do {
            let (q, f) = recvframe_pull f (rmv_len - int ETH_HLEN + (if bsnaphdr then 2 else 0));
            p \<leftarrow> q;
            Some (p, f)
          });
       m \<leftarrow> wri (fr_mem f) p (at_dst a);
       m \<leftarrow> wri m (p + 6) (at_src a);
       m \<leftarrow> (if bsnaphdr then Some m else wri m (p + 12) (be16 len));
       Some (True, f\<lparr>fr_mem := m\<rparr>)
     }"

section \<open>Reassembly\<close>

text \<open>
  The loop of \<^verbatim>\<open>recvframe_defrag\<close> over the fragments behind the first. The result is the
  frame, if the fragment numbers are in order, and the frames put back into the free queue.
\<close>

fun defrag_loop :: "rxframe \<Rightarrow> u8 \<Rightarrow> rxframe list \<Rightarrow> rxframe option option" where
  "defrag_loop p curfragnum [] = Some (Some p)"
| "defrag_loop p curfragnum (n # q) =
     (let na = fr_attrib n in
      if curfragnum \<noteq> at_frag_num na then Some None
      else do {
        let wlanhdr_offset = at_hdrlen na + at_iv_len na;
        let n = snd (recvframe_pull n (uint wlanhdr_offset));
        let p = snd (recvframe_pull_tail p (uint (at_icv_len (fr_attrib p))));
        src \<leftarrow> rdi (fr_mem n) (fr_data n) (unat (fr_len n));
        m \<leftarrow> wri (fr_mem p) (fr_tail p) src;
        let p = snd (recvframe_put (p\<lparr>fr_mem := m\<rparr>) (sint (fr_len n)));
        let p = p\<lparr>fr_attrib := (fr_attrib p)\<lparr>at_icv_len := at_icv_len na\<rparr>\<rparr>;
        defrag_loop p (curfragnum + 1) q
      })"

definition recvframe_defrag :: "rxframe list \<Rightarrow> (rxframe option \<times> rxframe list) option" where
  "recvframe_defrag defrag_q =
     (case defrag_q of [] \<Rightarrow> None
      | prframe # q \<Rightarrow>
          if at_frag_num (fr_attrib prframe) \<noteq> 0 then Some (None, prframe # q)
          else do {
            r \<leftarrow> defrag_loop prframe 1 q;
            Some (r, case r of None \<Rightarrow> prframe # q | Some _ \<Rightarrow> q)
          })"

section \<open>A-MSDUs\<close>

definition MAX_SUBFRAME_COUNT :: nat where "MAX_SUBFRAME_COUNT = 64"
definition ETH_P_AARP :: u16 where "ETH_P_AARP = 0x80F3"
definition ETH_P_IPX :: u16 where "ETH_P_IPX = 0x8137"

text \<open>
  A subframe becomes an own socket buffer with a copy of the data or, when that cannot be
  allocated, a clone that shares the memory of the frame. Which of the two, or none, is a
  result of the kernel's allocator, given for each subframe.
\<close>

datatype skb_result = SkbAlloc | SkbClone | SkbNone
datatype sub_skb = Copied bytes | Cloned int nat

function amsdu_split ::
    "(nat \<Rightarrow> skb_result) \<Rightarrow> bytes \<Rightarrow> int \<Rightarrow> int \<Rightarrow> sub_skb list \<Rightarrow> (bool \<times> sub_skb list) option" where
  "amsdu_split skb mem pdata a_len subs =
     (if a_len > int ETH_HLEN then
        (case rdi mem (pdata + 12) 2 of None \<Rightarrow> None
         | Some l \<Rightarrow>
             let n = unat (RTW_GET_BE16 l) in
             if a_len < int (ETH_HLEN + n) then Some (True, subs)
             else
               let pdata = pdata + int ETH_HLEN; a_len = a_len - int ETH_HLEN in
               (case (case skb (length subs) of
                        SkbAlloc \<Rightarrow> (case rdi mem pdata n of None \<Rightarrow> None | Some d \<Rightarrow> Some (Some (Copied d)))
                      | SkbClone \<Rightarrow> Some (Some (Cloned pdata n))
                      | SkbNone \<Rightarrow> Some None) of
                  None \<Rightarrow> None
                | Some None \<Rightarrow> Some (False, subs)
                | Some (Some s) \<Rightarrow>
                    let subs = subs @ [s] in
                    if length subs \<ge> MAX_SUBFRAME_COUNT then Some (False, subs)
                    else
                      let pdata = pdata + int n; a_len = a_len - int n in
                      if a_len \<noteq> 0 then
                        (let padding_len = 4 - (n + ETH_HLEN) mod 4;
                             padding_len = (if padding_len = 4 then 0 else padding_len)
                         in if a_len < int padding_len then Some (True, subs)
                            else amsdu_split skb mem (pdata + int padding_len) (a_len - int padding_len) subs)
                      else amsdu_split skb mem pdata a_len subs))
      else Some (False, subs))"
  by pat_completeness auto
termination
  by (relation "measure (\<lambda>(skb, mem, pdata, a_len, subs). nat a_len)") (auto simp: ETH_HLEN_def Let_def simp del: of_nat_unat)

declare amsdu_split.simps [simp del]

text \<open>
  Whether a subframe loses an RFC 1042 or bridge-tunnel header. The code computes the type
  before it compares the length, so for a shorter subframe it loads up to two bytes behind it,
  and does not use them.
\<close>

definition sub_snap :: "bytes \<Rightarrow> bool" where
  "sub_snap d \<longleftrightarrow> length d \<ge> 8 \<and>
     ((take SNAP_SIZE d = rtw_rfc1042_header \<and> RTW_GET_BE16 (drop 6 d) \<noteq> ETH_P_AARP \<and> RTW_GET_BE16 (drop 6 d) \<noteq> ETH_P_IPX)
      \<or> take SNAP_SIZE d = rtw_bridge_tunnel_header)"

definition sub_deliver :: "rx_attrib \<Rightarrow> bytes \<Rightarrow> sub_skb \<Rightarrow> (bytes \<times> bytes) option" where
  "sub_deliver a mem s =
     (case s of
        Copied d \<Rightarrow>
          Some (at_dst a @ at_src a @ (if sub_snap d then drop SNAP_SIZE d else be16 (of_nat (length d)) @ d), mem)
      | Cloned p n \<Rightarrow> do {
          d \<leftarrow> rdi mem p n;
          _ \<leftarrow> rdi mem (p + 6) 2;
          if sub_snap d then do {
            m \<leftarrow> wri mem p (at_src a);
            m \<leftarrow> wri m (p - 6) (at_dst a);
            out \<leftarrow> rdi m (p - 6) (n - SNAP_SIZE + 12);
            Some (out, m)
          } else do {
            m \<leftarrow> wri mem (p - 2) (be16 (of_nat n));
            m \<leftarrow> wri m (p - 8) (at_src a);
            m \<leftarrow> wri m (p - 14) (at_dst a);
            out \<leftarrow> rdi m (p - 14) (n + 14);
            Some (out, m)
          }
        })"

fun amsdu_deliver :: "rx_attrib \<Rightarrow> bytes \<Rightarrow> sub_skb list \<Rightarrow> bytes list option" where
  "amsdu_deliver a mem [] = Some []"
| "amsdu_deliver a mem (s # subs) =
     do { (out, mem) \<leftarrow> sub_deliver a mem s; outs \<leftarrow> amsdu_deliver a mem subs; Some (out # outs) }"

text \<open>
  \<^verbatim>\<open>amsdu_to_msdu\<close>: the packets handed to the network stack, the socket buffers that are
  neither handed on nor freed, and the frame as it goes back into the free queue.
\<close>

definition amsdu_to_msdu :: "(nat \<Rightarrow> skb_result) \<Rightarrow> rxframe \<Rightarrow> (bytes list \<times> sub_skb list \<times> rxframe) option" where
  "amsdu_to_msdu skb f =
     do {
       let a = fr_attrib f;
       let f = snd (recvframe_pull f (uint (at_hdrlen a)));
       let f = (if at_iv_len a > 0 then snd (recvframe_pull f (uint (at_iv_len a))) else f);
       (ex, subs) \<leftarrow> amsdu_split skb (fr_mem f) (fr_data f) (sint (fr_len f)) [];
       if ex then Some ([], subs, f\<lparr>fr_len := 0\<rparr>)
       else do {
         outs \<leftarrow> amsdu_deliver a (fr_mem f) subs;
         Some (outs, [], f\<lparr>fr_len := 0\<rparr>)
       }
     }"

section \<open>Contents\<close>

text \<open>\<open>holds f pre p post\<close>: the frame's buffer is \<open>pre @ p @ post\<close> and its contents is \<open>p\<close>.\<close>

definition holds :: "rxframe \<Rightarrow> bytes \<Rightarrow> bytes \<Rightarrow> bytes \<Rightarrow> bool" where
  "holds f pre p post \<longleftrightarrow> fr_mem f = pre @ p @ post \<and> fr_data f = int (length pre)
     \<and> fr_tail f = int (length pre + length p) \<and> fr_len f = of_nat (length p) \<and> length (fr_mem f) < 2 ^ 31"

definition frame_wf :: "rxframe \<Rightarrow> bool" where
  "frame_wf f \<longleftrightarrow> 0 \<le> fr_data f \<and> fr_data f \<le> fr_tail f \<and> fr_tail f \<le> int (length (fr_mem f))
     \<and> fr_len f = of_int (fr_tail f - fr_data f) \<and> length (fr_mem f) < 2 ^ 31"

definition contents :: "rxframe \<Rightarrow> bytes" where
  "contents f = take (nat (fr_tail f - fr_data f)) (drop (nat (fr_data f)) (fr_mem f))"

lemma holds_attrib [simp]: "holds (f\<lparr>fr_attrib := a\<rparr>) pre p post \<longleftrightarrow> holds f pre p post"
  by (simp add: holds_def)

lemma holds_contents: "holds f pre p post \<Longrightarrow> contents f = p"
  by (simp add: holds_def contents_def)

lemma holds_wf: "holds f pre p post \<Longrightarrow> frame_wf f"
  by (auto simp: holds_def frame_wf_def)

lemma wf_holds:
  assumes "frame_wf f"
  obtains pre post where "holds f pre (contents f) post"
proof
  define d t where "d = nat (fr_data f)" and "t = nat (fr_tail f)"
  have *: "fr_data f = int d" "fr_tail f = int t" "d \<le> t" "t \<le> length (fr_mem f)"
    using assms by (auto simp: frame_wf_def d_def t_def)
  have "fr_mem f = take d (fr_mem f) @ take (t - d) (drop d (fr_mem f)) @ drop (t - d) (drop d (fr_mem f))"
    by (simp only: append_take_drop_id)
  then show "holds f (take d (fr_mem f)) (contents f) (drop t (fr_mem f))"
    using assms * by (simp add: holds_def contents_def frame_wf_def nat_diff_distrib of_nat_diff)
qed

lemma rdi_holds: "rdi (pre @ p @ post) (int (length pre)) (length p) = Some p"
  by (simp add: rdi_def rdn_def)

lemma rdi_nat: "rdi m (int k) n = rdn m k n"
  by (simp add: rdi_def)

lemma wri_nat: "wri m (int k) xs = wrn m k xs"
  by (simp add: wri_def)

lemma pull_holds:
  assumes "holds f pre (x @ y) post"
  shows "recvframe_pull f (int (length x)) = (Some (int (length pre + length x)), snd (recvframe_pull f (int (length x))))"
    and "holds (snd (recvframe_pull f (int (length x)))) (pre @ x) y post"
    and "fr_attrib (snd (recvframe_pull f sz)) = fr_attrib f" "fr_mem (snd (recvframe_pull f sz)) = fr_mem f"
  using assms by (auto simp: holds_def recvframe_pull_def)

lemma pull_tail_holds:
  assumes "holds f pre (x @ y) post"
  shows "holds (snd (recvframe_pull_tail f (int (length y)))) pre x (y @ post)"
    and "fr_attrib (snd (recvframe_pull_tail f sz)) = fr_attrib f" "fr_mem (snd (recvframe_pull_tail f sz)) = fr_mem f"
  using assms by (auto simp: holds_def recvframe_pull_tail_def)

lemma put_holds:
  assumes "holds f pre x (y @ post)"
  shows "holds (snd (recvframe_put f (int (length y)))) pre (x @ y) post"
    and "fr_attrib (snd (recvframe_put f sz)) = fr_attrib f"
  using assms by (auto simp: holds_def recvframe_put_def)

section \<open>Conversion\<close>

text \<open>The bytes that follow the addresses: the type and data of a SNAP frame, the length and data of another.\<close>

definition decap :: "bytes \<Rightarrow> bytes" where
  "decap d = (if sub_snap d then drop SNAP_SIZE d else be16 (of_nat (length d)) @ d)"

lemma BE16_pair: "RTW_GET_BE16 [a, b] = w \<longleftrightarrow> a = ucast (drop_bit 8 w) \<and> b = ucast w"
proof -
  have 1: "ucast (drop_bit 8 (RTW_GET_BE16 [a, b])) = a" "ucast (RTW_GET_BE16 [a, b]) = b"
    by (rule bit_word_eqI, auto simp: RTW_GET_BE16_def bit_simps)+
  have 2: "RTW_GET_BE16 [ucast (drop_bit 8 w), ucast w] = w"
    by (rule bit_word_eqI) (auto simp: RTW_GET_BE16_def bit_simps)
  show ?thesis using 1 2 by auto
qed

lemma BE16_be16 [simp]: "RTW_GET_BE16 (be16 w) = w"
  by (simp add: be16_def BE16_pair)

lemma length_be16 [simp]: "length (be16 w) = 2"
  by (simp add: be16_def)

lemma eth_snap_decides:
  assumes "mem = pre @ d @ post" "8 \<le> length d"
  shows "eth_snap mem (int (length pre)) = Some (sub_snap d)"
proof -
  have 1: "rdi mem (int (length pre)) SNAP_SIZE = Some (take SNAP_SIZE d)"
    using assms by (simp add: rdi_nat rdn_def SNAP_SIZE_def)
  have 2: "rdi mem (int (length pre) + int SNAP_SIZE) 2 = Some (take 2 (drop 6 d))"
    using assms by (simp add: rdi_def rdn_def SNAP_SIZE_def nat_add_distrib)
  have t: "take 2 (drop 6 d) = [d ! 6, d ! 7]"
    using assms by (intro nth_equalityI) (auto simp: less_Suc_eq numeral_2_eq_2 nth_Cons')
  have e: "RTW_GET_BE16 (drop 6 d) = RTW_GET_BE16 [d ! 6, d ! 7]"
    using assms by (simp add: RTW_GET_BE16_def)
  have n: "(ucast ETH_P_IPX :: u8) = 0x37" "(ucast (drop_bit 8 ETH_P_IPX) :: u8) = 0x81"
    "(ucast ETH_P_AARP :: u8) = 0xF3" "(ucast (drop_bit 8 ETH_P_AARP) :: u8) = 0x80"
    by (simp_all add: ETH_P_IPX_def ETH_P_AARP_def)
  have ty: "take 2 (drop 6 d) = SNAP_ETH_TYPE_IPX \<longleftrightarrow> RTW_GET_BE16 (drop 6 d) = ETH_P_IPX"
    "take 2 (drop 6 d) = SNAP_ETH_TYPE_APPLETALK_AARP \<longleftrightarrow> RTW_GET_BE16 (drop 6 d) = ETH_P_AARP"
    unfolding t e BE16_pair n by (simp_all add: SNAP_ETH_TYPE_IPX_def SNAP_ETH_TYPE_APPLETALK_AARP_def)
  have ne: "rtw_rfc1042_header \<noteq> rtw_bridge_tunnel_header"
    by (simp add: rtw_rfc1042_header_def rtw_bridge_tunnel_header_def)
  show ?thesis
    unfolding eth_snap_def 1 2 sub_snap_def using assms(2) ty ne by auto
qed

lemma ucast_of_nat_u16: "(ucast (word_of_nat n :: u32) :: u16) = word_of_nat n"
  by (rule bit_word_eqI) (auto simp: bit_simps)

lemma sint_of_nat_u32: "n < 2 ^ 31 \<Longrightarrow> sint (word_of_nat n :: u32) = int n"
  by (simp add: signed_of_nat signed_take_bit_int_eq_self)

lemma wri_at: "length b = length xs \<Longrightarrow> n = int (length a) \<Longrightarrow> wri (a @ b @ c) n xs = Some (a @ xs @ c)"
  by (simp add: wri_nat wrn_middle)

text \<open>The frame without its ICV.\<close>

lemma strip_icv:
  assumes "holds f pre (h @ d @ icv) post"
    and "length icv = (if at_encrypt (fr_attrib f) \<noteq> 0 then unat (at_icv_len (fr_attrib f)) else 0)"
  defines "g \<equiv> if at_encrypt (fr_attrib f) \<noteq> 0 then snd (recvframe_pull_tail f (uint (at_icv_len (fr_attrib f)))) else f"
  shows "holds g pre (h @ d) (icv @ post)" "fr_attrib g = fr_attrib f"
proof -
  have "uint (at_icv_len (fr_attrib f)) = int (length icv)" if "at_encrypt (fr_attrib f) \<noteq> 0"
    using assms(2) that by simp
  moreover have "holds f pre (h @ d) (icv @ post)" if "icv = []" using assms(1) that by simp
  ultimately show "holds g pre (h @ d) (icv @ post)" "fr_attrib g = fr_attrib f"
    using pull_tail_holds [of f pre "h @ d" icv post] assms(1,2) by (auto simp: g_def)
qed

lemma eth_header_written:
  assumes f: "holds f pre (h @ d) post" and a: "fr_attrib f = a"
    and h: "14 \<le> length h" and d: "8 \<le> length d" and l: "length (at_dst a) = 6" "length (at_src a) = 6"
    and s: "s = sub_snap d"
  defines "rmv \<equiv> int (length h) + (if s then int SNAP_SIZE else 0)"
  shows "\<exists>q. recvframe_pull f (rmv - int ETH_HLEN + (if s then 2 else 0)) = (Some (fr_data q), q) \<and> fr_mem q = fr_mem f
    \<and> (\<exists>m m'. wri (fr_mem q) (fr_data q) (at_dst a) = Some m \<and> wri m (fr_data q + 6) (at_src a) = Some m' \<and>
        (\<exists>m2. (if s then Some m' else wri m' (fr_data q + 12) (be16 (of_nat (length d)))) = Some m2
          \<and> (\<exists>pre'. holds (q\<lparr>fr_mem := m2\<rparr>) pre' (at_dst a @ at_src a @ decap d) post)))"
proof -
  define k where "k = (if s then length h - 6 else length h - 14)"
  define h1 h2 where "h1 = take k h" and "h2 = drop k h"
  have hh: "h = h1 @ h2" "length h1 = k" "length h2 = (if s then 6 else 14)"
    using h by (auto simp: h1_def h2_def k_def)
  have sz: "rmv - int ETH_HLEN + (if s then 2 else 0) = int (length h1)"
    using h by (auto simp: rmv_def ETH_HLEN_def SNAP_SIZE_def hh(2) k_def)
  define q where "q = snd (recvframe_pull f (int (length h1)))"
  have f': "holds f pre (h1 @ (h2 @ d)) post" using f hh(1) by simp
  have q: "recvframe_pull f (int (length h1)) = (Some (int (length pre + length h1)), q)"
    "holds q (pre @ h1) (h2 @ d) post" "fr_mem q = fr_mem f"
    using pull_holds [OF f'] by (simp_all add: q_def)
  have qd: "fr_data q = int (length (pre @ h1))" and qm: "fr_mem q = (pre @ h1) @ h2 @ d @ post"
    using q(2) by (simp_all add: holds_def)
  have fin: "holds (q\<lparr>fr_mem := (pre @ h1) @ x @ post\<rparr>) (pre @ h1) x post"
    if "length x = length (h2 @ d)" for x
    using q(2) that by (auto simp: holds_def)
  show ?thesis
  proof (cases s)
    case True
    define d1 d2 where "d1 = take 6 d" and "d2 = drop 6 d"
    have dd: "d = d1 @ d2" "length d1 = 6" using d by (simp_all add: d1_def d2_def)
    have w1: "wri (fr_mem q) (fr_data q) (at_dst a) = Some ((pre @ h1) @ at_dst a @ (d1 @ d2 @ post))"
      unfolding qm qd dd(1) using l hh(3) True wri_at [of h2 "at_dst a" _ "pre @ h1" "d1 @ d2 @ post"] by simp
    have w2: "wri ((pre @ h1) @ at_dst a @ (d1 @ d2 @ post)) (fr_data q + 6) (at_src a) = Some ((pre @ h1) @ (at_dst a @ at_src a @ d2) @ post)"
      unfolding qd using l dd wri_at [of d1 "at_src a" _ "pre @ h1 @ at_dst a" "d2 @ post"] by (simp add: add.assoc)
    have "decap d = d2" using s True by (simp add: decap_def d2_def SNAP_SIZE_def)
    then have "holds (q\<lparr>fr_mem := (pre @ h1) @ (at_dst a @ at_src a @ d2) @ post\<rparr>) (pre @ h1) (at_dst a @ at_src a @ decap d) post"
      using fin [of "at_dst a @ at_src a @ d2"] l dd hh(3) True by simp
    then show ?thesis
      unfolding sz q(1) using w1 w2 q(3) qd True by auto
  next
    case False
    define b1 b2 b3 where "b1 = take 6 h2" and "b2 = take 6 (drop 6 h2)" and "b3 = drop 12 h2"
    have bb: "h2 = b1 @ b2 @ b3" "length b1 = 6" "length b2 = 6" "length b3 = 2"
      using hh(3) False append_take_drop_id [of 6 "drop 6 h2"] append_take_drop_id [of 6 h2]
      by (simp_all add: b1_def b2_def b3_def)
    define L where "L = be16 (of_nat (length d))"
    have w1: "wri (fr_mem q) (fr_data q) (at_dst a) = Some ((pre @ h1) @ at_dst a @ (b2 @ b3 @ d @ post))"
      unfolding qm qd bb(1) using l bb wri_at [of b1 "at_dst a" _ "pre @ h1" "b2 @ b3 @ d @ post"] by simp
    have w2: "wri ((pre @ h1) @ at_dst a @ (b2 @ b3 @ d @ post)) (fr_data q + 6) (at_src a) = Some ((pre @ h1 @ at_dst a) @ at_src a @ (b3 @ d @ post))"
      unfolding qd using l bb wri_at [of b2 "at_src a" _ "pre @ h1 @ at_dst a" "b3 @ d @ post"] by (simp add: add.assoc)
    have w3: "wri ((pre @ h1 @ at_dst a) @ at_src a @ (b3 @ d @ post)) (fr_data q + 12) L = Some ((pre @ h1) @ (at_dst a @ at_src a @ L @ d) @ post)"
      unfolding qd L_def using l bb wri_at [of b3 "be16 (of_nat (length d))" _ "pre @ h1 @ at_dst a @ at_src a" "d @ post"] by (simp add: add.assoc)
    have "decap d = L @ d" using s False by (simp add: decap_def L_def)
    then have "holds (q\<lparr>fr_mem := (pre @ h1) @ (at_dst a @ at_src a @ L @ d) @ post\<rparr>) (pre @ h1) (at_dst a @ at_src a @ decap d) post"
      using fin [of "at_dst a @ at_src a @ L @ d"] l hh(3) False by (simp add: L_def)
    then show ?thesis
      unfolding sz q(1) using w1 w2 w3 q(3) qd False by (auto simp: L_def)
  qed
qed

lemma eth_conversion:
  assumes "holds f pre (h @ d @ icv) post"
    and "length h = unat (at_hdrlen (fr_attrib f)) + unat (at_iv_len (fr_attrib f))"
    and "length icv = (if at_encrypt (fr_attrib f) \<noteq> 0 then unat (at_icv_len (fr_attrib f)) else 0)"
    and "14 \<le> length h" "8 \<le> length d"
    and "length (at_dst (fr_attrib f)) = 6" "length (at_src (fr_attrib f)) = 6"
  shows "\<exists>g. wlanhdr_to_ethhdr False f = Some (True, g) \<and> frame_wf g
    \<and> contents g = at_dst (fr_attrib f) @ at_src (fr_attrib f) @ decap d"
proof -
  let ?a = "fr_attrib f" and ?s = "sub_snap d"
  define g where "g = (if at_encrypt ?a \<noteq> 0 then snd (recvframe_pull_tail f (uint (at_icv_len ?a))) else f)"
  have g: "holds g pre (h @ d) (icv @ post)" "fr_attrib g = ?a"
    using strip_icv [OF assms(1,3)] by (simp_all add: g_def)
  have hl: "uint (at_hdrlen ?a) + uint (at_iv_len ?a) = int (length h)" using assms(2) by simp
  have fd: "fr_data f = int (length pre)" using assms(1) by (simp add: holds_def)
  have gm: "fr_mem g = (pre @ h) @ d @ (icv @ post)" and gl: "fr_len g = of_nat (length h + length d)"
    using g(1) by (simp_all add: holds_def)
  have sn: "eth_snap (fr_mem g) (int (length pre) + int (length h)) = Some ?s"
    using eth_snap_decides [OF gm assms(5)] by simp
  define rmv where "rmv = int (length h) + (if ?s then int SNAP_SIZE else 0)"
  have "int (length pre) + rmv = int (length (pre @ h) + (if ?s then 6 else 0))" by (simp add: rmv_def SNAP_SIZE_def)
  then obtain et where et: "rdi (fr_mem g) (int (length pre) + rmv) 2 = Some et"
    using assms(5) by (cases ?s) (auto simp: rdi_nat rdn_def gm simp del: of_nat_add)
  define g' where "g' = g\<lparr>fr_attrib := ?a\<lparr>at_eth_type := RTW_GET_BE16 et\<rparr>\<rparr>"
  have g': "holds g' pre (h @ d) (icv @ post)" "fr_attrib g' = ?a\<lparr>at_eth_type := RTW_GET_BE16 et\<rparr>" "fr_mem g' = fr_mem g"
    using g(1) by (simp_all add: g'_def)
  have len: "(ucast (fr_len g - of_nat (length h)) :: u16) = of_nat (length d)"
    by (simp add: gl ucast_of_nat_u16)
  obtain q m m' m2 pre' where q: "recvframe_pull g' (rmv - int ETH_HLEN + (if ?s then 2 else 0)) = (Some (fr_data q), q)"
    and w: "wri (fr_mem q) (fr_data q) (at_dst ?a) = Some m" "wri m (fr_data q + 6) (at_src ?a) = Some m'"
      "(if ?s then Some m' else wri m' (fr_data q + 12) (be16 (of_nat (length d)))) = Some m2"
    and r: "holds (q\<lparr>fr_mem := m2\<rparr>) pre' (at_dst ?a @ at_src ?a @ decap d) (icv @ post)"
    using eth_header_written [OF g'(1,2) assms(4,5) _ _ refl] assms(6,7) unfolding rmv_def by auto
  have "wlanhdr_to_ethhdr False f = Some (True, q\<lparr>fr_mem := m2\<rparr>)"
    unfolding wlanhdr_to_ethhdr_def Let_def g_def [symmetric] fd hl
    using sn et q w len by (simp add: rmv_def [symmetric] g'_def [symmetric] split: if_splits)
  then show ?thesis using holds_wf [OF r] holds_contents [OF r] by blast
qed

text \<open>C25. A received data frame of header, IV, payload and (when it is encrypted) ICV becomes an
  Ethernet frame of its destination, its source, and the payload: without its SNAP header when
  that is an RFC 1042 or bridge-tunnel one, after a length field otherwise. No load or store
  leaves the frame's buffer and the pointers stay consistent.\<close>

theorem wlanhdr_to_ethhdr_converts:
  assumes "holds f pre (h @ d @ icv) post"
    and "length h = unat (at_hdrlen (fr_attrib f)) + unat (at_iv_len (fr_attrib f))"
    and "length icv = (if at_encrypt (fr_attrib f) \<noteq> 0 then unat (at_icv_len (fr_attrib f)) else 0)"
    and "14 \<le> length h" "8 \<le> length d"
    and "length (at_dst (fr_attrib f)) = 6" "length (at_src (fr_attrib f)) = 6"
  shows "\<exists>g. wlanhdr_to_ethhdr False f = Some (True, g) \<and> frame_wf g
    \<and> contents g = at_dst (fr_attrib f) @ at_src (fr_attrib f) @ decap d"
  using assms by (rule eth_conversion)

section \<open>Reassembly\<close>

text \<open>
  A fragment with number \<open>k\<close> and its parts: header with IV, body, ICV. The offset of the body is
  kept in one byte by the code.
\<close>

definition fragment :: "nat \<Rightarrow> rxframe \<Rightarrow> bytes \<Rightarrow> bytes \<Rightarrow> bytes \<Rightarrow> bool" where
  "fragment k f h b t \<longleftrightarrow> frame_wf f \<and> contents f = h @ b @ t \<and> unat (at_frag_num (fr_attrib f)) = k
     \<and> length h = unat (at_hdrlen (fr_attrib f)) + unat (at_iv_len (fr_attrib f)) \<and> length h < 256
     \<and> length t = unat (at_icv_len (fr_attrib f))"

fun fragments :: "nat \<Rightarrow> rxframe list \<Rightarrow> (bytes \<times> bytes \<times> bytes) list \<Rightarrow> bool" where
  "fragments k [] [] \<longleftrightarrow> True"
| "fragments k (f # fs) ((h, b, t) # ps) \<longleftrightarrow> fragment k f h b t \<and> fragments (k + 1) fs ps"
| "fragments k _ _ \<longleftrightarrow> False"

abbreviation body_of :: "bytes \<times> bytes \<times> bytes \<Rightarrow> bytes" where "body_of x \<equiv> fst (snd x)"
abbreviation icv_of :: "bytes \<times> bytes \<times> bytes \<Rightarrow> bytes" where "icv_of x \<equiv> snd (snd x)"

lemma frag_counter: "k < 255 \<Longrightarrow> (of_nat k + 1 :: u8) = of_nat (k + 1)"
  by simp

lemma holds_small: "holds f pre p post \<Longrightarrow> length p < 2 ^ 31"
  by (auto simp: holds_def)

lemma fragment_src:
  assumes n: "fragment k n h b t'"
  defines "n1 \<equiv> snd (recvframe_pull n (uint (at_hdrlen (fr_attrib n) + at_iv_len (fr_attrib n))))"
  shows "rdi (fr_mem n1) (fr_data n1) (unat (fr_len n1)) = Some (b @ t')"
    "sint (fr_len n1) = int (length (b @ t'))" "of_nat k = at_frag_num (fr_attrib n)"
proof -
  have "frame_wf n" using n by (simp add: fragment_def)
  then obtain npre npost where "holds n npre (contents n) npost" by (rule wf_holds)
  then have hn: "holds n npre (h @ (b @ t')) npost" using n by (simp add: fragment_def)
  have "uint (at_hdrlen (fr_attrib n) + at_iv_len (fr_attrib n)) = int (length h)"
    using n by (simp add: fragment_def uint_nat unat_add_small del: of_nat_unat)
  then have n1: "holds n1 (npre @ h) (b @ t') npost" using pull_holds(2) [OF hn] by (simp add: n1_def)
  show "rdi (fr_mem n1) (fr_data n1) (unat (fr_len n1)) = Some (b @ t')"
    "sint (fr_len n1) = int (length (b @ t'))"
    using n1 holds_small [OF n1] rdi_holds [of "npre @ h" "b @ t'" npost]
    by (simp_all add: holds_def unat_of_nat sint_of_nat_u32 flip: of_nat_add)
  show "of_nat k = at_frag_num (fr_attrib n)" using n by (auto simp: fragment_def)
qed

lemma defrag_strip:
  assumes p: "holds p pre (x @ t) post" and tl: "length t = unat (at_icv_len (fr_attrib p))"
  defines "p1 \<equiv> snd (recvframe_pull_tail p (uint (at_icv_len (fr_attrib p))))"
  shows "holds p1 pre x (t @ post)" "fr_attrib p1 = fr_attrib p" "fr_mem p1 = pre @ x @ t @ post"
    "fr_tail p1 = int (length (pre @ x))"
proof -
  have "uint (at_icv_len (fr_attrib p)) = int (length t)" using tl by simp
  then show 1: "holds p1 pre x (t @ post)" and "fr_attrib p1 = fr_attrib p"
    using pull_tail_holds [OF p] by (simp_all add: p1_def)
  show "fr_mem p1 = pre @ x @ t @ post" "fr_tail p1 = int (length (pre @ x))"
    using 1 by (simp_all add: holds_def)
qed

lemma defrag_step:
  assumes p: "holds p pre (x @ t) post" and tl: "length t = unat (at_icv_len (fr_attrib p))"
    and n: "fragment k n h b t'" and room: "length pre + length x + length (b @ t') \<le> length (fr_mem p)"
  obtains p' r where "holds p' pre (x @ b @ t') r" "at_icv_len (fr_attrib p') = at_icv_len (fr_attrib n)"
    "length (fr_mem p') = length (fr_mem p)"
    "defrag_loop p (of_nat k) (n # q) = defrag_loop p' (of_nat k + 1) q"
proof -
  define p1 where "p1 = snd (recvframe_pull_tail p (uint (at_icv_len (fr_attrib p))))"
  note p1 = defrag_strip [OF p tl, folded p1_def]
  have lm: "length (fr_mem p) = length (pre @ x @ t @ post)" using p by (simp add: holds_def)
  define r1 r2 where "r1 = take (length (b @ t')) (t @ post)" and "r2 = drop (length (b @ t')) (t @ post)"
  have "length (b @ t') \<le> length (t @ post)" using room lm by simp
  then have r: "t @ post = r1 @ r2" "length r1 = length (b @ t')"
    unfolding r1_def r2_def by (simp_all only: append_take_drop_id length_take min_absorb2)
  have w: "wri (fr_mem p1) (fr_tail p1) (b @ t') = Some (pre @ x @ (b @ t') @ r2)"
    unfolding p1(3,4) r(1) using wri_at [OF r(2) refl, of "pre @ x" r2] by simp
  define p2 where "p2 = snd (recvframe_put (p1\<lparr>fr_mem := pre @ x @ (b @ t') @ r2\<rparr>) (int (length (b @ t'))))"
  have l2: "length (pre @ x @ (b @ t') @ r2) = length (fr_mem p)"
    unfolding lm r(1) using r(2) by simp
  have h2: "holds (p1\<lparr>fr_mem := pre @ x @ (b @ t') @ r2\<rparr>) pre x ((b @ t') @ r2)"
    using p1(1) l2 lm by (auto simp: holds_def)
  have p2: "holds p2 pre (x @ b @ t') r2" "fr_attrib p2 = fr_attrib p" "fr_mem p2 = pre @ x @ (b @ t') @ r2"
    using put_holds [OF h2] p1(2) by (simp_all add: p2_def recvframe_put_def)
  define p3 where "p3 = p2\<lparr>fr_attrib := (fr_attrib p2)\<lparr>at_icv_len := at_icv_len (fr_attrib n)\<rparr>\<rparr>"
  have "defrag_loop p (of_nat k) (n # q) = defrag_loop p3 (of_nat k + 1) q"
    unfolding defrag_loop.simps Let_def p1_def [symmetric] fragment_src [OF n] p3_def p2_def using w by simp
  then show thesis using that [of p3 r2] p2 l2 by (simp add: p3_def)
qed

text \<open>The copy of a fragment that does not fit leaves the buffer: its length is not compared with the room.\<close>

lemma defrag_overflow:
  assumes p: "holds p pre (x @ t) post" and tl: "length t = unat (at_icv_len (fr_attrib p))"
    and n: "fragment k n h b t'" and room: "length pre + length x + length (b @ t') > length (fr_mem p)"
  shows "defrag_loop p (of_nat k) (n # q) = None"
proof -
  note p1 = defrag_strip [OF p tl]
  have lm: "length (fr_mem p) = length (pre @ x @ t @ post)" using p by (simp add: holds_def)
  have "wri (pre @ x @ t @ post) (int (length (pre @ x))) (b @ t') = None"
    unfolding wri_nat using room lm by (simp add: wrn_def)
  then show ?thesis unfolding defrag_loop.simps Let_def fragment_src [OF n] p1(3,4) by simp
qed

lemma defrag_loop_joins:
  assumes "holds p pre (x @ t) post" "length t = unat (at_icv_len (fr_attrib p))"
    and "fragments k q ps" "k + length q < 256"
    and "length pre + length x + length (concat (map (\<lambda>y. body_of y @ icv_of y) ps)) \<le> length (fr_mem p)"
  shows "\<exists>p'. defrag_loop p (of_nat k) q = Some (Some p') \<and> frame_wf p'
    \<and> contents p' = x @ concat (map body_of ps) @ last (t # map icv_of ps)"
  using assms
proof (induction k q ps arbitrary: p x t post rule: fragments.induct)
  case (1 k)
  then show ?case using holds_wf holds_contents by fastforce
next
  case (2 k n q h b t' ps)
  obtain p' r where p': "holds p' pre (x @ b @ t') r" "at_icv_len (fr_attrib p') = at_icv_len (fr_attrib n)"
    "length (fr_mem p') = length (fr_mem p)" "defrag_loop p (of_nat k) (n # q) = defrag_loop p' (of_nat k + 1) q"
    using defrag_step [OF "2.prems"(1,2), of k n h b t' q] "2.prems"(3,5) by auto
  have "\<exists>p2. defrag_loop p' (of_nat (k + 1)) q = Some (Some p2) \<and> frame_wf p2
    \<and> contents p2 = (x @ b) @ concat (map body_of ps) @ last (t' # map icv_of ps)"
    by (rule "2.IH" [of p' "x @ b" t' r]) (use "2.prems" p' in \<open>auto simp: fragment_def\<close>)
  then obtain p2 where p2: "defrag_loop p' (of_nat (k + 1)) q = Some (Some p2)" "frame_wf p2"
    "contents p2 = (x @ b) @ concat (map body_of ps) @ last (t' # map icv_of ps)" by blast
  have eq: "(of_nat k + 1 :: u8) = of_nat (k + 1)" by simp
  have "defrag_loop p (of_nat k) (n # q) = Some (Some p2)" unfolding p'(4) eq by (rule p2(1))
  then show ?case using p2(2,3) by auto
qed simp_all

text \<open>C26. Fragments numbered from 0 in order are joined into the first frame: its header, the
  bodies of all fragments in order, and the ICV of the last one, provided that they fit into
  the buffer of the first frame. The other frames go back into the free queue.\<close>

theorem defrag_joins:
  assumes "fragments 0 (p # q) ((h, b, t) # ps)" "length q < 255"
    and "nat (fr_data p) + length (h @ b) + length (concat (map (\<lambda>y. body_of y @ icv_of y) ps)) \<le> length (fr_mem p)"
  shows "\<exists>g. recvframe_defrag (p # q) = Some (Some g, q) \<and> frame_wf g
    \<and> contents g = h @ b @ concat (map body_of ps) @ last (t # map icv_of ps)"
proof -
  have f: "fragment 0 p h b t" and fs: "fragments 1 q ps" using assms(1) by simp_all
  then have "frame_wf p" by (simp add: fragment_def)
  then obtain pre post where "holds p pre (contents p) post" by (rule wf_holds)
  then have p: "holds p pre ((h @ b) @ t) post" using f by (simp add: fragment_def)
  have d: "nat (fr_data p) = length pre" using p by (simp add: holds_def)
  have "\<exists>g. defrag_loop p (of_nat 1) q = Some (Some g) \<and> frame_wf g
    \<and> contents g = (h @ b) @ concat (map body_of ps) @ last (t # map icv_of ps)"
    using f assms(2,3) d by (intro defrag_loop_joins [OF p _ fs]) (auto simp: fragment_def)
  moreover have "at_frag_num (fr_attrib p) = 0" using f by (simp add: fragment_def unat_eq_zero)
  ultimately show ?thesis by (auto simp: recvframe_defrag_def)
qed

text \<open>A fragment out of order: nothing is assembled and every frame goes back.\<close>

lemma defrag_loop_rejects:
  "defrag_loop p k q = Some None \<Longrightarrow> \<exists>i < length q. at_frag_num (fr_attrib (q ! i)) \<noteq> k + of_nat i"
proof (induction q arbitrary: p k)
  case (Cons n q)
  show ?case
  proof (cases "k = at_frag_num (fr_attrib n)")
    case True
    then obtain p' where "defrag_loop p' (k + 1) q = Some None"
      using Cons.prems by (auto simp: Let_def split: bind_splits)
    from Cons.IH [OF this] obtain i where "i < length q" "at_frag_num (fr_attrib (q ! i)) \<noteq> k + 1 + of_nat i"
      by blast
    then show ?thesis by (intro exI [of _ "Suc i"]) (simp add: algebra_simps)
  next
    case False
    then show ?thesis by (intro exI [of _ 0]) simp
  qed
qed simp

section \<open>A-MSDUs\<close>

text \<open>
  An A-MSDU as the standard lays it out: subframes of two addresses, a length, an MSDU and padding
  to a multiple of four bytes, which the last subframe may lack. The trailer (an ICV) is shorter
  than a subframe header.
\<close>

type_synonym subframe = "bytes \<times> bytes \<times> bytes \<times> bytes"

definition pad4 :: "nat \<Rightarrow> nat" where
  "pad4 n = (4 - n mod 4) mod 4"

fun sub_enc :: "subframe \<Rightarrow> bytes" where
  "sub_enc (da, sa, d, pad) = da @ sa @ be16 (of_nat (length d)) @ d @ pad"

fun amsdu_wf :: "subframe list \<Rightarrow> bytes \<Rightarrow> bool" where
  "amsdu_wf [] t \<longleftrightarrow> length t \<le> ETH_HLEN"
| "amsdu_wf ((da, sa, d, pad) # ss) t \<longleftrightarrow> length da = 6 \<and> length sa = 6 \<and> 8 \<le> length d \<and> length d < 65536
     \<and> (length pad = pad4 (length d + ETH_HLEN) \<or> pad = [] \<and> ss = [] \<and> t = []) \<and> amsdu_wf ss t"

fun subs_at :: "(nat \<Rightarrow> skb_result) \<Rightarrow> nat \<Rightarrow> nat \<Rightarrow> subframe list \<Rightarrow> sub_skb list" where
  "subs_at skb k pos [] = []"
| "subs_at skb k pos ((da, sa, d, pad) # ss) =
     (if skb k = SkbAlloc then Copied d else Cloned (int (pos + 14)) (length d))
       # subs_at skb (k + 1) (pos + length (sub_enc (da, sa, d, pad))) ss"

abbreviation amsdu_enc :: "subframe list \<Rightarrow> bytes" where "amsdu_enc ss \<equiv> concat (map sub_enc ss)"

lemma pad4_alt: "(if 4 - n mod 4 = 4 then 0 else 4 - n mod 4) = pad4 n"
proof -
  have "n mod 4 < 4" by simp
  then consider "n mod 4 = 0" | "n mod 4 = 1" | "n mod 4 = 2" | "n mod 4 = 3" by linarith
  then show ?thesis by cases (simp_all add: pad4_def)
qed

lemma amsdu_split_end: "a_len \<le> int ETH_HLEN \<Longrightarrow> amsdu_split skb mem pdata a_len subs = Some (False, subs)"
  by (subst amsdu_split.simps) simp

lemma rdi_at: "k = int (length a) \<Longrightarrow> n = length b \<Longrightarrow> rdi (a @ b @ c) k n = Some b"
  using rdi_holds [of a b c] by simp

lemma amsdu_split_all:
  assumes "amsdu_wf ss t" "mem = pre @ amsdu_enc ss @ t @ post" "\<forall>i. skb i \<noteq> SkbNone"
    and "length subs + length ss \<le> MAX_SUBFRAME_COUNT"
  shows "amsdu_split skb mem (int (length pre)) (int (length (amsdu_enc ss @ t))) subs
    = Some (False, subs @ subs_at skb (length subs) (length pre) ss)"
  using assms
proof (induction ss t arbitrary: pre subs rule: amsdu_wf.induct)
  case (1 t)
  then show ?case by (simp add: amsdu_split_end)
next
  case (2 da sa d pad ss t)
  let ?L = "be16 (of_nat (length d))" and ?x = "(da, sa, d, pad)"
  let ?rest = "amsdu_enc ss @ t @ post"
  have w: "length da = 6" "length sa = 6" "8 \<le> length d" "length d < 65536" "amsdu_wf ss t"
    using "2.prems"(1) by simp_all
  have m: "mem = (pre @ da @ sa) @ ?L @ (d @ pad @ ?rest)" using "2.prems"(2) by simp
  have m2: "mem = (pre @ da @ sa @ ?L) @ d @ (pad @ ?rest)" using "2.prems"(2) by simp
  have r1: "rdi mem (int (length pre) + 12) 2 = Some ?L"
    unfolding m using w by (intro rdi_at) simp_all
  have r2: "rdi mem (int (length pre) + 14) (length d) = Some d"
    unfolding m2 using w by (intro rdi_at) simp_all
  have n: "unat (of_nat (length d) :: u16) = length d" "uint (of_nat (length d) :: u16) = int (length d)"
    using w(4) by (simp_all add: unat_of_nat uint_nat del: of_nat_unat)
  have al: "int (length (amsdu_enc (?x # ss) @ t)) = 14 + int (length d) + int (length pad) + int (length (amsdu_enc ss @ t))"
    using w by simp
  define s where "s = (if skb (length subs) = SkbAlloc then Copied d else Cloned (int (length pre + 14)) (length d))"
  have sk: "(case skb (length subs) of
       SkbAlloc \<Rightarrow> (case rdi mem (int (length pre) + 14) (length d) of None \<Rightarrow> None | Some d \<Rightarrow> Some (Some (Copied d)))
     | SkbClone \<Rightarrow> Some (Some (Cloned (int (length pre) + 14) (length d))) | SkbNone \<Rightarrow> Some None) = Some (Some s)"
    using "2.prems"(3) r2 by (cases "skb (length subs)") (auto simp: s_def)
  have rest: "amsdu_split skb mem (int (length (pre @ sub_enc ?x))) (int (length (amsdu_enc ss @ t))) (subs @ [s])
      = Some (False, (subs @ [s]) @ subs_at skb (length (subs @ [s])) (length (pre @ sub_enc ?x)) ss)"
    by (rule "2.IH") (use "2.prems" w in simp_all)
  have pos: "int (length (pre @ sub_enc ?x)) = int (length pre) + 14 + int (length d) + int (length pad)"
    using w by simp
  have goal: "subs @ subs_at skb (length subs) (length pre) (?x # ss) =
      (subs @ [s]) @ subs_at skb (length (subs @ [s])) (length (pre @ sub_enc ?x)) ss"
    using w by (simp add: s_def)
  have p4: "length pad = pad4 (length d + 14)" if "int (length pad) + int (length (amsdu_enc ss @ t)) \<noteq> 0"
    using "2.prems"(1) that by (auto simp: ETH_HLEN_def)
  show ?case
  proof (cases "length (subs @ [s]) \<ge> MAX_SUBFRAME_COUNT")
    case True
    then have "ss = []" using "2.prems"(4) by (cases ss) simp_all
    then show ?thesis
      using True w(3) unfolding goal al
      by (subst amsdu_split.simps) (simp add: r1 n sk ETH_HLEN_def Let_def)
  next
    case False
    show ?thesis
      unfolding goal rest [symmetric] pos al using False w(3) p4 pad4_alt [of "length d + 14"]
      by (subst (1) amsdu_split.simps, auto simp: r1 n sk ETH_HLEN_def Let_def algebra_simps)
        (simp add: amsdu_split_end ETH_HLEN_def)
  qed
qed

text \<open>A clone writes its header over its own subframe header and SNAP header, nothing else.\<close>

lemma sub_deliver_clone:
  assumes w: "length hdr = 14" "8 \<le> length d" and l: "length (at_dst a) = 6" "length (at_src a) = 6"
  shows "\<exists>hdr'. length hdr' = length (hdr @ d) \<and>
    sub_deliver a (pre @ hdr @ d @ post) (Cloned (int (length pre + 14)) (length d))
      = Some (at_dst a @ at_src a @ decap d, pre @ hdr' @ post)"
proof -
  let ?p = "int (length pre + 14)" and ?m = "pre @ hdr @ d @ post"
  have r1: "rdi ?m ?p (length d) = Some d"
    using rdi_at [of ?p "pre @ hdr" "length d" d post] w by simp
  have r2: "\<exists>x. rdi ?m (?p + 6) 2 = Some x"
    using w by (simp add: rdi_def rdn_def nat_add_distrib)
  show ?thesis
  proof (cases "sub_snap d")
    case True
    define d1 d2 h1 h2 where "d1 = take 6 d" and "d2 = drop 6 d" and "h1 = take 8 hdr" and "h2 = drop 8 hdr"
    have dd: "d = d1 @ d2" "length d1 = 6" "hdr = h1 @ h2" "length h1 = 8" "length h2 = 6"
      using w by (simp_all add: d1_def d2_def h1_def h2_def)
    have w1: "wri ?m ?p (at_src a) = Some ((pre @ h1 @ h2) @ at_src a @ (d2 @ post))"
      using wri_at [of d1 "at_src a" ?p "pre @ h1 @ h2" "d2 @ post"] dd l by simp
    have w2: "wri ((pre @ h1 @ h2) @ at_src a @ (d2 @ post)) (?p - 6) (at_dst a)
        = Some ((pre @ h1) @ at_dst a @ (at_src a @ d2 @ post))"
      using wri_at [of h2 "at_dst a" "?p - 6" "pre @ h1" "at_src a @ d2 @ post"] dd l by simp
    have o: "rdi ((pre @ h1) @ at_dst a @ (at_src a @ d2 @ post)) (?p - 6) (length d - SNAP_SIZE + 12)
        = Some (at_dst a @ at_src a @ d2)"
      using rdi_at [of "?p - 6" "pre @ h1" "length d - SNAP_SIZE + 12" "at_dst a @ at_src a @ d2" post] dd l
      by (simp add: SNAP_SIZE_def)
    have "decap d = d2" using True by (simp add: decap_def d2_def SNAP_SIZE_def)
    then show ?thesis
      using r1 r2 w1 w2 o True dd l by (intro exI [of _ "h1 @ at_dst a @ at_src a @ d2"]) (auto simp: sub_deliver_def)
  next
    case False
    define b1 b2 b3 where "b1 = take 6 hdr" and "b2 = take 6 (drop 6 hdr)" and "b3 = drop 12 hdr"
    have bb: "hdr = b1 @ b2 @ b3" "length b1 = 6" "length b2 = 6" "length b3 = 2"
      using w append_take_drop_id [of 6 "drop 6 hdr"] append_take_drop_id [of 6 hdr]
      by (simp_all add: b1_def b2_def b3_def)
    define L where "L = be16 (of_nat (length d))"
    have w1: "wri ?m (?p - 2) L = Some ((pre @ b1 @ b2) @ L @ (d @ post))"
      using wri_at [of b3 L "?p - 2" "pre @ b1 @ b2" "d @ post"] bb by (simp add: L_def)
    have w2: "wri ((pre @ b1 @ b2) @ L @ (d @ post)) (?p - 8) (at_src a) = Some ((pre @ b1) @ at_src a @ (L @ d @ post))"
      using wri_at [of b2 "at_src a" "?p - 8" "pre @ b1" "L @ d @ post"] bb l by simp
    have w3: "wri ((pre @ b1) @ at_src a @ (L @ d @ post)) (?p - 14) (at_dst a) = Some (pre @ at_dst a @ (at_src a @ L @ d @ post))"
      using wri_at [of b1 "at_dst a" "?p - 14" pre "at_src a @ L @ d @ post"] bb l by simp
    have o: "rdi (pre @ at_dst a @ (at_src a @ L @ d @ post)) (?p - 14) (length d + 14) = Some (at_dst a @ at_src a @ L @ d)"
      using rdi_at [of "?p - 14" pre "length d + 14" "at_dst a @ at_src a @ L @ d" post] l by (simp add: L_def)
    have "decap d = L @ d" using False by (simp add: decap_def L_def)
    then show ?thesis
      using r1 r2 w1 w2 w3 o False w l
      by (intro exI [of _ "at_dst a @ at_src a @ L @ d"]) (auto simp: sub_deliver_def L_def)
  qed
qed

lemma amsdu_deliver_all:
  assumes "amsdu_wf ss t" "mem = pre @ amsdu_enc ss @ t @ post" "length (at_dst a) = 6" "length (at_src a) = 6"
  shows "amsdu_deliver a mem (subs_at skb k (length pre) ss)
    = Some (map (\<lambda>(da, sa, d, pad). at_dst a @ at_src a @ decap d) ss)"
  using assms
proof (induction ss t arbitrary: pre k mem rule: amsdu_wf.induct)
  case (2 da sa d pad ss t)
  let ?x = "(da, sa, d, pad)" and ?hdr = "da @ sa @ be16 (of_nat (length d))"
  have w: "length ?hdr = 14" "8 \<le> length d" using "2.prems"(1) by simp_all
  have IH: "amsdu_deliver a mem' (subs_at skb (k + 1) (length pre + length (sub_enc ?x)) ss)
      = Some (map (\<lambda>(da, sa, d, pad). at_dst a @ at_src a @ decap d) ss)"
    if "mem' = pre' @ amsdu_enc ss @ t @ post" "length pre' = length pre + length (sub_enc ?x)" for mem' pre'
    unfolding that(2) [symmetric] by (rule "2.IH") (use "2.prems" that(1) in simp_all)
  have m: "mem = pre @ ?hdr @ d @ (pad @ amsdu_enc ss @ t @ post)" using "2.prems"(2) by simp
  show ?case
  proof (cases "skb k = SkbAlloc")
    case True
    have "mem = (pre @ sub_enc ?x) @ amsdu_enc ss @ t @ post" using "2.prems"(2) by simp
    from IH [OF this] show ?thesis using True by (simp add: sub_deliver_def decap_def)
  next
    case False
    obtain hdr' where hdr': "length hdr' = length (?hdr @ d)"
      "sub_deliver a mem (Cloned (int (length pre + 14)) (length d))
        = Some (at_dst a @ at_src a @ decap d, pre @ hdr' @ pad @ amsdu_enc ss @ t @ post)"
      using sub_deliver_clone [OF w "2.prems"(3,4), of pre "pad @ amsdu_enc ss @ t @ post"] unfolding m by blast
    have "amsdu_deliver a (pre @ hdr' @ pad @ amsdu_enc ss @ t @ post) (subs_at skb (k + 1) (length pre + length (sub_enc ?x)) ss)
      = Some (map (\<lambda>(da, sa, d, pad). at_dst a @ at_src a @ decap d) ss)"
      by (rule IH [of _ "pre @ hdr' @ pad"]) (simp_all add: hdr'(1))
    then show ?thesis using False hdr'(2) by simp
  qed
qed simp

text \<open>C27. An A-MSDU of at most 64 subframes is dissolved into one Ethernet packet per subframe, in
  order, each with the destination and source of the frame and the subframe's MSDU, whether a
  subframe got an own buffer or shares that of the frame: a clone never touches the bytes of
  another subframe. No socket buffer is lost and every access stays inside the buffer.\<close>

theorem amsdu_delivers:
  assumes "holds f pre (h @ amsdu_enc ss @ t) post" "amsdu_wf ss t" "length ss \<le> MAX_SUBFRAME_COUNT"
    and "length h = unat (at_hdrlen (fr_attrib f)) + unat (at_iv_len (fr_attrib f))"
    and "length (at_dst (fr_attrib f)) = 6" "length (at_src (fr_attrib f)) = 6" "\<forall>i. skb i \<noteq> SkbNone"
  shows "\<exists>g. amsdu_to_msdu skb f
    = Some (map (\<lambda>(da, sa, d, pad). at_dst (fr_attrib f) @ at_src (fr_attrib f) @ decap d) ss, [], g)"
proof -
  let ?a = "fr_attrib f"
  define h1 h2 where "h1 = take (unat (at_hdrlen ?a)) h" and "h2 = drop (unat (at_hdrlen ?a)) h"
  have hh: "h = h1 @ h2" "uint (at_hdrlen ?a) = int (length h1)" "uint (at_iv_len ?a) = int (length h2)"
    using assms(4) by (simp_all add: h1_def h2_def)
  define f1 where "f1 = snd (recvframe_pull f (uint (at_hdrlen ?a)))"
  have f1: "holds f1 (pre @ h1) (h2 @ amsdu_enc ss @ t) post"
    using pull_holds(2) [of f pre h1 "h2 @ amsdu_enc ss @ t" post] assms(1) hh by (simp add: f1_def)
  define f2 where "f2 = (if at_iv_len ?a > 0 then snd (recvframe_pull f1 (uint (at_iv_len ?a))) else f1)"
  have "h2 = []" if "\<not> at_iv_len ?a > 0" using that hh(3) by (simp add: word_gt_0)
  then have f2: "holds f2 (pre @ h) (amsdu_enc ss @ t) post"
    using pull_holds(2) [OF f1] f1 hh by (auto simp: f2_def)
  have m: "fr_mem f2 = (pre @ h) @ amsdu_enc ss @ t @ post" "fr_data f2 = int (length (pre @ h))"
    "sint (fr_len f2) = int (length (amsdu_enc ss @ t))"
    using f2 sint_of_nat_u32 [OF holds_small [OF f2]] by (simp_all add: holds_def del: of_nat_add)
  have "amsdu_split skb (fr_mem f2) (fr_data f2) (sint (fr_len f2)) [] = Some (False, subs_at skb 0 (length (pre @ h)) ss)"
    unfolding m(2,3) using amsdu_split_all [OF assms(2) m(1) assms(7), of "[]"] assms(3) by simp
  moreover have "amsdu_deliver ?a (fr_mem f2) (subs_at skb 0 (length (pre @ h)) ss)
      = Some (map (\<lambda>(da, sa, d, pad). at_dst ?a @ at_src ?a @ decap d) ss)"
    by (rule amsdu_deliver_all [OF assms(2) m(1) assms(5,6)])
  ultimately show ?thesis
    unfolding amsdu_to_msdu_def Let_def f1_def [symmetric] f2_def [symmetric] by simp
qed

text \<open>
  A subframe that claims more bytes than are left ends the function through its exit label: the
  socket buffers of the subframes before it are neither delivered nor freed.
\<close>

definition sample_attrib :: rx_attrib where
  "sample_attrib = \<lparr>at_hdrlen = 24, at_amsdu = 1, at_qos = 1, at_priority = 0, at_seq_num = 7, at_frag_num = 0,
     at_mfrag = 0, at_privacy = 0, at_encrypt = 0, at_iv_len = 0, at_icv_len = 0, at_eth_type = 0,
     at_dst = [1, 2, 3, 4, 5, 6], at_src = [7, 8, 9, 10, 11, 12]\<rparr>"

definition sample_sub :: subframe where
  "sample_sub = (replicate 6 1, replicate 6 2, [0xaa, 0xaa, 3, 0, 0, 0, 8, 0, 69, 0], [])"

definition sample_rx :: "bytes \<Rightarrow> rxframe" where
  "sample_rx p = \<lparr>fr_attrib = sample_attrib, fr_len = of_nat (length p), fr_mem = p @ replicate 8 0, fr_data = 0,
     fr_tail = int (length p)\<rparr>"

lemma sample_rx_holds: "length p < 1000 \<Longrightarrow> holds (sample_rx p) [] p (replicate 8 0)"
  by (simp add: holds_def sample_rx_def)

theorem amsdu_delivers_witness:
  "\<exists>g. amsdu_to_msdu (\<lambda>i. SkbClone) (sample_rx (replicate 24 0 @ amsdu_enc [sample_sub] @ []))
    = Some (map (\<lambda>(da, sa, d, pad). at_dst sample_attrib @ at_src sample_attrib @ decap d) [sample_sub], [], g)"
proof -
  have a: "fr_attrib (sample_rx p) = sample_attrib" for p by (simp add: sample_rx_def)
  have "holds (sample_rx (replicate 24 0 @ amsdu_enc [sample_sub] @ [])) [] (replicate 24 0 @ amsdu_enc [sample_sub] @ []) (replicate 8 0)"
    by (rule sample_rx_holds) (simp add: sample_sub_def)
  from amsdu_delivers [OF this, of "\<lambda>i. SkbClone"] show ?thesis
    unfolding a by (simp add: sample_attrib_def sample_sub_def MAX_SUBFRAME_COUNT_def ETH_HLEN_def)
qed

theorem wlanhdr_to_ethhdr_converts_witness:
  "\<exists>g. wlanhdr_to_ethhdr False (sample_rx (replicate 24 0 @ [0xaa, 0xaa, 3, 0, 0, 0, 8, 0, 69, 0] @ [])) = Some (True, g) \<and> frame_wf g
    \<and> contents g = at_dst sample_attrib @ at_src sample_attrib @ decap [0xaa, 0xaa, 3, 0, 0, 0, 8, 0, 69, 0]"
proof -
  have a: "fr_attrib (sample_rx p) = sample_attrib" for p by (simp add: sample_rx_def)
  show ?thesis
    using wlanhdr_to_ethhdr_converts [of "sample_rx (replicate 24 0 @ [0xaa, 0xaa, 3, 0, 0, 0, 8, 0, 69, 0] @ [])" "[]"
      "replicate 24 0" "[0xaa, 0xaa, 3, 0, 0, 0, 8, 0, 69, 0]" "[]" "replicate 8 0"]
      sample_rx_holds [of "replicate 24 0 @ [0xaa, 0xaa, 3, 0, 0, 0, 8, 0, 69, 0] @ []"]
    unfolding a by (simp add: sample_attrib_def)
qed

definition sample_frag :: "u8 \<Rightarrow> bytes \<Rightarrow> rxframe" where
  "sample_frag k p = (sample_rx p)\<lparr>fr_attrib := sample_attrib\<lparr>at_frag_num := k, at_icv_len := 1\<rparr>\<rparr>"

theorem defrag_joins_witness:
  "\<exists>g. recvframe_defrag [sample_frag 0 (replicate 24 0 @ [1, 2] @ [9]), sample_frag 1 (replicate 24 0 @ [3] @ [8])]
      = Some (Some g, [sample_frag 1 (replicate 24 0 @ [3] @ [8])]) \<and> frame_wf g
    \<and> contents g = replicate 24 0 @ [1, 2] @ [3] @ [8]"
proof -
  have "fragment k (sample_frag (of_nat k) (h @ b @ t)) h b t"
    if "length h = 24" "length t = 1" "length b < 10" "k < 256" for k h b t
    using that by (simp add: fragment_def sample_frag_def sample_rx_def sample_attrib_def frame_wf_def contents_def unat_of_nat)
  from this [of "replicate 24 0" "[9]" "[1, 2]" 0] this [of "replicate 24 0" "[8]" "[3]" 1]
  have fs: "fragments 0 [sample_frag 0 (replicate 24 0 @ [1, 2] @ [9]), sample_frag 1 (replicate 24 0 @ [3] @ [8])]
    [(replicate 24 0, [1, 2], [9]), (replicate 24 0, [3], [8])]" by simp
  show ?thesis
    using defrag_joins [OF fs] by (simp add: sample_frag_def sample_rx_def)
qed



lemma amsdu_leak:
  "\<exists>g. amsdu_to_msdu (\<lambda>i. SkbAlloc) (sample_rx (replicate 24 0 @ sub_enc sample_sub @ replicate 12 0 @ [1, 0] @ [5]))
    = Some ([], [Copied (fst (snd (snd sample_sub)))], g)"
  by (simp add: amsdu_to_msdu_def recvframe_pull_def sample_rx_def sample_attrib_def sample_sub_def amsdu_split.simps
    rdi_def rdn_def be16_def BE16_pair RTW_GET_BE16_def ETH_HLEN_def MAX_SUBFRAME_COUNT_def Let_def)

end
