(* ===== verification/Rtw_Reorder.thy ===== *)
theory Rtw_Reorder
  imports Rtw_Rx "HOL-Library.Multiset"
begin

unbundle bit_operations_syntax

text \<open>
  The reordering buffer of a block-ack agreement, of \<^verbatim>\<open>core/rtw_recv.c\<close>: the sliding window over
  the 12-bit sequence numbers, the sorted queue of early frames, the delivery of frames in
  order, and the timer that gives up on a missing frame.

  What the handlers do with frames is a list of \<open>rx_out\<close> values. The contract is a buffer over
  unbounded frame numbers; the 12-bit model refines it.
\<close>

section \<open>The handlers\<close>

definition SN_LESS :: "u16 \<Rightarrow> u16 \<Rightarrow> bool" where
  "SN_LESS a b \<longleftrightarrow> (a - b) AND 0x800 \<noteq> 0"

definition SN_EQUAL :: "u16 \<Rightarrow> u16 \<Rightarrow> bool" where
  "SN_EQUAL a b \<longleftrightarrow> a = b"

record recv_reorder_ctrl =
  ro_enable :: bool
  ro_indicate_seq :: u16
  ro_wend_b :: u16
  ro_wsize_b :: u8
  ro_pending :: "rxframe list"
  ro_timer :: bool

text \<open>
  Of the adapter: \<^verbatim>\<open>bDriverStopped\<close>, \<^verbatim>\<open>bSurpriseRemoved\<close>, the states that the handlers test, and
  the results of the socket buffer allocator.
\<close>

record rx_adapter =
  ad_bDriverStopped :: bool
  ad_bSurpriseRemoved :: bool
  ad_mp :: bool
  ad_ht_option :: bool
  ad_bAcceptAddbaReq :: bool
  ad_skb :: "rxframe \<Rightarrow> nat \<Rightarrow> skb_result"

datatype rx_out =
    Indicate rxframe
  | Msdus rxframe "bytes list" "sub_skb list"
  | Lost rxframe

abbreviation frame_seq :: "rxframe \<Rightarrow> u16" where "frame_seq f \<equiv> at_seq_num (fr_attrib f)"

definition check_indicate_seq :: "recv_reorder_ctrl \<Rightarrow> u16 \<Rightarrow> bool \<times> recv_reorder_ctrl" where
  "check_indicate_seq c seq_num =
     (let wsize = ro_wsize_b c;
          wend = (ro_indicate_seq c + ucast wsize - 1) AND 0xFFF;
          ind = (if ro_indicate_seq c = 0xFFFF then seq_num else ro_indicate_seq c)
      in if SN_LESS seq_num ind then (False, c\<lparr>ro_indicate_seq := ind\<rparr>)
         else if SN_EQUAL seq_num ind then (True, c\<lparr>ro_indicate_seq := (ind + 1) AND 0xFFF\<rparr>)
         else if SN_LESS wend seq_num then
           (True, c\<lparr>ro_indicate_seq :=
              (if uint seq_num \<ge> uint wsize - 1 then seq_num + 1 - ucast wsize
               else 0xFFF - (ucast wsize - (seq_num + 1)) + 1)\<rparr>)
         else (True, c\<lparr>ro_indicate_seq := ind\<rparr>))"

text \<open>The search of \<^verbatim>\<open>enqueue_reorder_recvframe\<close> for the place of a frame; a duplicate is refused.\<close>

fun enqueue_reorder_recvframe :: "rxframe \<Rightarrow> rxframe list \<Rightarrow> rxframe list option" where
  "enqueue_reorder_recvframe f [] = Some [f]"
| "enqueue_reorder_recvframe f (g # q) =
     (if SN_LESS (frame_seq g) (frame_seq f) then map_option ((#) g) (enqueue_reorder_recvframe f q)
      else if SN_EQUAL (frame_seq g) (frame_seq f) then None
      else Some (f # g # q))"

text \<open>
  What happens to a frame taken from the queue. A stopped driver and an \<^verbatim>\<open>amsdu\<close> other than 0 and 1
  lose the frame: it is in no queue any more and not freed.
\<close>

definition indicate_one :: "rx_adapter \<Rightarrow> rxframe \<Rightarrow> rx_out option" where
  "indicate_one ad f =
     (if at_amsdu (fr_attrib f) = 0 then
        Some (if \<not> ad_bDriverStopped ad \<and> \<not> ad_bSurpriseRemoved ad then Indicate f else Lost f)
      else if at_amsdu (fr_attrib f) = 1 then
        do { (outs, leak, g) \<leftarrow> amsdu_to_msdu (ad_skb ad f) f; Some (Msdus f outs leak) }
      else Some (Lost f))"

fun indicate_loop ::
    "rx_adapter \<Rightarrow> u16 \<Rightarrow> rxframe list \<Rightarrow> (bool \<times> u16 \<times> rxframe list \<times> rx_out list) option" where
  "indicate_loop ad ind [] = Some (False, ind, [], [])"
| "indicate_loop ad ind (f # q) =
     (if \<not> SN_LESS ind (frame_seq f) then do {
        let ind' = (if SN_EQUAL ind (frame_seq f) then (ind + 1) AND 0xFFF else ind);
        out \<leftarrow> indicate_one ad f;
        (bPktInBuf, ind', q, outs) \<leftarrow> indicate_loop ad ind' q;
        Some (bPktInBuf, ind', q, out # outs)
      } else Some (True, ind, f # q, []))"

definition recv_indicatepkts_in_order ::
    "rx_adapter \<Rightarrow> recv_reorder_ctrl \<Rightarrow> bool \<Rightarrow> (bool \<times> recv_reorder_ctrl \<times> rx_out list) option" where
  "recv_indicatepkts_in_order ad c bforced =
     (if bforced \<and> ro_pending c = [] then Some (True, c, [])
      else do {
        let ind = (if bforced then frame_seq (hd (ro_pending c)) else ro_indicate_seq c);
        (bPktInBuf, ind, q, outs) \<leftarrow> indicate_loop ad ind (ro_pending c);
        Some (bPktInBuf, c\<lparr>ro_indicate_seq := ind, ro_pending := q\<rparr>, outs)
      })"

text \<open>Steps s2 to s4 of \<^verbatim>\<open>recv_indicatepkt_reorder\<close>.\<close>

definition reorder_frame :: "rx_adapter \<Rightarrow> recv_reorder_ctrl \<Rightarrow> rxframe \<Rightarrow> (bool \<times> recv_reorder_ctrl \<times> rx_out list) option" where
  "reorder_frame ad c f =
     (let (ok, c) = check_indicate_seq c (frame_seq f) in
      if \<not> ok then Some (False, c, [])
      else case enqueue_reorder_recvframe f (ro_pending c) of None \<Rightarrow> Some (False, c, [])
      | Some q \<Rightarrow> do {
          (b, c, outs) \<leftarrow> recv_indicatepkts_in_order ad (c\<lparr>ro_pending := q\<rparr>) False;
          Some (True, c\<lparr>ro_timer := b\<rparr>, outs)
        })"

definition recv_indicatepkt_reorder ::
    "rx_adapter \<Rightarrow> recv_reorder_ctrl \<Rightarrow> rxframe \<Rightarrow> (bool \<times> recv_reorder_ctrl \<times> rx_out list) option" where
  "recv_indicatepkt_reorder ad c f =
     (let a = fr_attrib f; next_seq = (at_seq_num a + 1) mod 4096 in
      if at_amsdu a = 0 then do {
        (_, f) \<leftarrow> wlanhdr_to_ethhdr (ad_mp ad) f;
        if at_qos a \<noteq> 1 then
          Some (if \<not> ad_bDriverStopped ad \<and> \<not> ad_bSurpriseRemoved ad then (True, c, [Indicate f]) else (False, c, []))
        else if \<not> ro_enable c then Some (True, c\<lparr>ro_indicate_seq := next_seq\<rparr>, [Indicate f])
        else reorder_frame ad c f
      }
      else if at_amsdu a = 1 \<and> \<not> ro_enable c then do {
        (outs, leak, g) \<leftarrow> amsdu_to_msdu (ad_skb ad f) f;
        Some (True, c\<lparr>ro_indicate_seq := next_seq\<rparr>, [Msdus f outs leak])
      }
      else reorder_frame ad c f)"

text \<open>The timer has fired when its handler runs.\<close>

definition rtw_reordering_ctrl_timeout_handler ::
    "rx_adapter \<Rightarrow> recv_reorder_ctrl \<Rightarrow> (recv_reorder_ctrl \<times> rx_out list) option" where
  "rtw_reordering_ctrl_timeout_handler ad c =
     (let c = c\<lparr>ro_timer := False\<rparr> in
      if ad_bDriverStopped ad \<or> ad_bSurpriseRemoved ad then Some (c, [])
      else do {
        (b, c, outs) \<leftarrow> recv_indicatepkts_in_order ad c True;
        Some (if b then c\<lparr>ro_timer := True\<rparr> else c, outs)
      })"

definition process_recv_indicatepkts ::
    "rx_adapter \<Rightarrow> recv_reorder_ctrl \<Rightarrow> rxframe \<Rightarrow> (bool \<times> recv_reorder_ctrl \<times> rx_out list) option" where
  "process_recv_indicatepkts ad c f =
     (let running = \<not> ad_bDriverStopped ad \<and> \<not> ad_bSurpriseRemoved ad in
      if ad_ht_option ad then do {
        (r, c, outs) \<leftarrow> recv_indicatepkt_reorder ad c f;
        Some (r \<or> \<not> running, c, outs)
      } else do {
        (r, f) \<leftarrow> wlanhdr_to_ethhdr (ad_mp ad) f;
        if \<not> r then Some (False, c, [])
        else if running then Some (True, c, [Indicate f])
        else Some (False, c, [])
      })"

text \<open>
  The effect of an ADDBA request on the station's buffers. Frames that are still queued stay
  there, and the window is forgotten (\<^verbatim>\<open>CONFIG_UPDATE_INDICATE_SEQ_WHILE_PROCESS_ADDBA_REQ\<close> is not
  set). A station that is not in the table is \<open>None\<close>.
\<close>

definition process_addba_req :: "rx_adapter \<Rightarrow> u16 \<Rightarrow> recv_reorder_ctrl list option \<Rightarrow> recv_reorder_ctrl list option" where
  "process_addba_req ad param psta =
     map_option (\<lambda>cs. let tid = unat (drop_bit 2 param AND 0x0F) in
       cs[tid := (cs ! tid)\<lparr>ro_indicate_seq := 0xFFFF, ro_enable := ad_bAcceptAddbaReq ad\<rparr>]) psta"

section \<open>The contract\<close>

text \<open>
  A buffer over unbounded frame numbers: the start \<open>w\<close> of the window and the early frames with
  their numbers. A frame gets the first number at or behind \<open>w\<close> with its 12-bit sequence number;
  if that is half the number space away, the frame is an old one.
\<close>

type_synonym abuf = "nat \<times> (nat \<times> rxframe) list"

definition ab_number :: "nat \<Rightarrow> nat \<Rightarrow> nat option" where
  "ab_number w s = (let d = (s + 4096 - w mod 4096) mod 4096 in if d < 2048 then Some (w + d) else None)"

fun ab_insert :: "nat \<times> rxframe \<Rightarrow> (nat \<times> rxframe) list \<Rightarrow> (nat \<times> rxframe) list" where
  "ab_insert x [] = [x]"
| "ab_insert x (y # q) = (if fst y < fst x then y # ab_insert x q else x # y # q)"

fun ab_release :: "nat \<Rightarrow> (nat \<times> rxframe) list \<Rightarrow> nat \<times> (nat \<times> rxframe) list \<times> (nat \<times> rxframe) list" where
  "ab_release w [] = (w, [], [])"
| "ab_release w (x # q) =
     (if fst x \<le> w then let (w', out, rest) = ab_release (max w (fst x + 1)) q in (w', x # out, rest)
      else (w, [], x # q))"

definition ab_recv :: "nat \<Rightarrow> abuf \<Rightarrow> rxframe \<Rightarrow> bool \<times> abuf \<times> (nat \<times> rxframe) list" where
  "ab_recv W b f =
     (case b of (w, q) \<Rightarrow>
        case ab_number w (unat (frame_seq f)) of None \<Rightarrow> (False, b, [])
        | Some n \<Rightarrow>
            if n \<in> fst ` set q then (False, b, [])
            else let w1 = (if n = w then w + 1 else max w (n + 1 - W));
                     (w2, out, rest) = ab_release w1 (ab_insert (n, f) q)
                 in (True, (w2, rest), out))"

definition ab_timeout :: "abuf \<Rightarrow> abuf \<times> (nat \<times> rxframe) list" where
  "ab_timeout b =
     (case b of (w, q) \<Rightarrow>
        case q of [] \<Rightarrow> (b, [])
        | x # _ \<Rightarrow> let (w2, out, rest) = ab_release (fst x) q in ((w2, rest), out))"

definition ab_inv :: "nat \<Rightarrow> abuf \<Rightarrow> bool" where
  "ab_inv W b \<longleftrightarrow> sorted_wrt (<) (map fst (snd b)) \<and> (\<forall>x \<in> set (snd b). fst b < fst x \<and> fst x < fst b + W)"

lemma ab_insert_set: "set (ab_insert x q) = insert x (set q)"
  by (induction q) auto

lemma ab_insert_mset: "mset (ab_insert x q) = add_mset x (mset q)"
  by (induction q) auto

lemma ab_insert_sorted:
  "sorted_wrt (<) (map fst q) \<Longrightarrow> fst x \<notin> fst ` set q \<Longrightarrow> sorted_wrt (<) (map fst (ab_insert x q))"
  by (induction q) (auto simp: ab_insert_set)

lemma ab_release_spec:
  assumes "ab_release w q = (w', out, rest)" "sorted_wrt (<) (map fst q)"
  shows "q = out @ rest" "w \<le> w'" "\<forall>x \<in> set out. fst x < w'" "\<forall>x \<in> set rest. w' < fst x"
    "w' = w \<or> (\<exists>x \<in> set out. w' = fst x + 1)"
proof -
  have "q = out @ rest \<and> w \<le> w' \<and> (\<forall>x \<in> set out. fst x < w') \<and> (\<forall>x \<in> set rest. w' < fst x)
    \<and> (w' = w \<or> (\<exists>x \<in> set out. w' = fst x + 1))"
    using assms
  proof (induction w q arbitrary: w' out rest rule: ab_release.induct)
    case (2 w x q)
    show ?case
    proof (cases "fst x \<le> w")
      case True
      obtain w2 o2 r2 where r: "ab_release (max w (fst x + 1)) q = (w2, o2, r2)" by (cases "ab_release (max w (fst x + 1)) q") auto
      have IH: "q = o2 @ r2 \<and> max w (fst x + 1) \<le> w2 \<and> (\<forall>x \<in> set o2. fst x < w2) \<and> (\<forall>x \<in> set r2. w2 < fst x)
        \<and> (w2 = max w (fst x + 1) \<or> (\<exists>x \<in> set o2. w2 = fst x + 1))"
        using "2.IH" [OF True r] "2.prems"(2) by simp
      have e: "w' = w2" "out = x # o2" "rest = r2" using "2.prems"(1) True r by auto
      show ?thesis unfolding e using IH by (auto simp: max_def split: if_splits)
    next
      case False
      then show ?thesis using "2.prems" by fastforce
    qed
  qed simp
  then show "q = out @ rest" "w \<le> w'" "\<forall>x \<in> set out. fst x < w'" "\<forall>x \<in> set rest. w' < fst x"
    "w' = w \<or> (\<exists>x \<in> set out. w' = fst x + 1)" by simp_all
qed

lemma dist_mod:
  assumes "s < 4096"
  shows "(w + (s + 4096 - w mod 4096) mod 4096) mod 4096 = (s :: nat)"
proof -
  have "(w + (s + 4096 - w mod 4096) mod 4096) mod 4096 = (w mod 4096 + (s + 4096 - w mod 4096)) mod 4096"
    by (metis mod_add_eq mod_mod_trivial)
  moreover have "w mod 4096 + (s + 4096 - w mod 4096) = s + 4096"
    using mod_less_divisor [of 4096 w] by linarith
  ultimately show ?thesis using assms by simp
qed

lemma ab_number_props:
  assumes "ab_number w s = Some n" "s < 4096"
  shows "w \<le> n" "n < w + 2048" "n mod 4096 = s"
  using assms dist_mod [OF assms(2), of w] by (auto simp: ab_number_def Let_def split: if_splits)

text \<open>Everything a step delivers lies between the old start of the window and the new one, in
  strictly increasing order; what stays lies behind it.\<close>

lemma ab_recv_order:
  assumes "ab_inv W (w, q)" "1 \<le> W" "unat (frame_seq f) < 4096" "ab_recv W (w, q) f = (ok, (w', q'), out)"
  shows "ab_inv W (w', q')" "w \<le> w'" "sorted_wrt (<) (map fst out)" "\<forall>x \<in> set out. w \<le> fst x \<and> fst x < w'"
    "mset (out @ q') = (if ok then add_mset (the (ab_number w (unat (frame_seq f))), f) (mset q) else mset q)"
    "\<not> ok \<Longrightarrow> out = []"
proof -
  have "ab_inv W (w', q') \<and> w \<le> w' \<and> sorted_wrt (<) (map fst out) \<and> (\<forall>x \<in> set out. w \<le> fst x \<and> fst x < w')
    \<and> mset (out @ q') = (if ok then add_mset (the (ab_number w (unat (frame_seq f))), f) (mset q) else mset q) \<and> (\<not> ok \<longrightarrow> out = [])"
  proof (cases "\<exists>n. ab_number w (unat (frame_seq f)) = Some n \<and> n \<notin> fst ` set q")
    case False
    then have "ok = False \<and> w' = w \<and> q' = q \<and> out = []"
      using assms(4) by (auto simp: ab_recv_def split: option.splits if_splits)
    then show ?thesis using assms(1) by simp
  next
    case True
    then obtain n where n: "ab_number w (unat (frame_seq f)) = Some n" "n \<notin> fst ` set q" by blast
    note np = ab_number_props [OF n(1) assms(3)]
    define w1 where "w1 = (if n = w then w + 1 else max w (n + 1 - W))"
    define qi where "qi = ab_insert (n, f) q"
    have so: "sorted_wrt (<) (map fst qi)"
      unfolding qi_def using assms(1) n(2) by (intro ab_insert_sorted) (simp_all add: ab_inv_def)
    have e: "ok = True" "ab_release w1 qi = (w', out, q')"
      using assms(4) n by (auto simp: ab_recv_def Let_def w1_def qi_def split: prod.splits if_splits)
    note r = ab_release_spec [OF e(2) so]
    have ww: "w \<le> w1" by (auto simp: w1_def)
    have qi: "x \<in> set qi \<Longrightarrow> w \<le> fst x \<and> fst x < w1 + W" for x
      using assms(1,2) np by (auto simp: qi_def ab_insert_set ab_inv_def w1_def)
    have so2: "sorted_wrt (<) (map fst out)" "sorted_wrt (<) (map fst q')"
      using so unfolding r(1) by (simp_all add: sorted_wrt_append)
    have in_qi: "x \<in> set out \<Longrightarrow> x \<in> set qi" "x \<in> set q' \<Longrightarrow> x \<in> set qi" for x using r(1) by simp_all
    have inv: "ab_inv W (w', q')"
      unfolding ab_inv_def using so2(2) r(2,4) qi in_qi(2) by fastforce
    have m: "mset (out @ q') = add_mset (n, f) (mset q)"
      using ab_insert_mset [of "(n, f)" q] r(1) by (simp add: qi_def)
    show ?thesis
      using inv so2(1) r(2,3) ww qi in_qi(1) m e(1) n(1) by (auto intro: order_trans)
  qed
  then show "ab_inv W (w', q')" "w \<le> w'" "sorted_wrt (<) (map fst out)" "\<forall>x \<in> set out. w \<le> fst x \<and> fst x < w'"
    "mset (out @ q') = (if ok then add_mset (the (ab_number w (unat (frame_seq f))), f) (mset q) else mset q)"
    "\<not> ok \<Longrightarrow> out = []" by simp_all
qed

lemma ab_timeout_order:
  assumes "ab_inv W (w, q)" "ab_timeout (w, q) = ((w', q'), out)"
  shows "ab_inv W (w', q')" "w \<le> w'" "sorted_wrt (<) (map fst out)" "\<forall>x \<in> set out. w \<le> fst x \<and> fst x < w'"
    "q = out @ q'" "q \<noteq> [] \<Longrightarrow> out \<noteq> []"
proof -
  have "ab_inv W (w', q') \<and> w \<le> w' \<and> sorted_wrt (<) (map fst out) \<and> (\<forall>x \<in> set out. w \<le> fst x \<and> fst x < w')
    \<and> q = out @ q' \<and> (q \<noteq> [] \<longrightarrow> out \<noteq> [])"
  proof (cases q)
    case Nil
    then show ?thesis using assms by (auto simp: ab_timeout_def)
  next
    case (Cons x xs)
    have e: "ab_release (fst x) q = (w', out, q')" using assms(2) Cons by (auto simp: ab_timeout_def Let_def split: prod.splits)
    have so: "sorted_wrt (<) (map fst q)" using assms(1) by (simp add: ab_inv_def)
    note r = ab_release_spec [OF e so]
    have q: "y \<in> set q \<Longrightarrow> w < fst y \<and> fst y < w + W" for y using assms(1) by (auto simp: ab_inv_def)
    have "w < fst x" using q Cons by simp
    have so2: "sorted_wrt (<) (map fst out)" "sorted_wrt (<) (map fst q')"
      using so unfolding r(1) by (simp_all add: sorted_wrt_append)
    have in_q: "y \<in> set out \<Longrightarrow> y \<in> set q" "y \<in> set q' \<Longrightarrow> y \<in> set q" for y using r(1) by simp_all
    have ne: "out \<noteq> []" using e Cons by (auto split: prod.splits if_splits)
    have inv: "ab_inv W (w', q')"
      unfolding ab_inv_def using so2(2) r(2,4) \<open>w < fst x\<close> q in_q(2) by fastforce
    have b: "\<forall>x \<in> set out. w \<le> fst x \<and> fst x < w'" using r(3) q in_q(1) by fastforce
    have "w \<le> w'" using r(2) \<open>w < fst x\<close> by simp
    then show ?thesis using ne inv b so2(1) r(1) by blast
  qed
  then show "ab_inv W (w', q')" "w \<le> w'" "sorted_wrt (<) (map fst out)" "\<forall>x \<in> set out. w \<le> fst x \<and> fst x < w'"
    "q = out @ q'" "q \<noteq> [] \<Longrightarrow> out \<noteq> []" by (blast, blast, blast, blast, blast, blast)
qed

section \<open>Twelve bits are enough\<close>

abbreviation sn :: "nat \<Rightarrow> u16" where "sn n \<equiv> of_nat (n mod 4096)"

lemma SN_LESS_bit: "SN_LESS a b \<longleftrightarrow> bit (a - b) 11"
  using and_exp_eq_0_iff_not_bit [of "a - b" 11] by (simp add: SN_LESS_def)

lemma bit_11_int:
  assumes "- 2048 \<le> z" "z < 2048" "k = z + 4096 * j"
  shows "bit (k :: int) 11 \<longleftrightarrow> z < 0"
proof -
  have "k div 2048 = z div 2048 + 2 * j" using assms(3) by simp
  moreover have "z div 2048 = (if z < 0 then -1 else 0)" using assms(1,2) by auto
  ultimately show ?thesis by (auto simp: bit_iff_odd)
qed

lemma SN_LESS_nat:
  assumes "x \<le> y + 2047" "y \<le> x + 2048"
  shows "SN_LESS (sn x) (sn y) \<longleftrightarrow> x < y"
proof -
  define k where "k = int (x mod 4096) - int (y mod 4096)"
  have "k = (int x - int y) + 4096 * (int (y div 4096) - int (x div 4096))"
    unfolding k_def by (simp add: zmod_int zdiv_int minus_mult_div_eq_mod [symmetric] algebra_simps)
  moreover have "- 2048 \<le> int x - int y" "int x - int y < 2048" using assms by linarith+
  ultimately have "bit k 11 \<longleftrightarrow> int x - int y < 0" by (intro bit_11_int)
  moreover have "sn x - sn y = word_of_int k" by (simp add: k_def)
  ultimately show ?thesis by (simp add: SN_LESS_bit bit_word_of_int_iff)
qed

lemma SN_EQUAL_nat:
  assumes "x \<le> y + 2047" "y \<le> x + 2048"
  shows "SN_EQUAL (sn x) (sn y) \<longleftrightarrow> x = y"
proof
  assume "SN_EQUAL (sn x) (sn y)"
  then have e: "sn x = sn y" by (simp add: SN_EQUAL_def)
  have u: "unat (sn n) = n mod 4096" for n by (simp add: unat_of_nat)
  have m: "x mod 4096 = y mod 4096" using arg_cong [OF e, of unat] unfolding u .
  show "x = y"
  proof (rule ccontr)
    assume "x \<noteq> y"
    then consider "x < y" | "y < x" by linarith
    then show False
    proof cases
      case 1
      then have "(4096 :: nat) dvd y - x" using m by (metis mod_eq_dvd_iff_nat less_imp_le)
      then show False using 1 assms by (auto dest!: dvd_imp_le)
    next
      case 2
      then have "(4096 :: nat) dvd x - y" using m by (metis mod_eq_dvd_iff_nat less_imp_le)
      then show False using 2 assms by (auto dest!: dvd_imp_le)
    qed
  qed
qed (simp add: SN_EQUAL_def)

lemma sn_and: "(of_nat n :: u16) AND 0xFFF = sn n"
proof -
  have "(0xFFF :: u16) = mask 12" by (simp add: mask_eq_exp_minus_1)
  then have "(of_nat n :: u16) AND 0xFFF = take_bit 12 (of_nat n)" by (simp only: take_bit_eq_mask)
  moreover have "take_bit 12 (of_nat n :: u16) = of_nat (take_bit 12 n)" by (rule bit_word_eqI) (auto simp: bit_simps)
  ultimately show ?thesis by (simp add: take_bit_eq_mod [where 'a = nat])
qed

lemma sn_small: "unat (s :: u16) < 4096 \<Longrightarrow> s = sn (unat s)"
  by simp

lemma sn_not_ffff: "sn w \<noteq> 0xFFFF"
proof
  assume "sn w = 0xFFFF"
  then have "unat (sn w) = unat (0xFFFF :: u16)" by simp
  moreover have "w mod 4096 < 4096" by simp
  ultimately show False by (simp add: unat_of_nat)
qed

text \<open>\<open>tracks W c b\<close>: the control block \<open>c\<close> is the 12-bit image of the buffer \<open>b\<close>.\<close>

definition tracks :: "nat \<Rightarrow> recv_reorder_ctrl \<Rightarrow> abuf \<Rightarrow> bool" where
  "tracks W c b \<longleftrightarrow> ro_indicate_seq c = sn (fst b) \<and> ro_pending c = map snd (snd b)
     \<and> (\<forall>x \<in> set (snd b). frame_seq (snd x) = sn (fst x)) \<and> ab_inv W b
     \<and> unat (ro_wsize_b c) = W \<and> 1 \<le> W"

lemma window_shift:
  assumes "1 \<le> W" "W < 256" "W \<le> n"
  shows "(if int (n mod 4096) \<ge> int W - 1 then sn n + 1 - of_nat W else 0xFFF - (of_nat W - (sn n + 1)) + 1) = sn (n + 1 - W)"
proof (cases "W \<le> n mod 4096 + 1")
  case True
  have "(n + 1 - W) mod 4096 = n mod 4096 + 1 - W"
  proof -
    have "n + 1 - W = (n mod 4096 + 1 - W) + 4096 * (n div 4096)" using True by simp
    moreover have "n mod 4096 + 1 - W < 4096" using assms(1) mod_less_divisor [of 4096 n] by linarith
    ultimately show ?thesis by (metis mod_less mod_mult_self2)
  qed
  then show ?thesis using True by (simp add: of_nat_diff)
next
  case False
  have lt: "4096 + (n mod 4096 + 1) - W < 4096" using False by simp
  have "n + 1 - W = (4096 + (n mod 4096 + 1) - W) + 4096 * (n div 4096 - 1)"
  proof -
    have "n div 4096 \<noteq> 0" using False assms(3) by (metis Suc_eq_plus1 div_eq_0_iff le_SucI mod_less zero_neq_numeral)
    then obtain j where "n div 4096 = Suc j" by (cases "n div 4096") auto
    moreover have "n = n mod 4096 + 4096 * (n div 4096)" by simp
    ultimately show ?thesis using assms(2) by simp
  qed
  then have "(n + 1 - W) mod 4096 = 4096 + (n mod 4096 + 1) - W" using lt by (metis mod_less mod_mult_self2)
  moreover have "W \<le> 4096 + (n mod 4096 + 1)" using assms(2) by simp
  ultimately have "sn (n + 1 - W) = 4096 + (sn n + 1) - of_nat W" by (simp add: of_nat_diff)
  then show ?thesis using False by simp
qed

lemma check_tracks:
  assumes t: "tracks W c (w, q)" and s: "unat s < 4096"
  shows "check_indicate_seq c s =
    (case ab_number w (unat s) of None \<Rightarrow> (False, c)
     | Some n \<Rightarrow> (True, c\<lparr>ro_indicate_seq := sn (if n = w then w + 1 else max w (n + 1 - W))\<rparr>))"
proof -
  have c: "ro_indicate_seq c = sn w" "unat (ro_wsize_b c) = W" "1 \<le> W" and W: "W < 256"
    using t by (auto simp: tracks_def)
  have nf: "ro_indicate_seq c \<noteq> 0xFFFF" unfolding c(1) by (rule sn_not_ffff)
  have uw: "ucast (ro_wsize_b c) = (of_nat W :: u16)" unfolding c(2) [symmetric] by simp
  have wend: "(sn w + of_nat W - 1) AND 0xFFF = sn (w + W - 1)"
  proof -
    have "(sn w + of_nat W - 1 :: u16) = of_nat (w mod 4096 + W - 1)" using c(3) by (simp add: of_nat_diff)
    moreover have "(w mod 4096 + W - 1) mod 4096 = (w + W - 1) mod 4096"
      using c(3) by (metis Nat.add_diff_assoc mod_add_left_eq)
    ultimately show ?thesis by (simp only: sn_and)
  qed
  define d where "d = (unat s + 4096 - w mod 4096) mod 4096"
  have wd: "(w + d) mod 4096 = unat s" unfolding d_def by (rule dist_mod [OF s])
  have sn: "s = sn (w + d)" unfolding wd by simp
  have d4: "d < 4096" by (simp add: d_def)
  show ?thesis
  proof (cases "d < 2048")
    case False
    have "SN_LESS s (sn w)"
    proof -
      have "sn (w + 4096) = sn w" by simp
      moreover have "SN_LESS (sn (w + d)) (sn (w + 4096))" using False d4 by (subst SN_LESS_nat) auto
      ultimately show ?thesis unfolding sn by simp
    qed
    moreover have "ab_number w (unat s) = None" using False by (simp add: ab_number_def d_def [symmetric])
    ultimately show ?thesis using nf c(1) by (simp add: check_indicate_seq_def Let_def)
  next
    case True
    have n: "ab_number w (unat s) = Some (w + d)" using True by (simp add: ab_number_def d_def [symmetric])
    have l: "\<not> SN_LESS s (sn w)" unfolding sn using True by (subst SN_LESS_nat) auto
    have e: "SN_EQUAL s (sn w) \<longleftrightarrow> d = 0" unfolding sn using True by (subst SN_EQUAL_nat) auto
    have g: "SN_LESS (sn (w + W - 1)) s \<longleftrightarrow> W - 1 < d" unfolding sn using True W c(3) by (subst SN_LESS_nat) auto
    have i: "(sn w + 1) AND 0xFFF = sn (w + 1)"
      using sn_and [of "w mod 4096 + 1"] by (simp add: mod_Suc_eq add.commute)
    have sh: "W - 1 < d \<Longrightarrow> (if uint s \<ge> uint (ro_wsize_b c) - 1 then s + 1 - of_nat W else 0xFFF - (of_nat W - (s + 1)) + 1)
        = sn (w + d + 1 - W)"
    proof -
      assume *: "W - 1 < d"
      have u: "uint s = int ((w + d) mod 4096)" "uint (ro_wsize_b c) = int W" using wd c(2) by auto
      show ?thesis using window_shift [OF c(3) W, of "w + d"] * unfolding u sn [symmetric] by simp
    qed
    have mx: "max w (w + d + 1 - W) = (if W - 1 < d then w + d + 1 - W else w)" using c(3) by auto
    have c_id: "c\<lparr>ro_indicate_seq := sn w\<rparr> = c" using c(1) by simp
    show ?thesis
      unfolding n check_indicate_seq_def Let_def uw option.case mx c(1) wend
      using sn_not_ffff [of w] l e g i sh by simp
  qed
qed

lemma enqueue_tracks:
  assumes "\<forall>x \<in> set q. frame_seq (snd x) = sn (fst x) \<and> fst x \<le> n + 2047 \<and> n \<le> fst x + 2047" "frame_seq f = sn n"
    "sorted_wrt (<) (map fst q)"
  shows "enqueue_reorder_recvframe f (map snd q)
    = (if n \<in> fst ` set q then None else Some (map snd (ab_insert (n, f) q)))"
  using assms
proof (induction q)
  case (Cons x q)
  have x: "frame_seq (snd x) = sn (fst x)" "fst x \<le> n + 2047" "n \<le> fst x + 2047" using Cons.prems(1) by simp_all
  have l: "SN_LESS (sn (fst x)) (sn n) \<longleftrightarrow> fst x < n" "SN_EQUAL (sn (fst x)) (sn n) \<longleftrightarrow> fst x = n"
    using x by (simp_all add: SN_LESS_nat SN_EQUAL_nat)
  have "n \<notin> fst ` set q" if "n < fst x"
    using Cons.prems(3) that by fastforce
  then show ?case using Cons.IH Cons.prems x(1) l by auto
qed simp

lemma loop_tracks:
  assumes "\<forall>x \<in> set q. frame_seq (snd x) = sn (fst x) \<and> fst x \<le> w + 2047 \<and> w \<le> fst x + 2047"
    and "sorted_wrt (<) (map fst q)" "\<forall>x \<in> set q. indicate_one ad (snd x) \<noteq> None"
    and "ab_release w q = (w', out, rest)"
  shows "indicate_loop ad (sn w) (map snd q)
    = Some (rest \<noteq> [], sn w', map snd rest, map (\<lambda>x. the (indicate_one ad (snd x))) out)"
  using assms
proof (induction w q arbitrary: w' out rest rule: ab_release.induct)
  case (2 w x q)
  have x: "frame_seq (snd x) = sn (fst x)" "fst x \<le> w + 2047" "w \<le> fst x + 2047" using "2.prems"(1) by simp_all
  have l: "SN_LESS (sn w) (sn (fst x)) \<longleftrightarrow> w < fst x" "SN_EQUAL (sn w) (sn (fst x)) \<longleftrightarrow> w = fst x"
    using x by (simp_all add: SN_LESS_nat SN_EQUAL_nat)
  show ?case
  proof (cases "fst x \<le> w")
    case False
    then show ?thesis using "2.prems"(4) x(1) l by auto
  next
    case True
    obtain w2 o2 r2 where r: "ab_release (max w (fst x + 1)) q = (w2, o2, r2)" by (cases "ab_release (max w (fst x + 1)) q") auto
    have e: "w' = w2" "out = x # o2" "rest = r2" using "2.prems"(4) True r by auto
    have q: "frame_seq (snd y) = sn (fst y) \<and> fst y \<le> max w (fst x + 1) + 2047 \<and> max w (fst x + 1) \<le> fst y + 2047"
      if "y \<in> set q" for y
      using "2.prems"(1,2) that by fastforce
    have IH: "indicate_loop ad (sn (max w (fst x + 1))) (map snd q)
        = Some (r2 \<noteq> [], sn w2, map snd r2, map (\<lambda>x. the (indicate_one ad (snd x))) o2)"
      by (rule "2.IH" [OF True _ _ _ r]) (use q "2.prems"(2,3) in auto)
    have i: "(sn w + 1) AND 0xFFF = sn (w + 1)"
      using sn_and [of "w mod 4096 + 1"] by (simp add: mod_Suc_eq add.commute)
    have mx: "max w (fst x + 1) = (if w = fst x then w + 1 else w)" using True by auto
    have nx: "(if w = fst x then (sn w + 1) AND 0xFFF else sn w) = sn (max w (fst x + 1))"
      unfolding i mx by simp
    obtain o1 where o1: "indicate_one ad (snd x) = Some o1" using "2.prems"(3) by auto
    show ?thesis
      unfolding e using True by (simp add: x(1) l nx IH [simplified] o1 not_less)
  qed
qed simp

text \<open>One frame, from the synchronised state.\<close>

lemma reorder_frame_tracks:
  assumes t: "tracks W c (w, q)" and s: "unat (frame_seq f) < 4096"
    and o: "\<forall>x \<in> set q. indicate_one ad (snd x) \<noteq> None" "indicate_one ad f \<noteq> None"
    and a: "ab_recv W (w, q) f = (ok, (w', q'), out)"
  shows "\<exists>c'. reorder_frame ad c f = Some (ok, c', map (\<lambda>x. the (indicate_one ad (snd x))) out)
    \<and> tracks W c' (w', q') \<and> ro_timer c' = (if ok then q' \<noteq> [] else ro_timer c) \<and> ro_enable c' = ro_enable c"
proof (cases "ab_number w (unat (frame_seq f))")
  case None
  then have "ok = False" "w' = w" "q' = q" "out = []" using a by (simp_all add: ab_recv_def)
  then show ?thesis using check_tracks [OF t s] None t by (simp add: reorder_frame_def)
next
  case (Some n)
  note np = ab_number_props [OF Some s]
  have T: "ro_pending c = map snd q" "\<forall>x \<in> set q. frame_seq (snd x) = sn (fst x)" "ab_inv W (w, q)"
    "unat (ro_wsize_b c) = W" "1 \<le> W" and W: "W < 256" using t by (auto simp: tracks_def)
  have q: "w < fst x" "fst x < w + W" if "x \<in> set q" for x using T(3) that by (auto simp: ab_inv_def)
  have so: "sorted_wrt (<) (map fst q)" using T(3) by (simp add: ab_inv_def)
  have fs: "frame_seq f = sn n" using np(3) by simp
  define w1 where "w1 = (if n = w then w + 1 else max w (n + 1 - W))"
  have ck: "check_indicate_seq c (frame_seq f) = (True, c\<lparr>ro_indicate_seq := sn w1\<rparr>)"
    using check_tracks [OF t s] Some by (simp add: w1_def)
  have qd: "\<forall>x \<in> set q. frame_seq (snd x) = sn (fst x) \<and> fst x \<le> n + 2047 \<and> n \<le> fst x + 2047"
    using T(2) q np(1,2) W by fastforce
  note en = enqueue_tracks [OF qd fs so]
  show ?thesis
  proof (cases "n \<in> fst ` set q")
    case True
    then have "n \<noteq> w" "max w (n + 1 - W) = w" using q by fastforce+
    then have "c\<lparr>ro_indicate_seq := sn w1\<rparr> = c" using t by (simp add: tracks_def w1_def)
    moreover have "ok = False" "w' = w" "q' = q" "out = []" using a Some True by (simp_all add: ab_recv_def)
    ultimately show ?thesis using ck en True T(1) t by (simp add: reorder_frame_def)
  next
    case False
    define qi where "qi = ab_insert (n, f) q"
    have e: "ok = True" "ab_release w1 qi = (w', out, q')"
      using a Some False by (auto simp: ab_recv_def Let_def w1_def qi_def split: prod.splits)
    have soi: "sorted_wrt (<) (map fst qi)" unfolding qi_def using so False by (intro ab_insert_sorted) simp_all
    have w1: "w \<le> w1" "w1 \<le> w + 2047" using np(1,2) T(5) by (auto simp: w1_def)
    have qi: "\<forall>x \<in> set qi. frame_seq (snd x) = sn (fst x) \<and> fst x \<le> w1 + 2047 \<and> w1 \<le> fst x + 2047"
      using T(2) q np(1,2) w1 W fs by (auto simp: qi_def ab_insert_set) fastforce+
    have oi: "\<forall>x \<in> set qi. indicate_one ad (snd x) \<noteq> None" using o by (auto simp: qi_def ab_insert_set)
    note lp = loop_tracks [OF qi soi oi e(2)]
    have inv: "ab_inv W (w', q')" using ab_recv_order(1) [OF T(3,5) s a] .
    have "\<forall>x \<in> set q'. frame_seq (snd x) = sn (fst x)" using qi ab_release_spec(1) [OF e(2) soi] by simp
    then have "tracks W (c\<lparr>ro_indicate_seq := sn w', ro_pending := map snd q', ro_timer := q' \<noteq> []\<rparr>) (w', q')"
      using inv T(4,5) by (simp add: tracks_def)
    moreover have "reorder_frame ad c f = Some (True, c\<lparr>ro_indicate_seq := sn w', ro_pending := map snd q', ro_timer := q' \<noteq> []\<rparr>,
        map (\<lambda>x. the (indicate_one ad (snd x))) out)"
      using lp by (simp add: reorder_frame_def ck en False T(1) qi_def [symmetric] recv_indicatepkts_in_order_def)
    ultimately show ?thesis using e(1) by auto
  qed
qed

lemma timeout_tracks:
  assumes t: "tracks W c (w, q)" and o: "\<forall>x \<in> set q. indicate_one ad (snd x) \<noteq> None"
    and r: "\<not> ad_bDriverStopped ad" "\<not> ad_bSurpriseRemoved ad" and a: "ab_timeout (w, q) = ((w', q'), out)"
  shows "\<exists>c'. rtw_reordering_ctrl_timeout_handler ad c = Some (c', map (\<lambda>x. the (indicate_one ad (snd x))) out)
    \<and> tracks W c' (w', q') \<and> ro_enable c' = ro_enable c \<and> (ro_timer c' \<longleftrightarrow> q = [] \<or> q' \<noteq> [])"
proof (cases q)
  case Nil
  then have "w' = w" "q' = q" "out = []" using a by (simp_all add: ab_timeout_def)
  then show ?thesis using Nil t r by (auto simp: rtw_reordering_ctrl_timeout_handler_def recv_indicatepkts_in_order_def tracks_def)
next
  case (Cons x xs)
  have T: "ro_pending c = map snd q" "\<forall>x \<in> set q. frame_seq (snd x) = sn (fst x)" "ab_inv W (w, q)"
    "unat (ro_wsize_b c) = W" "1 \<le> W" and W: "W < 256" using t by (auto simp: tracks_def)
  have so: "sorted_wrt (<) (map fst q)" using T(3) by (simp add: ab_inv_def)
  have e: "ab_release (fst x) q = (w', out, q')" using a Cons by (auto simp: ab_timeout_def Let_def split: prod.splits)
  have "\<forall>y \<in> set q. w < fst y \<and> fst y < w + W" using T(3) by (auto simp: ab_inv_def)
  then have qd: "\<forall>y \<in> set q. frame_seq (snd y) = sn (fst y) \<and> fst y \<le> fst x + 2047 \<and> fst x \<le> fst y + 2047"
    using T(2) W Cons by fastforce
  note lp = loop_tracks [OF qd so o e]
  have hd0: "frame_seq (hd (ro_pending c)) = sn (fst x)" using T(1,2) Cons by simp
  have inv: "ab_inv W (w', q')" using ab_timeout_order(1) [OF T(3) a] .
  have "\<forall>x \<in> set q'. frame_seq (snd x) = sn (fst x)" using T(2) ab_release_spec(1) [OF e so] by simp
  then have "tracks W (c\<lparr>ro_indicate_seq := sn w', ro_pending := map snd q', ro_timer := q' \<noteq> []\<rparr>) (w', q')"
    using inv T(4,5) by (simp add: tracks_def)
  moreover have "rtw_reordering_ctrl_timeout_handler ad c =
      Some (c\<lparr>ro_indicate_seq := sn w', ro_pending := map snd q', ro_timer := q' \<noteq> []\<rparr>, map (\<lambda>x. the (indicate_one ad (snd x))) out)"
    using r lp hd0 Cons T(1) by (simp add: rtw_reordering_ctrl_timeout_handler_def recv_indicatepkts_in_order_def Let_def del: indicate_loop.simps)
  ultimately show ?thesis using Cons by auto
qed

section \<open>Runs\<close>

text \<open>
  What a received frame is when it enters the buffer (converted, unless it is an A-MSDU), and
  which frames are meant to pass through the buffer.
\<close>

definition prep :: "rx_adapter \<Rightarrow> rxframe \<Rightarrow> rxframe" where
  "prep ad f = (if at_amsdu (fr_attrib f) = 0 then snd (the (wlanhdr_to_ethhdr (ad_mp ad) f)) else f)"

definition bufferable :: "rx_adapter \<Rightarrow> rxframe \<Rightarrow> bool" where
  "bufferable ad f \<longleftrightarrow> unat (frame_seq f) < 4096 \<and>
     (at_amsdu (fr_attrib f) = 0 \<and> at_qos (fr_attrib f) = 1 \<and> wlanhdr_to_ethhdr (ad_mp ad) f \<noteq> None
      \<or> at_amsdu (fr_attrib f) = 1 \<and> amsdu_to_msdu (ad_skb ad f) f \<noteq> None)"

lemma eth_attrib:
  "wlanhdr_to_ethhdr mp f = Some (r, g) \<Longrightarrow> frame_seq g = frame_seq f \<and> at_amsdu (fr_attrib g) = at_amsdu (fr_attrib f)"
  by (auto simp: wlanhdr_to_ethhdr_def Let_def recvframe_pull_def recvframe_pull_tail_def split: bind_splits if_splits)

lemma bufferable_prep:
  assumes "bufferable ad f" "ro_enable c"
  shows "recv_indicatepkt_reorder ad c f = reorder_frame ad c (prep ad f)"
    "frame_seq (prep ad f) = frame_seq f" "indicate_one ad (prep ad f) \<noteq> None"
proof -
  have "recv_indicatepkt_reorder ad c f = reorder_frame ad c (prep ad f) \<and> frame_seq (prep ad f) = frame_seq f
    \<and> indicate_one ad (prep ad f) \<noteq> None"
  proof (cases "at_amsdu (fr_attrib f) = 0")
    case True
    then obtain r g where g: "wlanhdr_to_ethhdr (ad_mp ad) f = Some (r, g)" "at_qos (fr_attrib f) = 1"
      using assms(1) by (auto simp: bufferable_def)
    note t = eth_attrib [OF g(1)]
    have p: "prep ad f = g" using True g by (simp add: prep_def)
    have "indicate_one ad g \<noteq> None" using True t by (simp add: indicate_one_def)
    then show ?thesis unfolding p using g t True assms(2) by (simp add: recv_indicatepkt_reorder_def Let_def)
  next
    case False
    then have a: "at_amsdu (fr_attrib f) = 1" "amsdu_to_msdu (ad_skb ad f) f \<noteq> None"
      using assms(1) by (auto simp: bufferable_def)
    have p: "prep ad f = f" using False by (simp add: prep_def)
    show ?thesis unfolding p using a assms(2) by (auto simp: recv_indicatepkt_reorder_def Let_def indicate_one_def)
  qed
  then show "recv_indicatepkt_reorder ad c f = reorder_frame ad c (prep ad f)"
    "frame_seq (prep ad f) = frame_seq f" "indicate_one ad (prep ad f) \<noteq> None" by blast+
qed

datatype ro_event = Arrive rxframe | Expire

fun ro_run :: "rx_adapter \<Rightarrow> recv_reorder_ctrl \<Rightarrow> ro_event list \<Rightarrow> (recv_reorder_ctrl \<times> rx_out list \<times> rxframe list) option" where
  "ro_run ad c [] = Some (c, [], [])"
| "ro_run ad c (Arrive f # es) =
     do {
       (ok, c, out) \<leftarrow> recv_indicatepkt_reorder ad c f;
       (c, outs, acc) \<leftarrow> ro_run ad c es;
       Some (c, out @ outs, if ok then f # acc else acc)
     }"
| "ro_run ad c (Expire # es) =
     do {
       (c, out) \<leftarrow> rtw_reordering_ctrl_timeout_handler ad c;
       (c, outs, acc) \<leftarrow> ro_run ad c es;
       Some (c, out @ outs, acc)
     }"

definition events_ok :: "rx_adapter \<Rightarrow> ro_event list \<Rightarrow> bool" where
  "events_ok ad es \<longleftrightarrow> (\<forall>f. Arrive f \<in> set es \<longrightarrow> bufferable ad f)"

lemma run_tracks:
  assumes "\<not> ad_bDriverStopped ad" "\<not> ad_bSurpriseRemoved ad" "tracks W c (w, q)" "ro_enable c"
    and "\<forall>x \<in> set q. indicate_one ad (snd x) \<noteq> None" "events_ok ad es"
  shows "\<exists>c' w' q' xs acc. ro_run ad c es = Some (c', map (\<lambda>x. the (indicate_one ad (snd x))) xs, acc)
    \<and> tracks W c' (w', q') \<and> w \<le> w' \<and> sorted_wrt (<) (map fst xs)
    \<and> (\<forall>x \<in> set xs. w \<le> fst x \<and> fst x < w' \<and> frame_seq (snd x) = sn (fst x))
    \<and> mset (map snd xs) + mset (map snd q') = mset (map snd q) + mset (map (prep ad) acc)"
  using assms(3-)
proof (induction es arbitrary: c w q)
  case Nil
  then show ?case by (intro exI [of _ c] exI [of _ w] exI [of _ q] exI [of _ "[]"]) simp
next
  case (Cons ev es)
  have W: "1 \<le> W" "ab_inv W (w, q)" and sq: "\<forall>x \<in> set q. frame_seq (snd x) = sn (fst x)"
    using Cons.prems(1) by (simp_all add: tracks_def)
  have es: "events_ok ad es" using Cons.prems(4) by (simp add: events_ok_def)
  obtain ok w1 q1 out c1 where s: "w \<le> w1" "sorted_wrt (<) (map fst out)" "\<forall>x \<in> set out. w \<le> fst x \<and> fst x < w1"
      "mset (map snd out) + mset (map snd q1) = mset (map snd q) +
        (case ev of Arrive f \<Rightarrow> if ok then {#prep ad f#} else {#} | Expire \<Rightarrow> {#})"
      "\<forall>x \<in> set (out @ q1). frame_seq (snd x) = sn (fst x) \<and> indicate_one ad (snd x) \<noteq> None"
    and c1: "tracks W c1 (w1, q1)" "ro_enable c1"
      "ro_run ad c (ev # es) = do { (c', outs, acc) \<leftarrow> ro_run ad c1 es;
         Some (c', map (\<lambda>x. the (indicate_one ad (snd x))) out @ outs,
           case ev of Arrive f \<Rightarrow> if ok then f # acc else acc | Expire \<Rightarrow> acc) }"
  proof (cases ev)
    case (Arrive f)
    have b: "bufferable ad f" using Cons.prems(4) Arrive by (simp add: events_ok_def)
    note bp = bufferable_prep [OF b Cons.prems(2)]
    have fs: "unat (frame_seq (prep ad f)) < 4096" using b bp(2) by (simp add: bufferable_def)
    obtain ok w1 q1 out where a: "ab_recv W (w, q) (prep ad f) = (ok, (w1, q1), out)"
      by (cases "ab_recv W (w, q) (prep ad f)") auto
    note o = ab_recv_order [OF W(2,1) fs a]
    obtain c1 where c1: "reorder_frame ad c (prep ad f) = Some (ok, c1, map (\<lambda>x. the (indicate_one ad (snd x))) out)"
      "tracks W c1 (w1, q1)" "ro_enable c1 = ro_enable c"
      using reorder_frame_tracks [OF Cons.prems(1) fs Cons.prems(3) bp(3) a] by blast
    have m: "mset (map snd out) + mset (map snd q1) = mset (map snd q) + (if ok then {#prep ad f#} else {#})"
      using arg_cong [OF o(5), of "image_mset snd"] by (simp split: if_splits)
    have nx: "ab_number w (unat (frame_seq (prep ad f))) = Some (the (ab_number w (unat (frame_seq (prep ad f)))))" if ok
      using a that by (auto simp: ab_recv_def split: option.splits if_splits)
    have in_all: "x \<in> set q \<or> (ok \<and> x = (the (ab_number w (unat (frame_seq (prep ad f)))), prep ad f))" if "x \<in> set (out @ q1)" for x
      using arg_cong [OF o(5), of set_mset] that by (auto split: if_splits)
    have "frame_seq (prep ad f) = sn (the (ab_number w (unat (frame_seq (prep ad f)))))" if ok
      using ab_number_props(3) [OF nx [OF that] fs] by simp
    then have al: "\<forall>x \<in> set (out @ q1). frame_seq (snd x) = sn (fst x) \<and> indicate_one ad (snd x) \<noteq> None"
      using in_all sq Cons.prems(3) bp(3) by fastforce
    show thesis
      by (rule that [of w1 out q1 ok c1]) (use o(2,3,4) m al c1 bp(1) Cons.prems(2) Arrive in simp_all)
  next
    case Expire
    obtain w1 q1 out where a: "ab_timeout (w, q) = ((w1, q1), out)" by (cases "ab_timeout (w, q)") auto
    note o = ab_timeout_order [OF W(2) a]
    obtain c1 where c1: "rtw_reordering_ctrl_timeout_handler ad c = Some (c1, map (\<lambda>x. the (indicate_one ad (snd x))) out)"
      "tracks W c1 (w1, q1)" "ro_enable c1 = ro_enable c"
      using timeout_tracks [OF Cons.prems(1,3) assms(1,2) a] by blast
    have al: "\<forall>x \<in> set (out @ q1). frame_seq (snd x) = sn (fst x) \<and> indicate_one ad (snd x) \<noteq> None"
      using sq Cons.prems(3) unfolding o(5) by blast
    have m: "mset (map snd out) + mset (map snd q1) = mset (map snd q)" unfolding o(5) by simp
    show thesis
      by (rule that [of w1 out q1 False c1]) (use o(2,3,4) m al c1 Cons.prems(2) Expire in simp_all)
  qed
  have o1: "\<forall>x \<in> set q1. indicate_one ad (snd x) \<noteq> None" using s(5) by simp
  obtain c' w' q' xs acc where r: "ro_run ad c1 es = Some (c', map (\<lambda>x. the (indicate_one ad (snd x))) xs, acc)"
    "tracks W c' (w', q')" "w1 \<le> w'" "sorted_wrt (<) (map fst xs)"
    "\<forall>x \<in> set xs. w1 \<le> fst x \<and> fst x < w' \<and> frame_seq (snd x) = sn (fst x)"
    "mset (map snd xs) + mset (map snd q') = mset (map snd q1) + mset (map (prep ad) acc)"
    using Cons.IH [OF c1(1,2) o1 es] by blast
  let ?acc = "case ev of Arrive f \<Rightarrow> if ok then f # acc else acc | Expire \<Rightarrow> acc"
  have "sorted_wrt (<) (map fst (out @ xs))" using s(2,3) r(4,5) by (fastforce simp: sorted_wrt_append)
  moreover have "\<forall>x \<in> set (out @ xs). w \<le> fst x \<and> fst x < w' \<and> frame_seq (snd x) = sn (fst x)"
    using s(1,3,5) r(3,5) by fastforce
  moreover have "mset (map snd (out @ xs)) + mset (map snd q') = mset (map snd q) + mset (map (prep ad) ?acc)"
    using s(4) r(6) by (cases ev) (auto simp: algebra_simps split: if_splits)
  moreover have "ro_run ad c (ev # es) = Some (c', map (\<lambda>x. the (indicate_one ad (snd x))) (out @ xs), ?acc)"
    unfolding c1(3) r(1) by simp
  ultimately show ?case using r(2,3) s(1) by (meson order_trans)
qed

text \<open>A fresh agreement: no window yet. The first frame sets it.\<close>

definition fresh :: "recv_reorder_ctrl \<Rightarrow> bool" where
  "fresh c \<longleftrightarrow> ro_enable c \<and> ro_indicate_seq c = 0xFFFF \<and> ro_pending c = [] \<and> ro_wsize_b c \<noteq> 0"

lemma fresh_first:
  assumes "fresh c" "unat (frame_seq f) < 4096"
  shows "reorder_frame ad c f = reorder_frame ad (c\<lparr>ro_indicate_seq := frame_seq f\<rparr>) f"
    "tracks (unat (ro_wsize_b c)) (c\<lparr>ro_indicate_seq := frame_seq f\<rparr>) (unat (frame_seq f), [])"
proof -
  have l: "\<not> SN_LESS (frame_seq f) (frame_seq f)" by (simp add: SN_LESS_def)
  have "frame_seq f \<noteq> 0xFFFF" using assms(2) by auto
  then have "check_indicate_seq c (frame_seq f) = check_indicate_seq (c\<lparr>ro_indicate_seq := frame_seq f\<rparr>) (frame_seq f)"
    using assms(1) l by (simp add: check_indicate_seq_def fresh_def Let_def SN_EQUAL_def)
  then show "reorder_frame ad c f = reorder_frame ad (c\<lparr>ro_indicate_seq := frame_seq f\<rparr>) f"
    by (simp add: reorder_frame_def)
  have "0 < unat (ro_wsize_b c)" using assms(1) by (simp add: fresh_def unat_gt_0)
  then show "tracks (unat (ro_wsize_b c)) (c\<lparr>ro_indicate_seq := frame_seq f\<rparr>) (unat (frame_seq f), [])"
    using assms by (simp add: tracks_def fresh_def ab_inv_def Suc_le_eq)
qed

section \<open>Properties\<close>

text \<open>C24. The handler of a received frame refines the buffer over unbounded frame numbers: as long
  as the control block is the 12-bit image of such a buffer, the frame is accepted or refused,
  the same frames are delivered, the new control block is the image of the new buffer, and the
  timer runs if and only if frames are left.\<close>

theorem reorder_refines:
  assumes "tracks W c (w, q)" "ro_enable c" "bufferable ad f" "\<forall>x \<in> set q. indicate_one ad (snd x) \<noteq> None"
    and "ab_recv W (w, q) (prep ad f) = (ok, b', out)"
  shows "\<exists>c'. recv_indicatepkt_reorder ad c f = Some (ok, c', map (\<lambda>x. the (indicate_one ad (snd x))) out)
    \<and> tracks W c' b' \<and> ro_timer c' = (if ok then snd b' \<noteq> [] else ro_timer c)"
proof -
  note bp = bufferable_prep [OF assms(3,2)]
  have fs: "unat (frame_seq (prep ad f)) < 4096" using assms(3) bp(2) by (simp add: bufferable_def)
  have "ab_recv W (w, q) (prep ad f) = (ok, (fst b', snd b'), out)" using assms(5) by simp
  from reorder_frame_tracks [OF assms(1) fs assms(4) bp(3) this] show ?thesis unfolding bp(1) by auto
qed


text \<open>A missing frame does not hold back the others for ever: as many expiries of the timer as
  there are waiting frames deliver all of them, in order.\<close>

theorem reorder_flush:
  assumes "tracks W c (w, q)" "\<not> ad_bDriverStopped ad" "\<not> ad_bSurpriseRemoved ad"
    and "\<forall>x \<in> set q. indicate_one ad (snd x) \<noteq> None" "length (ro_pending c) \<le> k"
  shows "\<exists>c'. ro_run ad c (replicate k Expire) = Some (c', map (\<lambda>f. the (indicate_one ad f)) (ro_pending c), [])
    \<and> ro_pending c' = []"
  using assms(1,4,5)
proof (induction k arbitrary: c w q)
  case 0
  then show ?case by (auto simp: tracks_def)
next
  case (Suc k)
  have p: "ro_pending c = map snd q" and inv: "ab_inv W (w, q)" using Suc.prems(1) by (simp_all add: tracks_def)
  obtain w1 q1 out where a: "ab_timeout (w, q) = ((w1, q1), out)" by (cases "ab_timeout (w, q)") auto
  note o = ab_timeout_order [OF inv a]
  obtain c1 where c1: "rtw_reordering_ctrl_timeout_handler ad c = Some (c1, map (\<lambda>x. the (indicate_one ad (snd x))) out)"
    "tracks W c1 (w1, q1)"
    using timeout_tracks [OF Suc.prems(1,2) assms(2,3) a] by blast
  have p1: "ro_pending c1 = map snd q1" using c1(2) by (simp add: tracks_def)
  have l: "length q = length out + length q1" using arg_cong [OF o(5), of length] by simp
  have "out \<noteq> [] \<or> length q1 = 0" using o(6) l by (cases "q = []") auto
  then have "length (ro_pending c1) \<le> k" using Suc.prems(3) l p p1 by (cases out) auto
  moreover have "\<forall>x \<in> set q1. indicate_one ad (snd x) \<noteq> None" using Suc.prems(2) unfolding o(5) by simp
  ultimately obtain c' where c': "ro_run ad c1 (replicate k Expire) = Some (c', map (\<lambda>f. the (indicate_one ad f)) (ro_pending c1), [])"
    "ro_pending c' = []"
    using Suc.IH [OF c1(2)] by blast
  have "map (\<lambda>f. the (indicate_one ad f)) (ro_pending c) = map (\<lambda>x. the (indicate_one ad (snd x))) out
      @ map (\<lambda>f. the (indicate_one ad f)) (ro_pending c1)"
    unfolding p p1 o(5) by simp
  then show ?case using c1(1) c' by simp
qed

section \<open>Witnesses\<close>

definition sample_adapter :: rx_adapter where
  "sample_adapter = \<lparr>ad_bDriverStopped = False, ad_bSurpriseRemoved = False, ad_mp = False, ad_ht_option = True,
     ad_bAcceptAddbaReq = True, ad_skb = (\<lambda>f i. SkbAlloc)\<rparr>"

definition sample_ctrl :: recv_reorder_ctrl where
  "sample_ctrl = \<lparr>ro_enable = True, ro_indicate_seq = 0xFFFF, ro_wend_b = 0xFFFF, ro_wsize_b = 64, ro_pending = [], ro_timer = False\<rparr>"

definition sample_seq :: "u16 \<Rightarrow> rxframe" where
  "sample_seq n = (sample_rx (replicate 24 0 @ [0xaa, 0xaa, 3, 0, 0, 0, 8, 0, 69, 0]))
     \<lparr>fr_attrib := sample_attrib\<lparr>at_seq_num := n, at_amsdu := 0\<rparr>\<rparr>"

lemma sample_bufferable: "unat n < 4096 \<Longrightarrow> bufferable sample_adapter (sample_seq n)"
  by (simp add: bufferable_def sample_seq_def sample_adapter_def sample_rx_def sample_attrib_def wlanhdr_to_ethhdr_def
    eth_snap_def rdi_def rdn_def wri_def wrn_def recvframe_pull_def rtw_rfc1042_header_def SNAP_SIZE_def ETH_HLEN_def Let_def
    SNAP_ETH_TYPE_IPX_def SNAP_ETH_TYPE_APPLETALK_AARP_def)

lemma sample_tracks: "tracks 64 (sample_ctrl\<lparr>ro_indicate_seq := 7\<rparr>) (7, [])"
  by (simp add: tracks_def sample_ctrl_def ab_inv_def)

theorem reorder_refines_witness:
  "\<exists>c' b' ok out. ab_recv 64 (7, []) (prep sample_adapter (sample_seq 9)) = (ok, b', out) \<and>
    recv_indicatepkt_reorder sample_adapter (sample_ctrl\<lparr>ro_indicate_seq := 7\<rparr>) (sample_seq 9)
      = Some (ok, c', map (\<lambda>x. the (indicate_one sample_adapter (snd x))) out) \<and> tracks 64 c' b'"
proof -
  obtain ok b' out where "ab_recv 64 (7, []) (prep sample_adapter (sample_seq 9)) = (ok, b', out)"
    by (cases "ab_recv 64 (7, []) (prep sample_adapter (sample_seq 9))") auto
  then show ?thesis
    using reorder_refines [OF sample_tracks _ sample_bufferable, of 9 ok b' out] by (auto simp: sample_ctrl_def)
qed


theorem reorder_flush_witness:
  "\<exists>c'. ro_run sample_adapter (sample_ctrl\<lparr>ro_indicate_seq := 7, ro_pending := [sample_seq 9]\<rparr>) (replicate 1 Expire)
      = Some (c', map (\<lambda>f. the (indicate_one sample_adapter f)) [sample_seq 9], []) \<and> ro_pending c' = []"
proof -
  let ?c = "sample_ctrl\<lparr>ro_indicate_seq := 7, ro_pending := [sample_seq 9]\<rparr>"
  have "tracks 64 ?c (7, [(9, sample_seq 9)])"
    by (simp add: tracks_def sample_ctrl_def ab_inv_def sample_seq_def sample_attrib_def)
  from reorder_flush [OF this, of sample_adapter 1] show ?thesis
    by (simp add: sample_adapter_def indicate_one_def sample_seq_def sample_attrib_def)
qed

text \<open>
  An ADDBA request forgets the window but not the frames that wait. In the run below a frame
  from before the request waits for the frame in front of it; after the request the peer
  continues at 3000, the timer then delivers the old frame and moves the window back behind
  it, and the next frame in sequence is refused as an old one, as are all up to half the
  number space.
\<close>

definition stale_run :: "rx_adapter \<Rightarrow> u16 \<Rightarrow> (bool \<times> u16) option" where
  "stale_run ad s =
     do {
       (_, c, _) \<leftarrow> reorder_frame ad sample_ctrl (sample_seq 4);
       (_, c, _) \<leftarrow> reorder_frame ad c (sample_seq 6);
       cs \<leftarrow> process_addba_req ad 0 (Some [c]);
       (_, c, _) \<leftarrow> reorder_frame ad (cs ! 0) (sample_seq 3000);
       (c, _) \<leftarrow> rtw_reordering_ctrl_timeout_handler ad c;
       (ok, c, _) \<leftarrow> reorder_frame ad c (sample_seq s);
       Some (ok, ro_indicate_seq c)
     }"

theorem addba_keeps_stale_frames: "stale_run sample_adapter 3001 = Some (False, 7)"
  by (simp add: stale_run_def reorder_frame_def check_indicate_seq_def sample_seq_def sample_attrib_def sample_ctrl_def
    SN_LESS_def SN_EQUAL_def recv_indicatepkts_in_order_def rtw_reordering_ctrl_timeout_handler_def sample_adapter_def
    indicate_one_def process_addba_req_def Let_def)

end
