(* ===== verification/Rtw_Sta.thy ===== *)
theory Rtw_Sta
  imports Rtw_Reorder Rtw_Sec_Frames
begin

unbundle bit_operations_syntax

text \<open>
  The station table of \<^verbatim>\<open>core/rtw_sta_mgt.c\<close> and the transmit queues of \<^verbatim>\<open>core/rtw_xmit.c\<close>, which
  share the stations. A station is an offset into the pool of \<^verbatim>\<open>NUM_STA\<close> entries; a list of
  stations (the free queue, a hash bucket, the stations with pending frames of an access
  category) is a list of offsets, and a frame queue a list of frames. \<open>sa_lock\<close> counts how often
  the lock of the table is held.
\<close>

section \<open>State\<close>

definition NUM_STA :: nat where "NUM_STA = 32"

text \<open>\<^verbatim>\<open>ext_tag\<close> is 0 or 1; \<open>xf_alloc_addr\<close> says whether the frame was allocated on its own.\<close>

record xframe =
  xf_nr :: nat
  xf_ext_tag :: bool
  xf_alloc_addr :: bool
  xf_priority :: nat
  xf_psta :: "nat option"
  xf_ra :: bytes

record tx_servq =
  sq_pending :: "xframe list"
  sq_qcnt :: int

text \<open>The queues of a station and of the hardware are numbered as \<^verbatim>\<open>hwxmits\<close>: 0 VO, 1 VI, 2 BE, 3 BK.\<close>

record station =
  st_hwaddr :: bytes
  st_aid :: nat
  st_state :: u32
  st_mac_id :: nat
  st_txq :: "nat \<Rightarrow> tx_servq"
  st_sleep_q :: "xframe list"
  st_sleepq_len :: nat
  st_reorder :: "recv_reorder_ctrl list"
  st_tid_rxseq :: "u16 list"
  st_expire_to :: nat
  st_RxMgmtFrameSeqNum :: u16

record sta_adapter =
  sa_sta :: "nat \<Rightarrow> station"
  sa_free :: "nat list"
  sa_hash :: "nat \<Rightarrow> nat list"
  sa_asoc_sta_count :: int
  sa_lock :: int
  sa_auth_list :: "nat list"
  sa_auth_list_cnt :: u8
  sa_sta_aid :: "nat \<Rightarrow> nat option"
  sa_sta_dz_bitmap :: u16
  sa_tim_bitmap :: u16
  sa_sta_queue :: "nat \<Rightarrow> nat list"
  sa_accnt :: "nat \<Rightarrow> int"
  sa_free_xmit_queue :: "xframe list"
  sa_free_xmitframe_cnt :: int
  sa_free_xframe_ext_queue :: "xframe list"
  sa_free_xframe_ext_cnt :: int
  sa_free_recv_queue :: "rxframe list"
  sa_free_recvframe_cnt :: int

section \<open>Transmit frames\<close>

definition init_txservq :: tx_servq where
  "init_txservq = \<lparr>sq_pending = [], sq_qcnt = 0\<rparr>"

text \<open>
  The frames and queues of \<^verbatim>\<open>_rtw_init_xmit_priv\<close>, after its memory was allocated: the frames are
  numbered, those of the extension pool after the others. The transmit buffers are left out.
\<close>

definition NR_XMITFRAME :: nat where "NR_XMITFRAME = 256"
definition NR_XMIT_EXTBUFF :: nat where "NR_XMIT_EXTBUFF = 32"

definition new_xframe :: "bool \<Rightarrow> nat \<Rightarrow> xframe" where
  "new_xframe ext n = \<lparr>xf_nr = n, xf_ext_tag = ext, xf_alloc_addr = False, xf_priority = 0, xf_psta = None, xf_ra = replicate 6 0\<rparr>"

definition rtw_init_xmit_priv :: "sta_adapter \<Rightarrow> sta_adapter" where
  "rtw_init_xmit_priv st =
     st\<lparr>sa_sta_queue := (\<lambda>ac. []),
       sa_free_xmit_queue := map (new_xframe False) [0..<NR_XMITFRAME], sa_free_xmitframe_cnt := int NR_XMITFRAME,
       sa_free_xframe_ext_queue := map (new_xframe True) [NR_XMITFRAME..<NR_XMITFRAME + NR_XMIT_EXTBUFF],
       sa_free_xframe_ext_cnt := int NR_XMIT_EXTBUFF,
       sa_accnt := (\<lambda>ac. if ac < 4 then 0 else sa_accnt st ac)\<rparr>"

definition rtw_init_xmitframe :: "xframe \<Rightarrow> xframe" where
  "rtw_init_xmitframe f = f\<lparr>xf_priority := 0, xf_psta := None, xf_ra := replicate 6 0\<rparr>"

definition rtw_alloc_xmitframe :: "sta_adapter \<Rightarrow> xframe option \<times> sta_adapter" where
  "rtw_alloc_xmitframe st =
     (case sa_free_xmit_queue st of [] \<Rightarrow> (None, st)
      | f # q \<Rightarrow> (Some (rtw_init_xmitframe f),
          st\<lparr>sa_free_xmit_queue := q, sa_free_xmitframe_cnt := sa_free_xmitframe_cnt st - 1\<rparr>))"

definition rtw_alloc_xmitframe_ext :: "sta_adapter \<Rightarrow> xframe option \<times> sta_adapter" where
  "rtw_alloc_xmitframe_ext st =
     (case sa_free_xframe_ext_queue st of [] \<Rightarrow> (None, st)
      | f # q \<Rightarrow> (Some (rtw_init_xmitframe f),
          st\<lparr>sa_free_xframe_ext_queue := q, sa_free_xframe_ext_cnt := sa_free_xframe_ext_cnt st - 1\<rparr>))"

definition rtw_free_xmitframe :: "xframe \<Rightarrow> sta_adapter \<Rightarrow> sta_adapter" where
  "rtw_free_xmitframe f st =
     (if xf_alloc_addr f then st
      else if \<not> xf_ext_tag f then
        st\<lparr>sa_free_xmit_queue := sa_free_xmit_queue st @ [f], sa_free_xmitframe_cnt := sa_free_xmitframe_cnt st + 1\<rparr>
      else
        st\<lparr>sa_free_xframe_ext_queue := sa_free_xframe_ext_queue st @ [f],
          sa_free_xframe_ext_cnt := sa_free_xframe_ext_cnt st + 1\<rparr>)"

text \<open>
  \<^verbatim>\<open>rtw_free_xmitframe_queue\<close>, with the queue it leaves: a frame that was allocated on its own is
  released without being taken out.
\<close>

definition rtw_free_xmitframe_queue :: "xframe list \<Rightarrow> sta_adapter \<Rightarrow> xframe list \<times> sta_adapter" where
  "rtw_free_xmitframe_queue q st = (filter xf_alloc_addr q, fold rtw_free_xmitframe q st)"

section \<open>Stations\<close>

definition wifi_mac_hash :: "bytes \<Rightarrow> u32" where
  "wifi_mac_hash mac =
     (let x = ucast (mac ! 0);
          x = push_bit 2 x XOR ucast (mac ! 1);
          x = push_bit 2 x XOR ucast (mac ! 2);
          x = push_bit 2 x XOR ucast (mac ! 3);
          x = push_bit 2 x XOR ucast (mac ! 4);
          x = push_bit 2 x XOR ucast (mac ! 5);
          x = x XOR drop_bit 8 x
      in x AND (of_nat NUM_STA - 1))"

definition reorder_zero :: recv_reorder_ctrl where
  "reorder_zero = \<lparr>ro_enable = False, ro_indicate_seq = 0, ro_wend_b = 0, ro_wsize_b = 0, ro_pending = [], ro_timer = False\<rparr>"

definition rtw_init_stainfo :: station where
  "rtw_init_stainfo =
     \<lparr>st_hwaddr = replicate 6 0, st_aid = 0, st_state = 0, st_mac_id = 0, st_txq = (\<lambda>ac. init_txservq), st_sleep_q = [],
      st_sleepq_len = 0, st_reorder = replicate 16 reorder_zero, st_tid_rxseq = replicate 16 0, st_expire_to = 0,
      st_RxMgmtFrameSeqNum = 0\<rparr>"

text \<open>\<^verbatim>\<open>_rtw_init_sta_priv\<close> after the allocation of the pool; the transmit side keeps what it has.\<close>

definition rtw_init_sta_priv :: "sta_adapter \<Rightarrow> sta_adapter" where
  "rtw_init_sta_priv st =
     st\<lparr>sa_sta := (\<lambda>s. if s < NUM_STA then rtw_init_stainfo else sa_sta st s), sa_free := [0..<NUM_STA], sa_hash := (\<lambda>i. []),
       sa_asoc_sta_count := 0, sa_lock := 0, sa_auth_list := [], sa_auth_list_cnt := 0, sa_sta_aid := (\<lambda>i. None),
       sa_sta_dz_bitmap := 0, sa_tim_bitmap := 0\<rparr>"

definition reorder_init :: recv_reorder_ctrl where
  "reorder_init = reorder_zero\<lparr>ro_enable := False, ro_indicate_seq := 0xFFFF, ro_wend_b := 0xFFFF, ro_wsize_b := 64\<rparr>"

definition rtw_alloc_stainfo :: "sta_adapter \<Rightarrow> bytes \<Rightarrow> nat option \<times> sta_adapter" where
  "rtw_alloc_stainfo st hwaddr =
     (let st = st\<lparr>sa_lock := sa_lock st + 1\<rparr> in
      case sa_free st of
        [] \<Rightarrow> (let st = st\<lparr>sa_lock := sa_lock st - 1\<rparr> in (None, st\<lparr>sa_lock := sa_lock st - 1\<rparr>))
      | psta # fr \<Rightarrow>
          let sta = rtw_init_stainfo\<lparr>st_hwaddr := take 6 hwaddr\<rparr>;
              index = unat (wifi_mac_hash hwaddr)
          in if index \<ge> NUM_STA then
               (None, st\<lparr>sa_free := fr, sa_sta := (sa_sta st)(psta := sta), sa_lock := sa_lock st - 1\<rparr>)
             else
               (Some psta, st\<lparr>sa_free := fr,
                  sa_sta := (sa_sta st)(psta := sta\<lparr>st_tid_rxseq := replicate 16 0xFFFF, st_reorder := replicate 16 reorder_init,
                    st_RxMgmtFrameSeqNum := 0xFFFF\<rparr>),
                  sa_hash := (sa_hash st)(index := sa_hash st index @ [psta]),
                  sa_asoc_sta_count := sa_asoc_sta_count st + 1,
                  sa_lock := sa_lock st - 1\<rparr>))"

text \<open>The part of \<^verbatim>\<open>rtw_free_stainfo\<close> for one access category.\<close>

definition free_txq :: "nat \<Rightarrow> nat \<Rightarrow> sta_adapter \<Rightarrow> sta_adapter" where
  "free_txq psta ac st =
     (let sq = st_txq (sa_sta st psta) ac;
          (q, st) = rtw_free_xmitframe_queue (sq_pending sq) st;
          sta = sa_sta st psta
      in st\<lparr>sa_sta_queue := (sa_sta_queue st)(ac := remove1 psta (sa_sta_queue st ac)),
           sa_accnt := (sa_accnt st)(ac := sa_accnt st ac - sq_qcnt sq),
           sa_sta := (sa_sta st)(psta := sta\<lparr>st_txq := (st_txq sta)(ac := \<lparr>sq_pending = q, sq_qcnt = 0\<rparr>)\<rparr>)\<rparr>)"

text \<open>The parts of \<^verbatim>\<open>rtw_free_stainfo\<close>: the frames to send, the frames that wait to be put in order, the access point.\<close>

definition free_sta_xmit :: "nat \<Rightarrow> sta_adapter \<Rightarrow> sta_adapter" where
  "free_sta_xmit p st =
     (let (q, st) = rtw_free_xmitframe_queue (st_sleep_q (sa_sta st p)) st;
          st = st\<lparr>sa_sta := (sa_sta st)(p := (sa_sta st p)\<lparr>st_sleep_q := q, st_sleepq_len := 0\<rparr>)\<rparr>
      in free_txq p 3 (free_txq p 2 (free_txq p 1 (free_txq p 0 st))))"

definition reorder_cancel :: "recv_reorder_ctrl \<Rightarrow> recv_reorder_ctrl" where
  "reorder_cancel c = c\<lparr>ro_timer := False, ro_pending := []\<rparr>"

definition free_sta_reorder :: "nat \<Rightarrow> sta_adapter \<Rightarrow> sta_adapter" where
  "free_sta_reorder p st =
     (let sta = sa_sta st p;
          fs = concat (map ro_pending (st_reorder sta))
      in st\<lparr>sa_free_recv_queue := sa_free_recv_queue st @ fs,
           sa_free_recvframe_cnt := sa_free_recvframe_cnt st + int (length fs),
           sa_sta := (sa_sta st)(p := sta\<lparr>st_reorder := map reorder_cancel (st_reorder sta)\<rparr>)\<rparr>)"

definition BIT16 :: "nat \<Rightarrow> u16" where
  "BIT16 n = push_bit n 1"

definition free_sta_ap :: "nat \<Rightarrow> sta_adapter \<Rightarrow> sta_adapter" where
  "free_sta_ap p st =
     (let st = (if p \<in> set (sa_auth_list st) then
                  st\<lparr>sa_auth_list := remove1 p (sa_auth_list st), sa_auth_list_cnt := sa_auth_list_cnt st - 1\<rparr>
                else st);
          aid = st_aid (sa_sta st p);
          st = st\<lparr>sa_sta := (sa_sta st)(p := (sa_sta st p)\<lparr>st_expire_to := 0\<rparr>),
            sa_sta_dz_bitmap := sa_sta_dz_bitmap st AND NOT (BIT16 aid), sa_tim_bitmap := sa_tim_bitmap st AND NOT (BIT16 aid)\<rparr>
      in if aid > 0 \<and> sa_sta_aid st (aid - 1) = Some p then
           st\<lparr>sa_sta_aid := (sa_sta_aid st)(aid - 1 := None), sa_sta := (sa_sta st)(p := (sa_sta st p)\<lparr>st_aid := 0\<rparr>)\<rparr>
         else st)"

definition rtw_free_stainfo :: "sta_adapter \<Rightarrow> nat option \<Rightarrow> sta_adapter" where
  "rtw_free_stainfo st psta =
     (case psta of None \<Rightarrow> st
      | Some p \<Rightarrow>
          let st = st\<lparr>sa_sta := (sa_sta st)(p := (sa_sta st p)\<lparr>st_state := st_state (sa_sta st p) AND NOT C_FW_LINKED\<rparr>)\<rparr>;
              st = free_sta_xmit p st;
              st = st\<lparr>sa_hash := (\<lambda>i. remove1 p (sa_hash st i)), sa_asoc_sta_count := sa_asoc_sta_count st - 1\<rparr>;
              st = free_sta_reorder p st;
              st = free_sta_ap p st
          in st\<lparr>sa_free := sa_free st @ [p]\<rparr>)"

definition bc_addr :: bytes where "bc_addr = replicate 6 0xFF"

definition rtw_get_stainfo :: "sta_adapter \<Rightarrow> bytes option \<Rightarrow> nat option" where
  "rtw_get_stainfo st hwaddr =
     (case hwaddr of None \<Rightarrow> None
      | Some hwaddr \<Rightarrow>
          let addr = (if IS_MCAST hwaddr then bc_addr else hwaddr)
          in find (\<lambda>s. st_hwaddr (sa_sta st s) = take 6 addr) (sa_hash st (unat (wifi_mac_hash addr))))"

definition rtw_get_bcmc_stainfo :: "sta_adapter \<Rightarrow> nat option" where
  "rtw_get_bcmc_stainfo st = rtw_get_stainfo st (Some bc_addr)"

definition rtw_init_bcmc_stainfo :: "sta_adapter \<Rightarrow> bool \<times> sta_adapter" where
  "rtw_init_bcmc_stainfo st =
     (case rtw_alloc_stainfo st bc_addr of
        (None, st) \<Rightarrow> (True, st)
      | (Some p, st) \<Rightarrow> (True, st\<lparr>sa_sta := (sa_sta st)(p := (sa_sta st p)\<lparr>st_mac_id := 1\<rparr>)\<rparr>))"

text \<open>
  The bucket that is walked is read before the stations are freed; each one unlinks only itself.
\<close>

definition free_bucket :: "nat option \<Rightarrow> nat \<Rightarrow> sta_adapter \<Rightarrow> sta_adapter" where
  "free_bucket bcmc index st =
     fold (\<lambda>p st. if bcmc \<noteq> Some p then rtw_free_stainfo st (Some p) else st) (sa_hash st index) st"

definition rtw_free_all_stainfo :: "sta_adapter \<Rightarrow> sta_adapter" where
  "rtw_free_all_stainfo st =
     (let bcmc = rtw_get_bcmc_stainfo st in
      if sa_asoc_sta_count st = 1 then st
      else fold (free_bucket bcmc) [0..<NUM_STA] st)"

text \<open>The access control list: mode 1 accepts unless listed, mode 2 denies unless listed.\<close>

record acl_node =
  acl_addr :: bytes
  acl_valid :: bool

definition rtw_access_ctrl :: "int \<Rightarrow> acl_node list \<Rightarrow> bytes \<Rightarrow> bool" where
  "rtw_access_ctrl mode acl mac_addr =
     (let hit = list_ex (\<lambda>n. acl_addr n = take 6 mac_addr \<and> acl_valid n) acl
      in if mode = 1 then \<not> hit else if mode = 2 then hit else True)"

section \<open>Transmit queues\<close>

definition rtw_get_sta_pending :: "nat \<Rightarrow> nat" where
  "rtw_get_sta_pending up =
     (if up = 1 \<or> up = 2 then 3 else if up = 4 \<or> up = 5 then 1 else if up = 6 \<or> up = 7 then 0 else 2)"

definition rtw_xmit_classifier :: "sta_adapter \<Rightarrow> xframe \<Rightarrow> bool \<times> sta_adapter" where
  "rtw_xmit_classifier st f =
     (let psta = (case xf_psta f of Some p \<Rightarrow> Some p | None \<Rightarrow> rtw_get_stainfo st (Some (xf_ra f))) in
      case psta of None \<Rightarrow> (False, st)
      | Some p \<Rightarrow>
          let sta = sa_sta st p in
          if st_state sta AND C_FW_LINKED = 0 then (False, st)
          else
            let ac = rtw_get_sta_pending (xf_priority f);
                sq = st_txq sta ac;
                st = (if p \<notin> set (sa_sta_queue st ac) then st\<lparr>sa_sta_queue := (sa_sta_queue st)(ac := sa_sta_queue st ac @ [p])\<rparr> else st)
            in (True, st\<lparr>
                 sa_sta := (sa_sta st)(p := sta\<lparr>st_txq := (st_txq sta)
                   (ac := \<lparr>sq_pending = sq_pending sq @ [f], sq_qcnt = sq_qcnt sq + 1\<rparr>)\<rparr>),
                 sa_accnt := (sa_accnt st)(ac := sa_accnt st ac + 1)\<rparr>))"

definition rtw_xmitframe_enqueue :: "sta_adapter \<Rightarrow> xframe \<Rightarrow> bool \<times> sta_adapter" where
  "rtw_xmitframe_enqueue st f =
     (case rtw_xmit_classifier st f of (ok, st) \<Rightarrow> (if \<not> ok then False else True, st))"

definition dequeue_one_xmitframe :: "tx_servq \<Rightarrow> xframe option \<times> tx_servq" where
  "dequeue_one_xmitframe sq =
     (case sq_pending sq of [] \<Rightarrow> (None, sq)
      | f # q \<Rightarrow> (Some f, \<lparr>sq_pending = q, sq_qcnt = sq_qcnt sq - 1\<rparr>))"

text \<open>The walk over the stations with pending frames of an access category.\<close>

fun dequeue_stations :: "sta_adapter \<Rightarrow> nat \<Rightarrow> nat list \<Rightarrow> xframe option \<times> sta_adapter" where
  "dequeue_stations st ac [] = (None, st)"
| "dequeue_stations st ac (p # ps) =
     (let sta = sa_sta st p in
      case dequeue_one_xmitframe (st_txq sta ac) of
        (None, _) \<Rightarrow> dequeue_stations st ac ps
      | (Some f, sq) \<Rightarrow>
          (Some f, st\<lparr>
             sa_sta := (sa_sta st)(p := sta\<lparr>st_txq := (st_txq sta)(ac := sq)\<rparr>),
             sa_accnt := (sa_accnt st)(ac := sa_accnt st ac - 1),
             sa_sta_queue := (if sq_pending sq = [] then (sa_sta_queue st)(ac := remove1 p (sa_sta_queue st ac)) else sa_sta_queue st)\<rparr>))"

fun dequeue_acs :: "sta_adapter \<Rightarrow> nat list \<Rightarrow> xframe option \<times> sta_adapter" where
  "dequeue_acs st [] = (None, st)"
| "dequeue_acs st (ac # acs) =
     (case dequeue_stations st ac (sa_sta_queue st ac) of
        (None, st) \<Rightarrow> dequeue_acs st acs
      | (Some f, st) \<Rightarrow> (Some f, st))"

text \<open>The exchange sort of \<^verbatim>\<open>acirp_cnt\<close> that carries \<^verbatim>\<open>inx\<close> along.\<close>

definition exchange :: "nat \<times> nat \<Rightarrow> (int \<times> nat) list \<Rightarrow> (int \<times> nat) list" where
  "exchange ij xs = (case ij of (i, j) \<Rightarrow> if fst (xs ! j) < fst (xs ! i) then xs[i := xs ! j, j := xs ! i] else xs)"

definition exchange_sort :: "(int \<times> nat) list \<Rightarrow> (int \<times> nat) list" where
  "exchange_sort xs = fold exchange [(0, 1), (0, 2), (0, 3), (1, 2), (1, 3), (2, 3)] xs"

definition rtw_dequeue_xframe :: "sta_adapter \<Rightarrow> bool \<Rightarrow> int list \<Rightarrow> nat \<Rightarrow> xframe option \<times> sta_adapter" where
  "rtw_dequeue_xframe st wifi_spec cnts entry =
     (let inx = (if wifi_spec then map snd (exchange_sort (zip cnts [0, 1, 2, 3])) else [0, 1, 2, 3])
      in dequeue_acs st (take entry inx))"

end
