(* ===== verification/Rtw_Sta_Props.thy ===== *)
theory Rtw_Sta_Props
  imports Rtw_Sta "HOL-Library.Multiset"
begin

unbundle bit_operations_syntax

text \<open>
  The invariant of the station table and of the transmit queues, that every operation keeps it, and
  what follows from it: the table is a set of addresses, the queues serve every waiting frame, and
  no transmit frame is lost or held twice.
\<close>

section \<open>Freeing frames and stations\<close>

definition pool_frames :: "bool \<Rightarrow> xframe list \<Rightarrow> xframe list" where
  "pool_frames ext q = filter (\<lambda>f. \<not> xf_alloc_addr f \<and> xf_ext_tag f = ext) q"

lemma pool_frames_simps [simp]:
  "pool_frames e [] = []"
  "pool_frames e (f # q) = (if \<not> xf_alloc_addr f \<and> xf_ext_tag f = e then f # pool_frames e q else pool_frames e q)"
  "pool_frames e (q @ q') = pool_frames e q @ pool_frames e q'"
  by (simp_all add: pool_frames_def)

lemma fold_free_xmitframe:
  "fold rtw_free_xmitframe q st =
     st\<lparr>sa_free_xmit_queue := sa_free_xmit_queue st @ pool_frames False q,
       sa_free_xmitframe_cnt := sa_free_xmitframe_cnt st + int (length (pool_frames False q)),
       sa_free_xframe_ext_queue := sa_free_xframe_ext_queue st @ pool_frames True q,
       sa_free_xframe_ext_cnt := sa_free_xframe_ext_cnt st + int (length (pool_frames True q))\<rparr>"
  by (induction q arbitrary: st) (simp_all add: rtw_free_xmitframe_def)

lemma free_txq_eq:
  "free_txq p ac st =
     (let sq = st_txq (sa_sta st p) ac; q = sq_pending sq in
      st\<lparr>sa_free_xmit_queue := sa_free_xmit_queue st @ pool_frames False q,
       sa_free_xmitframe_cnt := sa_free_xmitframe_cnt st + int (length (pool_frames False q)),
       sa_free_xframe_ext_queue := sa_free_xframe_ext_queue st @ pool_frames True q,
       sa_free_xframe_ext_cnt := sa_free_xframe_ext_cnt st + int (length (pool_frames True q)),
       sa_sta_queue := (sa_sta_queue st)(ac := remove1 p (sa_sta_queue st ac)),
       sa_accnt := (sa_accnt st)(ac := sa_accnt st ac - sq_qcnt sq),
       sa_sta := (sa_sta st)(p := (sa_sta st p)\<lparr>st_txq := (st_txq (sa_sta st p))(ac := \<lparr>sq_pending = filter xf_alloc_addr q, sq_qcnt = 0\<rparr>)\<rparr>)\<rparr>)"
  by (simp add: free_txq_def rtw_free_xmitframe_queue_def fold_free_xmitframe Let_def)

text \<open>The frames that wait for a station, in the order in which \<^const>\<open>rtw_free_stainfo\<close> takes them.\<close>

definition sta_frames :: "station \<Rightarrow> xframe list" where
  "sta_frames sta = st_sleep_q sta @ concat (map (\<lambda>ac. sq_pending (st_txq sta ac)) [0, 1, 2, 3])"

lemma sta_frames_simps [simp]:
  "sta_frames (sta\<lparr>st_state := s\<rparr>) = sta_frames sta"
  by (simp add: sta_frames_def)

lemma free_txq_fields [simp]:
  "st_state (sa_sta (free_txq p ac st) q) = st_state (sa_sta st q)"
  "sa_free (free_txq p ac st) = sa_free st" "sa_hash (free_txq p ac st) = sa_hash st"
  "sa_asoc_sta_count (free_txq p ac st) = sa_asoc_sta_count st" "sa_lock (free_txq p ac st) = sa_lock st"
  "sa_sta_queue (free_txq p ac st) b = (if b = ac then remove1 p (sa_sta_queue st ac) else sa_sta_queue st b)"
  "sa_accnt (free_txq p ac st) b = (if b = ac then sa_accnt st ac - sq_qcnt (st_txq (sa_sta st p) ac) else sa_accnt st b)"
  "sa_free_xmit_queue (free_txq p ac st) = sa_free_xmit_queue st @ pool_frames False (sq_pending (st_txq (sa_sta st p) ac))"
  "sa_free_xframe_ext_queue (free_txq p ac st) = sa_free_xframe_ext_queue st @ pool_frames True (sq_pending (st_txq (sa_sta st p) ac))"
  "sa_free_xmitframe_cnt (free_txq p ac st) = sa_free_xmitframe_cnt st + int (length (pool_frames False (sq_pending (st_txq (sa_sta st p) ac))))"
  "sa_free_xframe_ext_cnt (free_txq p ac st) = sa_free_xframe_ext_cnt st + int (length (pool_frames True (sq_pending (st_txq (sa_sta st p) ac))))"
  "q \<noteq> p \<Longrightarrow> sa_sta (free_txq p ac st) q = sa_sta st q"
  "st_sleep_q (sa_sta (free_txq p ac st) p) = st_sleep_q (sa_sta st p)"
  "st_hwaddr (sa_sta (free_txq p ac st) p) = st_hwaddr (sa_sta st p)"
  "st_txq (sa_sta (free_txq p ac st) p) b = (if b = ac then \<lparr>sq_pending = filter xf_alloc_addr (sq_pending (st_txq (sa_sta st p) ac)), sq_qcnt = 0\<rparr>
     else st_txq (sa_sta st p) b)"
  by (simp_all add: free_txq_eq Let_def)

lemma ac_less_4: "ac < 4 \<longleftrightarrow> ac = 0 \<or> ac = 1 \<or> ac = 2 \<or> ac = 3" for ac :: nat
  by linarith

lemma free_sta_xmit_fields [simp]:
  "st_state (sa_sta (free_sta_xmit p st) q) = st_state (sa_sta st q)"
  "sa_free (free_sta_xmit p st) = sa_free st" "sa_hash (free_sta_xmit p st) = sa_hash st"
  "sa_asoc_sta_count (free_sta_xmit p st) = sa_asoc_sta_count st" "sa_lock (free_sta_xmit p st) = sa_lock st"
  "sa_sta_queue (free_sta_xmit p st) b = (if b < 4 then remove1 p (sa_sta_queue st b) else sa_sta_queue st b)"
  "sa_accnt (free_sta_xmit p st) b = (if b < 4 then sa_accnt st b - sq_qcnt (st_txq (sa_sta st p) b) else sa_accnt st b)"
  "sa_free_xmit_queue (free_sta_xmit p st) = sa_free_xmit_queue st @ pool_frames False (sta_frames (sa_sta st p))"
  "sa_free_xframe_ext_queue (free_sta_xmit p st) = sa_free_xframe_ext_queue st @ pool_frames True (sta_frames (sa_sta st p))"
  "sa_free_xmitframe_cnt (free_sta_xmit p st) = sa_free_xmitframe_cnt st + int (length (pool_frames False (sta_frames (sa_sta st p))))"
  "sa_free_xframe_ext_cnt (free_sta_xmit p st) = sa_free_xframe_ext_cnt st + int (length (pool_frames True (sta_frames (sa_sta st p))))"
  "q \<noteq> p \<Longrightarrow> sa_sta (free_sta_xmit p st) q = sa_sta st q"
  "st_sleep_q (sa_sta (free_sta_xmit p st) p) = filter xf_alloc_addr (st_sleep_q (sa_sta st p))"
  "st_hwaddr (sa_sta (free_sta_xmit p st) p) = st_hwaddr (sa_sta st p)"
  "b < 4 \<Longrightarrow> st_txq (sa_sta (free_sta_xmit p st) p) b = \<lparr>sq_pending = filter xf_alloc_addr (sq_pending (st_txq (sa_sta st p) b)), sq_qcnt = 0\<rparr>"
  by (auto simp: free_sta_xmit_def rtw_free_xmitframe_queue_def fold_free_xmitframe sta_frames_def Let_def ac_less_4)

lemma free_sta_reorder_fields [simp]:
  "st_state (sa_sta (free_sta_reorder p st) q) = st_state (sa_sta st q)"
  "sa_free (free_sta_reorder p st) = sa_free st" "sa_hash (free_sta_reorder p st) = sa_hash st"
  "sa_asoc_sta_count (free_sta_reorder p st) = sa_asoc_sta_count st" "sa_lock (free_sta_reorder p st) = sa_lock st"
  "sa_sta_queue (free_sta_reorder p st) = sa_sta_queue st" "sa_accnt (free_sta_reorder p st) = sa_accnt st"
  "sa_free_xmit_queue (free_sta_reorder p st) = sa_free_xmit_queue st"
  "sa_free_xframe_ext_queue (free_sta_reorder p st) = sa_free_xframe_ext_queue st"
  "sa_free_xmitframe_cnt (free_sta_reorder p st) = sa_free_xmitframe_cnt st"
  "sa_free_xframe_ext_cnt (free_sta_reorder p st) = sa_free_xframe_ext_cnt st"
  "q \<noteq> p \<Longrightarrow> sa_sta (free_sta_reorder p st) q = sa_sta st q"
  "st_sleep_q (sa_sta (free_sta_reorder p st) q) = st_sleep_q (sa_sta st q)"
  "st_hwaddr (sa_sta (free_sta_reorder p st) q) = st_hwaddr (sa_sta st q)"
  "st_txq (sa_sta (free_sta_reorder p st) q) = st_txq (sa_sta st q)"
  by (simp_all add: free_sta_reorder_def Let_def)

lemma free_sta_ap_fields [simp]:
  "st_state (sa_sta (free_sta_ap p st) q) = st_state (sa_sta st q)"
  "sa_free (free_sta_ap p st) = sa_free st" "sa_hash (free_sta_ap p st) = sa_hash st"
  "sa_asoc_sta_count (free_sta_ap p st) = sa_asoc_sta_count st" "sa_lock (free_sta_ap p st) = sa_lock st"
  "sa_sta_queue (free_sta_ap p st) = sa_sta_queue st" "sa_accnt (free_sta_ap p st) = sa_accnt st"
  "sa_free_xmit_queue (free_sta_ap p st) = sa_free_xmit_queue st"
  "sa_free_xframe_ext_queue (free_sta_ap p st) = sa_free_xframe_ext_queue st"
  "sa_free_xmitframe_cnt (free_sta_ap p st) = sa_free_xmitframe_cnt st"
  "sa_free_xframe_ext_cnt (free_sta_ap p st) = sa_free_xframe_ext_cnt st"
  "q \<noteq> p \<Longrightarrow> sa_sta (free_sta_ap p st) q = sa_sta st q"
  "st_sleep_q (sa_sta (free_sta_ap p st) q) = st_sleep_q (sa_sta st q)"
  "st_hwaddr (sa_sta (free_sta_ap p st) q) = st_hwaddr (sa_sta st q)"
  "st_txq (sa_sta (free_sta_ap p st) q) = st_txq (sa_sta st q)"
  by (simp_all add: free_sta_ap_def Let_def)

lemma free_stainfo_fields [simp]:
  fixes st p defines "st' \<equiv> rtw_free_stainfo st (Some p)"
  shows "sa_free st' = sa_free st @ [p]"
    and "sa_hash st' = (\<lambda>i. remove1 p (sa_hash st i))"
    and "sa_asoc_sta_count st' = sa_asoc_sta_count st - 1"
    and "sa_lock st' = sa_lock st"
    and "sa_sta_queue st' ac = (if ac < 4 then remove1 p (sa_sta_queue st ac) else sa_sta_queue st ac)"
    and "sa_accnt st' ac = (if ac < 4 then sa_accnt st ac - sq_qcnt (st_txq (sa_sta st p) ac) else sa_accnt st ac)"
    and "sa_free_xmit_queue st' = sa_free_xmit_queue st @ pool_frames False (sta_frames (sa_sta st p))"
    and "sa_free_xframe_ext_queue st' = sa_free_xframe_ext_queue st @ pool_frames True (sta_frames (sa_sta st p))"
    and "sa_free_xmitframe_cnt st' = sa_free_xmitframe_cnt st + int (length (pool_frames False (sta_frames (sa_sta st p))))"
    and "sa_free_xframe_ext_cnt st' = sa_free_xframe_ext_cnt st + int (length (pool_frames True (sta_frames (sa_sta st p))))"
    and "q \<noteq> p \<Longrightarrow> sa_sta st' q = sa_sta st q"
    and "st_sleep_q (sa_sta st' p) = filter xf_alloc_addr (st_sleep_q (sa_sta st p))"
    and "ac < 4 \<Longrightarrow> st_txq (sa_sta st' p) ac = \<lparr>sq_pending = filter xf_alloc_addr (sq_pending (st_txq (sa_sta st p) ac)), sq_qcnt = 0\<rparr>"
    and "st_hwaddr (sa_sta st' p) = st_hwaddr (sa_sta st p)"
    and "st_state (sa_sta st' p) = st_state (sa_sta st p) AND NOT C_FW_LINKED"
  by (simp_all add: st'_def rtw_free_stainfo_def Let_def)

section \<open>The invariant\<close>

definition allocated :: "sta_adapter \<Rightarrow> nat list" where
  "allocated st = concat (map (sa_hash st) [0..<NUM_STA])"

definition pending :: "sta_adapter \<Rightarrow> nat \<Rightarrow> nat \<Rightarrow> xframe list" where
  "pending st p ac = sq_pending (st_txq (sa_sta st p) ac)"

definition table_ok :: "sta_adapter \<Rightarrow> bool" where
  "table_ok st \<longleftrightarrow>
     mset (sa_free st @ allocated st) = mset [0..<NUM_STA] \<and>
     list_all (\<lambda>i. list_all (\<lambda>p. unat (wifi_mac_hash (st_hwaddr (sa_sta st p))) = i \<and> length (st_hwaddr (sa_sta st p)) = 6)
       (sa_hash st i)) [0..<NUM_STA] \<and>
     distinct (map (\<lambda>p. st_hwaddr (sa_sta st p)) (allocated st)) \<and>
     sa_asoc_sta_count st = int (length (allocated st)) \<and>
     list_all (\<lambda>p. st_state (sa_sta st p) AND C_FW_LINKED = 0 \<and> sta_frames (sa_sta st p) = []) (sa_free st)"

definition servq_ok :: "sta_adapter \<Rightarrow> nat \<Rightarrow> bool" where
  "servq_ok st ac \<longleftrightarrow>
     distinct (sa_sta_queue st ac) \<and> list_all (\<lambda>p. p < NUM_STA) (sa_sta_queue st ac) \<and>
     list_all (\<lambda>p. (p \<in> set (sa_sta_queue st ac)) = (pending st p ac \<noteq> []) \<and>
       sq_qcnt (st_txq (sa_sta st p) ac) = int (length (pending st p ac))) [0..<NUM_STA] \<and>
     sa_accnt st ac = (\<Sum>p\<leftarrow>[0..<NUM_STA]. int (length (pending st p ac)))"

definition frame_ok :: "xframe \<Rightarrow> bool" where
  "frame_ok f \<longleftrightarrow> \<not> xf_alloc_addr f \<and> pred_option (\<lambda>p. p < NUM_STA) (xf_psta f)"

definition xmit_ok :: "sta_adapter \<Rightarrow> bool" where
  "xmit_ok st \<longleftrightarrow>
     list_all (servq_ok st) [0..<4] \<and>
     list_all (\<lambda>p. list_all frame_ok (sta_frames (sa_sta st p))) [0..<NUM_STA] \<and>
     list_all (\<lambda>f. \<not> xf_alloc_addr f \<and> \<not> xf_ext_tag f) (sa_free_xmit_queue st) \<and>
     list_all (\<lambda>f. \<not> xf_alloc_addr f \<and> xf_ext_tag f) (sa_free_xframe_ext_queue st) \<and>
     sa_free_xmitframe_cnt st = int (length (sa_free_xmit_queue st)) \<and>
     sa_free_xframe_ext_cnt st = int (length (sa_free_xframe_ext_queue st))"

text \<open>The numbers of the frames that a pool or a station holds.\<close>

definition all_frames :: "sta_adapter \<Rightarrow> nat multiset" where
  "all_frames st = image_mset xf_nr (mset (sa_free_xmit_queue st) + mset (sa_free_xframe_ext_queue st) +
     (\<Sum>p<NUM_STA. mset (sta_frames (sa_sta st p))))"

lemma sum_at:
  fixes f g :: "nat \<Rightarrow> 'a::comm_monoid_add"
  assumes "k < n" "\<And>i. i < n \<Longrightarrow> i \<noteq> k \<Longrightarrow> g i = f i" "g k = f k + d"
  shows "(\<Sum>i<n. g i) = (\<Sum>i<n. f i) + d"
proof -
  have "(\<Sum>i\<in>{..<n} - {k}. g i) = (\<Sum>i\<in>{..<n} - {k}. f i)" using assms(2) by (intro sum.cong) auto
  moreover have "k \<in> {..<n}" using assms(1) by simp
  ultimately show ?thesis using assms(3) by (simp add: sum.remove [of "{..<n}" k] ac_simps)
qed

lemma mset_allocated: "mset (allocated st) = (\<Sum>i<NUM_STA. mset (sa_hash st i))"
  by (simp add: allocated_def mset_concat comp_def interv_sum_list_conv_sum_set_nat atLeast0LessThan)

lemma hash_lt: "unat (wifi_mac_hash a) < NUM_STA"
proof -
  have "unat (x AND 31) < 32" for x :: u32
  proof -
    have "x AND 31 \<le> 31" by (rule word_and_le1)
    then have "unat (x AND 31) \<le> unat (31 :: u32)" by (simp only: word_le_nat_alt)
    then show ?thesis by simp
  qed
  then show ?thesis by (simp add: wifi_mac_hash_def NUM_STA_def Let_def)
qed

lemma hash_take [simp]: "length a = 6 \<Longrightarrow> wifi_mac_hash (take 6 a) = wifi_mac_hash a"
  by simp

lemma table_ok_hash:
  assumes "table_ok st" "i < NUM_STA" "p \<in> set (sa_hash st i)"
  shows "unat (wifi_mac_hash (st_hwaddr (sa_sta st p))) = i" "length (st_hwaddr (sa_sta st p)) = 6"
    "p \<in> set (allocated st)"
  using assms by (auto simp: table_ok_def list_all_iff allocated_def)

lemma table_ok_distinct:
  assumes "table_ok st"
  shows "distinct (sa_free st)" "distinct (allocated st)" "set (sa_free st) \<inter> set (allocated st) = {}"
    "set (sa_free st) \<union> set (allocated st) = {..<NUM_STA}"
proof -
  have m: "mset (sa_free st @ allocated st) = mset [0..<NUM_STA]" using assms by (simp add: table_ok_def)
  then have "distinct (sa_free st @ allocated st)" using mset_eq_imp_distinct_iff distinct_upt by blast
  then show "distinct (sa_free st)" "distinct (allocated st)" "set (sa_free st) \<inter> set (allocated st) = {}" by simp_all
  show "set (sa_free st) \<union> set (allocated st) = {..<NUM_STA}" using mset_eq_setD [OF m] by (simp add: atLeast0LessThan)
qed

lemma allocated_bucket:
  assumes "table_ok st" "p \<in> set (allocated st)"
  shows "p \<in> set (sa_hash st (unat (wifi_mac_hash (st_hwaddr (sa_sta st p)))))"
  using assms table_ok_hash(1) [OF assms(1)] by (auto simp: allocated_def)


section \<open>The station table as a map\<close>

lemma get_stainfo_Some:
  assumes ok: "table_ok st" and len: "length a = 6" and u: "\<not> IS_MCAST a \<or> a = bc_addr"
  shows "rtw_get_stainfo st (Some a) = Some p \<longleftrightarrow> p \<in> set (allocated st) \<and> st_hwaddr (sa_sta st p) = a"
proof -
  let ?b = "sa_hash st (unat (wifi_mac_hash a))"
  have g: "rtw_get_stainfo st (Some a) = find (\<lambda>s. st_hwaddr (sa_sta st s) = a) ?b"
    using u len by (auto simp: rtw_get_stainfo_def Let_def bc_addr_def)
  have inj: "inj_on (\<lambda>p. st_hwaddr (sa_sta st p)) (set (allocated st))"
    using ok by (auto simp: table_ok_def distinct_map)
  have sub: "q \<in> set (allocated st)" if "q \<in> set ?b" for q
    using table_ok_hash(3) [OF ok hash_lt that] .
  have bk: "q \<in> set ?b" if "q \<in> set (allocated st)" "st_hwaddr (sa_sta st q) = a" for q
    using allocated_bucket [OF ok that(1)] that(2) by simp
  show ?thesis
  proof
    assume "rtw_get_stainfo st (Some a) = Some p"
    then show "p \<in> set (allocated st) \<and> st_hwaddr (sa_sta st p) = a"
      unfolding g using sub by (auto simp: find_Some_iff)
  next
    assume r: "p \<in> set (allocated st) \<and> st_hwaddr (sa_sta st p) = a"
    then have "find (\<lambda>s. st_hwaddr (sa_sta st s) = a) ?b \<noteq> None" using bk by (auto simp: find_None_iff)
    then obtain q where q: "find (\<lambda>s. st_hwaddr (sa_sta st s) = a) ?b = Some q" by blast
    then have "q \<in> set ?b" "st_hwaddr (sa_sta st q) = a" by (auto simp: find_Some_iff)
    then have "q = p" using inj sub r unfolding inj_on_def by blast
    then show "rtw_get_stainfo st (Some a) = Some p" using q g by simp
  qed
qed

lemma get_stainfo_None:
  assumes "table_ok st" "length a = 6" "\<not> IS_MCAST a \<or> a = bc_addr"
  shows "rtw_get_stainfo st (Some a) = None \<longleftrightarrow> (\<forall>p\<in>set (allocated st). st_hwaddr (sa_sta st p) \<noteq> a)"
  using get_stainfo_Some [OF assms] by (metis not_None_eq)

lemma alloc_stainfo_eq:
  assumes "length a = 6"
  shows "rtw_alloc_stainfo st a =
    (case sa_free st of [] \<Rightarrow> (None, st\<lparr>sa_lock := sa_lock st - 1\<rparr>)
     | p # fr \<Rightarrow> (Some p, st\<lparr>sa_free := fr,
         sa_sta := (sa_sta st)(p := rtw_init_stainfo\<lparr>st_hwaddr := a, st_tid_rxseq := replicate 16 0xFFFF,
           st_reorder := replicate 16 reorder_init, st_RxMgmtFrameSeqNum := 0xFFFF\<rparr>),
         sa_hash := (sa_hash st)(unat (wifi_mac_hash a) := sa_hash st (unat (wifi_mac_hash a)) @ [p]),
         sa_asoc_sta_count := sa_asoc_sta_count st + 1\<rparr>))"
  using assms hash_lt [of a] by (auto simp: rtw_alloc_stainfo_def Let_def not_le split: list.split)

lemma sta_frames_init [simp]: "sta_frames (rtw_init_stainfo\<lparr>st_hwaddr := a, st_tid_rxseq := b, st_reorder := c, st_RxMgmtFrameSeqNum := d\<rparr>) = []"
  by (simp add: sta_frames_def rtw_init_stainfo_def init_txservq_def)

lemma alloc_stainfo_table_ok:
  assumes ok: "table_ok st" and len: "length a = 6" and u: "\<not> IS_MCAST a \<or> a = bc_addr"
    and abs: "rtw_get_stainfo st (Some a) = None" and r: "rtw_alloc_stainfo st a = (Some p, st')"
  shows "table_ok st'" and "set (allocated st') = insert p (set (allocated st))" and "st_hwaddr (sa_sta st' p) = a"
    and "p \<in> set (sa_free st)" and "\<And>q. q \<noteq> p \<Longrightarrow> sa_sta st' q = sa_sta st q"
proof -
  let ?k = "unat (wifi_mac_hash a)"
  obtain fr where fr: "sa_free st = p # fr" using r by (auto simp: alloc_stainfo_eq [OF len] split: list.splits)
  have h: "sa_free st' = fr" "sa_hash st' = (sa_hash st)(?k := sa_hash st ?k @ [p])"
    "sa_asoc_sta_count st' = sa_asoc_sta_count st + 1" "st_hwaddr (sa_sta st' p) = a" "sta_frames (sa_sta st' p) = []"
    and o: "\<And>q. q \<noteq> p \<Longrightarrow> sa_sta st' q = sa_sta st q"
    using r fr by (auto simp: alloc_stainfo_eq [OF len])
  show "st_hwaddr (sa_sta st' p) = a" "\<And>q. q \<noteq> p \<Longrightarrow> sa_sta st' q = sa_sta st q" "p \<in> set (sa_free st)"
    using h o fr by simp_all
  note d = table_ok_distinct [OF ok]
  have m: "mset (allocated st') = mset (allocated st) + {#p#}"
    unfolding mset_allocated by (rule sum_at [OF hash_lt [of a]]) (simp_all add: h)
  then show s: "set (allocated st') = insert p (set (allocated st))"
    by (metis Un_insert_right add_mset_add_single set_mset_add_mset_insert set_mset_mset)
  have np: "p \<notin> set (allocated st)" "p \<notin> set fr" using d fr by auto
  have hw: "st_hwaddr (sa_sta st q) \<noteq> a" if "q \<in> set (allocated st)" for q
    using abs that by (simp add: get_stainfo_None [OF ok len u])
  have "mset (map (\<lambda>q. st_hwaddr (sa_sta st' q)) (allocated st')) = mset (a # map (\<lambda>q. st_hwaddr (sa_sta st q)) (allocated st))"
  proof -
    have "image_mset (\<lambda>q. st_hwaddr (sa_sta st' q)) (mset (allocated st)) = image_mset (\<lambda>q. st_hwaddr (sa_sta st q)) (mset (allocated st))"
    proof (rule image_mset_cong)
      fix q assume "q \<in># mset (allocated st)"
      then have "q \<noteq> p" using np(1) by auto
      then show "st_hwaddr (sa_sta st' q) = st_hwaddr (sa_sta st q)" by (simp add: o)
    qed
    then show ?thesis by (simp add: m h(4))
  qed
  moreover have "distinct (a # map (\<lambda>q. st_hwaddr (sa_sta st q)) (allocated st))"
    using ok hw by (auto simp: table_ok_def)
  ultimately have dh: "distinct (map (\<lambda>q. st_hwaddr (sa_sta st' q)) (allocated st'))"
    using mset_eq_imp_distinct_iff by blast
  have "size (mset (allocated st')) = size (mset (allocated st)) + 1" by (simp add: m)
  then have c: "length (allocated st') = length (allocated st) + 1" by simp
  have "list_all (\<lambda>q. unat (wifi_mac_hash (st_hwaddr (sa_sta st' q))) = i \<and> length (st_hwaddr (sa_sta st' q)) = 6) (sa_hash st' i)"
    if "i < NUM_STA" for i
  proof -
    have "q \<noteq> p" if "q \<in> set (sa_hash st i)" for q
      using table_ok_hash(3) [OF ok \<open>i < NUM_STA\<close> that] np by blast
    then show ?thesis using table_ok_hash [OF ok that] by (auto simp: h list_all_iff o len)
  qed
  moreover have "list_all (\<lambda>q. st_state (sa_sta st' q) AND C_FW_LINKED = 0 \<and> sta_frames (sa_sta st' q) = []) fr"
  proof -
    have "sa_sta st' q = sa_sta st q" if "q \<in> set fr" for q using that np(2) o by metis
    then show ?thesis using ok fr by (auto simp: table_ok_def list_all_iff)
  qed
  ultimately show "table_ok st'"
    using ok dh c m unfolding table_ok_def by (simp add: h fr list_all_iff)
qed


lemma filter_alloc_none: "list_all frame_ok q \<Longrightarrow> filter xf_alloc_addr q = []"
  by (induction q) (auto simp: frame_ok_def)

lemma xmit_ok_no_alloc:
  assumes "xmit_ok st" "p < NUM_STA"
  shows "list_all frame_ok (sta_frames (sa_sta st p))"
  using assms by (simp add: xmit_ok_def list_all_iff)

lemma freed_station:
  assumes x: "list_all frame_ok (sta_frames (sa_sta st p))"
  shows "sta_frames (sa_sta (rtw_free_stainfo st (Some p)) p) = []"
    and "st_state (sa_sta (rtw_free_stainfo st (Some p)) p) AND C_FW_LINKED = 0"
proof -
  show "sta_frames (sa_sta (rtw_free_stainfo st (Some p)) p) = []"
    using x by (simp add: sta_frames_def filter_alloc_none)
  have "(x AND NOT y) AND y = 0" for x y :: u32 by (simp add: bit_eq_iff bit_simps)
  then show "st_state (sa_sta (rtw_free_stainfo st (Some p)) p) AND C_FW_LINKED = 0"
    by simp
qed

lemma remove1_bucket:
  assumes ok: "table_ok st" and p: "p \<in> set (allocated st)" and i: "i < NUM_STA"
  shows "i \<noteq> unat (wifi_mac_hash (st_hwaddr (sa_sta st p))) \<Longrightarrow> remove1 p (sa_hash st i) = sa_hash st i"
  using table_ok_hash(1) [OF ok i, of p] by (metis remove1_idem)

lemma free_stainfo_table_ok:
  assumes ok: "table_ok st" and x: "list_all frame_ok (sta_frames (sa_sta st p))"
    and p: "p \<in> set (allocated st)"
  defines "st' \<equiv> rtw_free_stainfo st (Some p)"
  shows "table_ok st'" and "set (allocated st') = set (allocated st) - {p}"
proof -
  let ?k = "unat (wifi_mac_hash (st_hwaddr (sa_sta st p)))"
  note f = free_stainfo_fields [where st = st and p = p, folded st'_def]
  note d = table_ok_distinct [OF ok]
  have m: "mset (allocated st) = mset (allocated st') + {#p#}"
    unfolding mset_allocated
  proof (rule sum_at [OF hash_lt [of "st_hwaddr (sa_sta st p)"]])
    show "mset (sa_hash st ?k) = mset (sa_hash st' ?k) + {#p#}"
      using allocated_bucket [OF ok p] by (simp add: f)
  qed (simp add: f remove1_bucket [OF ok p])
  have "distinct (allocated st') \<and> p \<notin> set (allocated st')"
    using d(2) mset_eq_imp_distinct_iff [of "allocated st" "p # allocated st'"] m by simp
  moreover have "set (allocated st) = insert p (set (allocated st'))"
    using arg_cong [OF m, of set_mset] by simp
  ultimately show "set (allocated st') = set (allocated st) - {p}" by auto
  have "size (mset (allocated st)) = size (mset (allocated st')) + 1" by (simp add: m)
  then have c: "length (allocated st) = length (allocated st') + 1" by simp
  have "mset (map (\<lambda>q. st_hwaddr (sa_sta st q)) (allocated st)) = mset (map (\<lambda>q. st_hwaddr (sa_sta st q)) (p # allocated st'))"
    by (simp add: m)
  then have "distinct (map (\<lambda>q. st_hwaddr (sa_sta st q)) (allocated st'))"
    using ok mset_eq_imp_distinct_iff by (fastforce simp: table_ok_def)
  moreover have hw: "st_hwaddr (sa_sta st' q) = st_hwaddr (sa_sta st q)" for q using f(11,14) by (cases "q = p") simp_all
  moreover have "list_all (\<lambda>q. st_state (sa_sta st' q) AND C_FW_LINKED = 0 \<and> sta_frames (sa_sta st' q) = []) (sa_free st @ [p])"
  proof -
    have "q \<noteq> p" if "q \<in> set (sa_free st)" for q using that d(3) p by blast
    then show ?thesis using ok freed_station [OF x, folded st'_def]
      by (auto simp: table_ok_def list_all_iff f)
  qed
  moreover have "list_all (\<lambda>i. list_all (\<lambda>q. unat (wifi_mac_hash (st_hwaddr (sa_sta st q))) = i \<and> length (st_hwaddr (sa_sta st q)) = 6)
      (remove1 p (sa_hash st i))) [0..<NUM_STA]"
    using ok set_remove1_subset by (fastforce simp: table_ok_def list_all_iff)
  ultimately show "table_ok st'"
    using ok c m by (simp add: table_ok_def f(1-3))
qed

section \<open>The transmit queues\<close>

lemma servq_ok_iff:
  "servq_ok st ac \<longleftrightarrow>
     distinct (sa_sta_queue st ac) \<and> set (sa_sta_queue st ac) = {p. p < NUM_STA \<and> pending st p ac \<noteq> []} \<and>
     (\<forall>p<NUM_STA. sq_qcnt (st_txq (sa_sta st p) ac) = int (length (pending st p ac))) \<and>
     sa_accnt st ac = (\<Sum>p<NUM_STA. int (length (pending st p ac)))"
  by (auto simp: servq_ok_def list_all_iff interv_sum_list_conv_sum_set_nat atLeast0LessThan)

lemma xmit_ok_servq: "xmit_ok st \<Longrightarrow> ac < 4 \<Longrightarrow> servq_ok st ac"
  by (simp add: xmit_ok_def list_all_iff)

lemma servq_ok_cong:
  assumes "sa_sta_queue st' ac = sa_sta_queue st ac" "sa_accnt st' ac = sa_accnt st ac"
    "\<And>p. p < NUM_STA \<Longrightarrow> st_txq (sa_sta st' p) ac = st_txq (sa_sta st p) ac"
  shows "servq_ok st' ac = servq_ok st ac"
  using assms by (simp add: servq_ok_iff pending_def cong: conj_cong)

lemma table_ok_cong:
  assumes "table_ok st" "sa_free st' = sa_free st" "sa_hash st' = sa_hash st" "sa_asoc_sta_count st' = sa_asoc_sta_count st"
    "\<And>q. st_hwaddr (sa_sta st' q) = st_hwaddr (sa_sta st q)" "\<And>q. q \<in> set (sa_free st) \<Longrightarrow> sa_sta st' q = sa_sta st q"
  shows "table_ok st'"
  using assms by (simp add: table_ok_def allocated_def list_all_iff)

text \<open>What adding to and taking from one queue of one station does to the invariant.\<close>

definition put_queue :: "sta_adapter \<Rightarrow> nat \<Rightarrow> nat \<Rightarrow> xframe list \<Rightarrow> nat list \<Rightarrow> sta_adapter" where
  "put_queue st p ac q Q =
     st\<lparr>sa_sta := (sa_sta st)(p := (sa_sta st p)\<lparr>st_txq := (st_txq (sa_sta st p))(ac := \<lparr>sq_pending = q, sq_qcnt = int (length q)\<rparr>)\<rparr>),
       sa_accnt := (sa_accnt st)(ac := sa_accnt st ac + int (length q) - int (length (pending st p ac))),
       sa_sta_queue := (sa_sta_queue st)(ac := Q)\<rparr>"

lemma pending_put_queue:
  "pending (put_queue st p ac q Q) r b = (if r = p \<and> b = ac then q else pending st r b)"
  by (simp add: pending_def put_queue_def)

lemma servq_ok_put_queue:
  assumes ok: "servq_ok st ac" and p: "p < NUM_STA" and d: "distinct Q"
    and m: "set Q = (if q = [] then set (sa_sta_queue st ac) - {p} else insert p (set (sa_sta_queue st ac)))"
  shows "servq_ok (put_queue st p ac q Q) ac"
proof -
  have "(\<Sum>r<NUM_STA. int (length (pending (put_queue st p ac q Q) r ac))) =
      (\<Sum>r<NUM_STA. int (length (pending st r ac))) + (int (length q) - int (length (pending st p ac)))"
    by (rule sum_at [OF p]) (simp_all add: pending_put_queue)
  moreover have "set Q = {r. r < NUM_STA \<and> pending (put_queue st p ac q Q) r ac \<noteq> []}"
    using ok p m by (auto simp: servq_ok_iff pending_put_queue split: if_splits)
  moreover have "\<forall>r<NUM_STA. sq_qcnt (st_txq (sa_sta (put_queue st p ac q Q) r) ac) = int (length (pending (put_queue st p ac q Q) r ac))"
    using ok by (auto simp: servq_ok_iff pending_put_queue) (auto simp: put_queue_def)
  moreover have "sa_sta_queue (put_queue st p ac q Q) ac = Q"
    and "sa_accnt (put_queue st p ac q Q) ac = sa_accnt st ac + int (length q) - int (length (pending st p ac))"
    by (simp_all add: put_queue_def)
  ultimately show ?thesis using ok d by (simp add: servq_ok_iff)
qed

lemma sta_frames_mset:
  "mset (sta_frames sta) = mset (st_sleep_q sta) + (\<Sum>ac<4. mset (sq_pending (st_txq sta ac)))"
  by (simp add: sta_frames_def numeral_eq_Suc ac_simps)

lemma pending_frames: "ac < 4 \<Longrightarrow> set (sq_pending (st_txq sta ac)) \<subseteq> set (sta_frames sta)"
  by (auto simp: sta_frames_def ac_less_4)

lemma sta_frames_update:
  assumes "ac < 4" "mset q = mset (sq_pending (st_txq sta ac)) + d"
  shows "mset (sta_frames (sta\<lparr>st_txq := (st_txq sta)(ac := \<lparr>sq_pending = q, sq_qcnt = n\<rparr>)\<rparr>)) = mset (sta_frames sta) + d"
proof -
  have "(\<Sum>b<4. mset (sq_pending (((st_txq sta)(ac := \<lparr>sq_pending = q, sq_qcnt = n\<rparr>)) b))) = (\<Sum>b<4. mset (sq_pending (st_txq sta b))) + d"
    by (rule sum_at [OF assms(1)]) (simp_all add: assms(2))
  then show ?thesis by (simp add: sta_frames_mset ac_simps)
qed

lemma rtw_get_sta_pending_less [simp]: "rtw_get_sta_pending up < 4"
  by (simp add: rtw_get_sta_pending_def)

definition frame_station :: "sta_adapter \<Rightarrow> xframe \<Rightarrow> nat option" where
  "frame_station st f = (case xf_psta f of Some p \<Rightarrow> Some p | None \<Rightarrow> rtw_get_stainfo st (Some (xf_ra f)))"

lemma enqueue_result:
  "fst (rtw_xmitframe_enqueue st f) \<longleftrightarrow> (\<exists>p. frame_station st f = Some p \<and> st_state (sa_sta st p) AND C_FW_LINKED \<noteq> 0)"
  "\<not> fst (rtw_xmitframe_enqueue st f) \<Longrightarrow> snd (rtw_xmitframe_enqueue st f) = st"
  unfolding rtw_xmitframe_enqueue_def rtw_xmit_classifier_def frame_station_def Let_def
  by (auto split: option.split)

lemma put_queue_same:
  assumes "sa_sta_queue st ac = Q"
  shows "put_queue st p ac q Q =
     st\<lparr>sa_sta := (sa_sta st)(p := (sa_sta st p)\<lparr>st_txq := (st_txq (sa_sta st p))(ac := \<lparr>sq_pending = q, sq_qcnt = int (length q)\<rparr>)\<rparr>),
       sa_accnt := (sa_accnt st)(ac := sa_accnt st ac + int (length q) - int (length (pending st p ac)))\<rparr>"
  using assms by (auto simp: put_queue_def)

lemma enqueue_queued:
  assumes "servq_ok st ac" "p < NUM_STA" "ac = rtw_get_sta_pending (xf_priority f)"
    and "frame_station st f = Some p" "st_state (sa_sta st p) AND C_FW_LINKED \<noteq> 0"
  shows "rtw_xmitframe_enqueue st f =
    (True, put_queue st p ac (pending st p ac @ [f]) (if p \<in> set (sa_sta_queue st ac) then sa_sta_queue st ac else sa_sta_queue st ac @ [p]))"
proof -
  have "sq_qcnt (st_txq (sa_sta st p) ac) = int (length (pending st p ac))" using assms(1,2) by (simp add: servq_ok_iff)
  then show ?thesis using assms(5)
    by (simp add: rtw_xmitframe_enqueue_def rtw_xmit_classifier_def assms(4) [unfolded frame_station_def] assms(3) [symmetric] Let_def
        pending_def put_queue_same) (simp add: put_queue_def pending_def add.commute)
qed

lemma frame_station_in_range:
  assumes ok: "table_ok st" and r: "\<And>p. xf_psta f = Some p \<Longrightarrow> p < NUM_STA" and s: "frame_station st f = Some p"
  shows "p < NUM_STA"
proof (cases "xf_psta f")
  case None
  let ?a = "if IS_MCAST (xf_ra f) then bc_addr else xf_ra f"
  have "p \<in> set (sa_hash st (unat (wifi_mac_hash ?a)))"
    using s None by (auto simp: frame_station_def rtw_get_stainfo_def Let_def find_Some_iff)
  from table_ok_hash(3) [OF ok hash_lt this] show ?thesis using table_ok_distinct(4) [OF ok] by auto
next
  case (Some q)
  then show ?thesis using s r by (simp add: frame_station_def)
qed

lemma linked_not_free:
  "table_ok st \<Longrightarrow> st_state (sa_sta st p) AND C_FW_LINKED \<noteq> 0 \<Longrightarrow> p \<notin> set (sa_free st)"
  by (auto simp: table_ok_def list_all_iff)

lemma put_queue_ok:
  assumes tab: "table_ok st" and xm: "xmit_ok st" and p: "p < NUM_STA" and np: "p \<notin> set (sa_free st)" and ac: "ac < 4" and d: "distinct Q"
    and m: "set Q = (if q = [] then set (sa_sta_queue st ac) - {p} else insert p (set (sa_sta_queue st ac)))"
    and na: "list_all frame_ok q"
  shows "table_ok (put_queue st p ac q Q)" "xmit_ok (put_queue st p ac q Q)"
proof -
  let ?st = "put_queue st p ac q Q"
  show "table_ok ?st" by (rule table_ok_cong [OF tab]) (use np in \<open>auto simp: put_queue_def\<close>)
  have "servq_ok ?st b" if "b < 4" for b
  proof (cases "b = ac")
    case True
    show ?thesis unfolding True by (rule servq_ok_put_queue [OF xmit_ok_servq [OF xm ac] p d m])
  next
    case False
    then have "servq_ok ?st b = servq_ok st b" by (intro servq_ok_cong) (auto simp: put_queue_def)
    then show ?thesis using xmit_ok_servq [OF xm that] by simp
  qed
  moreover have "list_all frame_ok (sta_frames (sa_sta ?st s))" if "s < NUM_STA" for s
    using xmit_ok_no_alloc [OF xm that] na by (auto simp: put_queue_def sta_frames_def list_all_iff split: if_splits)
  ultimately show "xmit_ok ?st" using xm by (simp add: xmit_ok_def put_queue_def list_all_iff)
qed

lemma put_queue_frames:
  assumes "p < NUM_STA" "ac < 4" "mset q = mset (pending st p ac) + d"
  shows "all_frames (put_queue st p ac q Q) = all_frames st + image_mset xf_nr d"
proof -
  have "(\<Sum>s<NUM_STA. mset (sta_frames (sa_sta (put_queue st p ac q Q) s))) = (\<Sum>s<NUM_STA. mset (sta_frames (sa_sta st s))) + d"
    by (rule sum_at [OF assms(1)]) (use assms in \<open>simp_all add: put_queue_def pending_def sta_frames_update\<close>)
  then show ?thesis by (simp add: all_frames_def) (simp add: put_queue_def)
qed

lemma enqueue_ok:
  assumes tab: "table_ok st" and xm: "xmit_ok st" and na: "frame_ok f"
    and e: "rtw_xmitframe_enqueue st f = (True, st')"
  shows "table_ok st'" "xmit_ok st'" "all_frames st' = all_frames st + {#xf_nr f#}"
proof -
  obtain p where fs: "frame_station st f = Some p" and ln: "st_state (sa_sta st p) AND C_FW_LINKED \<noteq> 0"
    using enqueue_result(1) [of st f] e by auto
  have p: "p < NUM_STA" by (rule frame_station_in_range [OF tab _ fs]) (use na in \<open>simp add: frame_ok_def\<close>)
  define ac where "ac = rtw_get_sta_pending (xf_priority f)"
  have ac: "ac < 4" by (simp add: ac_def)
  have sv: "servq_ok st ac" by (rule xmit_ok_servq [OF xm ac])
  define Q where "Q = (if p \<in> set (sa_sta_queue st ac) then sa_sta_queue st ac else sa_sta_queue st ac @ [p])"
  have st': "st' = put_queue st p ac (pending st p ac @ [f]) Q"
    using enqueue_queued [OF sv p ac_def fs ln] e by (simp add: Q_def)
  have np: "p \<notin> set (sa_free st)" by (rule linked_not_free [OF tab ln])
  have Q: "distinct Q" "set Q = (if pending st p ac @ [f] = [] then set (sa_sta_queue st ac) - {p} else insert p (set (sa_sta_queue st ac)))"
    using sv by (auto simp: Q_def servq_ok_iff)
  have "list_all frame_ok (pending st p ac @ [f])"
    using xmit_ok_no_alloc [OF xm p] pending_frames [OF ac] na by (fastforce simp: list_all_iff pending_def)
  from put_queue_ok [OF tab xm p np ac Q this] show "table_ok st'" "xmit_ok st'" by (simp_all add: st')
  show "all_frames st' = all_frames st + {#xf_nr f#}"
    using put_queue_frames [OF p ac, of "pending st p ac @ [f]" st "{#f#}"] by (simp add: st')
qed

text \<open>\<^const>\<open>rtw_dequeue_xframe\<close> takes the oldest frame of the station that has waited longest.\<close>

lemma dequeue_stations_ok:
  assumes xm: "xmit_ok st" and ac: "ac < 4"
  shows "sa_sta_queue st ac = [] \<Longrightarrow> dequeue_stations st ac (sa_sta_queue st ac) = (None, st)"
    and "sa_sta_queue st ac = p # ps \<Longrightarrow> pending st p ac \<noteq> [] \<and> p < NUM_STA"
    and "sa_sta_queue st ac = p # ps \<Longrightarrow> pending st p ac = f # q \<Longrightarrow>
      dequeue_stations st ac (sa_sta_queue st ac) = (Some f, put_queue st p ac q (if q = [] then ps else p # ps))"
proof -
  note sv = xmit_ok_servq [OF xm ac]
  show "sa_sta_queue st ac = [] \<Longrightarrow> dequeue_stations st ac (sa_sta_queue st ac) = (None, st)" by simp
  show p: "sa_sta_queue st ac = p # ps \<Longrightarrow> pending st p ac \<noteq> [] \<and> p < NUM_STA"
    using sv unfolding servq_ok_iff by auto
  assume a: "sa_sta_queue st ac = p # ps" "pending st p ac = f # q"
  have n: "sq_qcnt (st_txq (sa_sta st p) ac) = 1 + int (length q)" using sv p [OF a(1)] a by (simp add: servq_ok_iff)
  show "dequeue_stations st ac (sa_sta_queue st ac) = (Some f, put_queue st p ac q (if q = [] then ps else p # ps))"
  proof (cases "q = []")
    case True
    then show ?thesis using a(2) by (simp add: a(1) dequeue_one_xmitframe_def pending_def Let_def n put_queue_def)
  next
    case False
    then show ?thesis using a(2) by (simp add: a dequeue_one_xmitframe_def pending_def Let_def n put_queue_same)
  qed
qed


lemma dequeue_acs_None:
  assumes "xmit_ok st" "set acs \<subseteq> {..<4}"
  shows "(fst (dequeue_acs st acs) = None \<longleftrightarrow> (\<forall>ac\<in>set acs. sa_sta_queue st ac = [])) \<and>
    (fst (dequeue_acs st acs) = None \<longrightarrow> snd (dequeue_acs st acs) = st)"
  using assms(2)
proof (induction acs)
  case (Cons ac acs)
  note d = dequeue_stations_ok [OF assms(1), of ac]
  show ?case
  proof (cases "sa_sta_queue st ac")
    case Nil
    then show ?thesis using Cons by simp
  next
    case (Cons p ps)
    then obtain f q where "pending st p ac = f # q" using d(2) Cons.prems by (metis insert_subset lessThan_iff list.simps(15) neq_Nil_conv)
    then show ?thesis using d(3) [OF _ Cons] Cons Cons.prems by simp
  qed
qed simp

lemma dequeue_acs_Some:
  assumes xm: "xmit_ok st" and r: "dequeue_acs st acs = (Some f, st')" and "set acs \<subseteq> {..<4}"
  obtains pre ac post p ps q where "acs = pre @ ac # post" "\<forall>b\<in>set pre. sa_sta_queue st b = []"
    "sa_sta_queue st ac = p # ps" "pending st p ac = f # q" "st' = put_queue st p ac q (if q = [] then ps else p # ps)"
  using r assms(3)
proof (induction acs arbitrary: thesis)
  case (Cons ac acs)
  note d = dequeue_stations_ok [OF xm, of ac]
  show ?case
  proof (cases "sa_sta_queue st ac")
    case Nil
    then have "dequeue_acs st acs = (Some f, st')" using Cons.prems(2) by simp
    from Cons.IH [OF _ this] Cons.prems(1,3) Nil show ?thesis
      by (smt (verit) append_Cons insert_subset list.simps(15) set_ConsD)
  next
    case (Cons p ps)
    then have "pending st p ac \<noteq> []" using d(2) Cons.prems(3) by simp
    then obtain g q where g: "pending st p ac = g # q" by (metis neq_Nil_conv)
    with d(3) [OF _ Cons g] Cons.prems(2,3) have "g = f" "st' = put_queue st p ac q (if q = [] then ps else p # ps)" by auto
    then show ?thesis using Cons.prems(1) [of "[]" ac acs p ps q] Cons g by simp
  qed
qed simp

lemma dequeue_acs_ok:
  assumes tab: "table_ok st" and xm: "xmit_ok st" and acs: "set acs \<subseteq> {..<4}" and r: "dequeue_acs st acs = (Some f, st')"
  shows "table_ok st'" "xmit_ok st'" "all_frames st = all_frames st' + {#xf_nr f#}" "frame_ok f"
proof -
  obtain pre ac post p ps q where acs': "acs = pre @ ac # post" and qu: "sa_sta_queue st ac = p # ps" and pe: "pending st p ac = f # q"
    and st': "st' = put_queue st p ac q (if q = [] then ps else p # ps)"
    using dequeue_acs_Some [OF xm r acs] by metis
  have ac: "ac < 4" using acs acs' by auto
  have sv: "servq_ok st ac" by (rule xmit_ok_servq [OF xm ac])
  have p: "p < NUM_STA" using dequeue_stations_ok(2) [OF xm ac qu] by simp
  have na: "list_all frame_ok (f # q)"
    using xmit_ok_no_alloc [OF xm p] pending_frames [OF ac, of "sa_sta st p"] pe by (auto simp: list_all_iff pending_def)
  then show "frame_ok f" by simp
  have np: "p \<notin> set (sa_free st)"
  proof
    assume "p \<in> set (sa_free st)"
    then have "sta_frames (sa_sta st p) = []" using tab by (simp add: table_ok_def list_all_iff)
    then show False using pending_frames [OF ac, of "sa_sta st p"] pe by (simp add: pending_def)
  qed
  show "table_ok st'" "xmit_ok st'" unfolding st'
    by (rule put_queue_ok [OF tab xm p np ac]; use na sv qu in \<open>auto simp: servq_ok_iff\<close>)+
  have "all_frames (put_queue st' p ac (f # q) [])  = all_frames st' + {#xf_nr f#}"
    using put_queue_frames [OF p ac, of "f # q" st' "{#f#}"] by (simp add: st' pending_put_queue)
  moreover have "all_frames (put_queue st' p ac (f # q) []) = all_frames st"
    using put_queue_frames [OF p ac, of "f # q" st "{#}"] pe
    by (simp add: st' all_frames_def put_queue_def pending_def)
  ultimately show "all_frames st = all_frames st' + {#xf_nr f#}" by simp
qed

section \<open>Stations that come and go\<close>

lemma pool_frames_mset:
  "list_all frame_ok q \<Longrightarrow> mset (pool_frames False q) + mset (pool_frames True q) = mset q"
  by (induction q) (auto simp: frame_ok_def)

lemma pool_frames_tags:
  "list_all (\<lambda>f. \<not> xf_alloc_addr f \<and> xf_ext_tag f = e) (pool_frames e q)"
  by (auto simp: pool_frames_def list_all_iff)

lemma sta_frames_pending_Nil: "sta_frames (sa_sta st p) = [] \<Longrightarrow> ac < 4 \<Longrightarrow> pending st p ac = []"
  by (auto simp: sta_frames_def pending_def ac_less_4)

lemma free_stainfo_xmit_ok:
  assumes xm: "xmit_ok st" and p: "p < NUM_STA"
  defines "st' \<equiv> rtw_free_stainfo st (Some p)"
  shows "xmit_ok st'" and "all_frames st' = all_frames st"
proof -
  note f = free_stainfo_fields [where st = st and p = p, folded st'_def]
  note na = xmit_ok_no_alloc [OF xm p]
  note fr = freed_station(1) [OF na, folded st'_def]
  have "servq_ok st' ac" if ac: "ac < 4" for ac
  proof -
    note sv = xmit_ok_servq [OF xm ac, unfolded servq_ok_iff]
    have pd: "pending st' r ac = (if r = p then [] else pending st r ac)" for r
      using sta_frames_pending_Nil [OF fr ac] f(11) by (simp add: pending_def)
    have "(\<Sum>r<NUM_STA. int (length (pending st' r ac))) = (\<Sum>r<NUM_STA. int (length (pending st r ac))) + (- int (length (pending st p ac)))"
      by (rule sum_at [OF p]) (simp_all add: pd)
    moreover have "sq_qcnt (st_txq (sa_sta st' r) ac) = int (length (pending st' r ac))" if "r < NUM_STA" for r
      using sv that f(11) ac by (cases "r = p") (simp_all add: pd f(13))
    ultimately show ?thesis using sv p ac by (auto simp: servq_ok_iff f(5,6)) (auto simp: pd split: if_splits)
  qed
  moreover have "list_all frame_ok (sta_frames (sa_sta st' s))" if "s < NUM_STA" for s
    using xmit_ok_no_alloc [OF xm that] fr f(11) by (cases "s = p") simp_all
  ultimately show "xmit_ok st'"
    using xm pool_frames_tags [of False] pool_frames_tags [of True] by (simp add: xmit_ok_def f list_all_iff ball_Un)
  have "(\<Sum>s<NUM_STA. mset (sta_frames (sa_sta st s))) = (\<Sum>s<NUM_STA. mset (sta_frames (sa_sta st' s))) + mset (sta_frames (sa_sta st p))"
    by (rule sum_at [OF p]) (simp_all add: fr f(11))
  then show "all_frames st' = all_frames st"
    using arg_cong [OF pool_frames_mset [OF na], of "image_mset xf_nr"] by (simp add: all_frames_def f ac_simps)
qed

lemma alloc_stainfo_xmit_ok:
  assumes tab: "table_ok st" and xm: "xmit_ok st" and len: "length a = 6" and r: "rtw_alloc_stainfo st a = (Some p, st')"
  shows "xmit_ok st'" and "all_frames st' = all_frames st"
proof -
  obtain fr where fr: "sa_free st = p # fr" using r by (auto simp: alloc_stainfo_eq [OF len] split: list.splits)
  have h: "sa_sta_queue st' = sa_sta_queue st" "sa_accnt st' = sa_accnt st" "sa_free_xmit_queue st' = sa_free_xmit_queue st"
    "sa_free_xframe_ext_queue st' = sa_free_xframe_ext_queue st" "sa_free_xmitframe_cnt st' = sa_free_xmitframe_cnt st"
    "sa_free_xframe_ext_cnt st' = sa_free_xframe_ext_cnt st" "sta_frames (sa_sta st' p) = []"
    and tx: "st_txq (sa_sta st' p) = (\<lambda>ac. \<lparr>sq_pending = [], sq_qcnt = 0\<rparr>)"
    and o: "\<And>q. q \<noteq> p \<Longrightarrow> sa_sta st' q = sa_sta st q"
    using r fr by (auto simp: alloc_stainfo_eq [OF len] rtw_init_stainfo_def init_txservq_def sta_frames_def)
  have p: "p < NUM_STA" using table_ok_distinct(4) [OF tab] fr by auto
  have fp: "sta_frames (sa_sta st p) = []" using tab fr by (simp add: table_ok_def)
  have "st_txq (sa_sta st' q) ac = st_txq (sa_sta st q) ac" if ac: "ac < 4" for q ac
  proof (cases "q = p")
    case True
    have "sq_pending (st_txq (sa_sta st p) ac) = []" using sta_frames_pending_Nil [OF fp ac] by (simp add: pending_def)
    moreover have "sq_qcnt (st_txq (sa_sta st p) ac) = 0"
      using xmit_ok_servq [OF xm ac] p calculation by (simp add: servq_ok_iff pending_def)
    ultimately show ?thesis by (simp add: True tx)
  qed (simp add: o)
  then have "servq_ok st' ac" if "ac < 4" for ac
    using xmit_ok_servq [OF xm that] servq_ok_cong [of st' ac st] that by (simp add: h)
  moreover have same: "sta_frames (sa_sta st' q) = sta_frames (sa_sta st q)" for q by (cases "q = p") (simp_all add: h fp o)
  ultimately show "xmit_ok st'" using xm by (simp add: xmit_ok_def h list_all_iff)
  show "all_frames st' = all_frames st" by (simp add: all_frames_def h same)
qed

lemma alloc_stainfo_full:
  "sa_free st = [] \<Longrightarrow> rtw_alloc_stainfo st a = (None, st\<lparr>sa_lock := sa_lock st - 1\<rparr>)"
  by (simp add: rtw_alloc_stainfo_def)


definition sta_ok :: "sta_adapter \<Rightarrow> bool" where
  "sta_ok st \<longleftrightarrow> table_ok st \<and> xmit_ok st"

lemma allocated_less: "table_ok st \<Longrightarrow> p \<in> set (allocated st) \<Longrightarrow> p < NUM_STA"
  using table_ok_distinct(4) by blast

lemma free_stainfo_ok:
  assumes "sta_ok st" "p \<in> set (allocated st)"
  shows "sta_ok (rtw_free_stainfo st (Some p))" "all_frames (rtw_free_stainfo st (Some p)) = all_frames st"
    "set (allocated (rtw_free_stainfo st (Some p))) = set (allocated st) - {p}"
  using assms free_stainfo_table_ok [of st p] free_stainfo_xmit_ok [of st p] xmit_ok_no_alloc [of st p] allocated_less [of st p]
  by (simp_all add: sta_ok_def)

lemma free_stainfo_hwaddr: "st_hwaddr (sa_sta (rtw_free_stainfo st (Some p)) q) = st_hwaddr (sa_sta st q)"
  by (cases "q = p") simp_all

lemma free_fold_ok:
  fixes ps st b
  defines "st' \<equiv> fold (\<lambda>p st. if b \<noteq> Some p then rtw_free_stainfo st (Some p) else st) ps st"
  assumes "sta_ok st" "set ps \<subseteq> set (allocated st)" "distinct ps"
  shows "sta_ok st' \<and> all_frames st' = all_frames st \<and> set (allocated st') = {p \<in> set (allocated st). b = Some p \<or> p \<notin> set ps} \<and>
    (\<forall>q. st_hwaddr (sa_sta st' q) = st_hwaddr (sa_sta st q))"
  using assms(2-) unfolding st'_def
proof (induction ps arbitrary: st)
  case (Cons p ps)
  show ?case
  proof (cases "b = Some p")
    case True
    then show ?thesis using Cons.IH [of st] Cons.prems by auto
  next
    case False
    note f = free_stainfo_ok [OF Cons.prems(1), of p]
    have "set ps \<subseteq> set (allocated (rtw_free_stainfo st (Some p)))" using f(3) Cons.prems by auto
    from Cons.IH [OF f(1) this] f Cons.prems False show ?thesis by (auto simp: free_stainfo_hwaddr)
  qed
qed auto

lemma free_bucket_ok:
  assumes ok: "sta_ok st" and i: "i < NUM_STA"
  shows "sta_ok (free_bucket b i st) \<and> all_frames (free_bucket b i st) = all_frames st \<and>
    set (allocated (free_bucket b i st)) =
      {p \<in> set (allocated st). b = Some p \<or> unat (wifi_mac_hash (st_hwaddr (sa_sta st p))) \<noteq> i} \<and>
    (\<forall>q. st_hwaddr (sa_sta (free_bucket b i st) q) = st_hwaddr (sa_sta st q))"
proof -
  have tab: "table_ok st" using ok by (simp add: sta_ok_def)
  have "distinct (sa_hash st i)"
    using table_ok_distinct(2) [OF tab] i by (simp add: allocated_def distinct_concat_iff)
  moreover have "set (sa_hash st i) = {p \<in> set (allocated st). unat (wifi_mac_hash (st_hwaddr (sa_sta st p))) = i}"
    using table_ok_hash [OF tab i] allocated_bucket [OF tab] by auto
  ultimately show ?thesis using free_fold_ok [OF ok, of "sa_hash st i" b] by (auto simp: free_bucket_def)
qed


lemma free_buckets_ok:
  assumes "sta_ok st" "set js \<subseteq> {..<NUM_STA}"
  shows "sta_ok (fold (free_bucket b) js st) \<and> all_frames (fold (free_bucket b) js st) = all_frames st \<and>
    set (allocated (fold (free_bucket b) js st)) =
      {p \<in> set (allocated st). b = Some p \<or> unat (wifi_mac_hash (st_hwaddr (sa_sta st p))) \<notin> set js} \<and>
    (\<forall>q. st_hwaddr (sa_sta (fold (free_bucket b) js st) q) = st_hwaddr (sa_sta st q))"
  using assms
proof (induction js arbitrary: st)
  case (Cons j js)
  then have j: "j < NUM_STA" by simp
  note f = free_bucket_ok [OF Cons.prems(1) j, of b]
  with Cons.IH [of "free_bucket b j st"] Cons.prems(2) show ?case by auto
qed auto

lemma free_all_ok:
  assumes ok: "sta_ok st"
  shows "sta_ok (rtw_free_all_stainfo st)" "all_frames (rtw_free_all_stainfo st) = all_frames st"
    and "rtw_get_bcmc_stainfo st = Some b \<Longrightarrow> set (allocated (rtw_free_all_stainfo st)) = {b}"
proof -
  have js: "set [0..<NUM_STA] \<subseteq> {..<NUM_STA}" by auto
  note f = free_buckets_ok [OF ok js, of "rtw_get_bcmc_stainfo st"]
  show "sta_ok (rtw_free_all_stainfo st)" "all_frames (rtw_free_all_stainfo st) = all_frames st"
    using ok f by (simp_all add: rtw_free_all_stainfo_def Let_def)
  assume b: "rtw_get_bcmc_stainfo st = Some b"
  have tab: "table_ok st" using ok by (simp add: sta_ok_def)
  have ba: "b \<in> set (allocated st)"
    using b get_stainfo_Some [OF tab, of bc_addr b] by (simp add: rtw_get_bcmc_stainfo_def bc_addr_def)
  show "set (allocated (rtw_free_all_stainfo st)) = {b}"
  proof (cases "sa_asoc_sta_count st = 1")
    case True
    then have "length (allocated st) = 1" using tab by (simp add: table_ok_def)
    then obtain c where "allocated st = [c]" by (metis One_nat_def Suc_length_conv length_0_conv)
    then show ?thesis using ba True by (simp add: rtw_free_all_stainfo_def)
  next
    case False
    then show ?thesis using f ba hash_lt by (auto simp: rtw_free_all_stainfo_def Let_def b)
  qed
qed

lemma init_ok:
  "sta_ok (rtw_init_sta_priv (rtw_init_xmit_priv st))"
  "allocated (rtw_init_sta_priv (rtw_init_xmit_priv st)) = []"
  "all_frames (rtw_init_sta_priv (rtw_init_xmit_priv st)) = mset [0..<NR_XMITFRAME + NR_XMIT_EXTBUFF]"
proof -
  let ?s = "rtw_init_sta_priv (rtw_init_xmit_priv st)"
  show al: "allocated ?s = []" by (simp add: allocated_def rtw_init_sta_priv_def)
  have s: "p < NUM_STA \<Longrightarrow> sa_sta ?s p = rtw_init_stainfo" for p by (simp add: rtw_init_sta_priv_def)
  have q: "sta_frames rtw_init_stainfo = []" by (simp add: sta_frames_def rtw_init_stainfo_def init_txservq_def)
  have "table_ok ?s" by (simp add: table_ok_def al) (simp add: rtw_init_sta_priv_def list_all_iff q, simp add: rtw_init_stainfo_def)
  moreover have "servq_ok ?s ac" if "ac < 4" for ac using that
    by (simp add: servq_ok_iff pending_def s) (auto simp: rtw_init_stainfo_def init_txservq_def rtw_init_sta_priv_def rtw_init_xmit_priv_def)
  moreover have "list_all (\<lambda>p. list_all frame_ok (sta_frames (sa_sta ?s p))) [0..<NUM_STA]"
    by (simp add: list_all_iff s q)
  ultimately show "sta_ok ?s"
    by (simp add: sta_ok_def xmit_ok_def) (simp add: rtw_init_sta_priv_def rtw_init_xmit_priv_def list_all_iff new_xframe_def)
  have "image_mset xf_nr (mset (map (new_xframe e) xs)) = mset xs" for e xs
    by (induction xs) (simp_all add: new_xframe_def)
  then have "all_frames ?s = mset [0..<NR_XMITFRAME] + mset [NR_XMITFRAME..<NR_XMITFRAME + NR_XMIT_EXTBUFF]"
    by (simp add: all_frames_def s q del: mset_upt) (simp add: rtw_init_sta_priv_def rtw_init_xmit_priv_def del: mset_upt)
  then show "all_frames ?s = mset [0..<NR_XMITFRAME + NR_XMIT_EXTBUFF]"
    by (simp only: mset_append [symmetric] upt_add_eq_append [OF zero_le])
qed


section \<open>The table refines a set of addresses\<close>

text \<open>
  What the rest of the driver relies on: a table of at most \<open>cap\<close> keys. The clients look an address
  up first and allocate when it is missing, and free what they found.
\<close>

datatype 'k table_op = Add 'k | Del 'k

fun table_op_key :: "'k table_op \<Rightarrow> 'k" where
  "table_op_key (Add k) = k"
| "table_op_key (Del k) = k"

fun table_run :: "('s \<Rightarrow> 'k \<Rightarrow> 'p option) \<Rightarrow> ('s \<Rightarrow> 'k \<Rightarrow> 'p option \<times> 's) \<Rightarrow> ('s \<Rightarrow> 'p \<Rightarrow> 's) \<Rightarrow> 'k table_op list \<Rightarrow> 's \<Rightarrow> 's" where
  "table_run get alloc free [] s = s"
| "table_run get alloc free (Add k # ops) s =
     table_run get alloc free ops (case get s k of None \<Rightarrow> snd (alloc s k) | Some p \<Rightarrow> s)"
| "table_run get alloc free (Del k # ops) s =
     table_run get alloc free ops (case get s k of None \<Rightarrow> s | Some p \<Rightarrow> free s p)"

fun set_run :: "nat \<Rightarrow> 'k table_op list \<Rightarrow> 'k set \<Rightarrow> 'k set" where
  "set_run cap [] S = S"
| "set_run cap (Add k # ops) S = set_run cap ops (if card S < cap then insert k S else S)"
| "set_run cap (Del k # ops) S = set_run cap ops (S - {k})"

locale keyed_table =
  fixes ok :: "'s \<Rightarrow> bool" and keys :: "'s \<Rightarrow> 'k set" and valid :: "'k \<Rightarrow> bool" and cap :: nat
    and get :: "'s \<Rightarrow> 'k \<Rightarrow> 'p option" and alloc :: "'s \<Rightarrow> 'k \<Rightarrow> 'p option \<times> 's" and free :: "'s \<Rightarrow> 'p \<Rightarrow> 's"
  assumes get_iff: "ok s \<Longrightarrow> valid k \<Longrightarrow> get s k = None \<longleftrightarrow> k \<notin> keys s"
    and alloc_ok: "ok s \<Longrightarrow> valid k \<Longrightarrow> k \<notin> keys s \<Longrightarrow> ok (snd (alloc s k))"
    and alloc_keys: "ok s \<Longrightarrow> valid k \<Longrightarrow> k \<notin> keys s \<Longrightarrow> keys (snd (alloc s k)) = (if card (keys s) < cap then insert k (keys s) else keys s)"
    and free_ok: "ok s \<Longrightarrow> valid k \<Longrightarrow> get s k = Some p \<Longrightarrow> ok (free s p)"
    and free_keys: "ok s \<Longrightarrow> valid k \<Longrightarrow> get s k = Some p \<Longrightarrow> keys (free s p) = keys s - {k}"
begin

lemma run_refines:
  assumes "ok s" "list_all (\<lambda>op. valid (table_op_key op)) ops"
  shows "ok (table_run get alloc free ops s) \<and> keys (table_run get alloc free ops s) = set_run cap ops (keys s)"
  using assms
proof (induction ops arbitrary: s)
  case (Cons op ops)
  show ?case
  proof (cases op)
    case (Add k)
    show ?thesis
    proof (cases "get s k")
      case None
      then have "k \<notin> keys s" using get_iff Cons.prems Add by simp
      with None Cons Add alloc_ok alloc_keys show ?thesis by simp
    next
      case (Some p)
      then have "insert k (keys s) = keys s" using get_iff [of s k] Cons.prems Add by auto
      then have "(if card (keys s) < cap then insert k (keys s) else keys s) = keys s" by simp
      with Some Cons Add show ?thesis by simp
    qed
  next
    case (Del k)
    show ?thesis
    proof (cases "get s k")
      case None
      then have "keys s - {k} = keys s" using get_iff [of s k] Cons.prems Del by simp
      with None Cons Del show ?thesis by simp
    next
      case (Some p)
      with Cons Del free_ok [OF _ _ Some] free_keys [OF _ _ Some] show ?thesis by simp
    qed
  qed
qed simp

end

definition addresses :: "sta_adapter \<Rightarrow> bytes set" where
  "addresses st = (\<lambda>p. st_hwaddr (sa_sta st p)) ` set (allocated st)"

definition station_address :: "bytes \<Rightarrow> bool" where
  "station_address a \<longleftrightarrow> length a = 6 \<and> (\<not> IS_MCAST a \<or> a = bc_addr)"

lemma card_addresses: "table_ok st \<Longrightarrow> card (addresses st) = length (allocated st) \<and> length (sa_free st) + length (allocated st) = NUM_STA"
proof
  assume t: "table_ok st"
  then show "card (addresses st) = length (allocated st)"
    unfolding addresses_def using distinct_card [of "map (\<lambda>p. st_hwaddr (sa_sta st p)) (allocated st)"] by (simp add: table_ok_def)
  have "size (mset (sa_free st @ allocated st)) = size (mset [0..<NUM_STA])" using t by (simp only: table_ok_def)
  then show "length (sa_free st) + length (allocated st) = NUM_STA" by simp
qed

lemma alloc_stainfo_ok:
  assumes ok: "sta_ok st" and a: "station_address a" and n: "a \<notin> addresses st"
  shows "sta_ok (snd (rtw_alloc_stainfo st a))" "all_frames (snd (rtw_alloc_stainfo st a)) = all_frames st"
    and "addresses (snd (rtw_alloc_stainfo st a)) = (if card (addresses st) < NUM_STA then insert a (addresses st) else addresses st)"
proof -
  have tab: "table_ok st" and xm: "xmit_ok st" and len: "length a = 6" and u: "\<not> IS_MCAST a \<or> a = bc_addr"
    using ok a by (auto simp: sta_ok_def station_address_def)
  have abs: "rtw_get_stainfo st (Some a) = None" using n by (auto simp: get_stainfo_None [OF tab len u] addresses_def)
  note c = card_addresses [OF tab]
  consider (full) "sa_free st = []" | (free) p fr st' where "sa_free st = p # fr" "rtw_alloc_stainfo st a = (Some p, st')"
    by (cases "sa_free st") (auto simp: alloc_stainfo_eq [OF len])
  then have "sta_ok (snd (rtw_alloc_stainfo st a)) \<and> all_frames (snd (rtw_alloc_stainfo st a)) = all_frames st \<and>
    addresses (snd (rtw_alloc_stainfo st a)) = (if card (addresses st) < NUM_STA then insert a (addresses st) else addresses st)"
  proof cases
    case full
    let ?s = "st\<lparr>sa_lock := sa_lock st - 1\<rparr>"
    have "table_ok ?s" by (rule table_ok_cong [OF tab]) simp_all
    moreover have "xmit_ok ?s" using xm servq_ok_cong [of ?s _ st] by (simp add: xmit_ok_def list_all_iff)
    moreover have "addresses ?s = addresses st" by (simp add: addresses_def allocated_def)
    moreover have "\<not> card (addresses st) < NUM_STA" using c full by simp
    ultimately show ?thesis
      by (simp add: alloc_stainfo_full [OF full] sta_ok_def all_frames_def)
  next
    case free
    note t = alloc_stainfo_table_ok [OF tab len u abs free(2)]
    note x = alloc_stainfo_xmit_ok [OF tab xm len free(2)]
    have "p \<notin> set (allocated st)" using table_ok_distinct(3) [OF tab] free(1) by auto
    then have "st_hwaddr (sa_sta st' q) = st_hwaddr (sa_sta st q)" if "q \<in> set (allocated st)" for q using that t(5) by metis
    then have "addresses st' = insert a (addresses st)" using t(2,3) by (simp add: addresses_def)
    moreover have "card (addresses st) < NUM_STA" using c free(1) by simp
    ultimately show ?thesis
      using t(1) x by (simp add: free(2) sta_ok_def)
  qed
  then show "sta_ok (snd (rtw_alloc_stainfo st a))" "all_frames (snd (rtw_alloc_stainfo st a)) = all_frames st"
    and "addresses (snd (rtw_alloc_stainfo st a)) = (if card (addresses st) < NUM_STA then insert a (addresses st) else addresses st)"
    by simp_all
qed

interpretation sta: keyed_table sta_ok addresses station_address NUM_STA
  "\<lambda>st a. rtw_get_stainfo st (Some a)" rtw_alloc_stainfo "\<lambda>st p. rtw_free_stainfo st (Some p)"
proof unfold_locales
  fix st a p
  assume ok: "sta_ok st" and a: "station_address a"
  then have tab: "table_ok st" and l: "length a = 6" "\<not> IS_MCAST a \<or> a = bc_addr" by (auto simp: sta_ok_def station_address_def)
  show "rtw_get_stainfo st (Some a) = None \<longleftrightarrow> a \<notin> addresses st"
    by (auto simp: get_stainfo_None [OF tab l] addresses_def)
  show "a \<notin> addresses st \<Longrightarrow> sta_ok (snd (rtw_alloc_stainfo st a))"
    and "a \<notin> addresses st \<Longrightarrow> addresses (snd (rtw_alloc_stainfo st a)) = (if card (addresses st) < NUM_STA then insert a (addresses st) else addresses st)"
    using alloc_stainfo_ok [OF ok a] by blast+
  assume "rtw_get_stainfo st (Some a) = Some p"
  then have p: "p \<in> set (allocated st)" "st_hwaddr (sa_sta st p) = a" by (simp_all add: get_stainfo_Some [OF tab l])
  note f = free_stainfo_ok [OF ok p(1)]
  show "sta_ok (rtw_free_stainfo st (Some p))" by (rule f)
  have "inj_on (\<lambda>p. st_hwaddr (sa_sta st p)) (set (allocated st))" using tab by (simp add: table_ok_def distinct_map)
  then show "addresses (rtw_free_stainfo st (Some p)) = addresses st - {a}"
    using p by (auto simp: addresses_def f(3) free_stainfo_hwaddr inj_on_def)
qed


section \<open>Reachable states\<close>

text \<open>
  A state together with the transmit frames the driver holds. The steps are the operations above
  and the change of a station's state that the association makes. Who takes a frame out of a pool
  fills in its attributes; the station it names may be freed, and even given to another address,
  before the frame is enqueued.
\<close>

definition same_frame :: "xframe \<Rightarrow> xframe \<Rightarrow> bool" where
  "same_frame f g \<longleftrightarrow> xf_nr g = xf_nr f \<and> xf_ext_tag g = xf_ext_tag f \<and> xf_alloc_addr g = xf_alloc_addr f"

inductive sta_step :: "sta_adapter \<times> xframe list \<Rightarrow> sta_adapter \<times> xframe list \<Rightarrow> bool" where
  alloc_station: "station_address a \<Longrightarrow> rtw_get_stainfo st (Some a) = None \<Longrightarrow>
    sta_step (st, held) (snd (rtw_alloc_stainfo st a), held)"
| free_station: "p \<in> set (allocated st) \<Longrightarrow> sta_step (st, held) (rtw_free_stainfo st (Some p), held)"
| free_stations: "sta_step (st, held) (rtw_free_all_stainfo st, held)"
| associate: "p \<in> set (allocated st) \<Longrightarrow>
    sta_step (st, held) (st\<lparr>sa_sta := (sa_sta st)(p := (sa_sta st p)\<lparr>st_state := s, st_aid := n\<rparr>)\<rparr>, held)"
| take_frame: "rtw_alloc_xmitframe st = (Some f, st') \<Longrightarrow> same_frame f g \<Longrightarrow> pred_option (\<lambda>p. p < NUM_STA) (xf_psta g) \<Longrightarrow>
    sta_step (st, held) (st', g # held)"
| take_frame_ext: "rtw_alloc_xmitframe_ext st = (Some f, st') \<Longrightarrow> same_frame f g \<Longrightarrow> pred_option (\<lambda>p. p < NUM_STA) (xf_psta g) \<Longrightarrow>
    sta_step (st, held) (st', g # held)"
| enqueue: "f \<in> set held \<Longrightarrow> rtw_xmitframe_enqueue st f = (True, st') \<Longrightarrow> sta_step (st, held) (st', remove1 f held)"
| dequeue: "entry \<le> 4 \<Longrightarrow> length cnts = 4 \<Longrightarrow> rtw_dequeue_xframe st wifi_spec cnts entry = (Some f, st') \<Longrightarrow>
    sta_step (st, held) (st', f # held)"
| give_back: "f \<in> set held \<Longrightarrow> sta_step (st, held) (rtw_free_xmitframe f st, remove1 f held)"

definition sta_start :: "sta_adapter \<Rightarrow> sta_adapter \<times> xframe list" where
  "sta_start st = (rtw_init_sta_priv (rtw_init_xmit_priv st), [])"

definition held_ok :: "xframe list \<Rightarrow> bool" where
  "held_ok held \<longleftrightarrow> list_all frame_ok held"

definition state_inv :: "sta_adapter \<times> xframe list \<Rightarrow> bool" where
  "state_inv c = (case c of (st, held) \<Rightarrow> sta_ok st \<and> held_ok held \<and>
     all_frames st + mset (map xf_nr held) = mset [0..<NR_XMITFRAME + NR_XMIT_EXTBUFF])"

lemma length_exchange [simp]: "length (exchange ij xs) = length xs"
  by (simp add: exchange_def split: prod.split)

lemma exchange_mset:
  assumes "fst ij < length xs" "snd ij < length xs"
  shows "mset (exchange ij xs) = mset xs"
  using assms by (auto simp: exchange_def mset_swap split: prod.split)

lemma length4E: "length xs = 4 \<Longrightarrow> \<exists>a b c d. xs = [a, b, c, d]"
  by (auto simp: length_Suc_conv numeral_eq_Suc)

lemma exchange_sort_mset: "length xs = 4 \<Longrightarrow> mset (exchange_sort xs) = mset xs"
  by (simp add: exchange_sort_def exchange_mset)

lemma exchange_sort_sorted: "length xs = 4 \<Longrightarrow> sorted (map fst (exchange_sort xs))"
  by (drule length4E, elim exE) (auto simp: exchange_sort_def exchange_def)


lemma service_order:
  assumes "length cnts = 4"
  shows "set (map snd (exchange_sort (zip cnts [0, 1, 2, 3]))) = {..<4}" "length (exchange_sort (zip cnts [0, 1, 2, 3])) = 4"
proof -
  have l: "length (zip cnts [0 :: nat, 1, 2, 3]) = 4" using assms by simp
  have "mset (map snd (exchange_sort (zip cnts [0, 1, 2, 3]))) = mset (map snd (zip cnts [0 :: nat, 1, 2, 3]))"
    by (simp only: mset_map exchange_sort_mset [OF l])
  then have "set (map snd (exchange_sort (zip cnts [0, 1, 2, 3]))) = set (map snd (zip cnts [0 :: nat, 1, 2, 3]))"
    by (rule mset_eq_setD)
  also have "\<dots> = {..<4}" using assms by (auto simp: ac_less_4 simp del: set_map)
  finally show "set (map snd (exchange_sort (zip cnts [0, 1, 2, 3]))) = {..<4}" .
  show "length (exchange_sort (zip cnts [0, 1, 2, 3])) = 4" by (simp add: exchange_sort_def assms)
qed

definition service_acs :: "bool \<Rightarrow> int list \<Rightarrow> nat \<Rightarrow> nat list" where
  "service_acs wifi_spec cnts entry =
     take entry (if wifi_spec then map snd (exchange_sort (zip cnts [0, 1, 2, 3])) else [0, 1, 2, 3])"

lemma dequeue_xframe_acs: "rtw_dequeue_xframe st wifi_spec cnts entry = dequeue_acs st (service_acs wifi_spec cnts entry)"
  by (simp add: rtw_dequeue_xframe_def service_acs_def Let_def)

lemma service_acs_less:
  assumes "length cnts = 4"
  shows "set (service_acs wifi_spec cnts entry) \<subseteq> {..<4}"
proof -
  have "set (service_acs wifi_spec cnts entry) \<subseteq> set (if wifi_spec then map snd (exchange_sort (zip cnts [0, 1, 2, 3])) else [0, 1, 2, 3])"
    unfolding service_acs_def by (rule set_take_subset)
  also have "\<dots> = {..<4}" using service_order(1) [OF assms] by (simp only: split: if_split) (auto simp: ac_less_4)
  finally show ?thesis .
qed

lemma service_acs_4:
  assumes "length cnts = 4"
  shows "service_acs wifi_spec cnts 4 = (if wifi_spec then map snd (exchange_sort (zip cnts [0, 1, 2, 3])) else [0, 1, 2, 3])"
  unfolding service_acs_def by (rule take_all) (use service_order(2) [OF assms] in simp)

lemma service_acs_all:
  assumes "length cnts = 4"
  shows "set (service_acs wifi_spec cnts 4) = {..<4}"
  using service_order(1) [OF assms] unfolding service_acs_4 [OF assms] by (simp only: split: if_split) (auto simp: ac_less_4)

lemma free_xmitframe_ok:
  assumes "sta_ok st" "\<not> xf_alloc_addr f"
  shows "sta_ok (rtw_free_xmitframe f st)" "all_frames (rtw_free_xmitframe f st) = all_frames st + {#xf_nr f#}"
proof -
  let ?s = "rtw_free_xmitframe f st"
  have s: "sa_sta ?s = sa_sta st" "sa_free ?s = sa_free st" "sa_hash ?s = sa_hash st" "sa_asoc_sta_count ?s = sa_asoc_sta_count st"
    "sa_sta_queue ?s = sa_sta_queue st" "sa_accnt ?s = sa_accnt st"
    by (simp_all add: rtw_free_xmitframe_def)
  have "table_ok ?s" by (rule table_ok_cong [of st]) (use assms in \<open>simp_all add: s sta_ok_def\<close>)
  moreover have "servq_ok ?s = servq_ok st" by (rule ext, rule servq_ok_cong) (simp_all add: s)
  ultimately show "sta_ok ?s" using assms by (simp add: sta_ok_def xmit_ok_def s) (simp add: rtw_free_xmitframe_def)
  show "all_frames ?s = all_frames st + {#xf_nr f#}" using assms(2) by (simp add: all_frames_def s) (simp add: rtw_free_xmitframe_def)
qed

lemma alloc_xmitframe_ok:
  assumes ok: "sta_ok st" and r: "rtw_alloc_xmitframe st = (Some f, st')"
  shows "sta_ok st'" "all_frames st = all_frames st' + {#xf_nr f#}" "\<not> xf_alloc_addr f"
proof -
  obtain g q where q: "sa_free_xmit_queue st = g # q" and f: "f = rtw_init_xmitframe g"
    and st': "st' = st\<lparr>sa_free_xmit_queue := q, sa_free_xmitframe_cnt := sa_free_xmitframe_cnt st - 1\<rparr>"
    using r by (auto simp: rtw_alloc_xmitframe_def split: list.splits)
  have "table_ok st'" by (rule table_ok_cong [of st]) (use ok in \<open>simp_all add: st' sta_ok_def\<close>)
  moreover have "servq_ok st' = servq_ok st" by (rule ext, rule servq_ok_cong) (simp_all add: st')
  ultimately show "sta_ok st'" using ok q by (simp add: sta_ok_def xmit_ok_def) (simp add: st')
  show "all_frames st = all_frames st' + {#xf_nr f#}" by (simp add: all_frames_def st' q f rtw_init_xmitframe_def)
  show "\<not> xf_alloc_addr f" using ok q by (simp add: f rtw_init_xmitframe_def sta_ok_def xmit_ok_def)
qed

lemma alloc_xmitframe_ext_ok:
  assumes ok: "sta_ok st" and r: "rtw_alloc_xmitframe_ext st = (Some f, st')"
  shows "sta_ok st'" "all_frames st = all_frames st' + {#xf_nr f#}" "\<not> xf_alloc_addr f"
proof -
  obtain g q where q: "sa_free_xframe_ext_queue st = g # q" and f: "f = rtw_init_xmitframe g"
    and st': "st' = st\<lparr>sa_free_xframe_ext_queue := q, sa_free_xframe_ext_cnt := sa_free_xframe_ext_cnt st - 1\<rparr>"
    using r by (auto simp: rtw_alloc_xmitframe_ext_def split: list.splits)
  have "table_ok st'" by (rule table_ok_cong [of st]) (use ok in \<open>simp_all add: st' sta_ok_def\<close>)
  moreover have "servq_ok st' = servq_ok st" by (rule ext, rule servq_ok_cong) (simp_all add: st')
  ultimately show "sta_ok st'" using ok q by (simp add: sta_ok_def xmit_ok_def) (simp add: st')
  show "all_frames st = all_frames st' + {#xf_nr f#}" by (simp add: all_frames_def st' q f rtw_init_xmitframe_def)
  show "\<not> xf_alloc_addr f" using ok q by (simp add: f rtw_init_xmitframe_def sta_ok_def xmit_ok_def)
qed

lemma associate_ok:
  fixes s n
  assumes ok: "sta_ok st" and p: "p \<in> set (allocated st)"
  defines "st' \<equiv> st\<lparr>sa_sta := (sa_sta st)(p := (sa_sta st p)\<lparr>st_state := s, st_aid := n\<rparr>)\<rparr>"
  shows "sta_ok st'" "all_frames st' = all_frames st"
proof -
  have np: "p \<notin> set (sa_free st)" using table_ok_distinct(3) [of st] ok p by (auto simp: sta_ok_def)
  have "table_ok st'" by (rule table_ok_cong [of st]) (use ok np in \<open>auto simp: st'_def sta_ok_def\<close>)
  moreover have "servq_ok st' = servq_ok st" by (rule ext, rule servq_ok_cong) (simp_all add: st'_def)
  moreover have fr: "sta_frames (sa_sta st' q) = sta_frames (sa_sta st q)" for q by (simp add: st'_def sta_frames_def)
  ultimately show "sta_ok st'" using ok by (simp add: sta_ok_def xmit_ok_def) (simp add: st'_def)
  show "all_frames st' = all_frames st" by (simp add: all_frames_def fr) (simp add: st'_def)
qed

lemma held_ok_remove1: "held_ok held \<Longrightarrow> held_ok (remove1 f held)"
  by (auto simp: held_ok_def list_all_iff dest: notin_set_remove1)

lemma held_mset: "f \<in> set held \<Longrightarrow> mset (map xf_nr held) = mset (map xf_nr (remove1 f held)) + {#xf_nr f#}"
  by (induction held) auto

lemma state_inv_step:
  assumes "sta_step c c'" "state_inv c"
  shows "state_inv c'"
  using assms
proof (induction rule: sta_step.induct)
  case (alloc_station a st held)
  have ok: "sta_ok st" using alloc_station.prems by (simp add: state_inv_def)
  have "a \<notin> addresses st" using sta.get_iff [OF ok alloc_station(1)] alloc_station(2) by simp
  then show ?case using alloc_stainfo_ok [OF ok alloc_station(1)] alloc_station.prems by (simp add: state_inv_def)
next
  case (free_station p st held)
  then show ?case using free_stainfo_ok [of st p] by (simp add: state_inv_def)
next
  case (free_stations st held)
  then show ?case using free_all_ok [of st] by (simp add: state_inv_def)
next
  case (associate p st held s n)
  then show ?case using associate_ok [of st p s n] by (simp add: state_inv_def)
next
  case (take_frame st f st' g held)
  then show ?case using alloc_xmitframe_ok [OF _ take_frame(1)] by (simp add: state_inv_def held_ok_def same_frame_def frame_ok_def)
next
  case (take_frame_ext st f st' g held)
  then show ?case using alloc_xmitframe_ext_ok [OF _ take_frame_ext(1)] by (simp add: state_inv_def held_ok_def same_frame_def frame_ok_def)
next
  case (enqueue f held st st')
  then have f: "frame_ok f" and ok: "table_ok st" "xmit_ok st"
    by (auto simp: state_inv_def held_ok_def list_all_iff sta_ok_def)
  from enqueue_ok [OF ok f enqueue(2)] show ?case
    using enqueue.prems held_mset [OF enqueue(1)] held_ok_remove1 [of held f] by (simp add: state_inv_def sta_ok_def)
next
  case (dequeue entry cnts st wifi_spec f st' held)
  note r = dequeue(3) [unfolded dequeue_xframe_acs]
  have ok: "table_ok st" "xmit_ok st" using dequeue.prems by (simp_all add: state_inv_def sta_ok_def)
  from dequeue_acs_ok [OF ok service_acs_less [OF dequeue(2)] r] show ?case
    using dequeue.prems by (simp add: state_inv_def sta_ok_def held_ok_def)
next
  case (give_back f held st)
  then have "\<not> xf_alloc_addr f" by (auto simp: state_inv_def held_ok_def list_all_iff frame_ok_def)
  then show ?case
    using free_xmitframe_ok [of st f] give_back.prems held_mset [OF give_back(1)] held_ok_remove1 [of held f] by (simp add: state_inv_def)
qed

lemma state_inv_reachable: "sta_step\<^sup>*\<^sup>* (sta_start st) c \<Longrightarrow> state_inv c"
proof (induction rule: rtranclp_induct)
  case base
  show ?case using init_ok [of st] by (simp add: state_inv_def sta_start_def held_ok_def)
next
  case (step y z)
  then show ?case using state_inv_step by blast
qed

lemma service_acs_sorted:
  assumes "length cnts = 4"
  shows "sorted (map (\<lambda>ac. cnts ! ac) (map snd (exchange_sort (zip cnts [0, 1, 2, 3]))))"
proof -
  let ?z = "zip cnts [0 :: nat, 1, 2, 3]"
  have l: "length ?z = 4" using assms by simp
  have "set (exchange_sort ?z) = set ?z" using exchange_sort_mset [OF l] by (rule mset_eq_setD)
  moreover have "cnts ! snd x = fst x" if "x \<in> set ?z" for x
    using that assms length4E [OF assms] by auto
  ultimately have "map (\<lambda>ac. cnts ! ac) (map snd (exchange_sort ?z)) = map fst (exchange_sort ?z)" by auto
  then show ?thesis using exchange_sort_sorted [OF l] by (simp only:)
qed

section \<open>Properties\<close>

text \<open>An adapter as \<^verbatim>\<open>rtw_zvmalloc\<close> returns it, and one with a linked station.\<close>

definition zero_adapter :: sta_adapter where
  "zero_adapter = \<lparr>sa_sta = (\<lambda>s. rtw_init_stainfo), sa_free = [], sa_hash = (\<lambda>i. []), sa_asoc_sta_count = 0, sa_lock = 0,
     sa_auth_list = [], sa_auth_list_cnt = 0, sa_sta_aid = (\<lambda>i. None), sa_sta_dz_bitmap = 0, sa_tim_bitmap = 0,
     sa_sta_queue = (\<lambda>ac. []), sa_accnt = (\<lambda>ac. 0), sa_free_xmit_queue = [], sa_free_xmitframe_cnt = 0,
     sa_free_xframe_ext_queue = [], sa_free_xframe_ext_cnt = 0, sa_free_recv_queue = [], sa_free_recvframe_cnt = 0\<rparr>"

definition sample_mac :: bytes where "sample_mac = [0x02, 0, 0, 0, 0, 1]"

definition started :: sta_adapter where
  "started = rtw_init_sta_priv (rtw_init_xmit_priv zero_adapter)"

definition with_station :: sta_adapter where
  "with_station = snd (rtw_alloc_stainfo started sample_mac)"

definition linked_adapter :: sta_adapter where
  "linked_adapter = with_station\<lparr>sa_sta := (sa_sta with_station)(0 := (sa_sta with_station 0)\<lparr>st_state := 1, st_aid := 0\<rparr>)\<rparr>"

definition sample_xframe :: xframe where
  "sample_xframe = (new_xframe False 0)\<lparr>xf_priority := 6, xf_psta := Some 0\<rparr>"

definition queued_adapter :: sta_adapter where
  "queued_adapter = snd (rtw_xmitframe_enqueue linked_adapter sample_xframe)"

lemma started_ok: "sta_ok started" "allocated started = []"
  by (simp_all add: started_def init_ok)

lemma sample_mac_ok: "station_address sample_mac" "station_address bc_addr"
  by (simp_all add: station_address_def sample_mac_def IS_MCAST_def bc_addr_def)

lemma sample_mac_neq: "sample_mac \<noteq> bc_addr"
proof
  assume "sample_mac = bc_addr"
  then have "sample_mac ! 0 = bc_addr ! 0" by simp
  then show False by (simp add: sample_mac_def bc_addr_def)
qed

lemma started_addresses: "addresses started = {}"
  by (simp add: addresses_def started_ok)

lemma with_station_ok: "sta_ok with_station" "0 \<in> set (allocated with_station)"
proof -
  show "sta_ok with_station"
    unfolding with_station_def by (rule alloc_stainfo_ok(1) [OF started_ok(1) sample_mac_ok(1)]) (simp add: started_addresses)
  have f: "sa_free started = 0 # [1..<NUM_STA]"
    by (simp add: started_def rtw_init_sta_priv_def upt_rec NUM_STA_def)
  have len: "length sample_mac = 6" by (simp add: sample_mac_def)
  have r: "rtw_alloc_stainfo started sample_mac = (Some 0, with_station)"
    using f by (simp add: with_station_def alloc_stainfo_eq [OF len])
  have "rtw_get_stainfo started (Some sample_mac) = None"
    using sta.get_iff [OF started_ok(1) sample_mac_ok(1)] by (simp add: started_addresses)
  then show "0 \<in> set (allocated with_station)"
    using alloc_stainfo_table_ok(2) [OF _ len _ _ r] started_ok sample_mac_ok(1) by (simp add: sta_ok_def station_address_def)
qed

lemma linked_adapter_ok: "sta_ok linked_adapter"
  unfolding linked_adapter_def by (rule associate_ok(1) [OF with_station_ok])

lemma sample_xframe_ok: "frame_ok sample_xframe" "frame_station linked_adapter sample_xframe = Some 0"
  "st_state (sa_sta linked_adapter 0) AND C_FW_LINKED \<noteq> 0"
  by (simp_all add: sample_xframe_def new_xframe_def frame_ok_def frame_station_def NUM_STA_def linked_adapter_def C_FW_LINKED_def)

text \<open>C29. Reachable states: from initialisation on, whatever stations and frames come and go, the 32 stations are split
  without overlap between the free queue and the hash buckets, each one in the bucket of its address,
  the counters agree with the queues, the stations queued for an access category are exactly those
  with pending frames, and every transmit frame is in exactly one place: a pool, a queue of a
  station, or held by the driver.\<close>

theorem stations_invariant:
  assumes "sta_step\<^sup>*\<^sup>* (sta_start st0) (st, held)"
  shows "table_ok st \<and> xmit_ok st \<and> all_frames st + mset (map xf_nr held) = mset [0..<288]"
  using state_inv_reachable [OF assms] by (simp add: state_inv_def sta_ok_def NR_XMITFRAME_def NR_XMIT_EXTBUFF_def del: mset_upt)

theorem stations_invariant_witness:
  "table_ok with_station \<and> xmit_ok with_station \<and> all_frames with_station = mset [0..<288]"
proof -
  have "rtw_get_stainfo started (Some sample_mac) = None"
    using sta.get_iff [OF started_ok(1) sample_mac_ok(1)] by (simp add: started_addresses)
  then have "sta_step (started, []) (with_station, [])"
    unfolding with_station_def by (rule sta_step.alloc_station [OF sample_mac_ok(1)])
  then have "sta_step\<^sup>*\<^sup>* (sta_start zero_adapter) (with_station, [])" by (simp add: sta_start_def started_def)
  from stations_invariant [OF this] show ?thesis by simp
qed

text \<open>C30. The table as a set of addresses: a sequence of additions (look up, then \<^verbatim>\<open>rtw_alloc_stainfo\<close> when nothing was found) and
  removals (\<^verbatim>\<open>rtw_free_stainfo\<close> of what was found) acts on the set of known addresses as adding to and
  removing from a set of at most 32 elements, and \<^verbatim>\<open>rtw_get_stainfo\<close> finds exactly its elements.\<close>

theorem station_table_refines:
  fixes st ops
  defines "st' \<equiv> table_run (\<lambda>st a. rtw_get_stainfo st (Some a)) rtw_alloc_stainfo (\<lambda>st p. rtw_free_stainfo st (Some p)) ops st"
  assumes "sta_ok st" "list_all (\<lambda>op. station_address (table_op_key op)) ops" "station_address a"
  shows "addresses st' = set_run NUM_STA ops (addresses st) \<and>
    (rtw_get_stainfo st' (Some a) \<noteq> None \<longleftrightarrow> a \<in> set_run NUM_STA ops (addresses st))"
  using sta.run_refines [OF assms(2,3)] sta.get_iff [OF _ assms(4)] by (simp add: st'_def)

theorem station_table_refines_witness:
  "rtw_get_stainfo (table_run (\<lambda>st a. rtw_get_stainfo st (Some a)) rtw_alloc_stainfo (\<lambda>st p. rtw_free_stainfo st (Some p))
     [Add sample_mac, Add bc_addr, Del sample_mac] started) (Some bc_addr) \<noteq> None"
proof -
  let ?ops = "[Add sample_mac, Add bc_addr, Del sample_mac]"
  have v: "list_all (\<lambda>op. station_address (table_op_key op)) ?ops" by (simp add: sample_mac_ok)
  have "bc_addr \<in> set_run NUM_STA ?ops (addresses started)"
    using sample_mac_neq by (simp add: started_addresses NUM_STA_def)
  then show ?thesis using station_table_refines [OF started_ok(1) v sample_mac_ok(2)] by blast
qed




text \<open>C31. Dequeueing: \<^verbatim>\<open>rtw_dequeue_xframe\<close> over all four access categories returns no frame exactly when no station has one, and
  otherwise the oldest frame of the station that is first in the queue of the first access category
  with work, in the order 0 to 3 or, for \<^verbatim>\<open>wifi_spec\<close>, by increasing number of transfers under way; no other
  queue changes.\<close>

theorem xmit_dequeue_correct:
  fixes st wifi_spec cnts
  defines "acs \<equiv> service_acs wifi_spec cnts 4"
  assumes "sta_ok st" "length cnts = 4"
  shows "set acs = {..<4} \<and> (\<not> wifi_spec \<longrightarrow> acs = [0, 1, 2, 3]) \<and> (wifi_spec \<longrightarrow> sorted (map (\<lambda>ac. cnts ! ac) acs)) \<and>
   (case rtw_dequeue_xframe st wifi_spec cnts 4 of
      (None, st') \<Rightarrow> st' = st \<and> (\<forall>p ac. p < NUM_STA \<and> ac < 4 \<longrightarrow> pending st p ac = [])
    | (Some f, st') \<Rightarrow> sta_ok st' \<and> (\<exists>pre ac post p. acs = pre @ ac # post \<and> p = hd (sa_sta_queue st ac) \<and>
        (\<forall>b\<in>set pre. \<forall>r<NUM_STA. pending st r b = []) \<and>
        (\<forall>r b. pending st r b = (if r = p \<and> b = ac then f # pending st' r b else pending st' r b))))"
proof -
  have ok: "table_ok st" "xmit_ok st" using assms(2) by (simp_all add: sta_ok_def)
  have acs: "set acs = {..<4}" unfolding acs_def by (rule service_acs_all [OF assms(3)])
  have empty: "sa_sta_queue st ac = [] \<longleftrightarrow> (\<forall>p<NUM_STA. pending st p ac = [])" if "ac < 4" for ac
  proof -
    have "set (sa_sta_queue st ac) = {p. p < NUM_STA \<and> pending st p ac \<noteq> []}"
      using xmit_ok_servq [OF ok(2) that] by (simp add: servq_ok_iff)
    then show ?thesis unfolding set_empty [symmetric] by auto
  qed
  have ord: "(\<not> wifi_spec \<longrightarrow> acs = [0, 1, 2, 3]) \<and> (wifi_spec \<longrightarrow> sorted (map (\<lambda>ac. cnts ! ac) acs))"
    using service_acs_sorted [OF assms(3)] service_acs_4 [OF assms(3), of wifi_spec] unfolding acs_def by presburger
  have "case dequeue_acs st acs of
      (None, st') \<Rightarrow> st' = st \<and> (\<forall>p ac. p < NUM_STA \<and> ac < 4 \<longrightarrow> pending st p ac = [])
    | (Some f, st') \<Rightarrow> sta_ok st' \<and> (\<exists>pre ac post p. acs = pre @ ac # post \<and> p = hd (sa_sta_queue st ac) \<and>
        (\<forall>b\<in>set pre. \<forall>r<NUM_STA. pending st r b = []) \<and>
        (\<forall>r b. pending st r b = (if r = p \<and> b = ac then f # pending st' r b else pending st' r b)))"
  proof (cases "dequeue_acs st acs")
    case (Pair r st')
    show ?thesis
    proof (cases r)
      case None
      then have "\<forall>ac\<in>set acs. sa_sta_queue st ac = []" "st' = st"
        using dequeue_acs_None [OF ok(2), of acs] acs Pair by auto
      then show ?thesis using empty acs by (auto simp: Pair None)
    next
      case (Some f)
      note r = Pair [unfolded Some]
      have sub: "set acs \<subseteq> {..<4}" using acs by simp
      obtain pre ac post p ps q where d: "acs = pre @ ac # post" "\<forall>b\<in>set pre. sa_sta_queue st b = []"
        "sa_sta_queue st ac = p # ps" "pending st p ac = f # q" "st' = put_queue st p ac q (if q = [] then ps else p # ps)"
        using dequeue_acs_Some [OF ok(2) r sub] by metis
      have "\<forall>b\<in>set pre. \<forall>r<NUM_STA. pending st r b = []" using d(1,2) sub empty by auto
      moreover have "\<forall>r b. pending st r b = (if r = p \<and> b = ac then f # pending st' r b else pending st' r b)"
        by (auto simp: d(4) d(5) [unfolded atomize_eq] pending_put_queue)
      moreover have "sta_ok st'" using dequeue_acs_ok [OF ok sub r] by (simp add: sta_ok_def)
      moreover have "p = hd (sa_sta_queue st ac)" by (simp add: d(3))
      ultimately show ?thesis unfolding r prod.case option.case using d(1) by blast
    qed
  qed
  then show ?thesis using acs ord by (simp add: dequeue_xframe_acs acs_def)
qed


theorem xmit_dequeue_correct_witness:
  "fst (rtw_dequeue_xframe queued_adapter True [3, 1, 1, 0] 4) = Some sample_xframe"
proof -
  have e: "rtw_xmitframe_enqueue linked_adapter sample_xframe = (True, queued_adapter)"
    using enqueue_result(1) [of linked_adapter sample_xframe] sample_xframe_ok
    by (cases "rtw_xmitframe_enqueue linked_adapter sample_xframe") (auto simp: queued_adapter_def)
  have l: "table_ok linked_adapter" "xmit_ok linked_adapter" using linked_adapter_ok by (simp_all add: sta_ok_def)
  have ok: "sta_ok queued_adapter" using enqueue_ok [OF l sample_xframe_ok(1) e] by (simp add: sta_ok_def)
  have ac: "rtw_get_sta_pending (xf_priority sample_xframe) = 0" by (simp add: sample_xframe_def rtw_get_sta_pending_def)
  have N: "0 < NUM_STA" by (simp add: NUM_STA_def)
  obtain Q where q: "queued_adapter = put_queue linked_adapter 0 0 (pending linked_adapter 0 0 @ [sample_xframe]) Q"
    using enqueue_queued [OF xmit_ok_servq [OF l(2)] N ac [symmetric] sample_xframe_ok(2,3)] unfolding e by auto
  have "pending linked_adapter r b = []" for r b
    by (simp add: pending_def linked_adapter_def with_station_def alloc_stainfo_eq sample_mac_def started_def rtw_init_sta_priv_def
        NUM_STA_def upt_rec rtw_init_stainfo_def init_txservq_def rtw_init_xmit_priv_def zero_adapter_def)
  then have pd: "pending queued_adapter r b = (if r = 0 \<and> b = 0 then [sample_xframe] else [])" for r b
    unfolding q pending_put_queue by simp
  have len: "length [3, 1, 1, 0 :: int] = 4" by simp
  note d = xmit_dequeue_correct [OF ok len, of True]
  obtain r st' where r: "rtw_dequeue_xframe queued_adapter True [3, 1, 1, 0] 4 = (r, st')" by fastforce
  show ?thesis
  proof (cases r)
    case None
    then have "pending queued_adapter 0 0 = []" using d N by (simp add: r)
    then show ?thesis by (simp add: pd)
  next
    case (Some f)
    then obtain p ac where "pending queued_adapter p ac = f # pending st' p ac" using d by (auto simp: r)
    then show ?thesis by (simp add: r Some pd split: if_splits)
  qed
qed

text \<open>\<^verbatim>\<open>rtw_free_all_stainfo\<close> leaves the station for group addresses only: no other address is found any more, no other
  station holds a frame, and the frames the stations held are back in the pools.\<close>

theorem free_all_stainfo_correct:
  assumes "sta_ok st" "rtw_get_bcmc_stainfo st = Some b"
  defines "st' \<equiv> rtw_free_all_stainfo st"
  shows "sta_ok st' \<and> addresses st' = {bc_addr} \<and> sa_asoc_sta_count st' = 1 \<and> rtw_get_bcmc_stainfo st' = Some b \<and>
    all_frames st' = all_frames st \<and> (\<forall>p. p < NUM_STA \<and> p \<noteq> b \<longrightarrow> sta_frames (sa_sta st' p) = [])"
proof -
  note f = free_all_ok [OF assms(1), folded st'_def]
  have tab: "table_ok st" "table_ok st'" using assms(1) f(1) by (simp_all add: sta_ok_def)
  have al: "set (allocated st') = {b}" using f(3) [OF assms(2)] .
  have bc: "length bc_addr = 6" "\<not> IS_MCAST bc_addr \<or> bc_addr = bc_addr" by (simp_all add: bc_addr_def)
  have hb: "st_hwaddr (sa_sta st b) = bc_addr"
    using assms(2) get_stainfo_Some [OF tab(1) bc, of b] by (simp add: rtw_get_bcmc_stainfo_def)
  have hw: "st_hwaddr (sa_sta st' b) = bc_addr"
    using hb free_buckets_ok [OF assms(1), of "[0..<NUM_STA]" "rtw_get_bcmc_stainfo st"]
    by (simp add: st'_def rtw_free_all_stainfo_def Let_def atLeast0LessThan)
  have ad: "addresses st' = {bc_addr}" by (simp add: addresses_def al hw)
  have "length (allocated st') = 1" using card_addresses [OF tab(2)] ad by simp
  then have "sa_asoc_sta_count st' = 1" using tab(2) by (simp add: table_ok_def)
  moreover have "rtw_get_bcmc_stainfo st' = Some b"
    using get_stainfo_Some [OF tab(2) bc, of b] al hw by (simp add: rtw_get_bcmc_stainfo_def)
  moreover have "sta_frames (sa_sta st' p) = []" if "p < NUM_STA" "p \<noteq> b" for p
  proof -
    have "p \<in> set (sa_free st')" using table_ok_distinct(4) [OF tab(2)] al that by auto
    then show ?thesis using tab(2) by (simp add: table_ok_def list_all_iff)
  qed
  ultimately show ?thesis using f(1,2) ad by blast
qed

theorem free_all_stainfo_correct_witness:
  "addresses (rtw_free_all_stainfo (snd (rtw_alloc_stainfo with_station bc_addr))) = {bc_addr}"
proof -
  let ?st = "snd (rtw_alloc_stainfo with_station bc_addr)"
  have "addresses with_station = {sample_mac}"
    using alloc_stainfo_ok(3) [OF started_ok(1) sample_mac_ok(1)] by (simp add: started_addresses with_station_def NUM_STA_def)
  then have n: "bc_addr \<notin> addresses with_station" and c: "card (addresses with_station) < NUM_STA" using sample_mac_neq by (auto simp: NUM_STA_def)
  note a = alloc_stainfo_ok [OF with_station_ok(1) sample_mac_ok(2) n]
  have "rtw_get_stainfo ?st (Some bc_addr) \<noteq> None" using sta.get_iff [OF a(1) sample_mac_ok(2)] a(3) c by simp
  then obtain b where "rtw_get_bcmc_stainfo ?st = Some b" by (auto simp: rtw_get_bcmc_stainfo_def)
  from free_all_stainfo_correct [OF a(1) this] show ?thesis by blast
qed

end
