(* ===== verification/Rtw_Tx.thy ===== *)
theory Rtw_Tx
  imports Rtw_Bip Rtw_Michael Rtw_Reorder
begin

unbundle bit_operations_syntax

text \<open>
  The transmit path in \<^verbatim>\<open>core/rtw_xmit.c\<close>: \<^verbatim>\<open>update_attrib\<close> determines the attributes of an Ethernet packet, and
  \<^verbatim>\<open>rtw_xmitframe_coalesce\<close> turns it into the 802.11 frames in the transmit buffer, with \<^verbatim>\<open>rtw_make_wlanhdr\<close>, \<^verbatim>\<open>rtw_put_snap\<close>, the initialisation vectors, the
  packet reader of \<^verbatim>\<open>os_dep/linux/xmit_linux.c\<close>, \<^verbatim>\<open>xmitframe_addmic\<close>, \<^verbatim>\<open>xmitframe_swencrypt\<close> and
  \<^verbatim>\<open>update_attrib_vcs_info\<close>. The build is the one of the USB adapter, with \<^verbatim>\<open>CONFIG_USB_TX_AGGREGATION\<close> and without
  \<^verbatim>\<open>CONFIG_TDLS\<close>. A pointer to a station is its number in a store of stations, so that the code that
  follows sees the sequence numbers and packet numbers that are counted up here.
\<close>

section \<open>State\<close>

record tx_sta = sta_info +
  dot11txpn :: u64
  dot11tkiptxmickey :: bytes
  sta_qos_option :: bool
  txseq_tid :: "u16 list"
  ampdu_enable :: bool
  agg_enable_bitmap :: u8
  BA_starting_seqctrl :: "u16 list"
  rtsen :: bool
  cts2self :: bool
  sta_mac_id :: u32
  ieee8021x_blocked :: bool
  dot118021XPrivacy :: nat
  sta_raid :: u8
  ht_option :: bool
  ht_bwmode :: u8
  ht_ch_offset :: u8
  ht_sgi :: u8

record tx_adapter =
  ad_stas :: "nat \<Rightarrow> tx_sta"
  ad_lookup :: "bytes \<Rightarrow> nat option"
  ad_bcmc :: "nat option"
  ad_fw_state :: u32
  ad_bssid :: bytes
  ad_qos_option :: bool
  ad_frag_len :: u32
  ad_sec :: security_priv
  ad_Grptxmickey :: "bytes list"
  ad_PrivacyAlgrthm :: nat
  ad_wireless_mode :: u32
  ad_wifi_spec :: bool
  ad_rts_thresh :: u16
  ad_atherosAP :: bool
  ad_HT_protection :: u8
  ad_bwmode :: u8
  ad_acm_mask :: u8
  ad_AuthAlgrthm :: u32
  ad_GrpPrivacy :: nat
  ad_busetkipkey :: bool
  ad_sw_encrypt :: bool
  ad_hw_decrypted :: bool

record tx_attrib =
  ta_subtype :: u8
  ta_bswenc :: bool
  ta_ether_type :: u16
  ta_seqnum :: u16
  ta_pkt_hdrlen :: u16
  ta_hdrlen :: nat
  ta_pktlen :: u32
  ta_last_txcmdsz :: u32
  ta_nr_frags :: nat
  ta_encrypt :: nat
  ta_iv_len :: nat
  ta_icv_len :: nat
  ta_iv :: bytes
  ta_icv :: bytes
  ta_priority :: u8
  ta_ack_policy :: u8
  ta_vcs_mode :: u8
  ta_dst :: bytes
  ta_src :: bytes
  ta_ta :: bytes
  ta_ra :: bytes
  ta_key_idx :: u8
  ta_qos_en :: bool
  ta_ht_en :: bool
  ta_ampdu_en :: bool
  ta_mdata :: bool
  ta_eosp :: u8
  ta_psta :: "nat option"
  ta_dhcp_pkt :: bool
  ta_mac_id :: u8
  ta_raid :: u8
  ta_bwmode :: u8
  ta_ch_offset :: u8
  ta_sgi :: u8
  ta_pctrl :: bool
  ta_triggered :: bool
  ta_retry_ctrl :: bool

definition WIFI_STATION_STATE :: u32 where "WIFI_STATION_STATE = 0x08"
definition WIFI_AP_STATE :: u32 where "WIFI_AP_STATE = 0x10"
definition WIFI_ADHOC_STATE :: u32 where "WIFI_ADHOC_STATE = 0x20"
definition WIFI_ADHOC_MASTER_STATE :: u32 where "WIFI_ADHOC_MASTER_STATE = 0x40"
definition WIFI_MP_STATE :: u32 where "WIFI_MP_STATE = 0x10000"
definition WIFI_DATA_TYPE :: u8 where "WIFI_DATA_TYPE = 8"
definition WIFI_QOS_DATA_TYPE :: u8 where "WIFI_QOS_DATA_TYPE = 0x88"
definition C_TO_DS :: u16 where "C_TO_DS = 0x100"
definition C_FROM_DS :: u16 where "C_FROM_DS = 0x200"
definition C_MORE_FRAG :: u16 where "C_MORE_FRAG = 0x400"
definition C_PRIVACY :: u16 where "C_PRIVACY = 0x4000"
definition WLANHDR_OFFSET :: nat where "WLANHDR_OFFSET = 64"
definition TXDESC_OFFSET :: nat where "TXDESC_OFFSET = TXDESC_SIZE + PACKET_OFFSET_SZ"
definition NONE_VCS :: u8 where "NONE_VCS = 0"
definition RTS_CTS :: u8 where "RTS_CTS = 1"
definition CTS_TO_SELF :: u8 where "CTS_TO_SELF = 2"

definition check_fwstate :: "tx_adapter \<Rightarrow> u32 \<Rightarrow> bool" where
  "check_fwstate ad s \<longleftrightarrow> ad_fw_state ad AND s \<noteq> 0"

definition put_sta :: "nat \<Rightarrow> (tx_sta \<Rightarrow> tx_sta) \<Rightarrow> tx_adapter \<Rightarrow> tx_adapter" where
  "put_sta i g ad = ad\<lparr>ad_stas := (ad_stas ad)(i := g (ad_stas ad i))\<rparr>"

section \<open>The header\<close>

text \<open>The macros change a 16-bit field in place: \<open>fc_or\<close> sets bits of the little-endian word at an offset.\<close>

definition fc_or :: "u16 \<Rightarrow> nat \<Rightarrow> bytes \<Rightarrow> bytes option" where
  "fc_or m p buf = do { w \<leftarrow> le16_at buf p; wrn buf p (RTW_PUT_LE16 (w OR m)) }"

definition fc_and :: "u16 \<Rightarrow> nat \<Rightarrow> bytes \<Rightarrow> bytes option" where
  "fc_and m p buf = do { w \<leftarrow> le16_at buf p; wrn buf p (RTW_PUT_LE16 (w AND m)) }"

definition SetFrameSubType :: "u8 \<Rightarrow> nat \<Rightarrow> bytes \<Rightarrow> bytes option" where
  "SetFrameSubType type p buf = do { buf \<leftarrow> fc_and (NOT 0xFC) p buf; fc_or (ucast type) p buf }"

definition SetSeqNum :: "u16 \<Rightarrow> nat \<Rightarrow> bytes \<Rightarrow> bytes option" where
  "SetSeqNum num p buf =
     do { w \<leftarrow> le16_at buf (p + 22); wrn buf (p + 22) (RTW_PUT_LE16 ((w AND NOT 0xFFF0) OR (0xFFF0 AND push_bit 4 num))) }"

text \<open>The addresses by the role of the interface: the status, whether the header has a QoS field, and the buffer.\<close>

definition wlanhdr_addrs :: "tx_adapter \<Rightarrow> tx_sta \<Rightarrow> tx_attrib \<Rightarrow> nat \<Rightarrow> bytes \<Rightarrow> (bool \<times> bool \<times> bytes) option" where
  "wlanhdr_addrs ad psta a p buf =
     (if check_fwstate ad WIFI_STATION_STATE then do {
        buf \<leftarrow> fc_or C_TO_DS p buf;
        buf \<leftarrow> wrn buf (p + 4) (ad_bssid ad);
        buf \<leftarrow> wrn buf (p + 10) (ta_src a);
        buf \<leftarrow> wrn buf (p + 16) (ta_dst a);
        Some (True, ad_qos_option ad, buf) }
      else if check_fwstate ad WIFI_AP_STATE then do {
        buf \<leftarrow> fc_or C_FROM_DS p buf;
        buf \<leftarrow> wrn buf (p + 4) (ta_dst a);
        buf \<leftarrow> wrn buf (p + 10) (ad_bssid ad);
        buf \<leftarrow> wrn buf (p + 16) (ta_src a);
        Some (True, sta_qos_option psta, buf) }
      else if check_fwstate ad WIFI_ADHOC_STATE \<or> check_fwstate ad WIFI_ADHOC_MASTER_STATE then do {
        buf \<leftarrow> wrn buf (p + 4) (ta_dst a);
        buf \<leftarrow> wrn buf (p + 10) (ta_src a);
        buf \<leftarrow> wrn buf (p + 16) (ad_bssid ad);
        Some (True, sta_qos_option psta, buf) }
      else Some (False, False, buf))"

definition wlanhdr_qos :: "tx_attrib \<Rightarrow> nat \<Rightarrow> bytes \<Rightarrow> bytes option" where
  "wlanhdr_qos a qc buf =
     do {
       buf \<leftarrow> (if ta_priority a \<noteq> 0 then fc_or (ucast (ta_priority a) AND 0xF) qc buf else Some buf);
       buf \<leftarrow> fc_or (push_bit 4 (ucast (ta_eosp a) AND 1)) qc buf;
       fc_or (push_bit 5 (ucast (ta_ack_policy a) AND 3)) qc buf
     }"

text \<open>Whether the frame may go into an A-MPDU, and the station's record of the next number of the agreement.\<close>

definition wlanhdr_ampdu :: "tx_sta \<Rightarrow> tx_attrib \<Rightarrow> (tx_sta \<times> tx_attrib) option" where
  "wlanhdr_ampdu psta a =
     (let a = (if ta_ht_en a \<and> ampdu_enable psta \<and> bit (agg_enable_bitmap psta) (unat (ta_priority a))
               then a\<lparr>ta_ampdu_en := True\<rparr> else a);
          k = unat (ta_priority a AND 0x0F) in
      if ta_ampdu_en a then do {
        tx_seq \<leftarrow> idx (BA_starting_seqctrl psta) k;
        if SN_LESS (ta_seqnum a) tx_seq then Some (psta, a\<lparr>ta_ampdu_en := False\<rparr>)
        else if SN_EQUAL (ta_seqnum a) tx_seq then
          Some (psta\<lparr>BA_starting_seqctrl := (BA_starting_seqctrl psta)[k := (tx_seq + 1) AND 0xFFF]\<rparr>, a\<lparr>ta_ampdu_en := True\<rparr>)
        else
          Some (psta\<lparr>BA_starting_seqctrl := (BA_starting_seqctrl psta)[k := (ta_seqnum a + 1) AND 0xFFF]\<rparr>, a\<lparr>ta_ampdu_en := True\<rparr>)
      } else Some (psta, a))"

definition wlanhdr_data ::
    "nat \<Rightarrow> tx_adapter \<Rightarrow> tx_attrib \<Rightarrow> nat \<Rightarrow> bytes \<Rightarrow> (int \<times> tx_adapter \<times> tx_attrib \<times> bytes) option" where
  "wlanhdr_data i ad a p buf =
     do {
       (ok, qos, buf) \<leftarrow> wlanhdr_addrs ad (ad_stas ad i) a p buf;
       if \<not> ok then Some (rtw_FAIL, ad, a, buf)
       else do {
         buf \<leftarrow> (if ta_mdata a then fc_or C_MORE_DATA p buf else Some buf);
         buf \<leftarrow> (if ta_encrypt a \<noteq> 0 then fc_or C_PRIVACY p buf else Some buf);
         buf \<leftarrow> (if qos then wlanhdr_qos a (p + ta_hdrlen a - 2) buf else Some buf);
         let psta = ad_stas ad i;
         seq \<leftarrow> idx (txseq_tid psta) (unat (ta_priority a));
         let seq = (seq + 1) AND 0xFFF;
         let psta = psta\<lparr>txseq_tid := (txseq_tid psta)[unat (ta_priority a) := seq]\<rparr>;
         let a = a\<lparr>ta_seqnum := seq\<rparr>;
         buf \<leftarrow> SetSeqNum seq p buf;
         (psta, a) \<leftarrow> wlanhdr_ampdu psta a;
         Some (rtw_SUCCESS, put_sta i (\<lambda>_. psta) ad, a, buf)
       }
     }"

definition rtw_make_wlanhdr ::
    "tx_adapter \<Rightarrow> tx_attrib \<Rightarrow> nat \<Rightarrow> bytes \<Rightarrow> (int \<times> tx_adapter \<times> tx_attrib \<times> bytes) option" where
  "rtw_make_wlanhdr ad a p buf =
     (case (case ta_psta a of Some i \<Rightarrow> Some i
            | None \<Rightarrow> if IS_MCAST (ta_ra a) then ad_bcmc ad else ad_lookup ad (ta_ra a)) of
        None \<Rightarrow> Some (rtw_FAIL, ad, a, buf)
      | Some i \<Rightarrow>
          if sta_state (ad_stas ad i) AND C_FW_LINKED = 0 then Some (rtw_FAIL, ad, a, buf)
          else do {
            buf \<leftarrow> memset_at buf p 0 WLANHDR_OFFSET;
            buf \<leftarrow> SetFrameSubType (ta_subtype a) p buf;
            if ta_subtype a AND WIFI_DATA_TYPE \<noteq> 0 then wlanhdr_data i ad a p buf
            else Some (rtw_SUCCESS, ad, a, buf)
          })"

section \<open>LLC header, packet reader, initialisation vectors\<close>

definition P802_1H_OUI :: bytes where "P802_1H_OUI = [0x00, 0x00, 0xf8]"
definition RFC1042_OUI :: bytes where "RFC1042_OUI = [0x00, 0x00, 0x00]"

definition rtw_put_snap :: "nat \<Rightarrow> u16 \<Rightarrow> bytes \<Rightarrow> (nat \<times> bytes) option" where
  "rtw_put_snap p h_proto buf =
     do {
       buf \<leftarrow> wrn buf p [0xaa, 0xaa, 0x03];
       buf \<leftarrow> wrn buf (p + 3) (if h_proto = 0x8137 \<or> h_proto = 0x80f3 then P802_1H_OUI else RFC1042_OUI);
       buf \<leftarrow> wrn buf (p + SNAP_SIZE) (be16 h_proto);
       Some (SNAP_SIZE + 2, buf)
     }"

record pkt_file =
  pf_data :: bytes
  pf_cur :: nat
  pf_pkt_len :: nat

definition rtw_open_pktfile :: "bytes \<Rightarrow> pkt_file" where
  "rtw_open_pktfile pkt = \<lparr>pf_data = pkt, pf_cur = 0, pf_pkt_len = length pkt\<rparr>"

definition rtw_remainder_len :: "pkt_file \<Rightarrow> nat" where
  "rtw_remainder_len f = length (pf_data f) - pf_cur f"

definition rtw_pktfile_read :: "pkt_file \<Rightarrow> u32 \<Rightarrow> bytes \<times> pkt_file" where
  "rtw_pktfile_read f rlen =
     (let len = rtw_remainder_len f; len = (if unat rlen > len then len else unat rlen) in
      (take len (drop (length (pf_data f) - pf_pkt_len f) (pf_data f)),
       f\<lparr>pf_cur := pf_cur f + len, pf_pkt_len := pf_pkt_len f - len\<rparr>))"

definition rtw_endofpktfile :: "pkt_file \<Rightarrow> bool" where
  "rtw_endofpktfile f \<longleftrightarrow> pf_pkt_len f = 0"

text \<open>\<open>pn_byte n pn\<close> is \<^verbatim>\<open>TSCn\<close>; the results are the first bytes of \<^verbatim>\<open>pattrib->iv\<close> and the next packet number.\<close>

definition pn_byte :: "nat \<Rightarrow> u64 \<Rightarrow> u8" where
  "pn_byte n pn = ucast (drop_bit (8 * n) pn)"

definition WEP_IV :: "u64 \<Rightarrow> u8 \<Rightarrow> bytes \<times> u64" where
  "WEP_IV pn keyidx =
     ([pn_byte 0 pn, pn_byte 1 pn, pn_byte 2 pn, push_bit 6 (keyidx AND 3)], if pn = 0xffffff then 0 else pn + 1)"

definition TKIP_IV :: "u64 \<Rightarrow> u8 \<Rightarrow> bytes \<times> u64" where
  "TKIP_IV pn keyidx =
     ([pn_byte 1 pn, (pn_byte 1 pn OR 0x20) AND 0x7f, pn_byte 0 pn, 0x20 OR push_bit 6 (keyidx AND 3),
       pn_byte 2 pn, pn_byte 3 pn, pn_byte 4 pn, pn_byte 5 pn], if pn = 0xffffffffffff then 0 else pn + 1)"

definition AES_IV :: "u64 \<Rightarrow> u8 \<Rightarrow> bytes \<times> u64" where
  "AES_IV pn keyidx =
     ([pn_byte 0 pn, pn_byte 1 pn, 0, 0x20 OR push_bit 6 (keyidx AND 3),
       pn_byte 2 pn, pn_byte 3 pn, pn_byte 4 pn, pn_byte 5 pn], if pn = 0xffffffffffff then 0 else pn + 1)"

definition next_iv :: "bool \<Rightarrow> tx_attrib \<Rightarrow> u64 \<Rightarrow> bytes \<times> u64" where
  "next_iv bmcst a pn =
     (let (iv, pn) =
        (if ta_encrypt a = C_WEP40 \<or> ta_encrypt a = C_WEP104 then WEP_IV pn (ta_key_idx a)
         else if ta_encrypt a = C_TKIP then TKIP_IV pn (if bmcst then ta_key_idx a else 0)
         else if ta_encrypt a = C_AES then AES_IV pn (if bmcst then ta_key_idx a else 0)
         else ([], pn))
      in (iv @ drop (length iv) (ta_iv a), pn))"

section \<open>The attributes of a packet\<close>

text \<open>
  \<^verbatim>\<open>update_attrib\<close> reads the headers of the packet into variables on the stack: \<open>overlay\<close> is such a variable, with the bytes that were
  there before where the packet is too short. The calls into the management state machine and the power control
  are returned as effects. The switches are those of the build: \<^verbatim>\<open>CONFIG_LPS\<close>, without \<^verbatim>\<open>CONFIG_CONCURRENT_MODE\<close> and
  \<^verbatim>\<open>CONFIG_TCP_CSUM_OFFLOAD_TX\<close>.
\<close>

datatype tx_effect = ScanDeny nat | LpsSpecialPacket

definition ETH_P_IP :: u16 where "ETH_P_IP = 0x0800"
definition dot11AuthAlgrthm_Open :: u32 where "dot11AuthAlgrthm_Open = 0"
definition dot11AuthAlgrthm_Shared :: u32 where "dot11AuthAlgrthm_Shared = 1"
definition dot11AuthAlgrthm_8021X :: u32 where "dot11AuthAlgrthm_8021X = 2"
definition dot11AuthAlgrthm_Auto :: u32 where "dot11AuthAlgrthm_Auto = 3"

definition overlay :: "(nat \<Rightarrow> u8) \<Rightarrow> bytes \<Rightarrow> nat \<Rightarrow> u8" where
  "overlay junk x k = (if k < length x then x ! k else junk k)"

definition update_attrib_phy_info :: "tx_attrib \<Rightarrow> tx_sta \<Rightarrow> tx_attrib" where
  "update_attrib_phy_info a psta =
     a\<lparr>ta_mdata := False, ta_eosp := 0, ta_triggered := False, ta_qos_en := sta_qos_option psta, ta_ht_en := ht_option psta,
       ta_raid := sta_raid psta, ta_bwmode := ht_bwmode psta, ta_ch_offset := ht_ch_offset psta, ta_sgi := ht_sgi psta,
       ta_ampdu_en := False, ta_retry_ctrl := False\<rparr>"

definition qos_acm :: "u8 \<Rightarrow> u8 \<Rightarrow> u8" where
  "qos_acm acm_mask priority =
     (if priority = 0 \<or> priority = 3 then if bit acm_mask 1 then 1 else priority
      else if priority = 1 \<or> priority = 2 then priority
      else if priority = 4 \<or> priority = 5 then if bit acm_mask 2 then 0 else priority
      else if priority = 6 \<or> priority = 7 then if bit acm_mask 3 then 5 else priority
      else priority)"

definition set_qos :: "(nat \<Rightarrow> u8) \<Rightarrow> bytes \<Rightarrow> tx_attrib \<Rightarrow> tx_attrib" where
  "set_qos junk pkt a =
     (let f = snd (rtw_pktfile_read (rtw_open_pktfile pkt) (of_nat ETH_HLEN));
          ip_hdr = overlay junk (fst (rtw_pktfile_read f 20));
          up = (if ta_ether_type a = 0x0800 then drop_bit 5 (ip_hdr 1) else if ta_ether_type a = 0x888e then 7 else 0) in
      a\<lparr>ta_priority := up, ta_hdrlen := WLAN_HDR_A3_QOS_LEN, ta_subtype := WIFI_QOS_DATA_TYPE\<rparr>)"

definition attrib_addrs :: "tx_adapter \<Rightarrow> tx_attrib \<Rightarrow> tx_attrib" where
  "attrib_addrs ad a =
     (if check_fwstate ad WIFI_ADHOC_STATE \<or> check_fwstate ad WIFI_ADHOC_MASTER_STATE then a\<lparr>ta_ra := ta_dst a, ta_ta := ta_src a\<rparr>
      else if check_fwstate ad WIFI_STATION_STATE then a\<lparr>ta_ra := ad_bssid ad, ta_ta := ta_src a\<rparr>
      else if check_fwstate ad WIFI_AP_STATE then a\<lparr>ta_ra := ta_dst a, ta_ta := ad_bssid ad\<rparr>
      else a)"

definition attrib_dhcp :: "(nat \<Rightarrow> u8) \<Rightarrow> pkt_file \<Rightarrow> tx_attrib \<Rightarrow> tx_attrib" where
  "attrib_dhcp junk f a =
     (if ETH_P_IP = ta_ether_type a then
        let (x, f) = rtw_pktfile_read f 24; tmp = overlay junk x in
        a\<lparr>ta_dhcp_pkt := pf_pkt_len f > 282 \<and> (tmp 21 = 68 \<and> tmp 23 = 67 \<or> tmp 21 = 67 \<and> tmp 23 = 68)\<rparr>
      else a)"

definition attrib_qos :: "(nat \<Rightarrow> u8) \<Rightarrow> tx_adapter \<Rightarrow> tx_sta \<Rightarrow> bytes \<Rightarrow> tx_attrib \<Rightarrow> tx_attrib" where
  "attrib_qos junk ad psta pkt a =
     (let a = a\<lparr>ta_hdrlen := WLAN_HDR_A3_LEN, ta_subtype := WIFI_DATA_TYPE, ta_priority := 0\<rparr> in
      if check_fwstate ad (WIFI_AP_STATE OR WIFI_ADHOC_STATE OR WIFI_ADHOC_MASTER_STATE) then
        if sta_qos_option psta then set_qos junk pkt a else a
      else if ad_qos_option ad then
        let a = set_qos junk pkt a in
        if ad_acm_mask ad \<noteq> 0 then a\<lparr>ta_priority := qos_acm (ad_acm_mask ad) (ta_priority a)\<rparr> else a
      else a)"

definition GET_ENCRY_ALGO :: "tx_adapter \<Rightarrow> tx_sta \<Rightarrow> nat \<Rightarrow> bool \<Rightarrow> nat" where
  "GET_ENCRY_ALGO ad psta encry_algo bmcst =
     (if ad_AuthAlgrthm ad = dot11AuthAlgrthm_Open \<or> ad_AuthAlgrthm ad = dot11AuthAlgrthm_Shared \<or> ad_AuthAlgrthm ad = dot11AuthAlgrthm_Auto
      then ad_PrivacyAlgrthm ad mod 256
      else if ad_AuthAlgrthm ad = dot11AuthAlgrthm_8021X then if bmcst then ad_GrpPrivacy ad mod 256 else dot118021XPrivacy psta mod 256
      else encry_algo)"

definition attrib_key_idx :: "tx_adapter \<Rightarrow> bool \<Rightarrow> u8" where
  "attrib_key_idx ad bmcast =
     (if ad_AuthAlgrthm ad = dot11AuthAlgrthm_Open \<or> ad_AuthAlgrthm ad = dot11AuthAlgrthm_Shared \<or> ad_AuthAlgrthm ad = dot11AuthAlgrthm_Auto
      then of_nat (dot11PrivacyKeyIndex (ad_sec ad))
      else if ad_AuthAlgrthm ad = dot11AuthAlgrthm_8021X \<and> bmcast then of_nat (dot118021XGrpKeyid (ad_sec ad))
      else 0)"

definition attrib_lens :: "tx_attrib \<Rightarrow> tx_attrib" where
  "attrib_lens a =
     (if ta_encrypt a = C_WEP40 \<or> ta_encrypt a = C_WEP104 then a\<lparr>ta_iv_len := 4, ta_icv_len := 4\<rparr>
      else if ta_encrypt a = C_TKIP then a\<lparr>ta_iv_len := 8, ta_icv_len := 4\<rparr>
      else if ta_encrypt a = C_AES then a\<lparr>ta_iv_len := 8, ta_icv_len := 8\<rparr>
      else a\<lparr>ta_iv_len := 0, ta_icv_len := 0\<rparr>)"

text \<open>From the station on: priority, cipher and lengths.\<close>

definition attrib_sta :: "(nat \<Rightarrow> u8) \<Rightarrow> tx_adapter \<Rightarrow> nat \<Rightarrow> bool \<Rightarrow> bytes \<Rightarrow> tx_attrib \<Rightarrow> int \<times> tx_attrib" where
  "attrib_sta junk ad i bmcast pkt a =
     (let psta = ad_stas ad i;
          a = a\<lparr>ta_mac_id := ucast (sta_mac_id psta), ta_psta := Some i, ta_ack_policy := 0, ta_pkt_hdrlen := of_nat ETH_HLEN\<rparr>;
          a = attrib_qos junk ad psta pkt a;
          a = (if ieee8021x_blocked psta then a\<lparr>ta_encrypt := 0\<rparr>
               else a\<lparr>ta_encrypt := GET_ENCRY_ALGO ad psta (ta_encrypt a) bmcast, ta_key_idx := attrib_key_idx ad bmcast\<rparr>) in
      if ieee8021x_blocked psta \<and> ta_ether_type a \<noteq> 0x888e \<and> \<not> check_fwstate ad WIFI_MP_STATE then (rtw_FAIL, a)
      else let a = attrib_lens a in
        if ta_encrypt a = C_TKIP \<and> \<not> ad_busetkipkey ad then (rtw_FAIL, a)
        else (rtw_SUCCESS, update_attrib_phy_info
          (a\<lparr>ta_bswenc := ta_encrypt a \<noteq> 0 \<and> (ad_sw_encrypt ad \<or> \<not> ad_hw_decrypted ad)\<rparr>) psta))"

definition update_attrib :: "(nat \<Rightarrow> u8) \<Rightarrow> tx_adapter \<Rightarrow> bytes \<Rightarrow> tx_attrib \<Rightarrow> int \<times> tx_attrib \<times> tx_effect list" where
  "update_attrib junk ad pkt a =
     (let (x, f) = rtw_pktfile_read (rtw_open_pktfile pkt) (of_nat ETH_HLEN);
          etherhdr = overlay junk x;
          a = a\<lparr>ta_ether_type := RTW_GET_BE16 (map etherhdr [12, 13]), ta_dst := map etherhdr [0, 1, 2, 3, 4, 5],
              ta_src := map etherhdr [6, 7, 8, 9, 10, 11], ta_pctrl := False\<rparr>;
          a = (attrib_addrs ad a)\<lparr>ta_pktlen := of_nat (pf_pkt_len f)\<rparr>;
          a = attrib_dhcp junk f a;
          eff = (if ta_ether_type a = 0x888e \<or> ta_dhcp_pkt a then [ScanDeny 3000] else [])
            @ (if ta_ether_type a = 0x0806 \<or> ta_ether_type a = 0x888e \<or> ta_dhcp_pkt a then [LpsSpecialPacket] else []);
          bmcast = IS_MCAST (ta_ra a) in
      case (if bmcast then ad_bcmc ad else ad_lookup ad (ta_ra a)) of
        None \<Rightarrow> (rtw_FAIL, a, eff)
      | Some i \<Rightarrow>
          if \<not> bmcast \<and> check_fwstate ad WIFI_AP_STATE \<and> sta_state (ad_stas ad i) AND C_FW_LINKED = 0 then (rtw_FAIL, a, eff)
          else let (res, a) = attrib_sta junk ad i bmcast pkt a in (res, a, eff))"

section \<open>MIC and encryption\<close>

definition tx_sta_of :: "tx_adapter \<Rightarrow> tx_attrib \<Rightarrow> nat option" where
  "tx_sta_of ad a = (case ta_psta a of Some i \<Rightarrow> Some i | None \<Rightarrow> ad_lookup ad (ta_ra a))"

definition tx_icv :: "tx_attrib \<Rightarrow> nat" where
  "tx_icv a = (if ta_bswenc a then ta_icv_len a else 0)"

text \<open>The bytes of the fragments that the MIC covers: \<open>addmic_loop\<close> walks over \<open>n\<close> fragments from the address \<^verbatim>\<open>payload\<close>.\<close>

fun addmic_loop :: "u32 \<Rightarrow> tx_attrib \<Rightarrow> nat \<Rightarrow> bytes \<Rightarrow> nat \<Rightarrow> nat \<Rightarrow> mic_data \<Rightarrow> (nat \<times> mic_data) option" where
  "addmic_loop frag_len a base buf 0 payload d = Some (payload, d)"
| "addmic_loop frag_len a base buf (Suc n) payload d =
     (let payload = RND4 (base + payload) - base + ta_hdrlen a + ta_iv_len a in
      if n = 0 then
        let len = unat (ta_last_txcmdsz a - of_nat (ta_hdrlen a) - of_nat (ta_iv_len a) - of_nat (tx_icv a)) in
        do { x \<leftarrow> rdn buf payload len; Some (payload + len, rtw_secmicappend x d) }
      else
        let len = unat (frag_len - of_nat (ta_hdrlen a) - of_nat (ta_iv_len a) - of_nat (tx_icv a)) in
        do { x \<leftarrow> rdn buf payload len;
             addmic_loop frag_len a base buf n (payload + len + ta_icv_len a) (rtw_secmicappend x d) })"

definition addmic_header :: "tx_attrib \<Rightarrow> nat \<Rightarrow> bytes \<Rightarrow> mic_data \<Rightarrow> mic_data option" where
  "addmic_header a p buf d =
     do {
       f1 \<leftarrow> rd buf (p + 1);
       da \<leftarrow> rdn buf (p + (if f1 AND 1 \<noteq> 0 then 16 else 4)) 6;
       sa \<leftarrow> rdn buf (p + (if f1 AND 2 \<noteq> 0 then if f1 AND 1 \<noteq> 0 then 24 else 16 else 10)) 6;
       let priority = [if ta_qos_en a then ta_priority a else 0, 0, 0, 0];
       Some (rtw_secmicappend priority (rtw_secmicappend sa (rtw_secmicappend da d)))
     }"

definition addmic_key :: "tx_adapter \<Rightarrow> tx_attrib \<Rightarrow> tx_sta \<Rightarrow> bytes option" where
  "addmic_key ad a psta =
     (if IS_MCAST (ta_ra a) then idx (ad_Grptxmickey ad) (dot118021XGrpKeyid (ad_sec ad)) else Some (dot11tkiptxmickey psta))"

definition xmitframe_addmic ::
    "mic_data \<Rightarrow> tx_adapter \<Rightarrow> tx_attrib \<Rightarrow> nat \<Rightarrow> nat \<Rightarrow> bytes \<Rightarrow> (int \<times> tx_attrib \<times> bytes) option" where
  "xmitframe_addmic micdata ad a base p buf =
     (case tx_sta_of ad a of None \<Rightarrow> Some (rtw_FAIL, a, buf)
      | Some i \<Rightarrow>
          if sta_state (ad_stas ad i) AND C_FW_LINKED = 0 then Some (rtw_FAIL, a, buf)
          else if ta_encrypt a = C_TKIP then do {
            key \<leftarrow> addmic_key ad a (ad_stas ad i);
            if key = replicate 16 0 then Some (rtw_FAIL, a, buf)
            else do {
              d \<leftarrow> addmic_header a p buf (rtw_secmicsetkey micdata key);
              (payload, d) \<leftarrow> addmic_loop (ad_frag_len ad) a base buf (ta_nr_frags a) p d;
              let (mic, _) = rtw_secgetmic d;
              buf \<leftarrow> wrn buf payload mic;
              Some (rtw_SUCCESS, a\<lparr>ta_last_txcmdsz := ta_last_txcmdsz a + 8\<rparr>, buf)
            }
          }
          else Some (rtw_SUCCESS, a, buf))"

text \<open>The frame as the ciphers of \<^verbatim>\<open>Rtw_Sec_Frames\<close> see it.\<close>

definition sta_view :: "tx_adapter \<Rightarrow> nat \<Rightarrow> sta_info" where
  "sta_view ad i = sta_info.truncate (ad_stas ad i)"

definition enc_view :: "tx_adapter \<Rightarrow> tx_attrib \<Rightarrow> pkt_attrib" where
  "enc_view ad a =
     \<lparr>tx_hdrlen = ta_hdrlen a, nr_frags = ta_nr_frags a, last_txcmdsz = ta_last_txcmdsz a, tx_encrypt = ta_encrypt a,
      tx_iv_len = ta_iv_len a, tx_icv_len = ta_icv_len a, tx_ta = ta_ta a, tx_ra = ta_ra a, tx_psta = map_option (sta_view ad) (ta_psta a)\<rparr>"

definition xmitframe_swencrypt ::
    "bool \<Rightarrow> tx_adapter \<Rightarrow> tx_attrib \<Rightarrow> nat \<Rightarrow> nat \<Rightarrow> bytes \<Rightarrow> crc32_static \<Rightarrow> (bytes \<times> crc32_static) option" where
  "xmitframe_swencrypt w11 ad a base off buf st =
     (if ta_bswenc a then
        let x = \<lparr>buf_addr = Some (base, buf), pkt_offset = off, xattrib = enc_view ad a\<rparr>;
            get = (\<lambda>ra. map_option (sta_view ad) (ad_lookup ad ra));
            back = (\<lambda>x. snd (the (buf_addr x))) in
        if ta_encrypt a = C_WEP40 \<or> ta_encrypt a = C_WEP104 then
          do { (x, st) \<leftarrow> rtw_wep_encrypt (ad_sec ad) (ad_frag_len ad) x st; Some (back x, st) }
        else if ta_encrypt a = C_TKIP then
          do { (_, x, st) \<leftarrow> rtw_tkip_encrypt get (ad_sec ad) (ad_frag_len ad) x st; Some (back x, st) }
        else if ta_encrypt a = C_AES then
          do { (_, x) \<leftarrow> rtw_aes_encrypt w11 get (ad_sec ad) (ad_frag_len ad) x; Some (back x, st) }
        else Some (buf, st)
      else Some (buf, st))"

definition update_attrib_vcs_info :: "tx_adapter \<Rightarrow> tx_attrib \<Rightarrow> tx_attrib" where
  "update_attrib_vcs_info ad a =
     (case tx_sta_of ad a of None \<Rightarrow> a
      | Some i \<Rightarrow>
          let psta = ad_stas ad i;
              sz = (if ta_nr_frags a \<noteq> 1 then ad_frag_len ad else ta_last_txcmdsz a);
              over = ucast (ad_rts_thresh ad) < sz;
              plain = (if rtsen psta then RTS_CTS else if cts2self psta then CTS_TO_SELF else NONE_VCS) in
          if sta_state psta AND C_FW_LINKED = 0 then a
          else a\<lparr>ta_vcs_mode :=
            (if ad_wireless_mode ad < WIRELESS_11_24N \<or> ad_wifi_spec ad then if over then RTS_CTS else plain
             else if ad_atherosAP ad \<and> ta_ampdu_en a \<and> ad_PrivacyAlgrthm ad = C_AES then CTS_TO_SELF
             else if rtsen psta \<or> cts2self psta then plain
             else if ta_ht_en a \<and> (ad_bwmode ad \<noteq> 0 \<and> (ad_HT_protection ad = 2 \<or> ad_HT_protection ad = 3) \<or> ad_bwmode ad = 0 \<and> ad_HT_protection ad = 3)
               then RTS_CTS
             else if over then RTS_CTS
             else if ta_ampdu_en a then RTS_CTS
             else NONE_VCS)\<rparr>)"

section \<open>Coalescing\<close>

text \<open>
  One round of the loop writes one fragment at \<open>mem_start\<close>: the header is there, the rest follows. The result is the number of bytes
  taken from the packet, the size of the LLC header, the address behind the fragment and the changed state.
\<close>

definition coalesce_frag ::
    "nat \<Rightarrow> nat \<Rightarrow> tx_adapter \<Rightarrow> tx_attrib \<Rightarrow> nat \<Rightarrow> bytes \<Rightarrow> pkt_file
       \<Rightarrow> (nat \<times> nat \<times> nat \<times> tx_adapter \<times> tx_attrib \<times> bytes \<times> pkt_file) option" where
  "coalesce_frag i frg_inx ad a mem_start buf f =
     do {
       buf \<leftarrow> fc_or C_MORE_FRAG mem_start buf;
       let bmcst = IS_MCAST (ta_ra a);
       let pframe = mem_start + ta_hdrlen a;
       let mpdu_len = ad_frag_len ad - 4 - of_nat (ta_hdrlen a);
       (ad, a, buf) \<leftarrow>
         (if ta_iv_len a \<noteq> 0 then
            let (iv, pn) = next_iv bmcst a (dot11txpn (ad_stas ad i)) in
            do { x \<leftarrow> rdn iv 0 (ta_iv_len a);
                 buf \<leftarrow> wrn buf pframe x;
                 Some (put_sta i (\<lambda>s. s\<lparr>dot11txpn := pn\<rparr>) ad, a\<lparr>ta_iv := iv\<rparr>, buf) }
          else Some (ad, a, buf));
       let pframe = pframe + ta_iv_len a;
       let mpdu_len = mpdu_len - of_nat (ta_iv_len a);
       (llc_sz, buf) \<leftarrow> (if frg_inx = 0 then rtw_put_snap pframe (ta_ether_type a) buf else Some (0, buf));
       let pframe = pframe + llc_sz;
       let mpdu_len = mpdu_len - of_nat llc_sz - of_nat (tx_icv a);
       let (x, f) = rtw_pktfile_read f (if bmcst then ta_pktlen a else mpdu_len);
       buf \<leftarrow> wrn buf pframe x;
       let pframe = pframe + length x;
       buf \<leftarrow> (if ta_icv_len a > 0 \<and> ta_bswenc a then do { v \<leftarrow> rdn (ta_icv a) 0 (ta_icv_len a); wrn buf pframe v } else Some buf);
       Some (length x, llc_sz, pframe + tx_icv a, ad, a, buf, f)
     }"

text \<open>The loop; \<open>start0\<close> is \<^verbatim>\<open>pbuf_start + TXDESC_OFFSET\<close>, where it takes the header of the next fragment from.\<close>

partial_function (option) coalesce_loop ::
    "nat \<Rightarrow> nat \<Rightarrow> nat \<Rightarrow> tx_adapter \<Rightarrow> tx_attrib \<Rightarrow> nat \<Rightarrow> bytes \<Rightarrow> pkt_file \<Rightarrow> (tx_adapter \<times> tx_attrib \<times> bytes) option" where
  "coalesce_loop i base frg_inx ad a mem_start buf f =
     do {
       (mem_sz, llc_sz, pframe, ad, a, buf, f) \<leftarrow> coalesce_frag i frg_inx ad a mem_start buf f;
       let frg_inx = frg_inx + 1;
       if IS_MCAST (ta_ra a) \<or> rtw_endofpktfile f then do {
         buf \<leftarrow> fc_and (NOT C_MORE_FRAG) mem_start buf;
         let a = a\<lparr>ta_nr_frags := frg_inx mod 256\<rparr>;
         Some (ad, a\<lparr>ta_last_txcmdsz := of_nat (ta_hdrlen a) + of_nat (ta_iv_len a) + (if ta_nr_frags a = 1 then of_nat llc_sz else 0)
            + of_nat (tx_icv a) + of_nat mem_sz\<rparr>, buf)
       } else do {
         let mem_start = RND4 (base + pframe) - base + TXDESC_OFFSET;
         h \<leftarrow> rdn buf TXDESC_OFFSET (ta_hdrlen a);
         buf \<leftarrow> wrn buf mem_start h;
         coalesce_loop i base frg_inx ad a mem_start buf f
       }
     }"

definition rtw_xmitframe_coalesce ::
    "bool \<Rightarrow> mic_data \<Rightarrow> tx_adapter \<Rightarrow> tx_attrib \<Rightarrow> (nat \<times> bytes) option \<Rightarrow> nat \<Rightarrow> bytes \<Rightarrow> crc32_static
       \<Rightarrow> (int \<times> tx_adapter \<times> tx_attrib \<times> (nat \<times> bytes) option \<times> crc32_static) option" where
  "rtw_xmitframe_coalesce w11 micdata ad a bufa off pkt st =
     (case tx_sta_of ad a of None \<Rightarrow> Some (rtw_FAIL, ad, a, bufa, st)
      | Some i \<Rightarrow>
          if sta_state (ad_stas ad i) AND C_FW_LINKED = 0 then Some (rtw_FAIL, ad, a, bufa, st)
          else (case bufa of None \<Rightarrow> Some (rtw_FAIL, ad, a, bufa, st)
          | Some (base, buf) \<Rightarrow> do {
              let mem_start = TXDESC_SIZE + off * PACKET_OFFSET_SZ;
              (r, ad, a, buf) \<leftarrow> rtw_make_wlanhdr ad a mem_start buf;
              if r = rtw_FAIL then Some (rtw_FAIL, ad, a, Some (base, buf), st)
              else do {
                let f = snd (rtw_pktfile_read (rtw_open_pktfile pkt) (ucast (ta_pkt_hdrlen a)));
                (ad, a, buf) \<leftarrow> coalesce_loop i base 0 ad a mem_start buf f;
                (r, a, buf) \<leftarrow> xmitframe_addmic micdata ad a base mem_start buf;
                if r = rtw_FAIL then Some (rtw_FAIL, ad, a, Some (base, buf), st)
                else do {
                  (buf, st) \<leftarrow> xmitframe_swencrypt w11 ad a base off buf st;
                  let a = (if IS_MCAST (ta_ra a) then a\<lparr>ta_vcs_mode := NONE_VCS\<rparr> else update_attrib_vcs_info ad a);
                  Some (rtw_SUCCESS, ad, a, Some (base, buf), st)
                }
              }
            }))"

definition rtw_calculate_wlan_pkt_size_by_attribue :: "tx_attrib \<Rightarrow> u32" where
  "rtw_calculate_wlan_pkt_size_by_attribue a =
     of_nat (ta_hdrlen a + ta_iv_len a) + of_nat (SNAP_SIZE + 2) + ta_pktlen a + (if ta_encrypt a = C_TKIP then 8 else 0) + of_nat (ta_icv_len a)"

end
