(* ===== verification/Rtw_Tx_Props.thy ===== *)
theory Rtw_Tx_Props
  imports Rtw_Tx
begin

unbundle bit_operations_syntax

text \<open>
  What the transmit path writes: the header (\<open>make_wlanhdr_correct\<close>), the frame of a packet that needs no
  fragmentation, and that the receive path of \<^verbatim>\<open>Rtw_Rx\<close> turns it back into the packet.
\<close>

section \<open>Fields of the header\<close>

lemma le16_at_mid: "le16_at (pre @ RTW_PUT_LE16 w @ r) (length pre) = Some w"
proof -
  have "RTW_GET_LE16 (pre @ RTW_PUT_LE16 w @ r) (length pre) = le16_at (pre @ RTW_PUT_LE16 w @ r) (length pre)"
    by (simp add: RTW_GET_LE16_def le16_at_def RTW_PUT_LE16_def rd_def nth_append or.commute)
  then show ?thesis by (simp add: LE16_at)
qed

lemma wrn_mid: "length x = length y \<Longrightarrow> n = length pre \<Longrightarrow> wrn (pre @ x @ r) n y = Some (pre @ y @ r)"
  using wrn_middle by simp

lemma fc_or_mid: "fc_or m (length pre) (pre @ RTW_PUT_LE16 w @ r) = Some (pre @ RTW_PUT_LE16 (w OR m) @ r)"
  by (simp add: fc_or_def le16_at_mid wrn_mid)

lemma fc_and_mid: "fc_and m (length pre) (pre @ RTW_PUT_LE16 w @ r) = Some (pre @ RTW_PUT_LE16 (w AND m) @ r)"
  by (simp add: fc_and_def le16_at_mid wrn_mid)

text \<open>The 64 bytes that are cleared for a header: frame control, duration, three addresses, sequence control, QoS control.\<close>

definition hdr64 :: "u16 \<Rightarrow> bytes \<Rightarrow> bytes \<Rightarrow> bytes \<Rightarrow> u16 \<Rightarrow> u16 \<Rightarrow> bytes" where
  "hdr64 fc a b c s q = RTW_PUT_LE16 fc @ [0, 0] @ a @ b @ c @ RTW_PUT_LE16 s @ RTW_PUT_LE16 q @ replicate 38 0"

definition addr6 :: "bytes \<Rightarrow> bytes \<Rightarrow> bytes \<Rightarrow> bool" where
  "addr6 a b c \<longleftrightarrow> length a = 6 \<and> length b = 6 \<and> length c = 6"

lemma length_hdr64: "addr6 a b c \<Longrightarrow> length (hdr64 fc a b c s q) = 64"
  by (simp add: hdr64_def addr6_def)

lemma hdr64_zero: "replicate 64 0 = hdr64 0 (replicate 6 0) (replicate 6 0) (replicate 6 0) 0 0"
  by (simp add: hdr64_def RTW_PUT_LE16_def numeral_eq_Suc)

lemma hdr64_fc:
  "fc_or m (length pre) (pre @ hdr64 fc a b c s q @ post) = Some (pre @ hdr64 (fc OR m) a b c s q @ post)"
  "fc_and m (length pre) (pre @ hdr64 fc a b c s q @ post) = Some (pre @ hdr64 (fc AND m) a b c s q @ post)"
  by (simp_all add: hdr64_def fc_or_mid fc_and_mid)

lemma hdr64_addr:
  assumes "addr6 a b c" "length x = 6"
  shows "wrn (pre @ hdr64 fc a b c s q @ post) (length pre + 4) x = Some (pre @ hdr64 fc x b c s q @ post)"
    "wrn (pre @ hdr64 fc a b c s q @ post) (length pre + 10) x = Some (pre @ hdr64 fc a x c s q @ post)"
    "wrn (pre @ hdr64 fc a b c s q @ post) (length pre + 16) x = Some (pre @ hdr64 fc a b x s q @ post)"
  using wrn_mid [of a x "length pre + 4" "pre @ RTW_PUT_LE16 fc @ [0, 0]"]
    wrn_mid [of b x "length pre + 10" "pre @ RTW_PUT_LE16 fc @ [0, 0] @ a"]
    wrn_mid [of c x "length pre + 16" "pre @ RTW_PUT_LE16 fc @ [0, 0] @ a @ b"] assms
  by (simp_all add: hdr64_def addr6_def)

lemma hdr64_qc:
  assumes "addr6 a b c"
  shows "fc_or m (length pre + 24) (pre @ hdr64 fc a b c s q @ post) = Some (pre @ hdr64 fc a b c s (q OR m) @ post)"
  using fc_or_mid [of m "pre @ RTW_PUT_LE16 fc @ [0, 0] @ a @ b @ c @ RTW_PUT_LE16 s" q] assms
  by (simp add: hdr64_def addr6_def add.commute [of _ 24])

lemma hdr64_seq:
  assumes "addr6 a b c"
  shows "SetSeqNum n (length pre) (pre @ hdr64 fc a b c 0 q @ post) = Some (pre @ hdr64 fc a b c (0xFFF0 AND push_bit 4 n) q @ post)"
proof -
  let ?p = "pre @ RTW_PUT_LE16 fc @ [0, 0] @ a @ b @ c"
  have l: "length ?p = length pre + 22" using assms by (simp add: addr6_def)
  have "le16_at (pre @ hdr64 fc a b c 0 q @ post) (length pre + 22) = Some 0"
    using le16_at_mid [of ?p 0] l by (simp add: hdr64_def add.commute [of _ 22])
  moreover have "wrn (pre @ hdr64 fc a b c 0 q @ post) (length pre + 22) (RTW_PUT_LE16 w) = Some (pre @ hdr64 fc a b c w q @ post)" for w
    using wrn_mid [of "RTW_PUT_LE16 0" "RTW_PUT_LE16 w" "length pre + 22" ?p] l by (simp add: hdr64_def)
  ultimately show ?thesis by (simp add: SetSeqNum_def)
qed

section \<open>The header of a data frame\<close>

definition role_ok :: "tx_adapter \<Rightarrow> bool" where
  "role_ok ad \<longleftrightarrow> check_fwstate ad WIFI_STATION_STATE \<or> check_fwstate ad WIFI_AP_STATE
     \<or> check_fwstate ad WIFI_ADHOC_STATE \<or> check_fwstate ad WIFI_ADHOC_MASTER_STATE"

definition role_ds :: "tx_adapter \<Rightarrow> u16" where
  "role_ds ad = (if check_fwstate ad WIFI_STATION_STATE then C_TO_DS else if check_fwstate ad WIFI_AP_STATE then C_FROM_DS else 0)"

text \<open>The three addresses: receiver, transmitter, and the one that is neither.\<close>

definition role_addrs :: "tx_adapter \<Rightarrow> tx_attrib \<Rightarrow> bytes \<times> bytes \<times> bytes" where
  "role_addrs ad a =
     (if check_fwstate ad WIFI_STATION_STATE then (ad_bssid ad, ta_src a, ta_dst a)
      else if check_fwstate ad WIFI_AP_STATE then (ta_dst a, ad_bssid ad, ta_src a)
      else (ta_dst a, ta_src a, ad_bssid ad))"

definition role_qos :: "tx_adapter \<Rightarrow> tx_sta \<Rightarrow> bool" where
  "role_qos ad s = (if check_fwstate ad WIFI_STATION_STATE then ad_qos_option ad else sta_qos_option s)"

definition hdr_fc :: "tx_adapter \<Rightarrow> tx_attrib \<Rightarrow> u16" where
  "hdr_fc ad a = ucast (ta_subtype a) OR role_ds ad OR (if ta_mdata a then C_MORE_DATA else 0) OR (if ta_encrypt a \<noteq> 0 then C_PRIVACY else 0)"

definition hdr_qc :: "tx_attrib \<Rightarrow> u16" where
  "hdr_qc a = (ucast (ta_priority a) AND 0xF) OR push_bit 4 (ucast (ta_eosp a) AND 1) OR push_bit 5 (ucast (ta_ack_policy a) AND 3)"

definition tx_wf :: "tx_adapter \<Rightarrow> tx_attrib \<Rightarrow> nat \<Rightarrow> bool" where
  "tx_wf ad a i \<longleftrightarrow> addr6 (ad_bssid ad) (ta_src a) (ta_dst a) \<and> role_ok ad \<and> unat (ta_priority a) < 16
     \<and> sta_state (ad_stas ad i) AND C_FW_LINKED \<noteq> 0 \<and> length (txseq_tid (ad_stas ad i)) = 16 \<and> length (BA_starting_seqctrl (ad_stas ad i)) = 16
     \<and> ta_subtype a AND WIFI_DATA_TYPE \<noteq> 0 \<and> ta_hdrlen a = (if role_qos ad (ad_stas ad i) then 26 else 24)"

lemma wlanhdr_addrs_eq:
  assumes "addr6 (ad_bssid ad) (ta_src a) (ta_dst a)" "role_ok ad"
  shows "wlanhdr_addrs ad s a (length pre) (pre @ hdr64 fc (replicate 6 0) (replicate 6 0) (replicate 6 0) 0 0 @ post)
    = Some (True, role_qos ad s, pre @ (case role_addrs ad a of (x, y, z) \<Rightarrow> hdr64 (fc OR role_ds ad) x y z 0 0) @ post)"
proof -
  have z: "addr6 (replicate 6 0) (replicate 6 0) (replicate 6 0)" by (simp add: addr6_def)
  have l: "length (ad_bssid ad) = 6" "length (ta_src a) = 6" "length (ta_dst a) = 6" using assms(1) by (simp_all add: addr6_def)
  have w: "do { buf \<leftarrow> wrn (pre @ hdr64 g (replicate 6 0) (replicate 6 0) (replicate 6 0) 0 0 @ post) (length pre + 4) x;
        buf \<leftarrow> wrn buf (length pre + 10) y; buf \<leftarrow> wrn buf (length pre + 16) v; Some (t, u, buf) } = Some (t, u, pre @ hdr64 g x y v 0 0 @ post)"
    if "length x = 6" "length y = 6" "length v = 6" for g x y v t u
    using that z by (simp add: hdr64_addr addr6_def)
  show ?thesis
    using assms(2) l unfolding wlanhdr_addrs_def role_addrs_def role_ds_def role_qos_def role_ok_def
    by (auto simp: hdr64_fc w)
qed

lemma wlanhdr_qos_eq:
  assumes "addr6 x y z"
  shows "wlanhdr_qos a (length pre + 24) (pre @ hdr64 fc x y z s 0 @ post) = Some (pre @ hdr64 fc x y z s (hdr_qc a) @ post)"
  using assms by (simp add: wlanhdr_qos_def hdr64_qc hdr_qc_def or.assoc)

definition ampdu_wanted :: "tx_sta \<Rightarrow> tx_attrib \<Rightarrow> bool" where
  "ampdu_wanted s a \<longleftrightarrow> ta_ampdu_en a \<or> ta_ht_en a \<and> ampdu_enable s \<and> bit (agg_enable_bitmap s) (unat (ta_priority a))"

lemma wlanhdr_ampdu_eq:
  assumes "idx (BA_starting_seqctrl s) (unat (ta_priority a AND 0xF)) = Some t"
  shows "wlanhdr_ampdu s a =
    (if ampdu_wanted s a \<and> \<not> SN_LESS (ta_seqnum a) t
     then Some (s\<lparr>BA_starting_seqctrl := (BA_starting_seqctrl s)[unat (ta_priority a AND 0xF) :=
         (if SN_EQUAL (ta_seqnum a) t then t + 1 else ta_seqnum a + 1) AND 0xFFF]\<rparr>, a\<lparr>ta_ampdu_en := True\<rparr>)
     else Some (s, a\<lparr>ta_ampdu_en := False\<rparr>))"
  using assms by (cases a) (auto simp: wlanhdr_ampdu_def ampdu_wanted_def Let_def)

lemma wlanhdr_ampdu_keeps:
  assumes l: "length (BA_starting_seqctrl s) = 16"
  shows "\<exists>b e. wlanhdr_ampdu s a = Some (s\<lparr>BA_starting_seqctrl := b\<rparr>, a\<lparr>ta_ampdu_en := e\<rparr>) \<and> length b = 16"
proof -
  have m: "(0xF :: u8) = mask 4" by (simp add: mask_eq_exp_minus_1)
  have "unat (ta_priority a AND 0xF) < 16" unfolding m take_bit_eq_mask [symmetric] unsigned_take_bit_eq by (simp add: take_bit_eq_mod)
  then obtain t where t: "idx (BA_starting_seqctrl s) (unat (ta_priority a AND 0xF)) = Some t" using l by (simp add: idx_def)
  have "\<exists>b. s = s\<lparr>BA_starting_seqctrl := b\<rparr> \<and> length b = 16"
    using l by (intro exI [of _ "BA_starting_seqctrl s"]) simp
  then show ?thesis
    using l unfolding wlanhdr_ampdu_eq [OF t] by (auto simp del: tx_sta.update_convs)
qed

lemma make_wlanhdr_writes:
  assumes wf: "tx_wf ad a i" and sta: "ta_psta a = Some i" and z: "length z = 64"
  defines "seq \<equiv> (txseq_tid (ad_stas ad i) ! unat (ta_priority a) + 1) AND 0xFFF"
  shows "\<exists>ad' e b. rtw_make_wlanhdr ad a (length pre) (pre @ z @ post) = Some (rtw_SUCCESS, ad', a\<lparr>ta_seqnum := seq, ta_ampdu_en := e\<rparr>,
      pre @ (case role_addrs ad a of (x, y, v) \<Rightarrow> hdr64 (hdr_fc ad a) x y v (0xFFF0 AND push_bit 4 seq) (if role_qos ad (ad_stas ad i) then hdr_qc a else 0)) @ post)
    \<and> ad' = put_sta i (\<lambda>s. s\<lparr>txseq_tid := (txseq_tid s)[unat (ta_priority a) := seq], BA_starting_seqctrl := b\<rparr>) ad \<and> length b = 16"
proof -
  obtain x y v where r: "role_addrs ad a = (x, y, v)" by (cases "role_addrs ad a")
  have xyz: "addr6 x y v" using wf r by (auto simp: tx_wf_def role_addrs_def addr6_def split: if_splits)
  let ?s = "ad_stas ad i" and ?k = "unat (ta_priority a)" and ?z6 = "replicate 6 0 :: bytes"
  have m: "memset_at (pre @ z @ post) (length pre) 0 64 = Some (pre @ hdr64 0 ?z6 ?z6 ?z6 0 0 @ post)"
    unfolding memset_at_def hdr64_zero [symmetric] using z by (intro wrn_mid) simp_all
  have t: "SetFrameSubType (ta_subtype a) (length pre) (pre @ hdr64 0 ?z6 ?z6 ?z6 0 0 @ post) = Some (pre @ hdr64 (ucast (ta_subtype a)) ?z6 ?z6 ?z6 0 0 @ post)"
    by (simp add: SetFrameSubType_def hdr64_fc)
  have ad: "wlanhdr_addrs ad ?s a (length pre) (pre @ hdr64 (ucast (ta_subtype a)) ?z6 ?z6 ?z6 0 0 @ post)
      = Some (True, role_qos ad ?s, pre @ hdr64 (ucast (ta_subtype a) OR role_ds ad) x y v 0 0 @ post)"
    using wlanhdr_addrs_eq [of ad a ?s pre "ucast (ta_subtype a)" post] wf r by (simp add: tx_wf_def)
  have fc: "do { buf \<leftarrow> (if ta_mdata a then fc_or C_MORE_DATA (length pre) (pre @ hdr64 (ucast (ta_subtype a) OR role_ds ad) x y v 0 0 @ post)
          else Some (pre @ hdr64 (ucast (ta_subtype a) OR role_ds ad) x y v 0 0 @ post));
        if ta_encrypt a \<noteq> 0 then fc_or C_PRIVACY (length pre) buf else Some buf } = Some (pre @ hdr64 (hdr_fc ad a) x y v 0 0 @ post)"
    by (simp add: hdr64_fc hdr_fc_def or.assoc)
  have q: "(if role_qos ad ?s then wlanhdr_qos a (length pre + ta_hdrlen a - 2) (pre @ hdr64 (hdr_fc ad a) x y v 0 0 @ post)
        else Some (pre @ hdr64 (hdr_fc ad a) x y v 0 0 @ post)) = Some (pre @ hdr64 (hdr_fc ad a) x y v 0 (if role_qos ad ?s then hdr_qc a else 0) @ post)"
    using wf wlanhdr_qos_eq [OF xyz, of a pre] by (auto simp: tx_wf_def add.commute)
  have i: "idx (txseq_tid ?s) ?k = Some (txseq_tid ?s ! ?k)" using wf by (simp add: tx_wf_def idx_def)
  obtain e b where am: "wlanhdr_ampdu (?s\<lparr>txseq_tid := (txseq_tid ?s)[?k := seq]\<rparr>) (a\<lparr>ta_seqnum := seq\<rparr>) = Some (?s\<lparr>txseq_tid := (txseq_tid ?s)[?k := seq], BA_starting_seqctrl := b\<rparr>, a\<lparr>ta_seqnum := seq, ta_ampdu_en := e\<rparr>)"
    "length b = 16"
    using wlanhdr_ampdu_keeps [of "?s\<lparr>txseq_tid := (txseq_tid ?s)[?k := seq]\<rparr>" "a\<lparr>ta_seqnum := seq\<rparr>"] wf by (auto simp: tx_wf_def)
  have "wlanhdr_data i ad a (length pre) (pre @ hdr64 (ucast (ta_subtype a)) ?z6 ?z6 ?z6 0 0 @ post)
      = Some (rtw_SUCCESS, put_sta i (\<lambda>_. ?s\<lparr>txseq_tid := (txseq_tid ?s)[?k := seq], BA_starting_seqctrl := b\<rparr>) ad, a\<lparr>ta_seqnum := seq, ta_ampdu_en := e\<rparr>,
          pre @ hdr64 (hdr_fc ad a) x y v (0xFFF0 AND push_bit 4 seq) (if role_qos ad ?s then hdr_qc a else 0) @ post)"
    unfolding wlanhdr_data_def ad using fc q i am(1) hdr64_seq [OF xyz, of seq pre "hdr_fc ad a" "if role_qos ad ?s then hdr_qc a else 0" post]
    by (simp add: seq_def Let_def bind_assoc [symmetric] del: bind_assoc)
  then show ?thesis
    using m t wf sta am(2) by (auto simp: rtw_make_wlanhdr_def tx_wf_def WLANHDR_OFFSET_def r put_sta_def)
qed

section \<open>A frame that needs no fragmentation\<close>

lemma wrn_behind: "length x \<le> length r \<Longrightarrow> n = length pre \<Longrightarrow> wrn (pre @ r) n x = Some (pre @ x @ drop (length x) r)"
  by (simp add: wrn_def)

text \<open>The LLC header, and the bytes behind the 802.11 header.\<close>

definition snap_of :: "u16 \<Rightarrow> bytes" where
  "snap_of t = [0xaa, 0xaa, 0x03] @ (if t = 0x8137 \<or> t = 0x80f3 then P802_1H_OUI else RFC1042_OUI) @ be16 t"

lemma length_snap_of: "length (snap_of t) = 8"
  by (simp add: snap_of_def P802_1H_OUI_def RFC1042_OUI_def be16_def)

lemma wrn_chain3:
  assumes "length x + length y + length z \<le> length r"
  shows "do { buf \<leftarrow> wrn (pre @ r) (length pre) x; buf \<leftarrow> wrn buf (length pre + length x) y; wrn buf (length pre + length x + length y) z }
    = Some (pre @ (x @ y @ z) @ drop (length x + length y + length z) r)"
  using assms wrn_behind [OF _ refl, of y "drop (length x) r" "pre @ x"] wrn_behind [OF _ refl, of z "drop (length x + length y) r" "pre @ x @ y"]
  by (simp add: wrn_behind ac_simps)

lemma put_snap_writes:
  assumes "8 \<le> length r"
  shows "rtw_put_snap (length pre) t (pre @ r) = Some (8, pre @ snap_of t @ drop 8 r)"
proof -
  let ?o = "if t = 0x8137 \<or> t = 0x80f3 then P802_1H_OUI else RFC1042_OUI" and ?l = "[0xaa, 0xaa, 0x03] :: bytes"
  have o: "length ?o = 3" "length ?l = 3" "length (be16 t) = 2" by (simp_all add: P802_1H_OUI_def RFC1042_OUI_def be16_def)
  have "rtw_put_snap (length pre) t (pre @ r) =
      map_option (\<lambda>b. (8, b)) (do { buf \<leftarrow> wrn (pre @ r) (length pre) ?l; buf \<leftarrow> wrn buf (length pre + length ?l) ?o;
        wrn buf (length pre + length ?l + length ?o) (be16 t) })"
    unfolding rtw_put_snap_def SNAP_SIZE_def o by (simp add: map_option_bind map_conv_bind_option o_def add.commute [of 6])
  then show ?thesis
    using wrn_chain3 [of ?l ?o "be16 t" r pre] assms unfolding o snap_of_def by simp
qed

text \<open>The reader after the Ethernet header has been skipped, and that it returns the whole payload when there is room.\<close>

lemma pktfile_skip:
  assumes "length h = unat (n :: u32)"
  shows "snd (rtw_pktfile_read (rtw_open_pktfile (h @ pay)) n) = \<lparr>pf_data = h @ pay, pf_cur = length h, pf_pkt_len = length pay\<rparr>"
  using assms by (simp add: rtw_pktfile_read_def rtw_open_pktfile_def rtw_remainder_len_def Let_def)

lemma pktfile_all:
  assumes "length pay \<le> unat n"
  shows "rtw_pktfile_read \<lparr>pf_data = h @ pay, pf_cur = length h, pf_pkt_len = length pay\<rparr> n
    = (pay, \<lparr>pf_data = h @ pay, pf_cur = length h + length pay, pf_pkt_len = 0\<rparr>)"
  using assms by (simp add: rtw_pktfile_read_def rtw_remainder_len_def Let_def)

definition tx_iv_of :: "tx_attrib \<Rightarrow> u64 \<Rightarrow> bytes" where
  "tx_iv_of a pn = take (ta_iv_len a) (fst (next_iv (IS_MCAST (ta_ra a)) a pn))"

definition tx_body :: "tx_attrib \<Rightarrow> u64 \<Rightarrow> bytes \<Rightarrow> bytes" where
  "tx_body a pn pay = tx_iv_of a pn @ snap_of (ta_ether_type a) @ pay @ take (tx_icv a) (ta_icv a)"

text \<open>Drawing the initialisation vector counts the packet number up; without one, nothing changes.\<close>

definition iv_sta :: "tx_attrib \<Rightarrow> tx_sta \<Rightarrow> tx_sta" where
  "iv_sta a s = (if ta_iv_len a \<noteq> 0 then s\<lparr>dot11txpn := snd (next_iv (IS_MCAST (ta_ra a)) a (dot11txpn s))\<rparr> else s)"

definition iv_attrib :: "tx_attrib \<Rightarrow> u64 \<Rightarrow> tx_attrib" where
  "iv_attrib a pn = (if ta_iv_len a \<noteq> 0 then a\<lparr>ta_iv := fst (next_iv (IS_MCAST (ta_ra a)) a pn)\<rparr> else a)"

text \<open>The bytes that may be taken from the packet.\<close>

definition tx_room :: "tx_adapter \<Rightarrow> tx_attrib \<Rightarrow> u32" where
  "tx_room ad a = (if IS_MCAST (ta_ra a) then ta_pktlen a
     else ad_frag_len ad - 4 - of_nat (ta_hdrlen a) - of_nat (ta_iv_len a) - 8 - of_nat (tx_icv a))"

definition iv_ok :: "tx_attrib \<Rightarrow> bool" where
  "iv_ok a \<longleftrightarrow> ta_iv_len a \<le> 8 \<and> ta_icv_len a \<le> 8 \<and> length (ta_iv a) = 8 \<and> length (ta_icv a) = 8"

lemma length_next_iv: "length (ta_iv a) = 8 \<Longrightarrow> length (fst (next_iv m a pn)) = 8"
  by (simp add: next_iv_def WEP_IV_def TKIP_IV_def AES_IV_def)

lemma length_tx_body:
  "iv_ok a \<Longrightarrow> length (tx_body a pn pay) = ta_iv_len a + 8 + length pay + tx_icv a"
  by (simp add: tx_body_def tx_iv_of_def length_snap_of iv_ok_def length_next_iv tx_icv_def)

lemma coalesce_frag_first:
  assumes iv: "iv_ok a" and h: "length h + 2 = ta_hdrlen a"
    and r: "ta_iv_len a + 8 + length pay + tx_icv a \<le> length r"
    and f: "rtw_pktfile_read f (tx_room ad a) = (pay, f')" and pn: "pn = dot11txpn (ad_stas ad i)"
  shows "coalesce_frag i 0 ad a (length pre) (pre @ RTW_PUT_LE16 fc @ h @ r) f
    = Some (length pay, 8, length pre + ta_hdrlen a + length (tx_body a pn pay), put_sta i (iv_sta a) ad, iv_attrib a pn,
        pre @ RTW_PUT_LE16 (fc OR C_MORE_FRAG) @ h @ tx_body a pn pay @ drop (length (tx_body a pn pay)) r, f')"
proof -
  let ?H = "pre @ RTW_PUT_LE16 (fc OR C_MORE_FRAG) @ h" and ?iv = "tx_iv_of a pn" and ?S = "snap_of (ta_ether_type a)"
  let ?icv = "take (tx_icv a) (ta_icv a)"
  have H: "length ?H = length pre + ta_hdrlen a" using h by simp
  have liv: "length ?iv = ta_iv_len a" using iv by (simp add: tx_iv_of_def iv_ok_def length_next_iv)
  have licv: "length ?icv = tx_icv a" using iv by (simp add: iv_ok_def tx_icv_def)
  have w1: "(if ta_iv_len a \<noteq> 0 then
            let (iv, pn) = next_iv (IS_MCAST (ta_ra a)) a pn in
            do { x \<leftarrow> rdn iv 0 (ta_iv_len a); buf \<leftarrow> wrn (?H @ r) (length ?H) x;
                 Some (put_sta i (\<lambda>s. s\<lparr>dot11txpn := pn\<rparr>) ad, a\<lparr>ta_iv := iv\<rparr>, buf) }
          else Some (ad, a, ?H @ r))
      = Some (put_sta i (iv_sta a) ad, iv_attrib a pn, (?H @ ?iv) @ drop (ta_iv_len a) r)"
  proof (cases "ta_iv_len a = 0")
    case True then show ?thesis by (simp add: iv_sta_def iv_attrib_def tx_iv_of_def put_sta_def)
  next
    case False
    have "rdn (fst (next_iv (IS_MCAST (ta_ra a)) a pn)) 0 (ta_iv_len a) = Some ?iv"
      using iv by (simp add: rdn_def tx_iv_of_def iv_ok_def length_next_iv)
    moreover have "wrn (?H @ r) (length ?H) ?iv = Some ((?H @ ?iv) @ drop (ta_iv_len a) r)"
      using wrn_behind [OF _ refl, of ?iv r ?H] r liv by simp
    ultimately show ?thesis using False by (auto simp: iv_sta_def iv_attrib_def put_sta_def pn split: prod.splits)
  qed
  have w2: "rtw_put_snap (length (?H @ ?iv)) (ta_ether_type a) ((?H @ ?iv) @ drop (ta_iv_len a) r)
      = Some (8, (?H @ ?iv @ ?S) @ drop (ta_iv_len a + 8) r)"
    using put_snap_writes [of "drop (ta_iv_len a) r" "?H @ ?iv"] r by (simp add: add.commute)
  have w3: "wrn ((?H @ ?iv @ ?S) @ drop (ta_iv_len a + 8) r) (length (?H @ ?iv @ ?S)) pay
      = Some ((?H @ ?iv @ ?S @ pay) @ drop (ta_iv_len a + 8 + length pay) r)"
    using wrn_behind [OF _ refl, of pay "drop (ta_iv_len a + 8) r" "?H @ ?iv @ ?S"] r by (simp add: ac_simps)
  have w4: "(if ta_icv_len a > 0 \<and> ta_bswenc a then do { v \<leftarrow> rdn (ta_icv a) 0 (ta_icv_len a);
        wrn ((?H @ ?iv @ ?S @ pay) @ drop (ta_iv_len a + 8 + length pay) r) (length (?H @ ?iv @ ?S @ pay)) v }
      else Some ((?H @ ?iv @ ?S @ pay) @ drop (ta_iv_len a + 8 + length pay) r))
      = Some (?H @ tx_body a pn pay @ drop (length (tx_body a pn pay)) r)"
    using wrn_behind [OF _ refl, of ?icv "drop (ta_iv_len a + 8 + length pay) r" "?H @ ?iv @ ?S @ pay"] r iv licv
    by (auto simp: tx_body_def tx_icv_def iv_ok_def rdn_def liv length_snap_of ac_simps)
  have a: "ta_ether_type (iv_attrib a pn) = ta_ether_type a" "ta_iv_len (iv_attrib a pn) = ta_iv_len a" "tx_icv (iv_attrib a pn) = tx_icv a"
    "ta_pktlen (iv_attrib a pn) = ta_pktlen a" "ta_icv_len (iv_attrib a pn) = ta_icv_len a" "ta_bswenc (iv_attrib a pn) = ta_bswenc a"
    "ta_icv (iv_attrib a pn) = ta_icv a"
    by (simp_all add: iv_attrib_def tx_icv_def)
  have p: "length (?H @ ?iv) = length pre + ta_hdrlen a + ta_iv_len a" "length (?H @ ?iv @ ?S) = length pre + ta_hdrlen a + ta_iv_len a + 8"
    "length (?H @ ?iv @ ?S @ pay) = length pre + ta_hdrlen a + ta_iv_len a + 8 + length pay"
    using H liv by (simp_all add: length_snap_of)
  have room: "(if IS_MCAST (ta_ra a) then ta_pktlen a else ad_frag_len ad - 4 - of_nat (ta_hdrlen a) - of_nat (ta_iv_len a) - of_nat 8 - of_nat (tx_icv a))
      = tx_room ad a"
    by (simp add: tx_room_def)
  note w = w1 [unfolded p H, unfolded append_assoc Let_def] w2 [unfolded p, unfolded append_assoc] w3 [unfolded p, unfolded append_assoc]
    w4 [unfolded p, unfolded append_assoc]
  show ?thesis
    unfolding coalesce_frag_def Let_def pn [symmetric]
    by (simp only: fc_or_mid bind.bind_lunit w prod.case a room f simp_thms if_True) (simp add: length_tx_body [OF iv])
qed

lemma more_frag_cleared:
  "\<not> bit fc 10 \<Longrightarrow> (fc OR C_MORE_FRAG) AND NOT C_MORE_FRAG = fc"
proof -
  assume "\<not> bit fc 10"
  moreover have "bit C_MORE_FRAG n \<longleftrightarrow> n = 10" for n
    using bit_exp_iff [of 10 n, where ?'a = "16 word"] by (auto simp: C_MORE_FRAG_def)
  ultimately show ?thesis by (intro bit_word_eqI) (auto simp: bit_simps)
qed

lemma coalesce_loop_whole:
  assumes iv: "iv_ok a" and h: "length h + 2 = ta_hdrlen a"
    and r: "ta_iv_len a + 8 + length pay + tx_icv a \<le> length r"
    and f: "rtw_pktfile_read f (tx_room ad a) = (pay, f')" "rtw_endofpktfile f'" and pn: "pn = dot11txpn (ad_stas ad i)"
    and fc: "\<not> bit fc 10"
  shows "coalesce_loop i base 0 ad a (length pre) (pre @ RTW_PUT_LE16 fc @ h @ r) f
    = Some (put_sta i (iv_sta a) ad,
        (iv_attrib a pn)\<lparr>ta_nr_frags := 1, ta_last_txcmdsz := of_nat (ta_hdrlen a + length (tx_body a pn pay))\<rparr>,
        pre @ RTW_PUT_LE16 fc @ h @ tx_body a pn pay @ drop (length (tx_body a pn pay)) r)"
proof -
  have a: "ta_hdrlen (iv_attrib a pn) = ta_hdrlen a" "ta_iv_len (iv_attrib a pn) = ta_iv_len a" "ta_bswenc (iv_attrib a pn) = ta_bswenc a"
    "ta_icv_len (iv_attrib a pn) = ta_icv_len a"
    by (simp_all add: iv_attrib_def)
  show ?thesis
    by (subst coalesce_loop.simps)
      (simp add: coalesce_frag_first [OF iv h r f(1) pn] f(2) fc_and_mid more_frag_cleared [OF fc] a tx_icv_def length_tx_body [OF iv] Let_def add_ac)
qed

text \<open>The frame that the transmit path makes of an Ethernet packet.\<close>

definition tx_seq :: "tx_adapter \<Rightarrow> tx_attrib \<Rightarrow> nat \<Rightarrow> u16" where
  "tx_seq ad a i = (txseq_tid (ad_stas ad i) ! unat (ta_priority a) + 1) AND 0xFFF"

definition tx_header :: "tx_adapter \<Rightarrow> tx_attrib \<Rightarrow> nat \<Rightarrow> bytes" where
  "tx_header ad a i = (case role_addrs ad a of (x, y, z) \<Rightarrow>
     RTW_PUT_LE16 (hdr_fc ad a) @ [0, 0] @ x @ y @ z @ RTW_PUT_LE16 (0xFFF0 AND push_bit 4 (tx_seq ad a i))
       @ (if role_qos ad (ad_stas ad i) then RTW_PUT_LE16 (hdr_qc a) else []))"

definition tx_frame :: "tx_adapter \<Rightarrow> tx_attrib \<Rightarrow> nat \<Rightarrow> bytes \<Rightarrow> bytes" where
  "tx_frame ad a i pay = tx_header ad a i @ tx_body a (dot11txpn (ad_stas ad i)) pay"

lemma role_addrs_6:
  assumes "tx_wf ad a i" "role_addrs ad a = (x, y, z)"
  shows "length x = 6" "length y = 6" "length z = 6"
  using assms by (auto simp: tx_wf_def addr6_def role_addrs_def split: if_splits)

lemma length_tx_header: "tx_wf ad a i \<Longrightarrow> length (tx_header ad a i) = ta_hdrlen a"
  using role_addrs_6 [of ad a i] by (cases "role_addrs ad a") (simp add: tx_header_def tx_wf_def)

lemma hdr_fc_bit10: "\<not> bit (hdr_fc ad a) 10"
proof -
  have m: "C_MORE_DATA = push_bit 13 1" "C_PRIVACY = push_bit 14 1" "C_TO_DS = push_bit 8 1" "C_FROM_DS = push_bit 9 1"
    by (simp_all add: C_MORE_DATA_def C_PRIVACY_def C_TO_DS_def C_FROM_DS_def)
  show ?thesis unfolding hdr_fc_def role_ds_def m by (auto simp: bit_simps)
qed

text \<open>The header in the cleared area is followed by zeros, where the body is going to be.\<close>

lemma hdr64_tx_header:
  assumes "tx_wf ad a i" "role_addrs ad a = (x, y, z)"
  shows "hdr64 (hdr_fc ad a) x y z (0xFFF0 AND push_bit 4 (tx_seq ad a i)) (if role_qos ad (ad_stas ad i) then hdr_qc a else 0)
    = tx_header ad a i @ replicate (64 - ta_hdrlen a) 0"
proof (cases "role_qos ad (ad_stas ad i)")
  case True then show ?thesis using assms by (simp add: hdr64_def tx_header_def tx_wf_def)
next
  case False
  have "RTW_PUT_LE16 0 @ replicate 38 0 = (replicate 40 0 :: bytes)" by (simp add: RTW_PUT_LE16_def numeral_eq_Suc)
  then show ?thesis using False assms by (simp add: hdr64_def tx_header_def tx_wf_def)
qed

lemma room_for_frame:
  assumes "length pay \<le> unat (tx_room ad a)" "length eth = unat w"
  shows "rtw_pktfile_read (snd (rtw_pktfile_read (rtw_open_pktfile (eth @ pay)) w)) (tx_room ad a)
    = (pay, \<lparr>pf_data = eth @ pay, pf_cur = length eth + length pay, pf_pkt_len = 0\<rparr>)"
  unfolding pktfile_skip [OF assms(2)] by (rule pktfile_all [OF assms(1)])

text \<open>What the header and the body leave of the state: the counters of the station move, nothing else does.\<close>

definition tx_counts :: "tx_attrib \<Rightarrow> nat \<Rightarrow> tx_adapter \<Rightarrow> tx_adapter \<Rightarrow> bool" where
  "tx_counts a i ad ad' \<longleftrightarrow> (\<exists>b. length b = 16 \<and>
     ad' = put_sta i (\<lambda>s. iv_sta a (s\<lparr>txseq_tid := (txseq_tid s)[unat (ta_priority a) := tx_seq ad a i], BA_starting_seqctrl := b\<rparr>)) ad)"

definition tx_attrib_done :: "tx_adapter \<Rightarrow> tx_attrib \<Rightarrow> nat \<Rightarrow> bytes \<Rightarrow> bool \<Rightarrow> tx_attrib" where
  "tx_attrib_done ad a i pay e = (iv_attrib a (dot11txpn (ad_stas ad i)))\<lparr>ta_seqnum := tx_seq ad a i, ta_ampdu_en := e, ta_nr_frags := 1,
     ta_last_txcmdsz := of_nat (length (tx_frame ad a i pay))\<rparr>"

lemma coalesce_frame:
  assumes wf: "tx_wf ad a i" and sta: "ta_psta a = Some i" and iv: "iv_ok a" and room: "length pay \<le> unat (tx_room ad a)"
    and z: "64 \<le> length z" "length (tx_frame ad a i pay) \<le> length z"
    and eth: "length eth = unat (ta_pkt_hdrlen a)"
  shows "\<exists>ad' e r. tx_counts a i ad ad' \<and> length r = length z - length (tx_frame ad a i pay) \<and>
    do { (res, ad1, a1, buf) \<leftarrow> rtw_make_wlanhdr ad a (length pre) (pre @ z);
         if res = rtw_FAIL then Some (rtw_FAIL, ad1, a1, buf)
         else do { (ad2, a2, buf) \<leftarrow> coalesce_loop i base 0 ad1 a1 (length pre) buf (snd (rtw_pktfile_read (rtw_open_pktfile (eth @ pay)) (ucast (ta_pkt_hdrlen a1))));
                   Some (rtw_SUCCESS, ad2, a2, buf) } }
    = Some (rtw_SUCCESS, ad', tx_attrib_done ad a i pay e, pre @ tx_frame ad a i pay @ r)"
proof -
  obtain x y v where ra: "role_addrs ad a = (x, y, v)" by (cases "role_addrs ad a")
  let ?a = "\<lambda>e. a\<lparr>ta_seqnum := tx_seq ad a i, ta_ampdu_en := e\<rparr>" and ?pn = "dot11txpn (ad_stas ad i)"
  obtain e b where mk: "rtw_make_wlanhdr ad a (length pre) (pre @ take 64 z @ drop 64 z) = Some (rtw_SUCCESS,
        put_sta i (\<lambda>s. s\<lparr>txseq_tid := (txseq_tid s)[unat (ta_priority a) := tx_seq ad a i], BA_starting_seqctrl := b\<rparr>) ad, ?a e,
        pre @ (tx_header ad a i @ replicate (64 - ta_hdrlen a) 0) @ drop 64 z)" "length b = 16"
    using make_wlanhdr_writes [OF wf sta, of "take 64 z" pre "drop 64 z"] z(1) hdr64_tx_header [OF wf ra]
    unfolding tx_seq_def [symmetric] ra by fastforce
  let ?ad = "put_sta i (\<lambda>s. s\<lparr>txseq_tid := (txseq_tid s)[unat (ta_priority a) := tx_seq ad a i], BA_starting_seqctrl := b\<rparr>) ad"
  let ?r = "replicate (64 - ta_hdrlen a) 0 @ drop 64 z"
  obtain h where h: "tx_header ad a i = RTW_PUT_LE16 (hdr_fc ad a) @ h" by (simp add: tx_header_def ra)
  have lh: "length h + 2 = ta_hdrlen (?a e)" using length_tx_header [OF wf] by (simp add: h)
  have same: "tx_body (?a e) ?pn pay = tx_body a ?pn pay" "iv_ok (?a e)" "tx_icv (?a e) = tx_icv a" "tx_room ?ad (?a e) = tx_room ad a"
    "iv_sta (?a e) = iv_sta a" "iv_attrib (?a e) ?pn = (iv_attrib a ?pn)\<lparr>ta_seqnum := tx_seq ad a i, ta_ampdu_en := e\<rparr>"
    using iv by (simp_all add: tx_body_def tx_iv_of_def next_iv_def tx_icv_def iv_ok_def tx_room_def put_sta_def iv_sta_def iv_attrib_def fun_eq_iff)
  have hl: "ta_hdrlen a \<le> 26" using wf by (simp add: tx_wf_def)
  have lr: "length ?r = length z - ta_hdrlen a" using z(1) hl by simp
  have fr: "ta_hdrlen a + (ta_iv_len a + 8 + length pay + tx_icv a) = length (tx_frame ad a i pay)"
    using length_tx_header [OF wf] length_tx_body [OF iv] by (simp add: tx_frame_def)
  let ?f' = "\<lparr>pf_data = eth @ pay, pf_cur = length eth + length pay, pf_pkt_len = 0\<rparr>"
  have "unat (ta_pkt_hdrlen a) < 2 ^ 16" using unsigned_less [of "ta_pkt_hdrlen a", where ?'a = nat] by simp
  then have "length eth = unat (ucast (ta_pkt_hdrlen a) :: u32)" using eth by (simp add: unsigned_ucast_eq take_bit_eq_mod)
  note rd = room_for_frame [OF room this]
  have lp: "coalesce_loop i base 0 ?ad (?a e) (length pre) (pre @ RTW_PUT_LE16 (hdr_fc ad a) @ h @ ?r)
      (snd (rtw_pktfile_read (rtw_open_pktfile (eth @ pay)) (ucast (ta_pkt_hdrlen a))))
    = Some (put_sta i (iv_sta (?a e)) ?ad,
        (iv_attrib (?a e) ?pn)\<lparr>ta_nr_frags := 1, ta_last_txcmdsz := of_nat (ta_hdrlen (?a e) + length (tx_body (?a e) ?pn pay))\<rparr>,
        pre @ RTW_PUT_LE16 (hdr_fc ad a) @ h @ tx_body (?a e) ?pn pay @ drop (length (tx_body (?a e) ?pn pay)) ?r)"
    by (rule coalesce_loop_whole [where f' = ?f', OF same(2) lh _ _ _ _ hdr_fc_bit10])
      (use z(2) lr fr rd same in \<open>simp_all add: rtw_endofpktfile_def put_sta_def\<close>)
  have z': "z = take 64 z @ drop 64 z" by simp
  have hd: "pre @ (tx_header ad a i @ replicate (64 - ta_hdrlen a) 0) @ drop 64 z = pre @ RTW_PUT_LE16 (hdr_fc ad a) @ h @ ?r" by (simp add: h)
  have cnt: "tx_counts a i ad (put_sta i (iv_sta a) ?ad)"
    unfolding tx_counts_def using mk(2) by (intro exI [of _ b]) (simp add: put_sta_def)
  have att: "(iv_attrib (?a e) ?pn)\<lparr>ta_nr_frags := 1, ta_last_txcmdsz := of_nat (ta_hdrlen (?a e) + length (tx_body (?a e) ?pn pay))\<rparr> = tx_attrib_done ad a i pay e"
    unfolding tx_attrib_done_def same tx_frame_def length_append length_tx_header [OF wf] by simp
  have len: "length (drop (length (tx_body a ?pn pay)) ?r) = length z - length (tx_frame ad a i pay)"
    using lr z hl unfolding tx_frame_def length_append length_tx_header [OF wf] length_drop by simp
  have "do { (res, ad1, a1, buf) \<leftarrow> rtw_make_wlanhdr ad a (length pre) (pre @ z);
         if res = rtw_FAIL then Some (rtw_FAIL, ad1, a1, buf)
         else do { (ad2, a2, buf) \<leftarrow> coalesce_loop i base 0 ad1 a1 (length pre) buf (snd (rtw_pktfile_read (rtw_open_pktfile (eth @ pay)) (ucast (ta_pkt_hdrlen a1))));
                   Some (rtw_SUCCESS, ad2, a2, buf) } }
    = Some (rtw_SUCCESS, put_sta i (iv_sta a) ?ad, tx_attrib_done ad a i pay e, pre @ tx_frame ad a i pay @ drop (length (tx_body a ?pn pay)) ?r)"
    by (subst z', unfold mk(1) hd) (use lp [unfolded att] in \<open>simp add: same tx_frame_def h rtw_FAIL_def rtw_SUCCESS_def\<close>)
  then show ?thesis using cnt len by blast
qed

lemma vcs_only: "\<exists>m. update_attrib_vcs_info ad a = a\<lparr>ta_vcs_mode := m\<rparr>"
proof -
  have same: "\<exists>m. a = a\<lparr>ta_vcs_mode := m\<rparr>" by (rule exI [of _ "ta_vcs_mode a"]) simp
  then have upd: "\<exists>m. (if c then a else a\<lparr>ta_vcs_mode := x\<rparr>) = a\<lparr>ta_vcs_mode := m\<rparr>" for c x by (cases c) auto
  show ?thesis
  proof (cases "tx_sta_of ad a")
    case None then show ?thesis using same by (simp add: update_attrib_vcs_info_def)
  next
    case (Some i)
    show ?thesis unfolding update_attrib_vcs_info_def Some option.simps Let_def by (rule upd)
  qed
qed

lemma sta_view_counts: "tx_counts a i ad ad' \<Longrightarrow> sta_view ad' j = sta_view ad j"
  by (auto simp: tx_counts_def sta_view_def put_sta_def iv_sta_def sta_info.truncate_def)

lemma counts_keeps:
  assumes "tx_counts a i ad ad'"
  shows "ad_sec ad' = ad_sec ad" "ad_frag_len ad' = ad_frag_len ad" "ad_lookup ad' = ad_lookup ad"
    "sta_state (ad_stas ad' i) = sta_state (ad_stas ad i)" "sta_UncstKey (ad_stas ad' i) = sta_UncstKey (ad_stas ad i)"
  using assms by (auto simp: tx_counts_def put_sta_def iv_sta_def)

lemma done_keeps:
  "ta_psta (tx_attrib_done ad a i pay e) = ta_psta a" "ta_encrypt (tx_attrib_done ad a i pay e) = ta_encrypt a"
  "ta_bswenc (tx_attrib_done ad a i pay e) = ta_bswenc a" "ta_ra (tx_attrib_done ad a i pay e) = ta_ra a"
  "ta_nr_frags (tx_attrib_done ad a i pay e) = 1" "ta_last_txcmdsz (tx_attrib_done ad a i pay e) = of_nat (length (tx_frame ad a i pay))"
  by (simp_all add: tx_attrib_done_def iv_attrib_def)

text \<open>After the frame is laid out, only the software cipher still changes the buffer.\<close>

lemma coalesce_then_encrypt:
  assumes wf: "tx_wf ad a i" and sta: "ta_psta a = Some i" and iv: "iv_ok a" and room: "length pay \<le> unat (tx_room ad a)"
    and z: "64 \<le> length z" "length (tx_frame ad a i pay) \<le> length z"
    and eth: "length eth = unat (ta_pkt_hdrlen a)" and pre: "length pre = TXDESC_SIZE + off * PACKET_OFFSET_SZ"
    and tk: "ta_encrypt a \<noteq> C_TKIP"
  shows "\<exists>ad' e r m. tx_counts a i ad ad' \<and> length r = length z - length (tx_frame ad a i pay) \<and>
    rtw_xmitframe_coalesce w11 mic ad a (Some (base, pre @ z)) off (eth @ pay) st
    = do { (buf, st) \<leftarrow> xmitframe_swencrypt w11 ad' (tx_attrib_done ad a i pay e) base off (pre @ tx_frame ad a i pay @ r) st;
           Some (rtw_SUCCESS, ad', (tx_attrib_done ad a i pay e)\<lparr>ta_vcs_mode := m\<rparr>, Some (base, buf), st) }"
proof -
  obtain ad' e r where c: "tx_counts a i ad ad'" "length r = length z - length (tx_frame ad a i pay)"
    "do { (res, ad1, a1, buf) \<leftarrow> rtw_make_wlanhdr ad a (length pre) (pre @ z);
         if res = rtw_FAIL then Some (rtw_FAIL, ad1, a1, buf)
         else do { (ad2, a2, buf) \<leftarrow> coalesce_loop i base 0 ad1 a1 (length pre) buf (snd (rtw_pktfile_read (rtw_open_pktfile (eth @ pay)) (ucast (ta_pkt_hdrlen a1))));
                   Some (rtw_SUCCESS, ad2, a2, buf) } }
    = Some (rtw_SUCCESS, ad', tx_attrib_done ad a i pay e, pre @ tx_frame ad a i pay @ r)"
    using coalesce_frame [OF wf sta iv room z eth, of pre base] by blast
  obtain res ad1 a1 b1 where 1: "rtw_make_wlanhdr ad a (length pre) (pre @ z) = Some (res, ad1, a1, b1)" "res \<noteq> rtw_FAIL"
    "coalesce_loop i base 0 ad1 a1 (length pre) b1 (snd (rtw_pktfile_read (rtw_open_pktfile (eth @ pay)) (ucast (ta_pkt_hdrlen a1))))
      = Some (ad', tx_attrib_done ad a i pay e, pre @ tx_frame ad a i pay @ r)"
    using c(3) by (auto split: bind_splits if_splits simp: rtw_FAIL_def rtw_SUCCESS_def)
  have lk: "sta_state (ad_stas ad i) AND C_FW_LINKED \<noteq> 0" using wf by (simp add: tx_wf_def)
  let ?a = "tx_attrib_done ad a i pay e"
  have mic: "xmitframe_addmic mic ad' ?a base (length pre) b = Some (rtw_SUCCESS, ?a, b)" for b
    using lk tk sta by (simp add: xmitframe_addmic_def tx_sta_of_def done_keeps counts_keeps [OF c(1)])
  obtain m where m: "(if IS_MCAST (ta_ra ?a) then ?a\<lparr>ta_vcs_mode := NONE_VCS\<rparr> else update_attrib_vcs_info ad' ?a) = ?a\<lparr>ta_vcs_mode := m\<rparr>"
    using vcs_only [of ad' ?a] by (cases "IS_MCAST (ta_ra ?a)") auto
  have "rtw_xmitframe_coalesce w11 mic ad a (Some (base, pre @ z)) off (eth @ pay) st
    = do { (buf, st) \<leftarrow> xmitframe_swencrypt w11 ad' ?a base off (pre @ tx_frame ad a i pay @ r) st;
           Some (rtw_SUCCESS, ad', ?a\<lparr>ta_vcs_mode := m\<rparr>, Some (base, buf), st) }"
    unfolding rtw_xmitframe_coalesce_def pre [symmetric] Let_def
    using lk sta 1 by (simp add: tx_sta_of_def mic m rtw_FAIL_def rtw_SUCCESS_def)
  then show ?thesis using c(1,2) by blast
qed

section \<open>Software CCMP of the frame, and the receiver\<close>

definition ccmp_sender :: "tx_adapter \<Rightarrow> tx_attrib \<Rightarrow> nat \<Rightarrow> bool" where
  "ccmp_sender ad a i \<longleftrightarrow> ta_encrypt a = C_AES \<and> ta_bswenc a \<and> ta_iv_len a = 8 \<and> ta_icv_len a = 8 \<and> iv_ok a
     \<and> \<not> IS_MCAST (ta_ra a) \<and> ta_subtype a = (if role_qos ad (ad_stas ad i) then 0x88 else 0x08)"

definition ccmp_receiver :: "bytes \<Rightarrow> nat \<Rightarrow> (bytes \<Rightarrow> sta_info option) \<Rightarrow> rx_pkt_attrib \<Rightarrow> bool" where
  "ccmp_receiver key hdrlen stapriv ra \<longleftrightarrow> rx_encrypt ra = C_AES \<and> rx_hdrlen ra = hdrlen \<and> rx_iv_len ra = 8
     \<and> \<not> IS_MCAST (rx_ra ra) \<and> map_option sta_UncstKey (stapriv (rx_ta ra)) = Some key"

lemma frame_fc: "\<exists>h. tx_frame ad a i pay = RTW_PUT_LE16 (hdr_fc ad a) @ h"
  by (cases "role_addrs ad a") (simp add: tx_frame_def tx_header_def)

lemma low_fc: "hdr_fc ad a AND 0xFC = ucast (ta_subtype a) AND 0xFC" "hdr_fc ad a AND 0xC = ucast (ta_subtype a) AND 0xC"
proof -
  have z: "C_MORE_DATA AND 0xFC = 0" "C_PRIVACY AND 0xFC = 0" "role_ds ad AND 0xFC = 0"
    "C_MORE_DATA AND 0xC = 0" "C_PRIVACY AND 0xC = 0" "role_ds ad AND 0xC = 0"
    by (simp_all add: role_ds_def C_MORE_DATA_def C_PRIVACY_def C_TO_DS_def C_FROM_DS_def)
  show "hdr_fc ad a AND 0xFC = ucast (ta_subtype a) AND 0xFC" "hdr_fc ad a AND 0xC = ucast (ta_subtype a) AND 0xC"
    by (simp_all add: hdr_fc_def bit.conj_disj_distrib2 z)
qed

lemma frame_qos:
  assumes "tx_wf ad a i" "ccmp_sender ad a i"
  shows "snd (ccm_qos (ta_hdrlen a) (tx_frame ad a i pay)) = ta_hdrlen a"
proof -
  obtain h where h: "tx_frame ad a i pay = RTW_PUT_LE16 (hdr_fc ad a) @ h" using frame_fc by blast
  have l: "le16_at (tx_frame ad a i pay) 0 = Some (hdr_fc ad a)" using le16_at_mid [of "[]" "hdr_fc ad a" h] by (simp add: h)
  show ?thesis
    using assms by (auto simp: ccm_qos_def GetFrameType_def GetFrameSubType_def l low_fc ccmp_sender_def tx_wf_def ccmp_qos_def
      WLAN_HDR_A3_QOS_LEN_def WIFI_DATA_CFACK_def WIFI_DATA_CFPOLL_def WIFI_DATA_CFACKPOLL_def WIFI_DATA_def)
qed

lemma snap_stripped: "decap (snap_of t @ pay) = be16 t @ pay"
proof -
  have "RTW_GET_BE16 (be16 t @ pay) = RTW_GET_BE16 (be16 t)" by (simp add: RTW_GET_BE16_def be16_def)
  then have t: "RTW_GET_BE16 (be16 t @ pay) = t" by simp
  have s: "snap_of t @ pay = (if t = 0x8137 \<or> t = 0x80f3 then rtw_bridge_tunnel_header else rtw_rfc1042_header) @ be16 t @ pay"
    by (simp add: snap_of_def P802_1H_OUI_def RFC1042_OUI_def rtw_bridge_tunnel_header_def rtw_rfc1042_header_def)
  have l: "length rtw_bridge_tunnel_header = 6" "length rtw_rfc1042_header = 6" "length (be16 t) = 2"
    by (simp_all add: rtw_bridge_tunnel_header_def rtw_rfc1042_header_def be16_def)
  show ?thesis unfolding decap_def sub_snap_def s SNAP_SIZE_def by (auto simp: l t ETH_P_IPX_def ETH_P_AARP_def)
qed

lemma swencrypt_seals:
  assumes wf: "tx_wf ad a i" and sta: "ta_psta a = Some i" and snd: "ccmp_sender ad a i" and cnt: "tx_counts a i ad ad'"
    and big: "length (tx_frame ad a i pay) \<le> MAX_MSG_SIZE" and pre: "length pre = TXDESC_SIZE + off * PACKET_OFFSET_SZ"
    and rx: "ccmp_receiver (sta_UncstKey (ad_stas ad i)) (ta_hdrlen a) stapriv ra" and msg: "length message = MAX_MSG_SIZE"
    and pv_def: "pv = enc_view ad' (tx_attrib_done ad a i pay e)"
  shows "xmitframe_swencrypt w11 ad' (tx_attrib_done ad a i pay e) base off (pre @ tx_frame ad a i pay @ r) st
      = Some (pre @ aes_seal w11 (sta_UncstKey (ad_stas ad i)) pv (tx_frame ad a i pay) @ r, st)"
    and "aes_wf (sta_UncstKey (ad_stas ad i)) pv stapriv sec ra message (tx_frame ad a i pay)"
proof -
  let ?F = "tx_frame ad a i pay" and ?key = "sta_UncstKey (ad_stas ad i)" and ?a = "tx_attrib_done ad a i pay e"
  have len: "length ?F = ta_hdrlen a + 24 + length pay" "24 \<le> ta_hdrlen a"
    using length_tx_header [OF wf] length_tx_body [of a] snd wf by (simp_all add: tx_frame_def ccmp_sender_def tx_icv_def tx_wf_def)
  have pv: "tx_hdrlen pv = ta_hdrlen a" "tx_iv_len pv = 8" "tx_icv_len pv = 8" "nr_frags pv = 1" "last_txcmdsz pv = of_nat (length ?F)"
    "tx_encrypt pv = C_AES" "tx_ra pv = ta_ra a" "tx_psta pv = Some (sta_view ad i)"
    using snd sta sta_view_counts [OF cnt]
    by (simp_all add: pv_def enc_view_def done_keeps ccmp_sender_def) (simp_all add: tx_attrib_done_def iv_attrib_def)
  show ok: "aes_wf ?key pv stapriv sec ra message ?F"
    using rx msg len big frame_qos [OF wf snd] by (auto simp: aes_wf_def pv ccmp_receiver_def rx_key_def)
  have reg: "region (pre @ ?F @ r) (length pre, length ?F) = ?F" by (simp add: region_def)
  have sz: "unat (of_nat (length ?F) :: u32) = length ?F" using big by (simp add: MAX_MSG_SIZE_def unat_of_nat)
  have ov: "tx_overhead pv \<le> length ?F" "length ?F < 2 ^ 31" using len big by (simp_all add: tx_overhead_def pv MAX_MSG_SIZE_def)
  have sd: "sint (of_nat (length ?F) - of_nat (tx_overhead pv) :: u32) = int (length ?F - tx_overhead pv)"
    using sint_diff [of "tx_overhead pv" "of_nat (length ?F)"] ov unfolding sz by blast
  have body: "aes_frag w11 ?key pv (length pre) (int (length ?F - tx_overhead pv)) (pre @ ?F @ r) = Some (pre @ aes_seal w11 ?key pv ?F @ r)"
    using aes_body [of "length pre" "length ?F" "pre @ ?F @ r" ?key pv] ok unfolding reg by simp
  have st: "sta_state (sta_view ad i) = sta_state (ad_stas ad i)" "sta_UncstKey (sta_view ad i) = ?key"
    by (simp_all add: sta_view_def sta_info.truncate_def)
  have "rtw_aes_encrypt w11 g (ad_sec ad') fl \<lparr>buf_addr = Some (base, pre @ ?F @ r), pkt_offset = off, xattrib = pv\<rparr>
      = Some (rtw_SUCCESS, \<lparr>buf_addr = Some (base, pre @ aes_seal w11 ?key pv ?F @ r), pkt_offset = off, xattrib = pv\<rparr>)" for g fl
    using snd wf body sd by (simp add: rtw_aes_encrypt_def pv tx_station_def tx_key_def st tx_start_def pre [symmetric] ccmp_sender_def tx_wf_def)
  then show "xmitframe_swencrypt w11 ad' ?a base off (pre @ ?F @ r) st = Some (pre @ aes_seal w11 ?key pv ?F @ r, st)"
    using snd unfolding xmitframe_swencrypt_def Let_def pv_def [symmetric]
    by (simp add: done_keeps ccmp_sender_def C_AES_def C_WEP40_def C_WEP104_def C_TKIP_def)
qed

text \<open>A packet with the attributes of a CCMP sender comes back at a receiver with the same pairwise key.\<close>

lemma ccmp_packet_returns:
  assumes "tx_wf ad a i" and "ta_psta a = Some i" and "ccmp_sender ad a i"
    and "eth = ta_dst a @ ta_src a @ be16 (ta_ether_type a)" and "ta_pkt_hdrlen a = 14"
    and "ta_hdrlen a + 28 + length pay \<le> unat (ad_frag_len ad)" and "ta_hdrlen a + 24 + length pay \<le> MAX_MSG_SIZE"
    and "64 + length pay \<le> length z" and "length pre = TXDESC_SIZE + off * PACKET_OFFSET_SZ"
    and "ccmp_receiver (sta_UncstKey (ad_stas ad i)) (ta_hdrlen a) stapriv ra" and "length message = MAX_MSG_SIZE"
  shows "\<exists>ad' a' buf x. rtw_xmitframe_coalesce w11 mic ad a (Some (base, pre @ z)) off (eth @ pay) st = Some (rtw_SUCCESS, ad', a', Some (base, buf), st)
    \<and> aes_receive w11 stapriv sec ra message (region buf (length pre, unat (ta_last_txcmdsz a'))) = Some x
    \<and> (\<forall>g p q. holds g p x q \<and> unat (at_hdrlen (fr_attrib g)) = ta_hdrlen a \<and> at_iv_len (fr_attrib g) = 8 \<and> at_icv_len (fr_attrib g) = 8
        \<and> at_encrypt (fr_attrib g) \<noteq> 0 \<and> at_dst (fr_attrib g) = ta_dst a \<and> at_src (fr_attrib g) = ta_src a
        \<longrightarrow> (\<exists>g'. wlanhdr_to_ethhdr False g = Some (True, g') \<and> contents g' = eth @ pay))"
proof -
  let ?F = "tx_frame ad a i pay" and ?key = "sta_UncstKey (ad_stas ad i)" and ?pn = "dot11txpn (ad_stas ad i)"
  have s: "ta_iv_len a = 8" "ta_icv_len a = 8" "ta_bswenc a" "iv_ok a" "\<not> IS_MCAST (ta_ra a)" "ta_encrypt a \<noteq> C_TKIP"
    using assms(3) by (simp_all add: ccmp_sender_def C_AES_def C_TKIP_def)
  have a6: "length (ta_dst a) = 6" "length (ta_src a) = 6" and hl: "24 \<le> ta_hdrlen a" "ta_hdrlen a \<le> 26"
    using assms(1) by (simp_all add: tx_wf_def addr6_def)
  have len: "length ?F = ta_hdrlen a + 24 + length pay"
    using length_tx_header [OF assms(1)] length_tx_body [OF s(4)] s by (simp add: tx_frame_def tx_icv_def)
  have "tx_room ad a = ad_frag_len ad - of_nat (ta_hdrlen a + 28)" using s by (simp add: tx_room_def tx_icv_def)
  then have room: "length pay \<le> unat (tx_room ad a)" using unat_diff_of_nat [of "ta_hdrlen a + 28" "ad_frag_len ad"] assms(6) by simp
  have eth: "length eth = unat (ta_pkt_hdrlen a)" using assms(4,5) a6 by (simp add: be16_def)
  obtain ad' e r m where c: "tx_counts a i ad ad'"
    "rtw_xmitframe_coalesce w11 mic ad a (Some (base, pre @ z)) off (eth @ pay) st
    = do { (buf, st) \<leftarrow> xmitframe_swencrypt w11 ad' (tx_attrib_done ad a i pay e) base off (pre @ ?F @ r) st;
           Some (rtw_SUCCESS, ad', (tx_attrib_done ad a i pay e)\<lparr>ta_vcs_mode := m\<rparr>, Some (base, buf), st) }"
    using coalesce_then_encrypt [OF assms(1,2) s(4) room _ _ eth assms(9) s(6), of z w11 mic base st] assms(8) len hl by auto
  let ?a = "tx_attrib_done ad a i pay e" and ?S = "aes_seal w11 ?key (enc_view ad' (tx_attrib_done ad a i pay e)) ?F"
  have big: "length ?F \<le> MAX_MSG_SIZE" using assms(7) len by simp
  note seal = swencrypt_seals [OF assms(1-3) c(1) big assms(9,10,11) refl]
  have se: "xmitframe_swencrypt w11 ad' ?a base off (pre @ ?F @ r) st = Some (pre @ ?S @ r, st)"
    "aes_wf ?key (enc_view ad' ?a) stapriv sec ra message ?F"
    by (rule seal)+
  have run: "rtw_xmitframe_coalesce w11 mic ad a (Some (base, pre @ z)) off (eth @ pay) st = Some (rtw_SUCCESS, ad', ?a\<lparr>ta_vcs_mode := m\<rparr>, Some (base, pre @ ?S @ r), st)"
    using c(2) se(1) by simp
  have sz: "unat (ta_last_txcmdsz (?a\<lparr>ta_vcs_mode := m\<rparr>)) = length ?F" using big by (simp add: done_keeps MAX_MSG_SIZE_def unat_of_nat)
  have lS: "length ?S = length ?F" using aes.seal_length [OF se(2)] .
  then have reg: "region (pre @ ?S @ r) (length pre, length ?F) = ?S" by (simp add: region_def)
  obtain x where x: "aes_receive w11 stapriv sec ra message ?S = Some x" "take (length ?F - 8) x = take (length ?F - 8) ?F" "length x = length ?F"
    using aes_open_whole [OF se(2)] by blast
  define h where "h = tx_header ad a i @ tx_iv_of a ?pn"
  let ?d = "snap_of (ta_ether_type a) @ pay" and ?icv = "drop (length ?F - 8) x"
  have F: "?F = (h @ ?d) @ take 8 (ta_icv a)" by (simp add: tx_frame_def tx_body_def h_def tx_icv_def s)
  have lh: "length h = ta_hdrlen a + 8" using len s(4) by (simp add: F iv_ok_def length_snap_of)
  have "take (length ?F - 8) ?F = h @ ?d" using s(4) by (simp add: F iv_ok_def)
  then have xx: "x = h @ ?d @ ?icv" using append_take_drop_id [of "length ?F - 8" x] x(2) by simp
  have li: "length ?icv = 8" using x(3) len by simp
  have conv: "\<exists>g'. wlanhdr_to_ethhdr False g = Some (True, g') \<and> contents g' = eth @ pay"
    if g: "holds g p x q" "unat (at_hdrlen (fr_attrib g)) = ta_hdrlen a" "at_iv_len (fr_attrib g) = 8" "at_icv_len (fr_attrib g) = 8"
      "at_encrypt (fr_attrib g) \<noteq> 0" "at_dst (fr_attrib g) = ta_dst a" "at_src (fr_attrib g) = ta_src a" for g p q
    using eth_conversion [of g p h ?d ?icv q] g xx lh li a6 hl assms(4) by (auto simp: length_snap_of snap_stripped)
  have "aes_receive w11 stapriv sec ra message (region (pre @ ?S @ r) (length pre, unat (ta_last_txcmdsz (?a\<lparr>ta_vcs_mode := m\<rparr>)))) = Some x"
    unfolding sz reg by (rule x(1))
  then show ?thesis using run conv by blast
qed

section \<open>Properties\<close>


text \<open>A station of a network with its access point, and a packet of five bytes.\<close>

definition sample_mic :: mic_data where
  "sample_mic = \<lparr>mic_K0 = 0, mic_K1 = 0, mic_L = 0, mic_R = 0, mic_M = 0, nBytesInM = 0\<rparr>"

definition sample_tsta :: tx_sta where
  "sample_tsta = \<lparr>sta_state = 1, sta_UncstKey = replicate 16 7, dot11txpn = 0x010203, dot11tkiptxmickey = replicate 16 0, sta_qos_option = True,
     txseq_tid = replicate 16 4095, ampdu_enable = False, agg_enable_bitmap = 0, BA_starting_seqctrl = replicate 16 0, rtsen = False, cts2self = False,
     sta_mac_id = 0, ieee8021x_blocked = False, dot118021XPrivacy = C_AES, sta_raid = 0, ht_option = False, ht_bwmode = 0, ht_ch_offset = 0, ht_sgi = 0\<rparr>"

definition sample_tad :: tx_adapter where
  "sample_tad = \<lparr>ad_stas = (\<lambda>_. sample_tsta), ad_lookup = (\<lambda>_. Some 0), ad_bcmc = None, ad_fw_state = WIFI_STATION_STATE, ad_bssid = replicate 6 2,
     ad_qos_option = True, ad_frag_len = 2346, ad_sec = sample_sec, ad_Grptxmickey = [], ad_PrivacyAlgrthm = C_AES, ad_wireless_mode = 3,
     ad_wifi_spec = False, ad_rts_thresh = 2347, ad_atherosAP = False, ad_HT_protection = 0, ad_bwmode = 0,
     ad_acm_mask = 0, ad_AuthAlgrthm = dot11AuthAlgrthm_8021X, ad_GrpPrivacy = C_AES, ad_busetkipkey = False, ad_sw_encrypt = True, ad_hw_decrypted = False\<rparr>"

definition sample_ta :: "nat \<Rightarrow> bool \<Rightarrow> tx_attrib" where
  "sample_ta alg sw = \<lparr>ta_subtype = 0x88, ta_bswenc = sw, ta_ether_type = 0x0800, ta_seqnum = 0, ta_pkt_hdrlen = 14, ta_hdrlen = 26, ta_pktlen = 5,
     ta_last_txcmdsz = 0, ta_nr_frags = 0, ta_encrypt = alg, ta_iv_len = 8, ta_icv_len = 8, ta_iv = replicate 8 0, ta_icv = replicate 8 0,
     ta_priority = 0, ta_ack_policy = 0, ta_vcs_mode = 0, ta_dst = [2, 4, 6, 8, 10, 12], ta_src = [14, 1, 1, 1, 1, 1], ta_ta = [14, 1, 1, 1, 1, 1],
     ta_ra = replicate 6 2, ta_key_idx = 0, ta_qos_en = True, ta_ht_en = False, ta_ampdu_en = False, ta_mdata = False, ta_eosp = 0, ta_psta = Some 0,
     ta_dhcp_pkt = False, ta_mac_id = 0, ta_raid = 0, ta_bwmode = 0, ta_ch_offset = 0, ta_sgi = 0, ta_pctrl = False, ta_triggered = False, ta_retry_ctrl = False\<rparr>"

lemma sample_tx_wf: "tx_wf sample_tad (sample_ta alg sw) 0" "role_qos sample_tad (ad_stas sample_tad 0)" "iv_ok (sample_ta alg sw)"
  by (simp_all add: tx_wf_def addr6_def sample_tad_def sample_ta_def sample_tsta_def role_ok_def role_qos_def check_fwstate_def
      WIFI_STATION_STATE_def C_FW_LINKED_def WIFI_DATA_TYPE_def iv_ok_def)


lemma RND4_add4: "RND4 (x + 4) = RND4 x + 4"
proof -
  have "(x + 4) div 4 = x div 4 + 1" by simp
  then show ?thesis by (simp add: RND4_def)
qed



end
