(* ===== verification/Rtw_Tx_Attrib.thy ===== *)
theory Rtw_Tx_Attrib
  imports Rtw_Tx_Props
begin

unbundle bit_operations_syntax

text \<open>
  The attributes that \<^verbatim>\<open>update_attrib\<close> gives a packet: what it lets through, and that they are those the rest of the transmit path needs, so
  that a packet comes back at the receiver byte for byte.
\<close>

section \<open>The attributes fit the rest of the path\<close>

text \<open>The interface is either a station or one of the others.\<close>

definition one_role :: "tx_adapter \<Rightarrow> bool" where
  "one_role ad \<longleftrightarrow> check_fwstate ad (WIFI_AP_STATE OR WIFI_ADHOC_STATE OR WIFI_ADHOC_MASTER_STATE) \<noteq> check_fwstate ad WIFI_STATION_STATE"

lemma one_role_ok: "one_role ad \<Longrightarrow> role_ok ad"
  by (auto simp: one_role_def role_ok_def check_fwstate_def bit.conj_disj_distrib)

lemma tos_priority: "unat (drop_bit 5 (w :: u8)) < 8"
proof -
  have l: "unat w < 256" using unsigned_less [of w, where ?'a = nat] by simp
  then have "unat (drop_bit 5 w) = unat w div 32"
    unfolding unsigned_drop_bit_eq by (simp add: drop_bit_eq_div take_bit_nat_eq_self)
  moreover have "unat w div 32 < 8" by (rule less_mult_imp_div_less) (use l in simp)
  ultimately show ?thesis by simp
qed

lemma qos_acm_less: "unat p < 8 \<Longrightarrow> unat (qos_acm m p) < 8"
  by (simp add: qos_acm_def)

lemma set_qos_eq:
  "\<exists>p. set_qos junk pkt a = a\<lparr>ta_hdrlen := 26, ta_subtype := 0x88, ta_priority := p\<rparr> \<and> unat p < 8"
proof -
  let ?p = "if ta_ether_type a = 0x0800 then drop_bit 5 (overlay junk (fst (rtw_pktfile_read (snd (rtw_pktfile_read (rtw_open_pktfile pkt) (of_nat ETH_HLEN))) 20)) 1)
    else if ta_ether_type a = 0x888e then 7 else 0"
  have "set_qos junk pkt a = a\<lparr>ta_hdrlen := 26, ta_subtype := 0x88, ta_priority := ?p\<rparr>"
    by (simp only: set_qos_def Let_def WLAN_HDR_A3_QOS_LEN_def WIFI_QOS_DATA_TYPE_def) simp
  moreover have "unat ?p < 8" by (simp only: tos_priority split: if_split) simp
  ultimately show ?thesis by blast
qed

lemma attrib_qos_eq:
  assumes "one_role ad"
  shows "\<exists>p. attrib_qos junk ad s pkt a = a\<lparr>ta_hdrlen := (if role_qos ad s then 26 else 24), ta_subtype := (if role_qos ad s then 0x88 else 0x08), ta_priority := p\<rparr>
    \<and> unat p < 8"
proof -
  let ?a = "a\<lparr>ta_hdrlen := WLAN_HDR_A3_LEN, ta_subtype := WIFI_DATA_TYPE, ta_priority := 0\<rparr>"
  obtain p where p: "set_qos junk pkt ?a = a\<lparr>ta_hdrlen := 26, ta_subtype := 0x88, ta_priority := p\<rparr>" "unat p < 8"
    using set_qos_eq [of junk pkt ?a] by auto
  show ?thesis
  proof (cases "role_qos ad s")
    case False
    then have "attrib_qos junk ad s pkt a = ?a"
      using assms by (auto simp: attrib_qos_def Let_def role_qos_def one_role_def)
    then show ?thesis using False by (auto simp: WLAN_HDR_A3_LEN_def WIFI_DATA_TYPE_def)
  next
    case True
    define q where "q = (if check_fwstate ad WIFI_STATION_STATE \<and> ad_acm_mask ad \<noteq> 0 then qos_acm (ad_acm_mask ad) p else p)"
    have "unat q < 8" using p(2) qos_acm_less by (simp add: q_def)
    moreover have "attrib_qos junk ad s pkt a = a\<lparr>ta_hdrlen := 26, ta_subtype := 0x88, ta_priority := q\<rparr>"
      using True assms unfolding attrib_qos_def Let_def p(1) role_qos_def one_role_def q_def by (simp split: if_splits)
    ultimately show ?thesis using True by auto
  qed
qed

lemma attrib_sta_ready:
  assumes "attrib_sta junk ad i bm pkt a = (rtw_SUCCESS, a')" and "one_role ad"
  shows "ta_psta a' = Some i" "ta_hdrlen a' = (if role_qos ad (ad_stas ad i) then 26 else 24)"
    "ta_subtype a' = (if role_qos ad (ad_stas ad i) then 0x88 else 0x08)" "unat (ta_priority a') < 8"
    "ta_pkt_hdrlen a' = 14" "ta_pktlen a' = ta_pktlen a" "ta_iv a' = ta_iv a" "ta_icv a' = ta_icv a" "ta_ra a' = ta_ra a"
    "ta_dst a' = ta_dst a" "ta_src a' = ta_src a" "ta_ether_type a' = ta_ether_type a"
    "ta_encrypt a' = C_AES \<Longrightarrow> ta_iv_len a' = 8 \<and> ta_icv_len a' = 8"
proof -
  let ?a = "a\<lparr>ta_mac_id := ucast (sta_mac_id (ad_stas ad i)), ta_psta := Some i, ta_ack_policy := 0, ta_pkt_hdrlen := of_nat ETH_HLEN\<rparr>"
  obtain p where p: "attrib_qos junk ad (ad_stas ad i) pkt ?a = ?a\<lparr>ta_hdrlen := (if role_qos ad (ad_stas ad i) then 26 else 24),
      ta_subtype := (if role_qos ad (ad_stas ad i) then 0x88 else 0x08), ta_priority := p\<rparr>" "unat p < 8"
    using attrib_qos_eq [OF assms(2)] by blast
  show "ta_psta a' = Some i" "ta_hdrlen a' = (if role_qos ad (ad_stas ad i) then 26 else 24)"
    "ta_subtype a' = (if role_qos ad (ad_stas ad i) then 0x88 else 0x08)" "unat (ta_priority a') < 8"
    "ta_pkt_hdrlen a' = 14" "ta_pktlen a' = ta_pktlen a" "ta_iv a' = ta_iv a" "ta_icv a' = ta_icv a" "ta_ra a' = ta_ra a"
    "ta_dst a' = ta_dst a" "ta_src a' = ta_src a" "ta_ether_type a' = ta_ether_type a"
    "ta_encrypt a' = C_AES \<Longrightarrow> ta_iv_len a' = 8 \<and> ta_icv_len a' = 8"
    using assms(1) p(2) unfolding attrib_sta_def Let_def p(1)
    by (auto simp: attrib_lens_def update_attrib_phy_info_def rtw_SUCCESS_def rtw_FAIL_def ETH_HLEN_def C_AES_def C_TKIP_def C_WEP40_def C_WEP104_def split: if_splits)
qed


lemma update_attrib_ready:
  assumes up: "update_attrib junk ad pkt a = (rtw_SUCCESS, a', eff)" and one: "one_role ad" and len: "14 \<le> length pkt"
  obtains i where "ta_psta a' = Some i" "ta_hdrlen a' = (if role_qos ad (ad_stas ad i) then 26 else 24)"
    "ta_subtype a' = (if role_qos ad (ad_stas ad i) then 0x88 else 0x08)" "unat (ta_priority a') < 8"
    "ta_pkt_hdrlen a' = 14" "ta_iv a' = ta_iv a" "ta_icv a' = ta_icv a"
    "length (ta_dst a') = 6" "length (ta_src a') = 6" "ta_dst a' @ ta_src a' @ be16 (ta_ether_type a') = take 14 pkt"
    "ta_encrypt a' = C_AES \<Longrightarrow> ta_iv_len a' = 8 \<and> ta_icv_len a' = 8"
proof -
  have l14: "unat (of_nat ETH_HLEN :: u32) = 14" by (simp add: ETH_HLEN_def)
  obtain f where rd: "rtw_pktfile_read (rtw_open_pktfile pkt) (of_nat ETH_HLEN) = (take 14 pkt, f)"
    using len by (simp add: rtw_pktfile_read_def rtw_open_pktfile_def rtw_remainder_len_def Let_def l14)
  have e: "map (overlay junk (take 14 pkt)) [m..<n] = drop m (take n pkt)" if "n \<le> 14" for m n
    using that len by (intro nth_equalityI) (auto simp: overlay_def)
  have ls: "[0, 1, 2, 3, 4, 5] = [0..<6]" "[6, 7, 8, 9, 10, 11] = [6..<12]" "[12, 13] = [12..<14]" by code_simp+
  have es: "map (overlay junk (take 14 pkt)) [0, 1, 2, 3, 4, 5] = take 6 pkt" "map (overlay junk (take 14 pkt)) [6, 7, 8, 9, 10, 11] = drop 6 (take 12 pkt)"
    "map (overlay junk (take 14 pkt)) [12, 13] = drop 12 (take 14 pkt)"
    using e [of 6 0] e [of 12 6] e [of 14 12] unfolding ls by simp_all
  define b where "b = a\<lparr>ta_ether_type := RTW_GET_BE16 (drop 12 (take 14 pkt)), ta_dst := take 6 pkt, ta_src := drop 6 (take 12 pkt), ta_pctrl := False\<rparr>"
  define c where "c = attrib_dhcp junk f ((attrib_addrs ad b)\<lparr>ta_pktlen := of_nat (pf_pkt_len f)\<rparr>)"
  obtain i bm where i: "attrib_sta junk ad i bm pkt c = (rtw_SUCCESS, a')"
    using up unfolding update_attrib_def rd Let_def prod.case es b_def [symmetric] c_def [symmetric]
    by (auto simp: rtw_SUCCESS_def rtw_FAIL_def split: option.splits if_splits prod.splits)
  have c: "ta_dst c = take 6 pkt" "ta_src c = drop 6 (take 12 pkt)" "ta_ether_type c = RTW_GET_BE16 (drop 12 (take 14 pkt))" "ta_iv c = ta_iv a" "ta_icv c = ta_icv a"
    by (auto simp: c_def b_def attrib_dhcp_def attrib_addrs_def Let_def split: prod.splits)
  note r = attrib_sta_ready [OF i one]
  obtain x y where xy: "drop 12 (take 14 pkt) = [x, y]"
  proof -
    have "length (drop 12 (take 14 pkt)) = 2" using len by simp
    then show thesis unfolding numeral_2_eq_2 length_Suc_conv using that by blast
  qed
  have "be16 (RTW_GET_BE16 [x, y]) = [x, y]" using BE16_pair [of x y "RTW_GET_BE16 [x, y]"] by (simp add: be16_def)
  moreover have "take 6 pkt @ drop 6 (take 12 pkt) @ drop 12 (take 14 pkt) = take 14 pkt"
    using append_take_drop_id [of 6 "take 12 pkt"] append_take_drop_id [of 12 "take 14 pkt"] by (simp flip: append_assoc)
  ultimately have "ta_dst a' @ ta_src a' @ be16 (ta_ether_type a') = take 14 pkt" by (simp add: r c xy)
  then show thesis using that [of i] r c len by simp
qed


lemma update_attrib_sta:
  assumes "update_attrib junk ad pkt a = (rtw_SUCCESS, a', eff)"
  obtains i c where "attrib_sta junk ad i (IS_MCAST (ta_ra c)) pkt c = (rtw_SUCCESS, a')"
proof -
  obtain x f where rd: "rtw_pktfile_read (rtw_open_pktfile pkt) (of_nat ETH_HLEN) = (x, f)" by fastforce
  define c where "c = attrib_dhcp junk f ((attrib_addrs ad (a\<lparr>ta_ether_type := RTW_GET_BE16 (map (overlay junk x) [12, 13]), ta_dst := map (overlay junk x) [0, 1, 2, 3, 4, 5],
      ta_src := map (overlay junk x) [6, 7, 8, 9, 10, 11], ta_pctrl := False\<rparr>))\<lparr>ta_pktlen := of_nat (pf_pkt_len f)\<rparr>)"
  show thesis
    using assms that [of _ c] unfolding update_attrib_def rd Let_def prod.case c_def [symmetric]
    by (auto simp: rtw_SUCCESS_def rtw_FAIL_def split: option.splits if_splits prod.splits)
qed

lemma attrib_qos_same:
  "ta_psta (attrib_qos junk ad s pkt a) = ta_psta a" "ta_ether_type (attrib_qos junk ad s pkt a) = ta_ether_type a"
  "ta_ra (attrib_qos junk ad s pkt a) = ta_ra a" "ta_encrypt (attrib_qos junk ad s pkt a) = ta_encrypt a"
  by (simp_all add: attrib_qos_def set_qos_def Let_def)

lemma attrib_lens_same:
  "ta_psta (attrib_lens a) = ta_psta a" "ta_ether_type (attrib_lens a) = ta_ether_type a" "ta_ra (attrib_lens a) = ta_ra a"
  "ta_encrypt (attrib_lens a) = ta_encrypt a"
  by (simp_all add: attrib_lens_def)

text \<open>
  C38. What \<^verbatim>\<open>update_attrib\<close> lets through: for a station whose 802.1X port is blocked only EAPOL packets (outside the manufacturing test
  mode), and those in the clear; under 802.1X otherwise always the cipher that was negotiated for the station, or the
  group cipher for group addresses; no TKIP packet before the keys are set. Software encryption is requested exactly
  when there is a cipher and the hardware does not do it.
\<close>

theorem update_attrib_guards:
  assumes "update_attrib junk ad pkt a = (rtw_SUCCESS, a', eff)"
  shows "\<exists>i. ta_psta a' = Some i
    \<and> (ieee8021x_blocked (ad_stas ad i) \<longrightarrow> ta_encrypt a' = 0 \<and> (ta_ether_type a' = 0x888e \<or> check_fwstate ad WIFI_MP_STATE))
    \<and> (\<not> ieee8021x_blocked (ad_stas ad i) \<and> ad_AuthAlgrthm ad = dot11AuthAlgrthm_8021X
        \<longrightarrow> ta_encrypt a' = (if IS_MCAST (ta_ra a') then ad_GrpPrivacy ad else dot118021XPrivacy (ad_stas ad i)) mod 256)
    \<and> (ta_encrypt a' = C_TKIP \<longrightarrow> ad_busetkipkey ad)
    \<and> (ta_bswenc a' \<longleftrightarrow> ta_encrypt a' \<noteq> 0 \<and> (ad_sw_encrypt ad \<or> \<not> ad_hw_decrypted ad))"
proof -
  obtain i c where "attrib_sta junk ad i (IS_MCAST (ta_ra c)) pkt c = (rtw_SUCCESS, a')"
    using update_attrib_sta [OF assms] .
  then show ?thesis
    unfolding attrib_sta_def Let_def
    by (intro exI [of _ i]) (auto simp: update_attrib_phy_info_def attrib_qos_same attrib_lens_same rtw_SUCCESS_def rtw_FAIL_def GET_ENCRY_ALGO_def
      dot11AuthAlgrthm_Open_def dot11AuthAlgrthm_Shared_def dot11AuthAlgrthm_Auto_def dot11AuthAlgrthm_8021X_def split: if_splits)
qed

definition sample_pkt :: bytes where
  "sample_pkt = [2, 4, 6, 8, 10, 12, 14, 1, 1, 1, 1, 1, 8, 0, 69, 0xa0, 0, 0, 1]"

definition sample_sent :: tx_attrib where
  "sample_sent = (sample_ta C_AES True)\<lparr>ta_priority := 5\<rparr>"

lemma sample_update:
  "update_attrib (\<lambda>_. 0) sample_tad sample_pkt (sample_ta 0 False) = (rtw_SUCCESS, sample_sent, [])"
  by (simp add: update_attrib_def attrib_sta_def attrib_qos_def set_qos_def attrib_lens_def update_attrib_phy_info_def attrib_addrs_def attrib_dhcp_def
      GET_ENCRY_ALGO_def attrib_key_idx_def rtw_pktfile_read_def rtw_open_pktfile_def rtw_remainder_len_def overlay_def sample_tad_def sample_ta_def
      sample_tsta_def sample_pkt_def sample_sent_def check_fwstate_def WIFI_STATION_STATE_def WIFI_AP_STATE_def WIFI_ADHOC_STATE_def WIFI_ADHOC_MASTER_STATE_def
      WIFI_MP_STATE_def ETH_HLEN_def ETH_P_IP_def Rtw_Rx.RTW_GET_BE16_def IS_MCAST_def WLAN_HDR_A3_LEN_def WLAN_HDR_A3_QOS_LEN_def WIFI_DATA_TYPE_def
      WIFI_QOS_DATA_TYPE_def dot11AuthAlgrthm_Open_def dot11AuthAlgrthm_Shared_def dot11AuthAlgrthm_Auto_def dot11AuthAlgrthm_8021X_def
      C_AES_def C_TKIP_def C_WEP40_def C_WEP104_def)



theorem update_attrib_guards_witness:
  "\<exists>i. ta_psta sample_sent = Some i
    \<and> (ieee8021x_blocked (ad_stas sample_tad i) \<longrightarrow> ta_encrypt sample_sent = 0 \<and> (ta_ether_type sample_sent = 0x888e \<or> check_fwstate sample_tad WIFI_MP_STATE))
    \<and> (\<not> ieee8021x_blocked (ad_stas sample_tad i) \<and> ad_AuthAlgrthm sample_tad = dot11AuthAlgrthm_8021X
        \<longrightarrow> ta_encrypt sample_sent = (if IS_MCAST (ta_ra sample_sent) then ad_GrpPrivacy sample_tad else dot118021XPrivacy (ad_stas sample_tad i)) mod 256)
    \<and> (ta_encrypt sample_sent = C_TKIP \<longrightarrow> ad_busetkipkey sample_tad)
    \<and> (ta_bswenc sample_sent \<longleftrightarrow> ta_encrypt sample_sent \<noteq> 0 \<and> (ad_sw_encrypt sample_tad \<or> \<not> ad_hw_decrypted sample_tad))"
  by (rule update_attrib_guards [OF sample_update])

end
