(* ===== verification/Dynclk.thy ===== *)
theory Dynclk
  imports Rtw_Prelude
begin

unbundle bit_operations_syntax

text \<open>
  The pixel clock driver \<^verbatim>\<open>kernel/drivers/clk-dglnt-dynclk.c\<close>: the search for the MMCM
  parameters of a requested frequency (\<^verbatim>\<open>dglnt_dynclk_find_mode\<close>), the encoding of the
  parameters into the registers of the axi_dynclk core (\<^verbatim>\<open>dglnt_dynclk_find_reg\<close>), the
  clock operations (\<^verbatim>\<open>enable\<close>, \<^verbatim>\<open>disable\<close>, \<^verbatim>\<open>set_rate\<close>, \<^verbatim>\<open>round_rate\<close>, \<^verbatim>\<open>recalc_rate\<close>)
  and \<^verbatim>\<open>probe\<close>.

  All arithmetic is on 32-bit words (\<^verbatim>\<open>unsigned long\<close> has 32 bits on the Zynq); a division
  by zero is \<open>None\<close>. The loops are partial functions into \<open>option\<close>: not returning is
  \<open>None\<close>. The device is the list of the register writes in their order and, as the argument
  \<open>status\<close>, the value the k-th read of the status register returns. The calls into the
  kernel that \<^verbatim>\<open>probe\<close> makes are the fields of \<open>probe_env\<close>.
\<close>

section \<open>Constants and tables\<close>

definition CLK_BIT_WEDGE :: nat where "CLK_BIT_WEDGE = 13"
definition CLK_BIT_NOCOUNT :: nat where "CLK_BIT_NOCOUNT = 12"
definition ERR_CLKCOUNTCALC :: u32 where "ERR_CLKCOUNTCALC = 0xFFFFFFFF"
definition ERR_CLKDIVIDER :: u32 where
  "ERR_CLKDIVIDER = push_bit CLK_BIT_WEDGE 1 OR push_bit CLK_BIT_NOCOUNT 1"
definition DYNCLK_DIV_1_REGMASK :: u32 where "DYNCLK_DIV_1_REGMASK = 0x1041"
definition MMCM_FREQ_VCOMIN :: u32 where "MMCM_FREQ_VCOMIN = 600000"
definition MMCM_FREQ_VCOMAX :: u32 where "MMCM_FREQ_VCOMAX = 1200000"
definition MMCM_FREQ_PFDMIN :: u32 where "MMCM_FREQ_PFDMIN = 10000"
definition MMCM_FREQ_PFDMAX :: u32 where "MMCM_FREQ_PFDMAX = 450000"
definition MMCM_FREQ_OUTMIN :: u32 where "MMCM_FREQ_OUTMIN = 4000"
definition MMCM_FREQ_OUTMAX :: u32 where "MMCM_FREQ_OUTMAX = 800000"
definition MMCM_DIV_MAX :: u32 where "MMCM_DIV_MAX = 106"
definition MMCM_FB_MIN :: u32 where "MMCM_FB_MIN = 2"
definition MMCM_FB_MAX :: u32 where "MMCM_FB_MAX = 64"
definition MMCM_CLKDIV_MAX :: u32 where "MMCM_CLKDIV_MAX = 128"
definition MMCM_CLKDIV_MIN :: u32 where "MMCM_CLKDIV_MIN = 1"

lemmas mmcm_defs = MMCM_FREQ_VCOMIN_def MMCM_FREQ_VCOMAX_def MMCM_FREQ_PFDMIN_def MMCM_FREQ_PFDMAX_def
  MMCM_FREQ_OUTMIN_def MMCM_FREQ_OUTMAX_def MMCM_DIV_MAX_def MMCM_FB_MIN_def MMCM_FB_MAX_def
  MMCM_CLKDIV_MAX_def MMCM_CLKDIV_MIN_def

definition OFST_DISPLAY_CTRL :: u32 where "OFST_DISPLAY_CTRL = 0x0"
definition OFST_DISPLAY_STATUS :: u32 where "OFST_DISPLAY_STATUS = 0x4"
definition OFST_DISPLAY_CLK_L :: u32 where "OFST_DISPLAY_CLK_L = 0x8"
definition OFST_DISPLAY_FB_L :: u32 where "OFST_DISPLAY_FB_L = 0x0C"
definition OFST_DISPLAY_FB_H_CLK_H :: u32 where "OFST_DISPLAY_FB_H_CLK_H = 0x10"
definition OFST_DISPLAY_DIV :: u32 where "OFST_DISPLAY_DIV = 0x14"
definition OFST_DISPLAY_LOCK_L :: u32 where "OFST_DISPLAY_LOCK_L = 0x18"
definition OFST_DISPLAY_FLTR_LOCK_H :: u32 where "OFST_DISPLAY_FLTR_LOCK_H = 0x1C"

definition EINVAL :: int where "EINVAL = 22"
definition ENODEV :: int where "ENODEV = 19"
definition ENOMEM :: int where "ENOMEM = 12"

definition lock_lookup :: "u64 list" where
  "lock_lookup =
    [0b0011000110111110100011111010010000000001, 0b0011000110111110100011111010010000000001,
     0b0100001000111110100011111010010000000001, 0b0101101011111110100011111010010000000001,
     0b0111001110111110100011111010010000000001, 0b1000110001111110100011111010010000000001,
     0b1001110011111110100011111010010000000001, 0b1011010110111110100011111010010000000001,
     0b1100111001111110100011111010010000000001, 0b1110011100111110100011111010010000000001,
     0b1111111111111000010011111010010000000001, 0b1111111111110011100111111010010000000001,
     0b1111111111101110111011111010010000000001, 0b1111111111101011110011111010010000000001,
     0b1111111111101000101011111010010000000001, 0b1111111111100111000111111010010000000001,
     0b1111111111100011111111111010010000000001, 0b1111111111100010011011111010010000000001,
     0b1111111111100000110111111010010000000001, 0b1111111111011111010011111010010000000001,
     0b1111111111011101101111111010010000000001, 0b1111111111011100001011111010010000000001,
     0b1111111111011010100111111010010000000001, 0b1111111111011001000011111010010000000001,
     0b1111111111011001000011111010010000000001, 0b1111111111010111011111111010010000000001,
     0b1111111111010101111011111010010000000001, 0b1111111111010101111011111010010000000001,
     0b1111111111010100010111111010010000000001, 0b1111111111010100010111111010010000000001,
     0b1111111111010010110011111010010000000001, 0b1111111111010010110011111010010000000001,
     0b1111111111010010110011111010010000000001, 0b1111111111010001001111111010010000000001,
     0b1111111111010001001111111010010000000001, 0b1111111111010001001111111010010000000001,
     0b1111111111001111101011111010010000000001, 0b1111111111001111101011111010010000000001,
     0b1111111111001111101011111010010000000001, 0b1111111111001111101011111010010000000001,
     0b1111111111001111101011111010010000000001, 0b1111111111001111101011111010010000000001,
     0b1111111111001111101011111010010000000001, 0b1111111111001111101011111010010000000001,
     0b1111111111001111101011111010010000000001, 0b1111111111001111101011111010010000000001,
     0b1111111111001111101011111010010000000001, 0b1111111111001111101011111010010000000001,
     0b1111111111001111101011111010010000000001, 0b1111111111001111101011111010010000000001,
     0b1111111111001111101011111010010000000001, 0b1111111111001111101011111010010000000001,
     0b1111111111001111101011111010010000000001, 0b1111111111001111101011111010010000000001,
     0b1111111111001111101011111010010000000001, 0b1111111111001111101011111010010000000001,
     0b1111111111001111101011111010010000000001, 0b1111111111001111101011111010010000000001,
     0b1111111111001111101011111010010000000001, 0b1111111111001111101011111010010000000001,
     0b1111111111001111101011111010010000000001, 0b1111111111001111101011111010010000000001,
     0b1111111111001111101011111010010000000001, 0b1111111111001111101011111010010000000001]"

definition filter_lookup_low :: "u32 list" where
  "filter_lookup_low =
    [0b0001011111, 0b0001010111, 0b0001111011, 0b0001011011, 0b0001101011, 0b0001110011,
     0b0001110011, 0b0001110011, 0b0001110011, 0b0001001011, 0b0001001011, 0b0001001011,
     0b0010110011, 0b0001010011, 0b0001010011, 0b0001010011, 0b0001010011, 0b0001010011,
     0b0001010011, 0b0001010011, 0b0001010011, 0b0001010011, 0b0001010011, 0b0001100011,
     0b0001100011, 0b0001100011, 0b0001100011, 0b0001100011, 0b0001100011, 0b0001100011,
     0b0001100011, 0b0001100011, 0b0001100011, 0b0001100011, 0b0001100011, 0b0001100011,
     0b0001100011, 0b0010010011, 0b0010010011, 0b0010010011, 0b0010010011, 0b0010010011,
     0b0010010011, 0b0010010011, 0b0010010011, 0b0010010011, 0b0010010011, 0b0010100011,
     0b0010100011, 0b0010100011, 0b0010100011, 0b0010100011, 0b0010100011, 0b0010100011,
     0b0010100011, 0b0010100011, 0b0010100011, 0b0010100011, 0b0010100011, 0b0010100011,
     0b0010100011, 0b0010100011, 0b0010100011, 0b0010100011]"

section \<open>Register encoding\<close>

record dglnt_dynclk_reg =
  clk0L :: u32
  clkFBL :: u32
  clkFBH_clk0H :: u32
  divclk :: u32
  lockL :: u32
  fltr_lockH :: u32

record dglnt_dynclk_mode =
  mode_freq :: u32
  fbmult :: u32
  clkdiv :: u32
  maindiv :: u32

record dglnt_dynclk =
  dyn_base :: u32
  dyn_freq :: u32

definition dglnt_dynclk_divider :: "u32 \<Rightarrow> u32" where
  "dglnt_dynclk_divider dv =
     (if dv < 1 \<or> dv > 128 then ERR_CLKDIVIDER
      else if dv = 1 then DYNCLK_DIV_1_REGMASK
      else
        let highTime = dv div 2;
            (lowTime, out) = (if dv AND 1 \<noteq> 0 then (highTime + 1, push_bit CLK_BIT_WEDGE 1)
                              else (highTime, 0));
            out = out OR (0x03F AND lowTime)
        in out OR (0xFC0 AND push_bit 6 highTime))"

definition dglnt_dynclk_count_calc :: "u32 \<Rightarrow> u32" where
  "dglnt_dynclk_count_calc dv =
     (let divCalc = dglnt_dynclk_divider dv
      in if divCalc = ERR_CLKDIVIDER then ERR_CLKCOUNTCALC
         else (0xFFF AND divCalc) OR (push_bit 10 divCalc AND 0x00C00000))"

text \<open>
  \<^verbatim>\<open>dglnt_dynclk_find_reg\<close> fills the structure field by field; after an early return the
  remaining fields keep what they held.
\<close>

definition dglnt_dynclk_find_reg ::
    "dglnt_dynclk_reg \<Rightarrow> dglnt_dynclk_mode \<Rightarrow> (int \<times> dglnt_dynclk_reg) option" where
  "dglnt_dynclk_find_reg regValues clkParams =
     (if fbmult clkParams < 2 \<or> fbmult clkParams > 64 then Some (-EINVAL, regValues)
      else
        let regValues = regValues\<lparr>clk0L := dglnt_dynclk_count_calc (clkdiv clkParams)\<rparr> in
        if clk0L regValues = ERR_CLKCOUNTCALC then Some (-EINVAL, regValues)
        else
          let regValues = regValues\<lparr>clkFBL := dglnt_dynclk_count_calc (fbmult clkParams)\<rparr> in
          if clkFBL regValues = ERR_CLKCOUNTCALC then Some (-EINVAL, regValues)
          else
            let regValues = regValues\<lparr>clkFBH_clk0H := 0\<rparr>;
                regValues = regValues\<lparr>divclk := dglnt_dynclk_divider (maindiv clkParams)\<rparr> in
            if divclk regValues = ERR_CLKDIVIDER then Some (-EINVAL, regValues)
            else
              let k = unat (fbmult clkParams - 1) in
              if k < length lock_lookup \<and> k < length filter_lookup_low then
                let regValues = regValues\<lparr>lockL := ucast (lock_lookup ! k AND 0xFFFFFFFF)\<rparr>;
                    regValues = regValues\<lparr>fltr_lockH := ucast (drop_bit 32 (lock_lookup ! k) AND 0xFF)\<rparr>;
                    regValues = regValues\<lparr>fltr_lockH := fltr_lockH regValues OR
                                  (push_bit 16 (filter_lookup_low ! k) AND 0x03FF0000)\<rparr>
                in Some (0, regValues)
              else None)"

section \<open>The device\<close>

record dynclk_io =
  io_writes :: "(u32 \<times> u32) list"
  io_reads :: nat

definition writel :: "u32 \<Rightarrow> u32 \<Rightarrow> dynclk_io \<Rightarrow> dynclk_io" where
  "writel v addr io = io\<lparr>io_writes := io_writes io @ [(addr, v)]\<rparr>"

definition dglnt_dynclk_write_reg :: "dglnt_dynclk_reg \<Rightarrow> u32 \<Rightarrow> dynclk_io \<Rightarrow> dynclk_io" where
  "dglnt_dynclk_write_reg regValues baseaddr io =
     (let io = writel (clk0L regValues) (baseaddr + OFST_DISPLAY_CLK_L) io;
          io = writel (clkFBL regValues) (baseaddr + OFST_DISPLAY_FB_L) io;
          io = writel (clkFBH_clk0H regValues) (baseaddr + OFST_DISPLAY_FB_H_CLK_H) io;
          io = writel (divclk regValues) (baseaddr + OFST_DISPLAY_DIV) io;
          io = writel (lockL regValues) (baseaddr + OFST_DISPLAY_LOCK_L) io
      in writel (fltr_lockH regValues) (baseaddr + OFST_DISPLAY_FLTR_LOCK_H) io)"

section \<open>The parameter search\<close>

definition udiv :: "u32 \<Rightarrow> u32 \<Rightarrow> u32 option" where
  "udiv a b = (if b = 0 then None else Some (a div b))"

definition DIV_ROUND_UP :: "u32 \<Rightarrow> u32 \<Rightarrow> u32 option" where
  "DIV_ROUND_UP n d = udiv (n + d - 1) d"

record dynclk_search =
  bestError :: u32
  bestPick :: dglnt_dynclk_mode
  freq_found :: bool

definition fb_step :: "u32 \<Rightarrow> u32 \<Rightarrow> u32 \<Rightarrow> u32 \<Rightarrow> u32 \<Rightarrow> dynclk_search \<Rightarrow> dynclk_search option" where
  "fb_step freq parentFreq curDiv curClkMult curFb s =
     do {
       curClkDiv \<leftarrow> udiv (curClkMult * curFb + 500) 1000;
       let curClkDiv = (if curClkDiv > MMCM_CLKDIV_MAX then MMCM_CLKDIV_MAX else curClkDiv);
       let curClkDiv = (if curClkDiv < MMCM_CLKDIV_MIN then MMCM_CLKDIV_MIN else curClkDiv);
       vco \<leftarrow> udiv (parentFreq * curFb) curDiv;
       curFreq \<leftarrow> udiv vco curClkDiv;
       let curError = (if curFreq \<ge> freq then curFreq - freq else freq - curFreq);
       let s = (if curError < bestError s then
                  s\<lparr>bestError := curError,
                    bestPick := \<lparr>mode_freq = curFreq, fbmult = curFb, clkdiv = curClkDiv, maindiv = curDiv\<rparr>\<rparr>
                else s);
       Some (if curError = 0 then s\<lparr>freq_found := True\<rparr> else s)
     }"

partial_function (option) fb_loop ::
    "u32 \<Rightarrow> u32 \<Rightarrow> u32 \<Rightarrow> u32 \<Rightarrow> u32 \<Rightarrow> u32 \<Rightarrow> dynclk_search \<Rightarrow> dynclk_search option" where
  "fb_loop freq parentFreq curDiv curClkMult maxFb curFb s =
     (if curFb \<le> maxFb \<and> \<not> freq_found s then
        do {
          s \<leftarrow> fb_step freq parentFreq curDiv curClkMult curFb s;
          fb_loop freq parentFreq curDiv curClkMult maxFb (curFb + 1) s
        }
      else Some s)"

definition div_step :: "u32 \<Rightarrow> u32 \<Rightarrow> u32 \<Rightarrow> dynclk_search \<Rightarrow> dynclk_search option" where
  "div_step freq parentFreq curDiv s =
     do {
       lo \<leftarrow> DIV_ROUND_UP MMCM_FREQ_VCOMIN parentFreq;
       hi \<leftarrow> udiv MMCM_FREQ_VCOMAX parentFreq;
       let minFb = curDiv * lo;
       let maxFb = curDiv * hi;
       let maxFb = (if maxFb > MMCM_FB_MAX then MMCM_FB_MAX else maxFb);
       let minFb = (if minFb < MMCM_FB_MIN then MMCM_FB_MIN else minFb);
       let divVal = curDiv * freq;
       curClkMult \<leftarrow> udiv (parentFreq * 1000 + divVal div 2) divVal;
       fb_loop freq parentFreq curDiv curClkMult maxFb minFb s
     }"

partial_function (option) div_loop ::
    "u32 \<Rightarrow> u32 \<Rightarrow> u32 \<Rightarrow> u32 \<Rightarrow> dynclk_search \<Rightarrow> dynclk_search option" where
  "div_loop freq parentFreq maxDiv curDiv s =
     (if curDiv \<le> maxDiv \<and> \<not> freq_found s then
        do {
          s \<leftarrow> div_step freq parentFreq curDiv s;
          div_loop freq parentFreq maxDiv (curDiv + 1) s
        }
      else Some s)"

definition dglnt_dynclk_find_mode ::
    "u32 \<Rightarrow> u32 \<Rightarrow> dglnt_dynclk_mode \<Rightarrow> (u32 \<times> dglnt_dynclk_mode) option" where
  "dglnt_dynclk_find_mode freq parentFreq pick =
     (let pick = pick\<lparr>mode_freq := 0\<rparr> in
      if parentFreq = 0 then Some (0, pick)
      else
        let freq = (if freq < MMCM_FREQ_OUTMIN then MMCM_FREQ_OUTMIN else freq);
            freq = (if freq > MMCM_FREQ_OUTMAX then MMCM_FREQ_OUTMAX else freq);
            curDiv = (if parentFreq > MMCM_FREQ_PFDMAX then 2 else 1);
            maxDiv = parentFreq div MMCM_FREQ_PFDMIN;
            maxDiv = (if maxDiv > MMCM_DIV_MAX then MMCM_DIV_MAX else maxDiv)
        in do {
          s \<leftarrow> div_loop freq parentFreq maxDiv curDiv
            \<lparr>bestError = MMCM_FREQ_OUTMAX, bestPick = pick, freq_found = False\<rparr>;
          Some (mode_freq (bestPick s), bestPick s)
        })"

section \<open>The clock operations\<close>

text \<open>\<^verbatim>\<open>do clock_state = readl(...); while (!clock_state);\<close>\<close>

partial_function (option) poll_status :: "(nat \<Rightarrow> u32) \<Rightarrow> dynclk_io \<Rightarrow> dynclk_io option" where
  "poll_status status io =
     (let clock_state = status (io_reads io);
          io = io\<lparr>io_reads := Suc (io_reads io)\<rparr>
      in if clock_state = 0 then poll_status status io else Some io)"

definition dglnt_dynclk_enable :: "(nat \<Rightarrow> u32) \<Rightarrow> dglnt_dynclk \<Rightarrow> dynclk_io \<Rightarrow> (int \<times> dynclk_io) option" where
  "dglnt_dynclk_enable status d io =
     (if dyn_freq d \<noteq> 0 then
        do {
          let io = writel 1 (dyn_base d + OFST_DISPLAY_CTRL) io;
          io \<leftarrow> poll_status status io;
          Some (0, io)
        }
      else Some (0, io))"

definition dglnt_dynclk_disable :: "dglnt_dynclk \<Rightarrow> dynclk_io \<Rightarrow> dynclk_io" where
  "dglnt_dynclk_disable d io = writel 0 (dyn_base d + OFST_DISPLAY_CTRL) io"

text \<open>The two local structures of \<^verbatim>\<open>set_rate\<close> are uninitialised: \<open>clkReg\<close>, \<open>clkMode\<close>.\<close>

definition dglnt_dynclk_set_rate ::
    "(nat \<Rightarrow> u32) \<Rightarrow> dglnt_dynclk_reg \<Rightarrow> dglnt_dynclk_mode \<Rightarrow> dglnt_dynclk \<Rightarrow> u32 \<Rightarrow> u32 \<Rightarrow> dynclk_io \<Rightarrow>
       (int \<times> dglnt_dynclk \<times> dynclk_io) option" where
  "dglnt_dynclk_set_rate status clkReg clkMode d rate parent_rate io =
     (if parent_rate = 0 \<or> rate = 0 then Some (-EINVAL, d, io)
      else if rate = dyn_freq d then Some (0, d, io)
      else do {
        let rate = (rate + 100) div 200;
        let parent_rate = (parent_rate + 500) div 1000;
        (r, clkMode) \<leftarrow> dglnt_dynclk_find_mode rate parent_rate clkMode;
        if r = 0 then Some (-EINVAL, d, io)
        else do {
          (_, clkReg) \<leftarrow> dglnt_dynclk_find_reg clkReg clkMode;
          let io = dglnt_dynclk_write_reg clkReg (dyn_base d) io;
          let d = d\<lparr>dyn_freq := mode_freq clkMode * 200\<rparr>;
          let io = dglnt_dynclk_disable d io;
          (_, io) \<leftarrow> dglnt_dynclk_enable status d io;
          Some (0, d, io)
        }
      })"

definition dglnt_dynclk_round_rate :: "dglnt_dynclk_mode \<Rightarrow> u32 \<Rightarrow> u32 \<Rightarrow> u32 option" where
  "dglnt_dynclk_round_rate clkMode rate parent_rate =
     do {
       (_, clkMode) \<leftarrow> dglnt_dynclk_find_mode ((rate + 100) div 200) ((parent_rate + 500) div 1000) clkMode;
       Some (mode_freq clkMode * 200)
     }"

definition dglnt_dynclk_recalc_rate :: "dglnt_dynclk \<Rightarrow> u32 \<Rightarrow> u32" where
  "dglnt_dynclk_recalc_rate d parent_rate = dyn_freq d"

section \<open>Probe\<close>

record probe_env =
  of_node :: bool
  of_match_node :: bool
  devm_kzalloc_ok :: bool
  devm_ioremap_resource :: "int + u32"
  of_clk_get_parent_name :: "string option"
  of_node_name :: string
  clock_output_names :: "string option"
  devm_clk_register :: "int + unit"
  of_clk_add_provider :: int

record clk_init_data =
  init_name :: string
  init_parent :: string

definition dglnt_dynclk_probe ::
    "probe_env \<Rightarrow> dynclk_io \<Rightarrow> int \<times> dglnt_dynclk option \<times> clk_init_data option \<times> dynclk_io" where
  "dglnt_dynclk_probe e io =
     (if \<not> of_node e then (-ENODEV, None, None, io)
      else if \<not> of_match_node e then (-ENODEV, None, None, io)
      else if \<not> devm_kzalloc_ok e then (-ENOMEM, None, None, io)
      else case devm_ioremap_resource e of Inl err \<Rightarrow> (err, None, None, io)
      | Inr base \<Rightarrow>
          (case of_clk_get_parent_name e of None \<Rightarrow> (-EINVAL, None, None, io)
           | Some parent_name \<Rightarrow>
               let clk_name = (case clock_output_names e of None \<Rightarrow> of_node_name e | Some n \<Rightarrow> n);
                   init = \<lparr>init_name = clk_name, init_parent = parent_name\<rparr>;
                   d = \<lparr>dyn_base = base, dyn_freq = 0\<rparr>;
                   io = dglnt_dynclk_disable d io
               in case devm_clk_register e of Inl err \<Rightarrow> (err, Some d, None, io)
                  | Inr _ \<Rightarrow> (of_clk_add_provider e, Some d, Some init, io)))"

end
