(* ===== verification/Dynclk_Props.thy ===== *)
theory Dynclk_Props
  imports Dynclk
begin

unbundle bit_operations_syntax

text \<open>
  Correctness of the pixel clock driver. The parameter search is first shown to be a scan over a
  list of candidates in the natural numbers (no multiplication wraps and no division is by
  zero), the scan to end in a candidate of least error; then the register encodings are decoded
  the way the MMCM does, and the clock operations are put together. The locale \<open>clk_provider\<close>
  is the contract of the common clock framework between \<^verbatim>\<open>round_rate\<close>, \<^verbatim>\<open>set_rate\<close> and
  \<^verbatim>\<open>recalc_rate\<close>.
\<close>

section \<open>The search over the natural numbers\<close>

definition mm_mult :: "nat \<Rightarrow> nat \<Rightarrow> nat \<Rightarrow> nat" where
  "mm_mult F P d = (P * 1000 + d * F div 2) div (d * F)"

definition mm_clkdiv :: "nat \<Rightarrow> nat \<Rightarrow> nat \<times> nat \<Rightarrow> nat" where
  "mm_clkdiv F P = (\<lambda>(d, fb). max 1 (min 128 ((mm_mult F P d * fb + 500) div 1000)))"

definition mm_freq :: "nat \<Rightarrow> nat \<Rightarrow> nat \<times> nat \<Rightarrow> nat" where
  "mm_freq F P c = P * snd c div fst c div mm_clkdiv F P c"

definition mm_err :: "nat \<Rightarrow> nat \<Rightarrow> nat \<times> nat \<Rightarrow> nat" where
  "mm_err F P c = (if mm_freq F P c \<ge> F then mm_freq F P c - F else F - mm_freq F P c)"

definition mm_pick :: "nat \<Rightarrow> nat \<Rightarrow> nat \<times> nat \<Rightarrow> dglnt_dynclk_mode" where
  "mm_pick F P c = \<lparr>mode_freq = of_nat (mm_freq F P c), fbmult = of_nat (snd c),
     clkdiv = of_nat (mm_clkdiv F P c), maindiv = of_nat (fst c)\<rparr>"

definition mm_fbs :: "nat \<Rightarrow> nat \<Rightarrow> nat list" where
  "mm_fbs P d = [max 2 (d * ((600000 + P - 1) div P)) ..< Suc (min 64 (d * (1200000 div P)))]"

definition mm_divs :: "nat \<Rightarrow> nat list" where
  "mm_divs P = [if P > 450000 then 2 else 1 ..< Suc (min 106 (P div 10000))]"

definition mm_cands :: "nat \<Rightarrow> (nat \<times> nat) list" where
  "mm_cands P = concat (map (\<lambda>d. map (Pair d) (mm_fbs P d)) (mm_divs P))"

definition mm_clamp :: "nat \<Rightarrow> nat" where
  "mm_clamp F = min 800000 (max 4000 F)"

definition visit :: "nat \<Rightarrow> nat \<Rightarrow> nat \<times> nat \<Rightarrow> dynclk_search \<Rightarrow> dynclk_search" where
  "visit F P c s =
     (let s = (if mm_err F P c < unat (bestError s) then
                 s\<lparr>bestError := of_nat (mm_err F P c), bestPick := mm_pick F P c\<rparr>
               else s)
      in if mm_err F P c = 0 then s\<lparr>freq_found := True\<rparr> else s)"

fun scan :: "nat \<Rightarrow> nat \<Rightarrow> (nat \<times> nat) list \<Rightarrow> dynclk_search \<Rightarrow> dynclk_search" where
  "scan F P [] s = s"
| "scan F P (c # cs) s = (if freq_found s then s else scan F P cs (visit F P c s))"

lemma scan_found: "freq_found s \<Longrightarrow> scan F P cs s = s"
  by (cases cs) simp_all

lemma scan_append: "scan F P (xs @ ys) s = scan F P ys (scan F P xs s)"
  by (induction xs arbitrary: s) (simp_all add: scan_found)

lemma udiv_of_nat: "a < 2 ^ 32 \<Longrightarrow> b < 2 ^ 32 \<Longrightarrow> 0 < b \<Longrightarrow> udiv (of_nat a) (of_nat b) = Some (of_nat (a div b))"
  by (simp add: udiv_def of_nat_div_u32 of_nat_eq_0_u32)


lemma mm_mult_le:
  assumes "P \<le> 1200000" "4000 \<le> F" "1 \<le> d"
  shows "mm_mult F P d \<le> 300001"
proof -
  have "4000 \<le> d * F" using mult_le_mono [OF assms(3,2)] by simp
  then have "P * 1000 + d * F div 2 < 300002 * (d * F)"
    using assms(1) mult_le_mono2 [of 4000 "d * F" 300000] by linarith
  then show ?thesis
    using \<open>4000 \<le> d * F\<close> by (simp add: mm_mult_def less_mult_imp_div_less less_Suc_eq_le [symmetric] mult.commute)
qed

lemma mm_clkdiv_range: "1 \<le> mm_clkdiv F P c" "mm_clkdiv F P c \<le> 128"
  by (auto simp: mm_clkdiv_def split: prod.split)

lemma mm_freq_le: "mm_freq F P c \<le> P * snd c"
  unfolding mm_freq_def by (meson div_le_dividend le_trans)

lemma clamp_of_nat:
  assumes "n < 2 ^ 32"
  shows "(let x = (if (of_nat n :: u32) > 128 then 128 else of_nat n) in if x < 1 then 1 else x)
    = (of_nat (max 1 (min 128 n)) :: u32)"
proof -
  have "(of_nat n :: u32) > 128 \<longleftrightarrow> n > 128" "(of_nat n :: u32) < 1 \<longleftrightarrow> n < 1"
    using of_nat_less_u32 [OF _ assms, of 128] of_nat_less_u32 [OF assms, of 1] by simp_all
  then show ?thesis by (auto simp: Let_def max_def min_def)
qed

lemma fb_step_visit:
  assumes "0 < P" "P \<le> 1200000" "4000 \<le> F" "F \<le> 800000" "1 \<le> d" "d \<le> 106" "2 \<le> fb" "fb \<le> 64"
  shows "fb_step (of_nat F) (of_nat P) (of_nat d) (of_nat (mm_mult F P d)) (of_nat fb) s
    = Some (visit F P (d, fb) s)"
proof -
  define m where "m = mm_mult F P d"
  define q where "q = (m * fb + 500) div 1000"
  have m: "m \<le> 300001" unfolding m_def using assms by (intro mm_mult_le) auto
  then have mf: "m * fb \<le> 300001 * 64" using assms(8) by (intro mult_le_mono) auto
  have Pf: "P * fb \<le> 1200000 * 64" using assms(2,8) by (intro mult_le_mono) auto
  have q: "q < 2 ^ 32" using mf by (simp add: q_def)
  have cd: "mm_clkdiv F P (d, fb) = max 1 (min 128 q)" by (simp add: mm_clkdiv_def q_def m_def)
  let ?k = "mm_clkdiv F P (d, fb)" and ?f = "mm_freq F P (d, fb)"
  have k: "1 \<le> ?k" "?k \<le> 128" by (rule mm_clkdiv_range)+
  have f: "?f \<le> 1200000 * 64" using mm_freq_le [of F P "(d, fb)"] Pf by simp
  have d1: "udiv (of_nat m * of_nat fb + 500) 1000 = Some (of_nat q :: u32)"
    using udiv_of_nat [of "m * fb + 500" 1000] mf by (simp add: q_def)
  have d2: "udiv (of_nat P * of_nat fb) (of_nat d) = Some (of_nat (P * fb div d) :: u32)"
    using udiv_of_nat [of "P * fb" d] Pf assms(5,6) by simp
  have d3: "udiv (of_nat (P * fb div d)) (of_nat ?k) = Some (of_nat ?f :: u32)"
    using udiv_of_nat [of "P * fb div d" ?k] Pf k div_le_dividend [of "P * fb" d]
    by (simp add: mm_freq_def)
  have e: "(if (of_nat ?f :: u32) \<ge> of_nat F then of_nat ?f - of_nat F else of_nat F - of_nat ?f)
      = (of_nat (mm_err F P (d, fb)) :: u32)"
    using f assms(4) by (simp add: of_nat_le_u32 mm_err_def of_nat_diff)
  have eb: "mm_err F P (d, fb) < 2 ^ 32" using f assms(4) by (auto simp: mm_err_def)
  have lt: "((of_nat (mm_err F P (d, fb)) :: u32) < b) \<longleftrightarrow> mm_err F P (d, fb) < unat b" for b
    using eb by (simp add: word_less_nat_alt unat_of_nat)
  have cl: "(if (if (of_nat q :: u32) > MMCM_CLKDIV_MAX then MMCM_CLKDIV_MAX else of_nat q) < MMCM_CLKDIV_MIN
      then MMCM_CLKDIV_MIN
      else (if (of_nat q :: u32) > MMCM_CLKDIV_MAX then MMCM_CLKDIV_MAX else of_nat q)) = of_nat ?k"
    using clamp_of_nat [OF q] unfolding mmcm_defs cd Let_def .
  show ?thesis
    unfolding fb_step_def m_def [symmetric] d1 d2 d3 bind.bind_lunit Let_def cl e lt of_nat_eq_0_u32 [OF eb]
    by (simp add: visit_def Let_def mm_pick_def)
qed

lemma fb_loop_scan:
  assumes "0 < P" "P \<le> 1200000" "4000 \<le> F" "F \<le> 800000" "1 \<le> d" "d \<le> 106" "2 \<le> lo" "lo < 2 ^ 32" "hi \<le> 64"
  shows "fb_loop (of_nat F) (of_nat P) (of_nat d) (of_nat (mm_mult F P d)) (of_nat hi) (of_nat lo) s
    = Some (scan F P (map (Pair d) [lo..<Suc hi]) s)"
  using assms(7-9)
proof (induction "Suc hi - lo" arbitrary: lo s)
  case 0
  then show ?case by (subst fb_loop.simps) (simp add: of_nat_le_u32)
next
  case (Suc n)
  then have le: "lo \<le> hi" by simp
  have up: "[lo..<Suc hi] = lo # [Suc lo..<Suc hi]" using le by (simp add: upt_rec)
  have "fb_loop (of_nat F) (of_nat P) (of_nat d) (of_nat (mm_mult F P d)) (of_nat hi) (of_nat (Suc lo)) s'
    = Some (scan F P (map (Pair d) [Suc lo..<Suc hi]) s')" for s'
    using Suc.hyps(2) Suc.prems le by (intro Suc.hyps(1)) auto
  then show ?case
    unfolding up
    using le Suc.prems assms fb_step_visit [OF assms(1-6), of lo]
    by (subst fb_loop.simps) (simp add: of_nat_le_u32 add.commute del: upt_Suc)
qed

lemma mm_fbs_empty: "1200000 < P \<Longrightarrow> mm_fbs P d = []"
  by (simp add: mm_fbs_def)

lemma div_step_scan:
  assumes "10000 \<le> P" "P < 2 ^ 32" "4000 \<le> F" "F \<le> 800000" "1 \<le> d" "d \<le> 106"
  shows "div_step (of_nat F) (of_nat P) (of_nat d) s = Some (scan F P (map (Pair d) (mm_fbs P d)) s)"
proof -
  have dF: "4000 \<le> d * F" "d * F \<le> 106 * 800000"
    using mult_le_mono [OF assms(5,3)] mult_le_mono [OF assms(6,4)] by simp_all
  then have dF0: "(of_nat d * of_nat F :: u32) \<noteq> 0"
    using of_nat_eq_0_u32 [of "d * F"] by auto
  have P0: "(of_nat P :: u32) \<noteq> 0" using assms(1,2) of_nat_eq_0_u32 by simp
  have hi: "udiv MMCM_FREQ_VCOMAX (of_nat P) = Some (of_nat (1200000 div P))"
    using udiv_of_nat [of 1200000 P] assms(1,2) by (simp add: mmcm_defs)
  have dhi: "d * (1200000 div P) \<le> 106 * 120"
    using assms(1,6) div_le_mono2 [OF _ assms(1), of 1200000] by (intro mult_le_mono) auto
  have top: "(if (of_nat d * of_nat (1200000 div P) :: u32) > MMCM_FB_MAX then MMCM_FB_MAX
      else of_nat d * of_nat (1200000 div P)) = of_nat (min 64 (d * (1200000 div P)))"
    using of_nat_less_u32 [of 64 "d * (1200000 div P)"] dhi
    by (simp add: mmcm_defs min_def flip: of_nat_mult)
  show ?thesis
  proof (cases "P \<le> 1200000")
    case True
    have lo: "DIV_ROUND_UP MMCM_FREQ_VCOMIN (of_nat P) = Some (of_nat ((600000 + P - 1) div P))"
    proof -
      have "(600000 + of_nat P - 1 :: u32) = of_nat (600000 + P - 1)"
        using assms(1) by (simp add: of_nat_diff)
      then show ?thesis
        using udiv_of_nat [of "600000 + P - 1" P] assms(1) True by (simp add: DIV_ROUND_UP_def mmcm_defs)
    qed
    have q: "(600000 + P - 1) div P \<le> 60"
    proof -
      have "600000 \<le> 60 * P" using assms(1) by simp
      then have "600000 + P - 1 < 61 * P" using assms(1) by linarith
      then show ?thesis using assms(1) by (simp add: less_mult_imp_div_less less_Suc_eq_le [symmetric])
    qed
    have dlo: "d * ((600000 + P - 1) div P) \<le> 106 * 60" using q assms(6) by (intro mult_le_mono)
    have bot: "(if (of_nat d * of_nat ((600000 + P - 1) div P) :: u32) < MMCM_FB_MIN then MMCM_FB_MIN
        else of_nat d * of_nat ((600000 + P - 1) div P)) = of_nat (max 2 (d * ((600000 + P - 1) div P)))"
      using of_nat_less_u32 [of "d * ((600000 + P - 1) div P)" 2] dlo
      by (simp add: mmcm_defs max_def flip: of_nat_mult)
    have mult: "udiv (of_nat P * 1000 + of_nat d * of_nat F div 2) (of_nat d * of_nat F)
        = Some (of_nat (mm_mult F P d))"
    proof -
      have "(of_nat d * of_nat F :: u32) div 2 = of_nat (d * F div 2)"
        using of_nat_div_u32 [of "d * F" 2] dF by simp
      then have "(of_nat P * 1000 + of_nat d * of_nat F div 2 :: u32) = of_nat (P * 1000 + d * F div 2)"
        by simp
      moreover have "d * F div 2 \<le> 42400000" using dF div_le_mono [OF dF(2), of 2] by simp
      then have "P * 1000 + d * F div 2 < 2 ^ 32" "d * F < 2 ^ 32" using dF(2) True by simp_all
      moreover have "0 < d * F" using dF(1) by linarith
      ultimately show ?thesis
        using udiv_of_nat [of "P * 1000 + d * F div 2" "d * F"] by (simp only: mm_mult_def of_nat_mult)
    qed
    show ?thesis
      unfolding div_step_def lo hi bind.bind_lunit Let_def top bot mult mm_fbs_def
      using True assms dlo by (intro fb_loop_scan) auto
  next
    case False
    then have z: "1200000 div P = 0" by simp
    obtain l where l: "DIV_ROUND_UP MMCM_FREQ_VCOMIN (of_nat P) = Some l"
      using P0 by (simp add: DIV_ROUND_UP_def udiv_def)
    obtain m where m: "udiv (of_nat P * 1000 + of_nat d * of_nat F div 2) (of_nat d * of_nat F) = Some m"
      using dF0 by (simp add: udiv_def)
    have "\<not> (if of_nat d * l < MMCM_FB_MIN then MMCM_FB_MIN else of_nat d * l) \<le> 0"
      by (auto simp: mmcm_defs not_less)
    then show ?thesis
      unfolding div_step_def l hi bind.bind_lunit Let_def top m
      using False by (subst fb_loop.simps) (simp add: z mm_fbs_empty)
  qed
qed

lemma div_loop_scan:
  assumes "10000 \<le> P" "P < 2 ^ 32" "4000 \<le> F" "F \<le> 800000" "1 \<le> lo" "lo < 2 ^ 32" "hi \<le> 106"
  shows "div_loop (of_nat F) (of_nat P) (of_nat hi) (of_nat lo) s
    = Some (scan F P (concat (map (\<lambda>d. map (Pair d) (mm_fbs P d)) [lo..<Suc hi])) s)"
  using assms(5-7)
proof (induction "Suc hi - lo" arbitrary: lo s)
  case 0
  then show ?case by (subst div_loop.simps) (simp add: of_nat_le_u32)
next
  case (Suc n)
  then have le: "lo \<le> hi" by simp
  have up: "[lo..<Suc hi] = lo # [Suc lo..<Suc hi]" using le by (simp add: upt_rec)
  have "div_loop (of_nat F) (of_nat P) (of_nat hi) (of_nat (Suc lo)) s'
    = Some (scan F P (concat (map (\<lambda>d. map (Pair d) (mm_fbs P d)) [Suc lo..<Suc hi])) s')" for s'
    using Suc.hyps(2) Suc.prems le by (intro Suc.hyps(1)) auto
  then show ?case
    unfolding up
    using le Suc.prems assms div_step_scan [OF assms(1-4), of lo]
    by (subst div_loop.simps) (simp add: of_nat_le_u32 add.commute scan_append scan_found del: upt_Suc)
qed

text \<open>What scanning a list of candidates leaves: the first one of least error below the start.\<close>

lemma scan_best:
  assumes "\<forall>c \<in> set cs. mm_err F P c < 2 ^ 32" "freq_found s \<longrightarrow> bestError s = 0"
  defines "t \<equiv> scan F P cs s"
  shows "(\<forall>c \<in> set cs. unat (bestError t) \<le> mm_err F P c) \<and> unat (bestError t) \<le> unat (bestError s)
    \<and> ((bestError t = bestError s \<and> bestPick t = bestPick s)
       \<or> (\<exists>c \<in> set cs. bestPick t = mm_pick F P c \<and> unat (bestError t) = mm_err F P c))"
  using assms(1,2) unfolding t_def
proof (induction cs arbitrary: s)
  case (Cons c cs)
  show ?case
  proof (cases "freq_found s")
    case True
    then show ?thesis using Cons.prems(2) by simp
  next
    case False
    let ?v = "visit F P c s"
    have v: "freq_found ?v \<longrightarrow> bestError ?v = 0" "unat (bestError ?v) \<le> mm_err F P c"
      "unat (bestError ?v) \<le> unat (bestError s)"
      "(bestError ?v = bestError s \<and> bestPick ?v = bestPick s)
       \<or> bestPick ?v = mm_pick F P c \<and> unat (bestError ?v) = mm_err F P c"
      using False Cons.prems(1) by (auto simp: visit_def Let_def unat_of_nat unat_eq_zero)
    show ?thesis
      using Cons.IH [of ?v] Cons.prems(1) v False by (auto 0 3)
  qed
qed simp

lemma mm_divs_mem: "d \<in> set (mm_divs P) \<longleftrightarrow> (if P > 450000 then 2 else 1) \<le> d \<and> d \<le> 106 \<and> d \<le> P div 10000"
  unfolding mm_divs_def set_upt atLeastLessThan_iff less_Suc_eq_le min.bounded_iff by simp

lemma mm_fbs_mem:
  "fb \<in> set (mm_fbs P d) \<longleftrightarrow>
     2 \<le> fb \<and> d * ((600000 + P - 1) div P) \<le> fb \<and> fb \<le> 64 \<and> fb \<le> d * (1200000 div P)"
  unfolding mm_fbs_def set_upt atLeastLessThan_iff less_Suc_eq_le min.bounded_iff max.bounded_iff by blast

lemma mm_cands_mem: "(d, fb) \<in> set (mm_cands P) \<longleftrightarrow> d \<in> set (mm_divs P) \<and> fb \<in> set (mm_fbs P d)"
  by (auto simp: mm_cands_def)

lemma ceil_ge: "0 < P \<Longrightarrow> a \<le> P * ((a + P - 1) div P)" for P :: nat
proof -
  assume "0 < P"
  then have "P * ((a + P - 1) div P) + (a + P - 1) mod P = a + P - 1" "(a + P - 1) mod P < P" by simp_all
  then show ?thesis by linarith
qed

lemma mm_cand_vco:
  assumes "(d, fb) \<in> set (mm_cands P)"
  shows "1 \<le> d" "d \<le> 106" "2 \<le> fb" "fb \<le> 64" "10000 * d \<le> P" "P \<le> 1200000"
    "600000 * d \<le> P * fb" "P * fb \<le> 1200000 * d"
proof -
  note m = assms [unfolded mm_cands_mem mm_divs_mem mm_fbs_mem]
  show d: "1 \<le> d" using m by (auto split: if_splits)
  show "d \<le> 106" "2 \<le> fb" "fb \<le> 64" using m by auto
  show "10000 * d \<le> P" using m by (auto simp: less_eq_div_iff_mult_less_eq mult.commute)
  then have P: "0 < P" using d by auto
  show "P \<le> 1200000" using m d by (cases "1200000 < P") auto
  have "600000 * d \<le> d * (P * ((600000 + P - 1) div P))"
    using ceil_ge [OF P, of 600000] by (simp add: mult.commute)
  also have "\<dots> = P * (d * ((600000 + P - 1) div P))" by simp
  also have "\<dots> \<le> P * fb" using m by (intro mult_le_mono2) auto
  finally show "600000 * d \<le> P * fb" .
  have "P * fb \<le> P * (d * (1200000 div P))" using m by (intro mult_le_mono2) auto
  also have "\<dots> = d * (P * (1200000 div P))" by simp
  also have "\<dots> \<le> d * 1200000" by (intro mult_le_mono2) (metis div_times_less_eq_dividend mult.commute)
  finally show "P * fb \<le> 1200000 * d" by simp
qed

lemma mm_mult_gt:
  assumes "0 < d * F" shows "1000 * P < Suc (mm_mult F P d) * (d * F)"
proof -
  have "P * 1000 + d * F div 2 < Suc (mm_mult F P d) * (d * F)"
    using assms dividend_less_div_times [of "d * F" "P * 1000 + d * F div 2"]
    by (simp add: mm_mult_def mult.commute add.commute)
  then show ?thesis by linarith
qed

lemma mm_freq_ge:
  assumes "c \<in> set (mm_cands P)" shows "4687 \<le> mm_freq F P c"
proof -
  obtain d fb where c: "c = (d, fb)" by fastforce
  note v = mm_cand_vco [OF assms [unfolded c]]
  have "600000 \<le> P * fb div d" using v(1,7) by (simp add: less_eq_div_iff_mult_less_eq)
  then have "600000 div 128 \<le> P * fb div d div mm_clkdiv F P c"
    using mm_clkdiv_range [of F P c] by (meson div_le_mono div_le_mono2 le_trans zero_less_one less_le_trans)
  then show ?thesis by (simp add: mm_freq_def c)
qed

lemma mm_err_bound:
  assumes "c \<in> set (mm_cands P)" "4000 \<le> F" "F \<le> 800000"
  shows "mm_err F P c < 800000"
proof -
  obtain d fb where c: "c = (d, fb)" by fastforce
  note v = mm_cand_vco [OF assms(1) [unfolded c]]
  note k = mm_clkdiv_range [of F P c]
  define V where "V = P * fb div d"
  have V: "V \<le> 1200000" unfolding V_def using v(1) div_le_mono [OF v(8), of d] by simp
  have dF: "0 < d * F" using v(1) assms(2) by simp
  have lo: "4687 \<le> mm_freq F P c" by (rule mm_freq_ge [OF assms(1)])
  have up: "mm_freq F P c < F + 800000"
  proof (cases "mm_clkdiv F P c = 1")
    case True
    then have f: "mm_freq F P c = V" by (simp add: mm_freq_def c V_def)
    have "(mm_mult F P d * fb + 500) div 1000 \<le> 1"
      using True by (simp add: mm_clkdiv_def c max_def min_def split: if_splits)
    then have "mm_mult F P d * fb < 1500" by linarith
    then have m: "Suc (mm_mult F P d) * fb \<le> 1564" using v(4) by simp
    have "1000 * V * d \<le> 1000 * (P * fb)" unfolding V_def by simp
    also have "\<dots> \<le> Suc (mm_mult F P d) * (d * F) * fb"
      using mult_le_mono1 [OF less_imp_le [OF mm_mult_gt [OF dF, of P]], of fb] by (simp only: mult.assoc)
    also have "\<dots> = (Suc (mm_mult F P d) * fb) * (d * F)" by (simp only: mult_ac)
    also have "\<dots> \<le> 1564 * (d * F)" using m by (rule mult_le_mono1)
    finally have "(1000 * V) * d \<le> (1564 * F) * d" by (simp add: mult_ac)
    then have "1000 * V \<le> 1564 * F" using v(1) by (subst (asm) mult_le_cancel2) simp
    then show ?thesis using assms(3) f by linarith
  next
    case False
    then have "mm_freq F P c \<le> V div 2"
      using k by (auto simp: mm_freq_def c V_def intro: div_le_mono2)
    then show ?thesis using V by linarith
  qed
  show ?thesis using lo up assms(3) by (auto simp: mm_err_def)
qed

lemma find_mode_scan:
  fixes freq parentFreq :: u32
  assumes "parentFreq \<noteq> 0"
  defines "F \<equiv> mm_clamp (unat freq)" and "P \<equiv> unat parentFreq"
  shows "dglnt_dynclk_find_mode freq parentFreq pick =
    (let s = scan F P (mm_cands P)
         \<lparr>bestError = MMCM_FREQ_OUTMAX, bestPick = pick\<lparr>mode_freq := 0\<rparr>, freq_found = False\<rparr>
     in Some (mode_freq (bestPick s), bestPick s))"
proof -
  have P: "parentFreq = of_nat P" "P < 2 ^ 32" using unsigned_less [of parentFreq, where ?'a = nat] by (simp_all add: P_def)
  have F: "4000 \<le> F" "F \<le> 800000" by (auto simp: F_def mm_clamp_def)
  have f: "(let freq = (if freq < MMCM_FREQ_OUTMIN then MMCM_FREQ_OUTMIN else freq)
      in if freq > MMCM_FREQ_OUTMAX then MMCM_FREQ_OUTMAX else freq) = (of_nat F :: u32)"
    by (rule word_unat_eq_iff [THEN iffD2])
      (auto simp: mmcm_defs F_def mm_clamp_def Let_def word_less_nat_alt max_def min_def not_less)
  have lo: "(if parentFreq > MMCM_FREQ_PFDMAX then 2 else 1) = (of_nat (if P > 450000 then 2 else 1) :: u32)"
    using of_nat_less_u32 [of 450000 P] P by (simp add: mmcm_defs)
  have pd: "parentFreq div MMCM_FREQ_PFDMIN = of_nat (P div 10000)"
    using of_nat_div_u32 [of P 10000] P by (simp add: mmcm_defs)
  have pb: "P div 10000 < 2 ^ 32" using P(2) div_le_dividend [of P 10000] by linarith
  have hi: "(if parentFreq div MMCM_FREQ_PFDMIN > MMCM_DIV_MAX then MMCM_DIV_MAX
      else parentFreq div MMCM_FREQ_PFDMIN) = of_nat (min 106 (P div 10000))"
    unfolding pd using of_nat_less_u32 [OF _ pb, of 106] by (simp add: mmcm_defs min_def)
  have loop: "div_loop (of_nat F) parentFreq (of_nat (min 106 (P div 10000)))
      (of_nat (if P > 450000 then 2 else 1)) s = Some (scan F P (mm_cands P) s)" for s
  proof (cases "P < 10000")
    case True
    then have "P div 10000 = 0" by simp
    then show ?thesis using True by (subst div_loop.simps) (simp add: mm_cands_def mm_divs_def)
  next
    case False
    then show ?thesis
      using div_loop_scan [of P F "if P > 450000 then 2 else 1" "min 106 (P div 10000)" s] P F
      unfolding mm_cands_def mm_divs_def by simp
  qed
  show ?thesis
    unfolding dglnt_dynclk_find_mode_def
    using assms(1) f lo hi loop by (simp add: Let_def)
qed

lemma find_mode_best_aux:
  fixes freq parentFreq :: u32
  assumes "parentFreq \<noteq> 0"
  defines "F \<equiv> mm_clamp (unat freq)" and "P \<equiv> unat parentFreq"
  shows "\<exists>m. dglnt_dynclk_find_mode freq parentFreq pick = Some (mode_freq m, m) \<and>
    (if mm_cands P = [] then m = pick\<lparr>mode_freq := 0\<rparr>
     else \<exists>c \<in> set (mm_cands P). m = mm_pick F P c \<and> (\<forall>c' \<in> set (mm_cands P). mm_err F P c \<le> mm_err F P c'))"
proof -
  let ?s = "\<lparr>bestError = MMCM_FREQ_OUTMAX, bestPick = pick\<lparr>mode_freq := 0\<rparr>, freq_found = False\<rparr> :: dynclk_search"
  let ?t = "scan F P (mm_cands P) ?s"
  have F: "4000 \<le> F" "F \<le> 800000" by (auto simp: F_def mm_clamp_def)
  have lt: "\<forall>c \<in> set (mm_cands P). mm_err F P c < 800000" using mm_err_bound F by blast
  then have "\<forall>c \<in> set (mm_cands P). mm_err F P c < 2 ^ 32" by fastforce
  note b = scan_best [OF this, of ?s, simplified]
  have out: "unat MMCM_FREQ_OUTMAX = 800000" by (simp add: mmcm_defs)
  have "if mm_cands P = [] then bestPick ?t = pick\<lparr>mode_freq := 0\<rparr>
     else \<exists>c \<in> set (mm_cands P). bestPick ?t = mm_pick F P c \<and> (\<forall>c' \<in> set (mm_cands P). mm_err F P c \<le> mm_err F P c')"
  proof (cases "mm_cands P = []")
    case False
    then obtain c where c: "c \<in> set (mm_cands P)" by (cases "mm_cands P") auto
    then have "unat (bestError ?t) < 800000" using b lt by fastforce
    then have "bestError ?t \<noteq> MMCM_FREQ_OUTMAX" using out by auto
    then show ?thesis using b False by fastforce
  qed simp
  then show ?thesis
    using find_mode_scan [OF assms(1), of freq pick, folded F_def P_def] by (simp add: Let_def)
qed

lemma mm_mult_bounds:
  assumes "0 < d * F"
  shows "2000 * P \<le> 2 * (mm_mult F P d * (d * F)) + d * F"
    "2 * (mm_mult F P d * (d * F)) \<le> 2000 * P + d * F"
proof -
  let ?A = "d * F"
  have "P * 1000 + ?A div 2 < mm_mult F P d * ?A + ?A" "mm_mult F P d * ?A \<le> P * 1000 + ?A div 2"
    using assms dividend_less_div_times [of ?A "P * 1000 + ?A div 2"]
      div_times_less_eq_dividend [of "P * 1000 + ?A div 2" ?A]
    by (simp_all add: mm_mult_def add.commute)
  then show "2000 * P \<le> 2 * (mm_mult F P d * ?A) + ?A" "2 * (mm_mult F P d * ?A) \<le> 2000 * P + ?A"
    by linarith+
qed

lemma clkdiv_stable:
  assumes "c \<in> set (mm_cands P)"
  shows "mm_clkdiv (mm_freq F P c) P c = mm_clkdiv F P c"
proof -
  obtain d fb where c: "c = (d, fb)" by fastforce
  note v = mm_cand_vco [OF assms [unfolded c]]
  define k where "k = mm_clkdiv F P c"
  define f where "f = mm_freq F P c"
  define m where "m = mm_mult f P d"
  define A where "A = d * f"
  have k: "1 \<le> k" "k \<le> 128" unfolding k_def by (rule mm_clkdiv_range)+
  have f: "4687 \<le> f" unfolding f_def by (rule mm_freq_ge [OF assms])
  have A: "0 < A" using f v(1) by (simp add: A_def)
  have fV: "f = P * fb div d div k" by (simp add: f_def k_def mm_freq_def c)
  have kA: "k * A \<le> P * fb" "P * fb \<le> k * A + d * k"
  proof -
    have "d * (k * f) \<le> d * (P * fb div d)" unfolding fV by (intro mult_le_mono2) simp
    also have "\<dots> \<le> P * fb" by simp
    finally show "k * A \<le> P * fb" by (simp add: A_def mult_ac)
    have "P * fb div d < k * Suc f"
      using k unfolding fV by (metis dividend_less_times_div mult_Suc_right add.commute less_le_trans zero_less_one)
    then have "d * Suc (P * fb div d) \<le> d * (k * Suc f)" by (intro mult_le_mono2) simp
    moreover have "P * fb \<le> d * Suc (P * fb div d)"
      using dividend_less_times_div [of d "P * fb"] v(1) by simp
    ultimately show "P * fb \<le> k * A + d * k" by (simp add: A_def algebra_simps)
  qed
  note b = mm_mult_bounds [of d f P, folded A_def m_def, OF A]
  have "2000 * (k * A) \<le> 2000 * P * fb" using kA(1) by simp
  also have "\<dots> \<le> (2 * (m * A) + A) * fb" using b(1) by (rule mult_le_mono1)
  finally have "(2000 * k) * A \<le> (2 * m * fb + fb) * A" by (simp add: algebra_simps)
  then have low: "2000 * k \<le> 2 * m * fb + fb" using A by simp
  have "2 * (m * A) * fb \<le> (2000 * P + A) * fb" using b(2) by (rule mult_le_mono1)
  also have "\<dots> \<le> 2000 * (k * A) + 2000 * (d * k) + A * fb" using kA(2) by (simp add: algebra_simps)
  also have "\<dots> \<le> 2000 * (k * A) + 55 * A + A * fb"
  proof -
    have "2000 * k \<le> 55 * f" using k(2) f by linarith
    then have "d * (2000 * k) \<le> d * (55 * f)" by (rule mult_le_mono2)
    then show ?thesis by (simp add: A_def mult_ac)
  qed
  finally have "(2 * m * fb) * A \<le> (2000 * k + 55 + fb) * A" by (simp add: algebra_simps)
  then have up: "2 * m * fb \<le> 2000 * k + 55 + fb" using A by simp
  have "(m * fb + 500) div 1000 = k"
    using low up v(4) by (intro div_nat_eqI) simp_all
  then have "mm_clkdiv f P c = k" using k by (simp add: mm_clkdiv_def c m_def)
  then show ?thesis by (simp only: f_def k_def)
qed

lemma freq_stable: "c \<in> set (mm_cands P) \<Longrightarrow> mm_freq (mm_freq F P c) P c = mm_freq F P c"
  using mm_freq_def [of "mm_freq F P c" P c] mm_freq_def [of F P c] clkdiv_stable [of c P F] by (simp only:)

lemma mm_freq_small: "c \<in> set (mm_cands P) \<Longrightarrow> mm_freq F P c \<le> 1200000"
proof -
  assume c: "c \<in> set (mm_cands P)"
  obtain d fb where eq: "c = (d, fb)" by fastforce
  have "P * fb div d \<le> 1200000"
    using mm_cand_vco [OF c [unfolded eq]] div_le_mono [of "P * fb" "1200000 * d" d] by simp
  then show ?thesis by (simp add: mm_freq_def eq) (meson div_le_dividend le_trans)
qed

lemma find_mode_outcome:
  assumes "dglnt_dynclk_find_mode freq parentFreq pick = Some (r, m)"
  shows "r = mode_freq m" "r \<noteq> 0 \<Longrightarrow> \<exists>c \<in> set (mm_cands (unat parentFreq)).
    m = mm_pick (mm_clamp (unat freq)) (unat parentFreq) c"
    "mm_cands (unat parentFreq) \<noteq> [] \<Longrightarrow> r \<noteq> 0"
proof -
  have *: "r = mode_freq m \<and> (r \<noteq> 0 \<longrightarrow> (\<exists>c \<in> set (mm_cands (unat parentFreq)).
      m = mm_pick (mm_clamp (unat freq)) (unat parentFreq) c)) \<and> (mm_cands (unat parentFreq) \<noteq> [] \<longrightarrow> r \<noteq> 0)"
  proof (cases "parentFreq = 0")
    case True
    then show ?thesis using assms by (auto simp: dglnt_dynclk_find_mode_def mm_cands_def mm_divs_def)
  next
    case False
    have "of_nat (mm_freq F (unat parentFreq) c) \<noteq> (0 :: u32)" if "c \<in> set (mm_cands (unat parentFreq))" for F c
      using mm_freq_ge [OF that, of F] mm_freq_small [OF that, of F] by (simp add: of_nat_eq_0_u32)
    then show ?thesis
      using find_mode_best_aux [OF False, of freq pick] assms
      by (auto simp: mm_pick_def split: if_splits)
  qed
  then show "r = mode_freq m" "r \<noteq> 0 \<Longrightarrow> \<exists>c \<in> set (mm_cands (unat parentFreq)).
    m = mm_pick (mm_clamp (unat freq)) (unat parentFreq) c"
    "mm_cands (unat parentFreq) \<noteq> [] \<Longrightarrow> r \<noteq> 0" by blast+
qed

lemma find_mode_total: "\<exists>m. dglnt_dynclk_find_mode freq parentFreq pick = Some (mode_freq m, m)"
proof (cases "parentFreq = 0")
  case True
  then show ?thesis by (auto simp: dglnt_dynclk_find_mode_def)
next
  case False
  then show ?thesis using find_mode_best_aux by blast
qed

lemma find_mode_fixpoint:
  assumes "dglnt_dynclk_find_mode freq parentFreq pick = Some (r, m)" "r \<noteq> 0" "r \<le> 800000"
  shows "\<exists>m'. dglnt_dynclk_find_mode r parentFreq pick' = Some (r, m') \<and> mode_freq m' = r"
proof -
  let ?P = "unat parentFreq" and ?F = "mm_clamp (unat freq)"
  obtain c where c: "c \<in> set (mm_cands ?P)" "m = mm_pick ?F ?P c" and r: "r = mode_freq m"
    using find_mode_outcome(1,2) [OF assms(1)] assms(2) by blast
  let ?f = "mm_freq ?F ?P c"
  have f: "4687 \<le> ?f" "?f \<le> 1200000" using mm_freq_ge [OF c(1)] mm_freq_small [OF c(1)] by auto
  then have rf: "unat r = ?f" by (simp add: r c(2) mm_pick_def unat_of_nat)
  then have "?f \<le> 800000" using assms(3) by (simp add: word_le_nat_alt)
  then have cl: "mm_clamp (unat r) = ?f" using f by (simp add: rf mm_clamp_def)
  have e: "mm_err ?f ?P c = 0" by (simp add: mm_err_def freq_stable [OF c(1)])
  have p: "parentFreq \<noteq> 0" using c(1) by (auto simp: mm_cands_def mm_divs_def)
  obtain m' c' where m': "dglnt_dynclk_find_mode r parentFreq pick' = Some (mode_freq m', m')"
    "c' \<in> set (mm_cands ?P)" "m' = mm_pick ?f ?P c'" "mm_err ?f ?P c' \<le> mm_err ?f ?P c"
    using find_mode_best_aux [OF p, of r pick'] c(1) unfolding cl by (auto split: if_splits)
  have "mm_freq ?f ?P c' = ?f" using m'(4) e by (simp add: mm_err_def split: if_splits)
  then have "mode_freq m' = r" by (simp add: m'(3) mm_pick_def rf [symmetric])
  then show ?thesis using m'(1) by auto
qed

section \<open>The registers\<close>

text \<open>
  How the MMCM reads a counter register: six bits of high time and six of low time, where
  0 stands for 64, unless the no-count bit says that the counter divides by one. The count
  registers hold the edge and no-count bits ten places further up.
\<close>

definition field64 :: "u32 \<Rightarrow> nat" where
  "field64 w = (let v = unat (w AND 0x3F) in if v = 0 then 64 else v)"

definition mmcm_divider :: "u32 \<Rightarrow> nat" where
  "mmcm_divider w = (if bit w 12 then 1 else field64 (drop_bit 6 w) + field64 w)"

definition mmcm_counter :: "u32 \<Rightarrow> nat" where
  "mmcm_counter w = (if bit w 22 then 1 else field64 (drop_bit 6 w) + field64 w)"

lemma and_3F: "w AND 0x3F = take_bit 6 (w :: u32)" "0x3F AND w = take_bit 6 (w :: u32)"
  by (simp_all add: take_bit_eq_mask mask_eq_exp_minus_1 and.commute)

lemma and_FC0: "0xFC0 AND push_bit 6 w = push_bit 6 (take_bit 6 (w :: u32))"
proof -
  have "(0xFC0 :: u32) = push_bit 6 (mask 6)" by (simp add: mask_eq_exp_minus_1 push_bit_eq_mult)
  then show ?thesis by (simp only: push_bit_and take_bit_eq_mask and.commute)
qed

lemma field64_take:
  assumes "take_bit 6 w = take_bit 6 (of_nat n :: u32)" "1 \<le> n" "n \<le> 64"
  shows "field64 w = n"
proof -
  have "unat (take_bit 6 (of_nat n :: u32)) = n mod 64"
    using assms(3) by (simp only: unsigned_take_bit_eq) (simp add: unat_of_nat take_bit_eq_mod)
  then show ?thesis
    using assms by (cases "n = 64") (simp_all add: field64_def and_3F Let_def)
qed

lemma divider_word:
  assumes "2 \<le> n" "n \<le> 128"
  shows "dglnt_dynclk_divider (of_nat n) = push_bit 13 (of_bool (odd n))
    OR take_bit 6 (of_nat (n - n div 2)) OR push_bit 6 (take_bit 6 (of_nat (n div 2)))"
proof -
  have "odd (of_nat n :: u32) \<longleftrightarrow> odd n" by (simp add: bit_simps flip: bit_0)
  then have o: "(of_nat n AND 1 :: u32) \<noteq> 0 \<longleftrightarrow> odd n" by (simp add: and_one_eq mod_2_eq_odd)
  have r: "\<not> (of_nat n :: u32) < 1" "\<not> (of_nat n :: u32) > 128" "(of_nat n :: u32) \<noteq> 1"
    using assms of_nat_less_u32 [of n 1] of_nat_less_u32 [of 128 n] of_nat_less_u32 [of 1 n] by auto
  have h: "(of_nat n :: u32) div 2 = of_nat (n div 2)" using assms(2) of_nat_div_u32 [of n 2] by simp
  have l: "odd n \<Longrightarrow> n - n div 2 = Suc (n div 2)" "even n \<Longrightarrow> n - n div 2 = n div 2" by presburger+
  show ?thesis
    unfolding dglnt_dynclk_divider_def
    using o r l
    by (cases "odd n") (simp_all add: Let_def h and_3F and_FC0 CLK_BIT_WEDGE_def add.commute or.assoc del: of_nat_diff)
qed

lemma divider_decode:
  assumes "1 \<le> n" "n \<le> 128"
  defines "w \<equiv> dglnt_dynclk_divider (of_nat n)"
  shows "w \<noteq> ERR_CLKDIVIDER" "mmcm_divider w = n" "bit w 13 \<longleftrightarrow> n \<noteq> 1 \<and> odd n"
    "bit w 12 \<longleftrightarrow> n = 1"
proof -
  have "w \<noteq> ERR_CLKDIVIDER \<and> mmcm_divider w = n \<and> (bit w 13 \<longleftrightarrow> n \<noteq> 1 \<and> odd n) \<and> (bit w 12 \<longleftrightarrow> n = 1)"
  proof (cases "n = 1")
    case True
    then show ?thesis
      by (simp add: w_def dglnt_dynclk_divider_def DYNCLK_DIV_1_REGMASK_def ERR_CLKDIVIDER_def
          CLK_BIT_WEDGE_def CLK_BIT_NOCOUNT_def mmcm_divider_def)
  next
    case False
    then have n: "2 \<le> n" using assms(1) by simp
    note w = divider_word [OF n assms(2), folded w_def]
    have b: "\<not> bit w 12" "bit w 13 \<longleftrightarrow> odd n" by (auto simp: w bit_simps)
    have "take_bit 6 w = take_bit 6 (of_nat (n - n div 2))"
      unfolding w by (rule bit_word_eqI) (auto simp: bit_simps)
    moreover have "take_bit 6 (drop_bit 6 w) = take_bit 6 (of_nat (n div 2))"
      unfolding w by (rule bit_word_eqI) (auto simp: bit_simps)
    ultimately have "field64 w = n - n div 2" "field64 (drop_bit 6 w) = n div 2"
      using n assms(2) by (auto intro!: field64_take)
    moreover have "bit ERR_CLKDIVIDER 12" by (simp add: ERR_CLKDIVIDER_def CLK_BIT_WEDGE_def CLK_BIT_NOCOUNT_def)
    ultimately show ?thesis using b False by (auto simp: mmcm_divider_def)
  qed
  then show "w \<noteq> ERR_CLKDIVIDER" "mmcm_divider w = n" "bit w 13 \<longleftrightarrow> n \<noteq> 1 \<and> odd n"
    "bit w 12 \<longleftrightarrow> n = 1" by blast+
qed

lemma counter_decode:
  assumes "1 \<le> n" "n \<le> 128"
  defines "w \<equiv> dglnt_dynclk_count_calc (of_nat n)"
  shows "w \<noteq> ERR_CLKCOUNTCALC" "mmcm_counter w = n" "bit w 23 \<longleftrightarrow> n \<noteq> 1 \<and> odd n"
proof -
  let ?v = "dglnt_dynclk_divider (of_nat n)"
  note v = divider_decode [OF assms(1,2)]
  have w: "w = (0xFFF AND ?v) OR (push_bit 10 ?v AND 0x00C00000)"
    by (simp add: w_def dglnt_dynclk_count_calc_def Let_def v(1))
  have m: "(0xFFF :: u32) = mask 12" "(0xC00000 :: u32) = push_bit 22 (mask 2)"
    by (simp_all add: mask_eq_exp_minus_1 push_bit_eq_mult)
  have b: "bit w 22 \<longleftrightarrow> bit ?v 12" "bit w 23 \<longleftrightarrow> bit ?v 13" "\<not> bit w 31"
    unfolding w m by (simp_all add: bit_simps)
  have "take_bit 6 w = take_bit 6 ?v" "take_bit 6 (drop_bit 6 w) = take_bit 6 (drop_bit 6 ?v)"
    unfolding w m by (rule bit_word_eqI; auto simp: bit_simps)+
  then have "field64 w = field64 ?v" "field64 (drop_bit 6 w) = field64 (drop_bit 6 ?v)"
    by (simp_all add: field64_def and_3F)
  then show "mmcm_counter w = n" "bit w 23 \<longleftrightarrow> n \<noteq> 1 \<and> odd n"
    using v(2,3) b by (auto simp: mmcm_counter_def mmcm_divider_def split: if_splits)
  have "bit ERR_CLKCOUNTCALC 31" by (simp add: ERR_CLKCOUNTCALC_def)
  then show "w \<noteq> ERR_CLKCOUNTCALC" using b(3) by auto
qed

lemma lookup_lengths: "length lock_lookup = 64" "length filter_lookup_low = 64"
  by (simp_all add: lock_lookup_def filter_lookup_low_def)

lemma find_reg_ok:
  assumes "2 \<le> unat (fbmult m)" "unat (fbmult m) \<le> 64" "1 \<le> unat (clkdiv m)" "unat (clkdiv m) \<le> 128"
    "1 \<le> unat (maindiv m)" "unat (maindiv m) \<le> 128"
  shows "\<exists>rv. dglnt_dynclk_find_reg rg m = Some (0, rv) \<and> mmcm_counter (clk0L rv) = unat (clkdiv m)
    \<and> mmcm_counter (clkFBL rv) = unat (fbmult m) \<and> mmcm_divider (divclk rv) = unat (maindiv m) \<and> clkFBH_clk0H rv = 0
    \<and> lockL rv = ucast (lock_lookup ! (unat (fbmult m) - 1))
    \<and> fltr_lockH rv = ucast (take_bit 8 (drop_bit 32 (lock_lookup ! (unat (fbmult m) - 1))))
        OR push_bit 16 (take_bit 10 (filter_lookup_low ! (unat (fbmult m) - 1)))"
proof -
  have c: "mmcm_counter (dglnt_dynclk_count_calc w) = unat w" "dglnt_dynclk_count_calc w \<noteq> ERR_CLKCOUNTCALC"
    if "1 \<le> unat w" "unat w \<le> 128" for w
    using counter_decode [OF that] by simp_all
  have d: "mmcm_divider (dglnt_dynclk_divider w) = unat w" "dglnt_dynclk_divider w \<noteq> ERR_CLKDIVIDER"
    if "1 \<le> unat w" "unat w \<le> 128" for w
    using divider_decode [OF that] by simp_all
  have r: "\<not> fbmult m < 2" "\<not> 64 < fbmult m" using assms(1,2) by (simp_all add: word_less_nat_alt)
  have k: "unat (fbmult m - 1) = unat (fbmult m) - 1"
    using assms(1) by (simp add: unat_sub word_le_nat_alt)
  then have k64: "unat (fbmult m - 1) < 64" using assms(1,2) by simp
  have "x AND 0xFFFFFFFF = take_bit 32 x" for x :: u64
    by (simp add: take_bit_eq_mask mask_eq_exp_minus_1)
  moreover have "ucast (take_bit 32 x) = (ucast x :: u32)" for x :: u64
    by (rule bit_word_eqI) (simp add: bit_simps)
  ultimately have masks: "ucast (x AND 0xFFFFFFFF) = (ucast x :: u32)" "x AND 0xFF = take_bit 8 x" for x :: u64
    by (simp_all add: take_bit_eq_mask mask_eq_exp_minus_1)
  have fm: "push_bit 16 y AND 0x03FF0000 = push_bit 16 (take_bit 10 y)" for y :: u32
  proof -
    have "(0x03FF0000 :: u32) = push_bit 16 (mask 10)" by (simp add: mask_eq_exp_minus_1 push_bit_eq_mult)
    then show ?thesis by (simp only: push_bit_and take_bit_eq_mask)
  qed
  show ?thesis
    unfolding dglnt_dynclk_find_reg_def
    using r assms k64 c d by (simp add: Let_def lookup_lengths masks fm k)
qed

section \<open>The clock operations\<close>

lemma poll_status_ready:
  "status (io_reads io + k) \<noteq> 0 \<Longrightarrow> \<forall>j<k. status (io_reads io + j) = 0 \<Longrightarrow>
   poll_status status io = Some (io\<lparr>io_reads := Suc (io_reads io + k)\<rparr>)"
proof (induction k arbitrary: io)
  case 0
  then show ?case by (subst poll_status.simps) (simp add: Let_def)
next
  case (Suc k)
  have z: "status (io_reads io) = 0" using Suc.prems(2) by fastforce
  have "poll_status status (io\<lparr>io_reads := Suc (io_reads io)\<rparr>)
    = Some (io\<lparr>io_reads := Suc (io_reads io)\<rparr>\<lparr>io_reads := Suc (Suc (io_reads io) + k)\<rparr>)"
    using Suc.IH [of "io\<lparr>io_reads := Suc (io_reads io)\<rparr>"] Suc.prems by (simp add: All_less_Suc2)
  then show ?case by (subst poll_status.simps) (simp add: Let_def z)
qed

lemma poll_status_some:
  assumes "poll_status status io = Some io'"
  shows "\<exists>k. status (io_reads io + k) \<noteq> 0"
proof (rule poll_status.raw_induct [where P = "\<lambda>status io _. \<exists>k. status (io_reads io + k) \<noteq> 0", OF _ assms])
  fix f status io io''
  assume IH: "\<And>st i r. f st i = Some r \<Longrightarrow> \<exists>k. st (io_reads i + k) \<noteq> 0"
    and b: "(let clock_state = status (io_reads io); io = io\<lparr>io_reads := Suc (io_reads io)\<rparr>
      in if clock_state = 0 then f status io else Some io) = Some io''"
  show "\<exists>k. status (io_reads io + k) \<noteq> 0"
  proof (cases "status (io_reads io) = 0")
    case True
    then obtain k where "status (Suc (io_reads io) + k) \<noteq> 0" using b IH by (fastforce simp: Let_def)
    then show ?thesis by (intro exI [of _ "Suc k"]) simp
  qed (auto intro: exI [of _ 0])
qed

lemma pick_ranges:
  assumes "c \<in> set (mm_cands P)"
  shows "unat (fbmult (mm_pick F P c)) = snd c" "unat (clkdiv (mm_pick F P c)) = mm_clkdiv F P c"
    "unat (maindiv (mm_pick F P c)) = fst c" "unat (mode_freq (mm_pick F P c)) = mm_freq F P c"
  using mm_cand_vco [of "fst c" "snd c" P] assms mm_clkdiv_range [of F P c] mm_freq_small [OF assms, of F]
  by (simp_all add: mm_pick_def unat_of_nat)

lemma find_mode_limits_aux:
  assumes "dglnt_dynclk_find_mode freq parentFreq pick = Some (r, m)" "r \<noteq> 0"
  shows "2 \<le> unat (fbmult m) \<and> unat (fbmult m) \<le> 64 \<and> 1 \<le> unat (clkdiv m) \<and> unat (clkdiv m) \<le> 128
    \<and> 1 \<le> unat (maindiv m) \<and> unat (maindiv m) \<le> 106
    \<and> 600000 * unat (maindiv m) \<le> unat parentFreq * unat (fbmult m)
    \<and> unat parentFreq * unat (fbmult m) \<le> 1200000 * unat (maindiv m)
    \<and> 10000 * unat (maindiv m) \<le> unat parentFreq
    \<and> (unat parentFreq \<le> 900000 \<longrightarrow> unat parentFreq \<le> 450000 * unat (maindiv m))
    \<and> unat r = unat parentFreq * unat (fbmult m) div unat (maindiv m) div unat (clkdiv m)"
proof -
  obtain c where c: "c \<in> set (mm_cands (unat parentFreq))" "m = mm_pick (mm_clamp (unat freq)) (unat parentFreq) c"
    and r: "r = mode_freq m"
    using find_mode_outcome(1,2) [OF assms(1)] assms(2) by blast
  obtain d fb where eq: "c = (d, fb)" by fastforce
  have "(if unat parentFreq > 450000 then 2 else 1) \<le> d"
    using c(1) unfolding eq mm_cands_mem mm_divs_mem by simp
  then have "unat parentFreq \<le> 900000 \<longrightarrow> unat parentFreq \<le> 450000 * d" by (auto split: if_splits)
  then show ?thesis
    using mm_cand_vco [of d fb "unat parentFreq"] c(1) mm_clkdiv_range
    unfolding r c(2) pick_ranges [OF c(1)] by (simp add: eq mm_freq_def)
qed

lemma unat_freq200:
  assumes "dglnt_dynclk_find_mode freq parentFreq pick = Some (r, m)"
  shows "unat (r * 200) = 200 * unat r" "(r * 200 + 100) div 200 = r"
proof -
  have "unat r \<le> 1200000"
  proof (cases "r = 0")
    case False
    obtain c where "c \<in> set (mm_cands (unat parentFreq))" "m = mm_pick (mm_clamp (unat freq)) (unat parentFreq) c"
      and "r = mode_freq m"
      using find_mode_outcome(1,2) [OF assms] False by blast
    then show ?thesis using mm_freq_small by (simp add: pick_ranges)
  qed simp
  then show u: "unat (r * 200) = 200 * unat r" by (simp add: unat_mult_small mult.commute)
  then have "unat (r * 200 + 100) = 200 * unat r + 100"
    using \<open>unat r \<le> 1200000\<close> by (simp add: unat_add_small)
  then show "(r * 200 + 100) div 200 = r"
    by (intro word_unat_eq_iff [THEN iffD2]) (simp add: unat_div)
qed

lemma enable_locks:
  assumes "dyn_freq d \<noteq> 0" "status (io_reads io + k) \<noteq> 0" "\<forall>j<k. status (io_reads io + j) = 0"
  shows "dglnt_dynclk_enable status d io
    = Some (0, io\<lparr>io_writes := io_writes io @ [(dyn_base d + OFST_DISPLAY_CTRL, 1)], io_reads := Suc (io_reads io + k)\<rparr>)"
  using assms poll_status_ready [of status "writel 1 (dyn_base d + OFST_DISPLAY_CTRL) io" k]
  by (simp add: dglnt_dynclk_enable_def writel_def Let_def)

lemma enable_returns:
  assumes "dyn_freq d \<noteq> 0"
  shows "(\<exists>x. dglnt_dynclk_enable status d io = Some x) \<longleftrightarrow> (\<exists>k. status (io_reads io + k) \<noteq> 0)"
proof
  assume "\<exists>x. dglnt_dynclk_enable status d io = Some x"
  then obtain io' where "poll_status status (writel 1 (dyn_base d + OFST_DISPLAY_CTRL) io) = Some io'"
    using assms by (auto simp: dglnt_dynclk_enable_def Let_def bind_eq_Some_conv)
  then show "\<exists>k. status (io_reads io + k) \<noteq> 0" using poll_status_some by (fastforce simp: writel_def)
next
  assume "\<exists>k. status (io_reads io + k) \<noteq> 0"
  then have "status (io_reads io + (LEAST k. status (io_reads io + k) \<noteq> 0)) \<noteq> 0" by (rule LeastI_ex)
  then show "\<exists>x. dglnt_dynclk_enable status d io = Some x"
    using enable_locks [OF assms] not_less_Least by blast
qed

definition programmed :: "dglnt_dynclk_reg \<Rightarrow> dglnt_dynclk_mode \<Rightarrow> bool" where
  "programmed rv m \<longleftrightarrow> mmcm_counter (clk0L rv) = unat (clkdiv m) \<and> mmcm_counter (clkFBL rv) = unat (fbmult m)
     \<and> mmcm_divider (divclk rv) = unat (maindiv m) \<and> clkFBH_clk0H rv = 0
     \<and> lockL rv = ucast (lock_lookup ! (unat (fbmult m) - 1))
     \<and> fltr_lockH rv = ucast (take_bit 8 (drop_bit 32 (lock_lookup ! (unat (fbmult m) - 1))))
         OR push_bit 16 (take_bit 10 (filter_lookup_low ! (unat (fbmult m) - 1)))"

definition reg_writes :: "dglnt_dynclk_reg \<Rightarrow> u32 \<Rightarrow> (u32 \<times> u32) list" where
  "reg_writes rv base = [(base + 0x8, clk0L rv), (base + 0x0C, clkFBL rv), (base + 0x10, clkFBH_clk0H rv),
     (base + 0x14, divclk rv), (base + 0x18, lockL rv), (base + 0x1C, fltr_lockH rv)]"

lemma write_reg_trace:
  "dglnt_dynclk_write_reg rv base io = io\<lparr>io_writes := io_writes io @ reg_writes rv base\<rparr>"
  by (simp add: dglnt_dynclk_write_reg_def writel_def Let_def reg_writes_def OFST_DISPLAY_CLK_L_def
      OFST_DISPLAY_FB_L_def OFST_DISPLAY_FB_H_CLK_H_def OFST_DISPLAY_DIV_def OFST_DISPLAY_LOCK_L_def
      OFST_DISPLAY_FLTR_LOCK_H_def)

lemma set_rate_accepts:
  assumes "parent_rate \<noteq> 0" "rate \<noteq> 0" "rate \<noteq> dyn_freq d"
    and m: "dglnt_dynclk_find_mode ((rate + 100) div 200) ((parent_rate + 500) div 1000) clkMode = Some (r, m)" "r \<noteq> 0"
  shows "r * 200 \<noteq> 0 \<and> (\<exists>rv. programmed rv m \<and>
    dglnt_dynclk_set_rate status clkReg clkMode d rate parent_rate io =
      map_option (\<lambda>(_, io). (0, d\<lparr>dyn_freq := r * 200\<rparr>, io))
        (dglnt_dynclk_enable status (d\<lparr>dyn_freq := r * 200\<rparr>)
          (io\<lparr>io_writes := io_writes io @ reg_writes rv (dyn_base d) @ [(dyn_base d + OFST_DISPLAY_CTRL, 0)]\<rparr>)))"
proof -
  have "unat (r * 200) \<noteq> 0" using unat_freq200(1) [OF m(1)] m(2) by (simp add: unat_eq_zero)
  then have nz: "r * 200 \<noteq> 0" by (auto simp del: unat_eq_zero)
  obtain rv where rv: "dglnt_dynclk_find_reg clkReg m = Some (0, rv)" "programmed rv m"
    using find_reg_ok [of m clkReg] find_mode_limits_aux [OF m] by (auto simp: programmed_def)
  have rm: "mode_freq m = r" using find_mode_outcome(1) [OF m(1)] by simp
  show ?thesis
    using nz rv(2) assms(1-3) m
    by (intro conjI exI [of _ rv])
      (simp_all add: dglnt_dynclk_set_rate_def rv(1) rm write_reg_trace dglnt_dynclk_disable_def writel_def Let_def
        map_conv_bind_option case_prod_unfold comp_def)
qed

section \<open>The contract of the clock framework\<close>

locale clk_provider =
  fixes round_rate :: "u32 \<Rightarrow> u32 \<Rightarrow> u32 option"
    and set_rate :: "u32 \<Rightarrow> u32 \<Rightarrow> 's \<Rightarrow> (int \<times> 's) option"
    and recalc_rate :: "'s \<Rightarrow> u32"
    and limit :: u32
  assumes round_fix: "round_rate r p = Some R \<Longrightarrow> R \<noteq> 0 \<Longrightarrow> R \<le> limit \<Longrightarrow> round_rate R p = Some R"
    and set_same: "set_rate r p s = Some (0, s') \<Longrightarrow> r = recalc_rate s \<Longrightarrow> s' = s"
    and set_new: "set_rate r p s = Some (0, s') \<Longrightarrow> r \<noteq> recalc_rate s \<Longrightarrow> round_rate r p = Some (recalc_rate s')"
begin

lemma set_rounded:
  assumes "round_rate r p = Some R" "R \<noteq> 0" "R \<le> limit" "set_rate R p s = Some (0, s')"
  shows "recalc_rate s' = R"
proof (cases "R = recalc_rate s")
  case True
  then show ?thesis using set_same [OF assms(4)] by simp
next
  case False
  then show ?thesis using set_new [OF assms(4)] round_fix [OF assms(1-3)] by simp
qed

lemma set_rounded_twice:
  assumes "round_rate r p = Some R" "R \<noteq> 0" "R \<le> limit" "set_rate R p s = Some (0, s')" "set_rate R p s' = Some (0, s'')"
  shows "s'' = s'"
  using set_same [OF assms(5)] set_rounded [OF assms(1-4)] by simp

end

lemma round_rate_fix:
  assumes "dglnt_dynclk_round_rate clkMode rate parent_rate = Some R" "R \<noteq> 0" "R \<le> 160000000"
  shows "dglnt_dynclk_round_rate clkMode' R parent_rate = Some R"
proof -
  obtain r m where m: "dglnt_dynclk_find_mode ((rate + 100) div 200) ((parent_rate + 500) div 1000) clkMode = Some (r, m)"
    and R: "R = mode_freq m * 200"
    using assms(1) by (auto simp: dglnt_dynclk_round_rate_def bind_eq_Some_conv)
  have Rr: "R = r * 200" using R find_mode_outcome(1) [OF m] by simp
  note u = unat_freq200 [OF m]
  have "r \<le> 800000" using assms(3) u(1) by (simp add: Rr word_le_nat_alt)
  moreover have "r \<noteq> 0" using assms(2) Rr by auto
  ultimately obtain m' where "dglnt_dynclk_find_mode r ((parent_rate + 500) div 1000) clkMode' = Some (r, m')" "mode_freq m' = r"
    using find_mode_fixpoint [OF m] by blast
  then show ?thesis by (simp add: dglnt_dynclk_round_rate_def Rr u(2))
qed


definition dynclk_set ::
    "(nat \<Rightarrow> u32) \<Rightarrow> dglnt_dynclk_reg \<Rightarrow> dglnt_dynclk_mode \<Rightarrow> u32 \<Rightarrow> u32 \<Rightarrow> dglnt_dynclk \<times> dynclk_io \<Rightarrow>
       (int \<times> dglnt_dynclk \<times> dynclk_io) option" where
  "dynclk_set status clkReg clkMode rate parent_rate s =
     dglnt_dynclk_set_rate status clkReg clkMode (fst s) rate parent_rate (snd s)"

lemma set_rate_new:
  assumes "dglnt_dynclk_set_rate status clkReg clkMode d rate parent_rate io = Some (0, d', io')" "rate \<noteq> dyn_freq d"
  shows "dglnt_dynclk_round_rate clkMode rate parent_rate = Some (dyn_freq d')"
proof -
  have nz: "parent_rate \<noteq> 0" "rate \<noteq> 0" using assms(1) by (auto simp: dglnt_dynclk_set_rate_def EINVAL_def split: if_splits)
  obtain r m where m: "dglnt_dynclk_find_mode ((rate + 100) div 200) ((parent_rate + 500) div 1000) clkMode = Some (r, m)"
    using find_mode_total by blast
  have r: "r \<noteq> 0" using assms m nz by (auto simp: dglnt_dynclk_set_rate_def EINVAL_def)
  have rm: "mode_freq m = r" using find_mode_outcome(1) [OF m] by simp
  have "dyn_freq d' = r * 200"
    using set_rate_accepts [OF nz assms(2) m r, of status clkReg io] assms(1)
    by (auto dest: sym [of "Some _"])
  then show ?thesis by (simp add: dglnt_dynclk_round_rate_def m rm)
qed

interpretation dynclk: clk_provider "dglnt_dynclk_round_rate clkMode" "dynclk_set status clkReg clkMode"
    "\<lambda>s. dglnt_dynclk_recalc_rate (fst s) p" 160000000
  for clkMode status clkReg p
proof
  show "s' = s" if "dynclk_set status clkReg clkMode r q s = Some (0, s')" "r = dglnt_dynclk_recalc_rate (fst s) p" for r q s s'
    using that by (cases s) (auto simp: dynclk_set_def dglnt_dynclk_set_rate_def dglnt_dynclk_recalc_rate_def EINVAL_def split: if_splits)
  show "dglnt_dynclk_round_rate clkMode r q = Some (dglnt_dynclk_recalc_rate (fst s') p)"
    if "dynclk_set status clkReg clkMode r q s = Some (0, s')" "r \<noteq> dglnt_dynclk_recalc_rate (fst s) p" for r q s s'
    using that set_rate_new [of status clkReg clkMode "fst s" r q "snd s" "fst s'" "snd s'"]
    by (simp add: dynclk_set_def dglnt_dynclk_recalc_rate_def)
qed (rule round_rate_fix)

section \<open>Properties of the clock driver\<close>

text \<open>
  C12. \<^verbatim>\<open>dglnt_dynclk_find_mode\<close> returns for every request and every parent frequency, divides
  by zero nowhere, and answers the best of the parameters it considers: the candidates are the
  pairs of a main divider and a feedback multiplier within the limits of the MMCM, each with the
  output divider the code rounds to, and the answer is one of them whose output frequency is
  nearest to the requested one (clamped to the output range); it is 0 exactly when there is no
  candidate.
\<close>

theorem find_mode_best:
  "\<exists>m. dglnt_dynclk_find_mode freq parentFreq pick = Some (mode_freq m, m) \<and>
    (if mm_cands (unat parentFreq) = [] then mode_freq m = 0
     else mode_freq m \<noteq> 0 \<and>
      (\<exists>c \<in> set (mm_cands (unat parentFreq)). m = mm_pick (mm_clamp (unat freq)) (unat parentFreq) c \<and>
       (\<forall>c' \<in> set (mm_cands (unat parentFreq)).
          mm_err (mm_clamp (unat freq)) (unat parentFreq) c \<le> mm_err (mm_clamp (unat freq)) (unat parentFreq) c')))"
proof (cases "parentFreq = 0")
  case True
  then show ?thesis by (simp add: dglnt_dynclk_find_mode_def mm_cands_def mm_divs_def)
next
  case False
  obtain m where m: "dglnt_dynclk_find_mode freq parentFreq pick = Some (mode_freq m, m)"
    "if mm_cands (unat parentFreq) = [] then m = pick\<lparr>mode_freq := 0\<rparr>
     else \<exists>c \<in> set (mm_cands (unat parentFreq)). m = mm_pick (mm_clamp (unat freq)) (unat parentFreq) c \<and>
       (\<forall>c' \<in> set (mm_cands (unat parentFreq)).
          mm_err (mm_clamp (unat freq)) (unat parentFreq) c \<le> mm_err (mm_clamp (unat freq)) (unat parentFreq) c')"
    using find_mode_best_aux [OF False] by blast
  then show ?thesis using find_mode_outcome(3) [OF m(1)] by (auto split: if_splits)
qed

theorem find_mode_best_witness:
  "\<exists>m. dglnt_dynclk_find_mode 742500 100000 \<lparr>mode_freq = 7, fbmult = 0, clkdiv = 0, maindiv = 0\<rparr>
      = Some (mode_freq m, m) \<and> mode_freq m \<noteq> 0 \<and>
    (\<forall>c' \<in> set (mm_cands 100000). mm_err 742500 100000 (1, 7) \<le> 50000)"
proof -
  have "(1, 7) \<in> set (mm_cands 100000)" by (simp add: mm_cands_mem mm_divs_mem mm_fbs_mem)
  then have "mm_cands 100000 \<noteq> []" by auto
  moreover have "mm_err 742500 100000 (1, 7) \<le> 50000"
    by (simp add: mm_err_def mm_freq_def mm_clkdiv_def mm_mult_def)
  ultimately show ?thesis
    using find_mode_best [of 742500 100000 "\<lparr>mode_freq = 7, fbmult = 0, clkdiv = 0, maindiv = 0\<rparr>"]
    by (auto split: if_splits)
qed


definition sample_mode :: dglnt_dynclk_mode where
  "sample_mode = \<lparr>mode_freq = 7, fbmult = 0, clkdiv = 0, maindiv = 0\<rparr>"

definition sample_reg :: dglnt_dynclk_reg where
  "sample_reg = \<lparr>clk0L = 1, clkFBL = 2, clkFBH_clk0H = 3, divclk = 4, lockL = 5, fltr_lockH = 6\<rparr>"

lemma find_mode_1GHz:
  "dglnt_dynclk_find_mode 500000 1000000 sample_mode
    = Some (500000, \<lparr>mode_freq = 500000, fbmult = 2, clkdiv = 2, maindiv = 2\<rparr>)"
proof -
  let ?s = "\<lparr>bestError = 800000, bestPick = sample_mode\<lparr>mode_freq := 0\<rparr>, freq_found = False\<rparr>"
  let ?t = "\<lparr>bestError = 0, bestPick = \<lparr>mode_freq = 500000, fbmult = 2, clkdiv = 2, maindiv = 2\<rparr>, freq_found = True\<rparr>"
  have "fb_loop 500000 1000000 2 1000 2 2 ?s = Some ?t"
    by (subst fb_loop.simps, simp add: fb_step_def udiv_def mmcm_defs) (subst fb_loop.simps, simp)
  then have "div_step 500000 1000000 2 ?s = Some ?t"
    by (simp add: div_step_def udiv_def mmcm_defs DIV_ROUND_UP_def)
  then have "div_loop 500000 1000000 100 2 ?s = Some ?t"
    by (subst div_loop.simps, simp) (subst div_loop.simps, simp)
  then show ?thesis by (simp add: dglnt_dynclk_find_mode_def mmcm_defs)
qed


text \<open>
  The bound of 900 MHz is needed: a 1 GHz parent clock is divided by two only, and the phase
  detector runs at 500 MHz, above \<^verbatim>\<open>MMCM_FREQ_PFDMAX\<close>.
\<close>

lemma pfd_exceeded:
  "\<exists>m. dglnt_dynclk_find_mode 500000 1000000 sample_mode = Some (500000, m)
    \<and> unat MMCM_FREQ_PFDMAX * unat (maindiv m) < unat (1000000 :: u32)"
  by (simp add: find_mode_1GHz mmcm_defs)

text \<open>
  C15. The clock framework may ask for a rate \<^verbatim>\<open>dglnt_dynclk_round_rate\<close> has answered: such a
  rate (of at most 160 MHz) is answered unchanged, and setting it makes it the clock's rate
  exactly.
\<close>

theorem round_rate_stable:
  assumes "dglnt_dynclk_round_rate clkMode rate parent_rate = Some R" "R \<noteq> 0" "R \<le> 160000000"
  shows "dglnt_dynclk_round_rate clkMode' R parent_rate = Some R \<and>
    (\<forall>d' io'. dglnt_dynclk_set_rate status clkReg clkMode d R parent_rate io = Some (0, d', io') \<longrightarrow>
      dglnt_dynclk_recalc_rate d' parent_rate = R)"
  using round_rate_fix [OF assms] dynclk.set_rounded [OF assms, of status clkReg "(d, io)"]
  by (fastforce simp: dynclk_set_def)

theorem round_rate_stable_witness:
  "dglnt_dynclk_round_rate sample_mode 100000040 1000000000 = Some 100000000
   \<and> dglnt_dynclk_round_rate sample_mode 100000000 1000000000 = Some 100000000"
proof -
  have r: "dglnt_dynclk_round_rate sample_mode 100000040 1000000000 = Some 100000000"
    by (simp add: dglnt_dynclk_round_rate_def find_mode_1GHz)
  show ?thesis using r round_rate_stable [OF r] by simp
qed

text \<open>
  C14. \<^verbatim>\<open>dglnt_dynclk_set_rate\<close> with parameters found: the registers written decode, as the MMCM
  reads them, to the chosen dividers and multiplier, with the lock and filter words of the
  tables; they are written before the clock is stopped and started again, the status is read
  until the first non-zero value, and the recorded rate is the one the parameters give.
\<close>

theorem set_rate_programs:
  assumes "parent_rate \<noteq> 0" "rate \<noteq> 0" "rate \<noteq> dyn_freq d"
    and "dglnt_dynclk_find_mode ((rate + 100) div 200) ((parent_rate + 500) div 1000) clkMode = Some (r, m)" "r \<noteq> 0"
    and "status (io_reads io + k) \<noteq> 0" "\<forall>j<k. status (io_reads io + j) = 0"
  shows "\<exists>rv. programmed rv m \<and> dglnt_dynclk_set_rate status clkReg clkMode d rate parent_rate io =
    Some (0, d\<lparr>dyn_freq := r * 200\<rparr>,
      io\<lparr>io_writes := io_writes io @ reg_writes rv (dyn_base d) @
          [(dyn_base d + OFST_DISPLAY_CTRL, 0), (dyn_base d + OFST_DISPLAY_CTRL, 1)],
         io_reads := Suc (io_reads io + k)\<rparr>)"
proof -
  obtain rv where rv: "r * 200 \<noteq> 0" "programmed rv m"
    "dglnt_dynclk_set_rate status clkReg clkMode d rate parent_rate io =
      map_option (\<lambda>(_, io). (0, d\<lparr>dyn_freq := r * 200\<rparr>, io))
        (dglnt_dynclk_enable status (d\<lparr>dyn_freq := r * 200\<rparr>)
          (io\<lparr>io_writes := io_writes io @ reg_writes rv (dyn_base d) @ [(dyn_base d + OFST_DISPLAY_CTRL, 0)]\<rparr>))"
    using set_rate_accepts [OF assms(1-5)] by blast
  then show ?thesis using assms(6,7) by (intro exI [of _ rv]) (simp add: enable_locks [where k = k])
qed

theorem set_rate_programs_witness:
  "\<exists>rv. programmed rv \<lparr>mode_freq = 500000, fbmult = 2, clkdiv = 2, maindiv = 2\<rparr> \<and>
    dglnt_dynclk_set_rate (\<lambda>n. if n < 3 then 0 else 1) sample_reg sample_mode
      \<lparr>dyn_base = 0x43C00000, dyn_freq = 0\<rparr> 100000000 1000000000 \<lparr>io_writes = [], io_reads = 0\<rparr> =
    Some (0, \<lparr>dyn_base = 0x43C00000, dyn_freq = 100000000\<rparr>,
      \<lparr>io_writes = reg_writes rv 0x43C00000 @ [(0x43C00000, 0), (0x43C00000, 1)], io_reads = 4\<rparr>)"
  using set_rate_programs [of 1000000000 100000000 "\<lparr>dyn_base = 0x43C00000, dyn_freq = 0\<rparr>" sample_mode
      500000 "\<lparr>mode_freq = 500000, fbmult = 2, clkdiv = 2, maindiv = 2\<rparr>" "\<lambda>n. if n < 3 then 0 else 1"
      "\<lparr>io_writes = [], io_reads = 0\<rparr>" 3]
  by (simp add: find_mode_1GHz OFST_DISPLAY_CTRL_def)

text \<open>
  C16. An accepted \<^verbatim>\<open>dglnt_dynclk_set_rate\<close> returns if and only if the core reports lock
  eventually: the wait for the status register has no timeout.
\<close>

theorem set_rate_returns:
  assumes "parent_rate \<noteq> 0" "rate \<noteq> 0" "rate \<noteq> dyn_freq d"
    and "mm_cands (unat ((parent_rate + 500) div 1000)) \<noteq> []"
  shows "(\<exists>x. dglnt_dynclk_set_rate status clkReg clkMode d rate parent_rate io = Some x)
    \<longleftrightarrow> (\<exists>k. status (io_reads io + k) \<noteq> 0)"
proof -
  obtain m where m: "dglnt_dynclk_find_mode ((rate + 100) div 200) ((parent_rate + 500) div 1000) clkMode
      = Some (mode_freq m, m)" using find_mode_total by blast
  have nz: "mode_freq m \<noteq> 0" using find_mode_outcome(3) [OF m assms(4)] .
  obtain rv where rv: "mode_freq m * 200 \<noteq> 0"
    "dglnt_dynclk_set_rate status clkReg clkMode d rate parent_rate io =
      map_option (\<lambda>(_, io). (0, d\<lparr>dyn_freq := mode_freq m * 200\<rparr>, io))
        (dglnt_dynclk_enable status (d\<lparr>dyn_freq := mode_freq m * 200\<rparr>)
          (io\<lparr>io_writes := io_writes io @ reg_writes rv (dyn_base d) @ [(dyn_base d + OFST_DISPLAY_CTRL, 0)]\<rparr>))"
    using set_rate_accepts [OF assms(1-3) m nz] by blast
  show ?thesis
    unfolding rv(2)
    using enable_returns [of "d\<lparr>dyn_freq := mode_freq m * 200\<rparr>" status
        "io\<lparr>io_writes := io_writes io @ reg_writes rv (dyn_base d) @ [(dyn_base d + OFST_DISPLAY_CTRL, 0)]\<rparr>"] rv(1)
    by auto
qed

theorem set_rate_returns_witness:
  "dglnt_dynclk_set_rate (\<lambda>n. 0) sample_reg sample_mode \<lparr>dyn_base = 0, dyn_freq = 0\<rparr> 148500000 100000000
     \<lparr>io_writes = [], io_reads = 0\<rparr> = None"
proof -
  have "(1, 7) \<in> set (mm_cands 100000)" by (simp add: mm_cands_mem mm_divs_mem mm_fbs_mem)
  then have "mm_cands 100000 \<noteq> []" by auto
  then show ?thesis
    using set_rate_returns [of 100000000 148500000 "\<lparr>dyn_base = 0, dyn_freq = 0\<rparr>" "\<lambda>n. 0" sample_reg sample_mode
        "\<lparr>io_writes = [], io_reads = 0\<rparr>"]
    by (simp add: not_Some_eq [symmetric] del: not_Some_eq)
qed

text \<open>
  A zero rate, a zero parent rate, or a parent rate for which the MMCM has no parameters are
  refused with \<^verbatim>\<open>-EINVAL\<close>, and neither the device nor the recorded rate is touched.
\<close>

theorem set_rate_rejects:
  assumes "parent_rate = 0 \<or> rate = 0 \<or>
    (rate \<noteq> dyn_freq d \<and> mm_cands (unat ((parent_rate + 500) div 1000)) = [])"
  shows "dglnt_dynclk_set_rate status clkReg clkMode d rate parent_rate io = Some (-EINVAL, d, io)"
proof (cases "parent_rate = 0 \<or> rate = 0")
  case False
  obtain m where m: "dglnt_dynclk_find_mode ((rate + 100) div 200) ((parent_rate + 500) div 1000) clkMode
      = Some (mode_freq m, m)" using find_mode_total by blast
  have "mode_freq m = 0"
    using find_mode_outcome(2) [OF m] assms False by auto
  then show ?thesis using m False assms by (simp add: dglnt_dynclk_set_rate_def)
qed (auto simp: dglnt_dynclk_set_rate_def)

theorem set_rate_rejects_witness:
  "dglnt_dynclk_set_rate (\<lambda>n. 1) sample_reg sample_mode \<lparr>dyn_base = 0, dyn_freq = 0\<rparr> 148500000 9000000
     \<lparr>io_writes = [], io_reads = 0\<rparr> = Some (-22, \<lparr>dyn_base = 0, dyn_freq = 0\<rparr>, \<lparr>io_writes = [], io_reads = 0\<rparr>)"
  using set_rate_rejects [of 9000000 148500000 "\<lparr>dyn_base = 0, dyn_freq = 0\<rparr>" "\<lambda>n. 1" sample_reg sample_mode
      "\<lparr>io_writes = [], io_reads = 0\<rparr>"]
  by (simp add: mm_cands_def mm_divs_def EINVAL_def)

text \<open>
  The divider and count registers of every divisor from 1 to 128 decode to that divisor, the
  edge bit is set exactly for the odd divisors above one, no encoding is confused with the error
  values, and every other divisor is refused.
\<close>

theorem divider_roundtrip:
  "(if 1 \<le> unat dv \<and> unat dv \<le> 128 then
      mmcm_divider (dglnt_dynclk_divider dv) = unat dv \<and> dglnt_dynclk_divider dv \<noteq> ERR_CLKDIVIDER
      \<and> mmcm_counter (dglnt_dynclk_count_calc dv) = unat dv \<and> dglnt_dynclk_count_calc dv \<noteq> ERR_CLKCOUNTCALC
      \<and> (bit (dglnt_dynclk_divider dv) CLK_BIT_WEDGE \<longleftrightarrow> dv \<noteq> 1 \<and> odd (unat dv))
    else dglnt_dynclk_divider dv = ERR_CLKDIVIDER \<and> dglnt_dynclk_count_calc dv = ERR_CLKCOUNTCALC)"
proof (cases "1 \<le> unat dv \<and> unat dv \<le> 128")
  case True
  have "unat dv = 1 \<longleftrightarrow> dv = 1" using word_unat_eq_iff [of dv 1] by simp
  then show ?thesis
    using True divider_decode [of "unat dv"] counter_decode [of "unat dv"] by (simp add: CLK_BIT_WEDGE_def)
next
  case False
  then have "dv < 1 \<or> 128 < dv" by (simp add: word_less_nat_alt not_le)
  then have "dglnt_dynclk_divider dv = ERR_CLKDIVIDER" by (auto simp: dglnt_dynclk_divider_def)
  then show ?thesis using False by (simp add: dglnt_dynclk_count_calc_def)
qed

end
