(* ===== verification/Spec2Isabelle.thy ===== *)
theory Spec2Isabelle
  imports Rtw_Arc4 Rtw_Michael Rtw_Tkip Rtw_Omac Rtw_Sha256 Rtw_Sec_Frames Rtw_Tdls Rtw_Bip Rtw_Elems Rtw_Wpa Rtw_Sta_Props Rtw_Tx_Attrib Dynclk_Props
begin

text \<open>
  A verification development for the kernel drivers of a Linux for the Zynq boards. The repository
  holds the driver of the Realtek RTL8192CU wireless adapter (\<^verbatim>\<open>src/kernel/drivers/rtl8192cu\<close>), the driver of
  the pixel clock of the HDMI output (\<^verbatim>\<open>src/kernel/drivers/clk-dglnt-dynclk.c\<close>), some small drivers, and board
  projects around them. Modelled are the parts of the two drivers that compute: the protection of
  frames, the information elements, the receive path from the air to the network stack, the
  stations, the transmit queues and the way of a packet into the transmit buffer, and the whole clock driver.

  \<^bold>\<open>Conventions.\<close> Machine integers are words of their width (\<open>u8\<close>, \<open>u16\<close>, \<open>u32\<close>, with \<open>int\<close> for C's signed
  integers where no overflow is possible); \<open>unsigned long\<close> has 32 bits on the target. A buffer is a
  list of bytes, and a load or store outside it is \<open>None\<close>, so that a result \<open>Some\<close> is also a proof that
  memory was respected. Operations take the state and return it changed. Loops are structural
  recursion, a fold over an index range, a \<open>function\<close> with a termination proof, or, where the C loop need
  not end, a \<open>partial_function (option)\<close>, in which not returning is \<open>None\<close>; no definition takes fuel.
  Locks are left out, each operation runs as one step, except in \<^verbatim>\<open>Rtw_Sta\<close>, which counts one lock. Code
  outside the repository and configuration switches are arguments of the definitions.

  \<^bold>\<open>Prelude.\<close> \<^verbatim>\<open>Rtw_Prelude\<close>: the types, the checked accesses to byte buffers, and the lemmas on words, lists and
  folds that the components share. \<^verbatim>\<open>Rtw_Blocks\<close>: two locales for code that collects bytes into blocks
  (\<open>block_hash\<close>, \<open>byte_absorber\<close>), interpreted on Michael and on SHA-256. \<^verbatim>\<open>Rtw_Scan\<close>: the locale \<open>tlv_search\<close> for the
  searches through encoded elements.

  \<^bold>\<open>Frame protection\<close>, \<^verbatim>\<open>core/rtw_security.c\<close>.
  \<^item> \<^verbatim>\<open>Rtw_Arc4\<close>: RC4 and the table-driven CRC-32. The state is a permutation, the cipher an involution (the
    locale \<open>keystream\<close>), and the checksum the reflected bitwise one.
  \<^item> \<^verbatim>\<open>Rtw_Michael\<close>: Michael and the MIC of an MSDU. Appending in any portions equals hashing at once.
  \<^item> \<^verbatim>\<open>Rtw_Tkip\<close>: the two phases of the TKIP key mixing. No RC4 key is used twice under one temporal key.
  \<^item> \<^verbatim>\<open>Rtw_Aes\<close>, \<^verbatim>\<open>Rtw_Rijndael\<close>: the byte-oriented AES of CCMP and the table-driven one of OMAC1, and that they
    are the same function.
  \<^item> \<^verbatim>\<open>Rtw_Sha256\<close>: SHA-256 with its vector interface, HMAC and the key derivation, against FIPS 180.
  \<^item> \<^verbatim>\<open>Rtw_Omac\<close>: AES-CMAC over scattered memory.
  \<^item> \<^verbatim>\<open>Rtw_Ccmp\<close>: the nonce and header blocks, CBC-MAC and counter mode, \<^verbatim>\<open>aes_cipher\<close> and \<^verbatim>\<open>aes_decipher\<close>: the frame
    is protected as CCM prescribes, deciphering inverts it and accepts exactly matching MICs.
  \<^item> \<^verbatim>\<open>Rtw_Sec_Frames\<close>: the six entry points for WEP, TKIP and CCMP with key selection, fragment loop and every
    early return; the locales \<open>fragment_cipher\<close> and \<open>protected_path\<close> give the round trips of all three.
  \<^item> \<^verbatim>\<open>Rtw_Tdls\<close>: the peer key of a TDLS link, on which both ends agree, and the MIC of its handshake messages.
  \<^item> \<^verbatim>\<open>Rtw_Bip\<close>: the integrity protection of group addressed management frames in both directions, and that no
    packet number is accepted twice.

  \<^bold>\<open>Information elements\<close>, \<^verbatim>\<open>core/rtw_ieee80211.c\<close>.
  \<^item> \<^verbatim>\<open>Rtw_Ie\<close>: rates, writing, finding and removing elements, the elements of the own network.
  \<^item> \<^verbatim>\<open>Rtw_Elems\<close>: the element parser refines a parse into (identifier, value) pairs, accepts exactly the
    well-formed inputs, and neither reads nor points outside its input.
  \<^item> \<^verbatim>\<open>Rtw_Attr\<close>: the WPS, P2P and WFD elements and the attributes inside them: searching (three more
    interpretations of \<open>tlv_search\<close>), appending, merging and removing.
  \<^item> \<^verbatim>\<open>Rtw_Wpa\<close>: the WPA and RSN elements, found, copied and parsed into ciphers, and the small helpers of the file
    (MAC address strings, hidden SSIDs, header lengths, rates of MCS sets, action frames).

  \<^bold>\<open>Reception\<close>, \<^verbatim>\<open>core/rtw_recv.c\<close>.
  \<^item> \<^verbatim>\<open>Rtw_Rx\<close>: the frame buffer and its pointer moves, duplicate detection, reassembly of fragments, the
    conversion to an Ethernet frame, the split of an A-MSDU.
  \<^item> \<^verbatim>\<open>Rtw_Reorder\<close>: the reorder buffer of a block-ack agreement with its timer. The 12-bit code refines a
    buffer over unbounded frame numbers; frames are delivered once and in order whatever the order of
    arrivals and expiries (an inductive run relation).

  \<^bold>\<open>Stations and transmission\<close>, \<^verbatim>\<open>core/rtw_sta_mgt.c\<close> and \<^verbatim>\<open>core/rtw_xmit.c\<close>.
  \<^item> \<^verbatim>\<open>Rtw_Sta\<close>: the station table, the pools of transmit frames and the queues per station and access category.
  \<^item> \<^verbatim>\<open>Rtw_Sta_Props\<close>: the invariant of all of them, preserved by every operation and hence true in every reachable
    state (the step relation \<open>sta_step\<close>); the table implements a bounded set of addresses (the locale
    \<open>keyed_table\<close>, interpreted on the driver's operations); the scheduler serves every waiting frame.
  \<^item> \<^verbatim>\<open>Rtw_Tx\<close>: a packet becomes a frame in the transmit buffer: the attributes of the packet (addresses, priority, cipher), the
    802.11 header, initialisation vector, LLC header, payload in fragments, Michael MIC, software encryption, choice of
    RTS/CTS protection.
  \<^item> \<^verbatim>\<open>Rtw_Tx_Props\<close>: the exact bytes of an unfragmented frame, and where later fragments are misplaced.
  \<^item> \<^verbatim>\<open>Rtw_Tx_Attrib\<close>: which packets are let through under which cipher, and the composition of the whole way: a packet goes
    through \<^verbatim>\<open>Rtw_Tx\<close> at the sender, \<^verbatim>\<open>Rtw_Sec_Frames\<close> and \<^verbatim>\<open>Rtw_Rx\<close> at the receiver, and is the same.

  \<^bold>\<open>Pixel clock\<close>, \<^verbatim>\<open>clk-dglnt-dynclk.c\<close>.
  \<^item> \<^verbatim>\<open>Dynclk\<close>: the search for the clock parameters, the register encoding, the clock operations and \<^verbatim>\<open>probe\<close>.
  \<^item> \<^verbatim>\<open>Dynclk_Props\<close>: the search returns for every input and finds a best parameter set inside the limits of the
    MMCM, the registers decode to it, and the operations keep the contract of the clock framework (the
    locale \<open>clk_provider\<close>).

  \<^bold>\<open>Not modelled.\<close> Of the wireless driver: the management state machine (\<^verbatim>\<open>rtw_mlme.c\<close>, \<^verbatim>\<open>rtw_mlme_ext.c\<close>, \<^verbatim>\<open>rtw_ap.c\<close>,
  \<^verbatim>\<open>rtw_p2p.c\<close>, \<^verbatim>\<open>rtw_tdls.c\<close>), the command thread (\<^verbatim>\<open>rtw_cmd.c\<close>) and power saving (\<^verbatim>\<open>rtw_pwrctrl.c\<close>), whose behaviour
  is spread over timers, events and calls into the hardware layer; what is left of the
  transmit and receive paths (the transmit buffers, the queues for sleeping stations, the validation of
  received frames), which reads most of its state from that machine. The hardware layer (\<^verbatim>\<open>hal\<close>) is register sequences and tables generated by the vendor, and
  \<^verbatim>\<open>os_dep\<close> is the interface to the kernel and to user space: neither has a specification in the
  repository to compare with. The small drivers and the board projects are glue around kernel and
  vendor libraries. The findings of the modelling are in the manifest of the development.
\<close>

end
